(* ===== verification/Prelude.thy ===== *)
theory Prelude
  imports Main "HOL-Library.Word"
begin

text \<open>
  Shared vocabulary of the development: machine integers at the widths the C++ code uses,
  the ways a call can go wrong (an \<open>assert\<close>, an out-of-range array access, an exception),
  the sequencing of fallible calls, and the lemmas on words that the address arithmetic of
  the bus needs. \<open>C++\<close> operators translate as: \<open>a & b\<close> to \<open>a AND b\<close>, \<open>a << n\<close> to
  \<open>push_bit n a\<close>, \<open>a >> n\<close> (unsigned) to \<open>drop_bit n a\<close>, \<open>~a\<close> to \<open>NOT a\<close>, a \<open>bool\<close> used as
  a number to \<open>of_bool b\<close>.
\<close>

unbundle bit_operations_syntax

type_synonym u8 = "8 word"
type_synonym u16 = "16 word"
type_synonym u32 = "32 word"
type_synonym u64 = "64 word"

section \<open>Failures and their propagation\<close>

text \<open>
  \<open>Assert_Failure\<close>: an \<open>assert\<close> of the source fails and the process aborts.
  \<open>Out_Of_Bounds\<close>: an array is indexed outside its allocation.
  \<open>Null_Deref\<close>: a null pointer is passed where the library dereferences it.
  \<open>Overflow\<close>: a signed result does not fit its type, in the firmware's decimal parser.
  \<open>Undefined\<close>: any other undefined behaviour of the language.
  \<open>Spins\<close>: a busy-waiting loop of the firmware whose condition never becomes true.
  \<open>Memory_Hole\<close> and \<open>Unaligned\<close>: the two throws of \<open>avl_bus_error\<close>, with the address.
\<close>

datatype fault =
    Assert_Failure
  | Out_Of_Bounds
  | Null_Deref
  | Undefined
  | Overflow
  | Aborted
  | Spins
  | Memory_Hole u32
  | Unaligned u32

type_synonym 'a res = "fault + 'a"

definition bind_res :: "'a res \<Rightarrow> ('a \<Rightarrow> 'b res) \<Rightarrow> 'b res" where
  "bind_res m f = (case m of Inl e \<Rightarrow> Inl e | Inr x \<Rightarrow> f x)"

lemma bind_res_simps [simp]:
  "bind_res (Inl e) f = Inl e"
  "bind_res (Inr x) f = f x"
  by (simp_all add: bind_res_def)

lemma bind_res_Inr_iff: "bind_res m f = Inr y \<longleftrightarrow> (\<exists>x. m = Inr x \<and> f x = Inr y)"
  by (cases m) auto

lemma bind_res_Inl_iff:
  "bind_res m f = Inl e \<longleftrightarrow> m = Inl e \<or> (\<exists>x. m = Inr x \<and> f x = Inl e)"
  by (cases m) auto

lemma bind_res_assoc: "bind_res (bind_res m f) g = bind_res m (\<lambda>x. bind_res (f x) g)"
  by (cases m) simp_all

lemma bind_res_cong [fundef_cong]:
  "m = m' \<Longrightarrow> (\<And>x. m' = Inr x \<Longrightarrow> f x = g x) \<Longrightarrow> bind_res m f = bind_res m' g"
  by (cases m') auto

section \<open>Words\<close>

named_theorems word_arith \<open>facts that move word expressions to natural numbers\<close>

lemma unat_and_mask [word_arith]: "unat (w AND mask k) = unat w mod 2 ^ k"
  for w :: "'a::len word"
  by (metis take_bit_eq_mask unsigned_take_bit_eq take_bit_eq_mod)

lemma and_not_mask_eq: "w AND NOT (mask k) = push_bit k (drop_bit k w)"
  for w :: "'a::len word"
  by (auto simp: bit_eq_iff bit_simps)

lemma and_mask_plus: "unat (w AND NOT (mask k)) + unat (w AND mask k) = unat w"
  for w :: "'a::len word"
proof -
  have "w AND NOT (mask k) OR w AND mask k = w"
    by (auto simp: bit_eq_iff bit_simps)
  moreover have "unat (w AND NOT (mask k)) AND unat (w AND mask k) = 0"
    by (auto simp: bit_eq_iff bit_simps)
  ultimately show ?thesis
    by (metis disjunctive_add_eq_or unsigned_or_eq)
qed

lemma unat_and_not_mask [word_arith]: "unat (w AND NOT (mask k)) = unat w div 2 ^ k * 2 ^ k"
  for w :: "'a::len word"
proof -
  have "unat (w AND NOT (mask k)) = unat w - unat w mod 2 ^ k"
    using and_mask_plus [of w k] unfolding unat_and_mask by arith
  then show ?thesis by (simp add: minus_mod_eq_div_mult)
qed

lemma div_eq_block:
  "d div m * m = (d::nat) \<Longrightarrow> 0 < m \<Longrightarrow> c div m = d div m \<longleftrightarrow> d \<le> c \<and> c < d + m"
proof
  assume "c div m = d div m" "d div m * m = d" "0 < m"
  then show "d \<le> c \<and> c < d + m"
    by (metis add.commute div_mult_mod_eq le_add2 mod_less_divisor nat_add_left_cancel_less)
next
  assume d: "d div m * m = d" and m: "0 < m" and c: "d \<le> c \<and> c < d + m"
  then obtain r where r: "c = d + r" "r < m" by (auto simp: le_iff_add)
  have "(d div m * m + r) div m = d div m" using m r(2) by simp
  then show "c div m = d div m" using d r(1) by simp
qed

text \<open>
  The address decoder of the bus compares \<open>addr & mask\<close> with the base: with a mask
  that clears the low \<open>k\<close> bits and an aligned base this is membership in a block of
  \<open>2 ^ k\<close> bytes.
\<close>

lemma in_block_iff:
  fixes a b :: "'a::len word"
  assumes "b AND NOT (mask k) = b"
  shows "a AND NOT (mask k) = b \<longleftrightarrow> unat b \<le> unat a \<and> unat a < unat b + 2 ^ k"
proof -
  have b: "unat b div 2 ^ k * 2 ^ k = unat b"
    using assms unat_and_not_mask [of b k] by simp
  have "a AND NOT (mask k) = b \<longleftrightarrow> unat a div 2 ^ k * 2 ^ k = unat b"
    by (metis unat_and_not_mask unsigned_word_eqI)
  also have "\<dots> \<longleftrightarrow> unat a div 2 ^ k = unat b div 2 ^ k"
    using b by (metis nonzero_mult_div_cancel_right power_not_zero zero_neq_numeral)
  also have "\<dots> \<longleftrightarrow> unat b \<le> unat a \<and> unat a < unat b + 2 ^ k"
    using div_eq_block [of "unat b" "2 ^ k" "unat a"] b by simp
  finally show ?thesis .
qed

lemma double_and_pred: "0 < m \<Longrightarrow> (2 * m) AND (2 * m - 1) = 2 * (m AND (m - 1))" for m :: nat
proof (rule bit_eqI)
  fix n assume "0 < m"
  then obtain j where j: "m = Suc j" by (cases m) auto
  have *: "2 * m - 1 = 2 * j + 1" using j by simp
  show "bit (2 * m AND (2 * m - 1)) n = bit (2 * (m AND (m - 1))) n"
    unfolding * bit_and_iff by (cases n) (simp_all add: j bit_simps bit_Suc bit_0)
qed

lemma and_pred_eq_0_pow2_nat: "n AND (n - 1) = 0 \<Longrightarrow> 0 < n \<Longrightarrow> \<exists>k. n = 2 ^ k" for n :: nat
proof (induction n rule: less_induct)
  case (less n)
  show ?case
  proof (cases "even n")
    case True
    then obtain m where m: "n = 2 * m" by blast
    with less.prems have "0 < m" by simp
    with less m double_and_pred [of m] have "m AND (m - 1) = 0" by simp
    with less.IH [of m] m \<open>0 < m\<close> obtain k where "m = 2 ^ k" by auto
    with m have "n = 2 ^ Suc k" by simp
    then show ?thesis by blast
  next
    case False
    then obtain m where m: "n = 2 * m + 1" by (auto elim: oddE)
    have "(2 * m + 1) AND (2 * m) = 2 * m"
    proof (rule bit_eqI)
      fix i show "bit ((2 * m + 1) AND (2 * m)) i = bit (2 * m) i"
        unfolding bit_and_iff by (cases i) (simp_all add: bit_Suc bit_0)
    qed
    with less.prems m have "m = 0" by simp
    with m show ?thesis by (intro exI [of _ 0]) simp
  qed
qed

lemma and_pred_eq_0_pow2:
  fixes n :: "'a::len word"
  assumes "(n - 1) AND n = 0"
  shows "\<exists>k \<le> LENGTH('a). n = 2 ^ k"
proof (cases "n = 0")
  case True
  then show ?thesis by (intro exI [of _ "LENGTH('a)"]) simp
next
  case False
  then have "unat n AND (unat n - 1) = 0"
    using assms by (metis and.commute unat_minus_one unsigned_0 unsigned_and_eq)
  with False obtain k where k: "unat n = 2 ^ k"
    using and_pred_eq_0_pow2_nat [of "unat n"] by (auto simp: unat_gt_0)
  then have "2 ^ k < (2 :: nat) ^ LENGTH('a)" by (metis unsigned_less)
  then have "k < LENGTH('a)" by simp
  moreover have "n = 2 ^ k"
    using k by (metis of_nat_numeral of_nat_power of_nat_unat ucast_id)
  ultimately show ?thesis using less_imp_le by blast
qed

lemma not_pow2_minus_1: "NOT (2 ^ k - 1 :: 'a::len word) = NOT (mask k)"
  by (simp add: mask_eq_exp_minus_1)

lemma unat_drop_bit [word_arith]: "unat (drop_bit n x) = unat x div 2 ^ n"
  for x :: "'a::len word"
  by (metis drop_bit_eq_div unat_drop_bit_eq)

lemma unat_pow2 [word_arith]: "k < LENGTH('a) \<Longrightarrow> unat (2 ^ k :: 'a::len word) = 2 ^ k"
  by (simp add: of_nat_inverse)

lemma unat_ucast_32_64 [simp]: "unat (ucast x :: u64) = unat x" for x :: u32
proof -
  have "unat x < 2 ^ LENGTH(32)" by (rule unsigned_less)
  then have "unat x < 2 ^ 64" by simp
  then show ?thesis by (simp add: unsigned_ucast_eq take_bit_nat_eq_self)
qed

lemma and_bit_neq_0: "w AND 2 ^ n \<noteq> 0 \<longleftrightarrow> bit w n" for w :: "'a::len word"
  by (metis and_exp_eq_0_iff_not_bit)

text \<open>\<open>!!(data & (1 << n))\<close>\<close>

definition flag :: "'a::len word \<Rightarrow> nat \<Rightarrow> bool" where
  "flag data n \<longleftrightarrow> data AND push_bit n 1 \<noteq> 0"

lemma flag_bit: "flag w n \<longleftrightarrow> bit w n"
  using and_bit_neq_0 [of w n] by (simp add: flag_def push_bit_eq_mult)

lemma unat_minus_1: "0 < w \<Longrightarrow> unat (w - 1) = unat w - 1" for w :: "'a::len word"
  by (simp add: unat_minus_one word_gt_0)

lemma bit_below: "unat w < 2 ^ k \<Longrightarrow> bit w i \<Longrightarrow> i < k" for w :: "'a::len word"
proof -
  assume h: "unat w < 2 ^ k" "bit w i"
  have "w AND mask k = w"
    using h(1) by (intro word_unat_eq_iff [THEN iffD2]) (simp add: unat_and_mask)
  then have "bit (w AND mask k) i" using h(2) by simp
  then show "i < k" by (simp add: bit_and_iff bit_mask_iff)
qed

section \<open>Bytes of words\<close>

text \<open>Byte \<open>j\<close> of a word, lowest first.\<close>

definition byte_of :: "u32 \<Rightarrow> nat \<Rightarrow> u8" where
  "byte_of w j = ucast (drop_bit (8 * j) w)"

text \<open>
  The specification: a flat byte memory in which a write of \<open>len\<close> bytes at \<open>start\<close> stores
  exactly the enabled ones.
\<close>

definition flat_store ::
  "nat \<Rightarrow> nat \<Rightarrow> (nat \<Rightarrow> bool) \<Rightarrow> (nat \<Rightarrow> u8) \<Rightarrow> (nat \<Rightarrow> u8) \<Rightarrow> (nat \<Rightarrow> u8)" where
  "flat_store start len en d f =
     (\<lambda>n. if start \<le> n \<and> n < start + len \<and> en (n - start) then d (n - start) else f n)"

lemma word_bytes_eqI: "(\<And>j. j < 4 \<Longrightarrow> byte_of v j = byte_of w j) \<Longrightarrow> v = w"
proof (rule bit_word_eqI)
  fix n assume h: "\<And>j. j < 4 \<Longrightarrow> byte_of v j = byte_of w j" and "n < LENGTH(32)"
  then have "n div 8 < 4" by auto
  have b: "bit x n = bit (byte_of x (n div 8)) (n mod 8)" for x
    using \<open>n < LENGTH(32)\<close> by (simp add: byte_of_def bit_simps)
  show "bit v n = bit w n"
    using h [OF \<open>n div 8 < 4\<close>] by (simp add: b)
qed

lemma bit_nibble: "unat be < 16 \<Longrightarrow> bit be i \<Longrightarrow> i < 4" for be :: u32
  using bit_below [of be 4 i] by simp

end
