(* ===== verification/Avalon_Line.thy ===== *)
theory Avalon_Line
  imports Prelude
begin

text \<open>
  The 128-bit bus line (\<open>union line\<close> of \<open>tb/top/conspiracion/avalon.hpp\<close>): four 32-bit
  words, read as two 64-bit halves by the comparison operators. On the little-endian host
  \<open>lo\<close> overlays \<open>words[0..1]\<close> and \<open>hi\<close> overlays \<open>words[2..3]\<close>. Indices into \<open>words\<close> are
  always below 4 in the code (masked with \<open>0b11\<close> or chosen by a four-way test); the last
  branch of \<open>words\<close> and \<open>set_word\<close> is index 3.
\<close>

datatype line = Line (word0: u32) (word1: u32) (word2: u32) (word3: u32)

definition line_zero :: line where
  "line_zero = Line 0 0 0 0"

definition words :: "line \<Rightarrow> nat \<Rightarrow> u32" where
  "words l i =
     (if i = 0 then word0 l else if i = 1 then word1 l else if i = 2 then word2 l else word3 l)"

definition set_word :: "nat \<Rightarrow> u32 \<Rightarrow> line \<Rightarrow> line" where
  "set_word i v l =
     (if i = 0 then Line v (word1 l) (word2 l) (word3 l)
      else if i = 1 then Line (word0 l) v (word2 l) (word3 l)
      else if i = 2 then Line (word0 l) (word1 l) v (word3 l)
      else Line (word0 l) (word1 l) (word2 l) v)"

definition line_lo :: "line \<Rightarrow> u64" where
  "line_lo l = word_cat (word1 l) (word0 l)"

definition line_hi :: "line \<Rightarrow> u64" where
  "line_hi l = word_cat (word3 l) (word2 l)"

definition line_eq :: "line \<Rightarrow> line \<Rightarrow> bool" where
  "line_eq l v \<longleftrightarrow> line_hi l = line_hi v \<and> line_lo l = line_lo v"

definition line_neq :: "line \<Rightarrow> line \<Rightarrow> bool" where
  "line_neq l v \<longleftrightarrow> \<not> line_eq l v"

lemma words_line_zero [simp]: "words line_zero i = 0"
  by (simp add: words_def line_zero_def)

lemma words_set_word: "i < 4 \<Longrightarrow> j < 4 \<Longrightarrow> words (set_word i v l) j = (if i = j then v else words l j)"
  by (auto simp: words_def set_word_def)

lemma words_set_word_same [simp]: "words (set_word i v l) i = v"
  by (simp add: words_def set_word_def)

lemma line_eqI: "(\<And>i. i < 4 \<Longrightarrow> words l i = words v i) \<Longrightarrow> l = v"
proof -
  assume h: "\<And>i. i < 4 \<Longrightarrow> words l i = words v i"
  from h [of 0] h [of 1] h [of 2] h [of 3] show ?thesis
    by (cases l; cases v) (simp add: words_def)
qed

lemma set_word_words [simp]: "i < 4 \<Longrightarrow> set_word i (words l i) l = l"
  by (rule line_eqI) (auto simp: words_set_word)

lemma set_word_set_word [simp]: "set_word i v (set_word i w l) = set_word i v l"
  by (simp add: set_word_def)

text \<open>Concatenating two 32-bit words loses nothing, so the 64-bit comparison is equality.\<close>

lemma word_cat_inj:
  "(word_cat a b :: u64) = word_cat c d \<longleftrightarrow> a = c \<and> b = d" for a b c d :: u32
proof
  assume eq: "(word_cat a b :: u64) = word_cat c d"
  have bits: "bit (word_cat x y :: u64) n =
      (n < 64 \<and> (if n < 32 then bit y n else bit x (n - 32)))" for x y :: u32 and n
    by (auto simp: bit_word_cat_iff)
  have "bit b n = bit d n" if "n < 32" for n
    using bits [of a b n] bits [of c d n] eq that by simp
  moreover have "bit a n = bit c n" if "n < 32" for n
    using bits [of a b "n + 32"] bits [of c d "n + 32"] eq that by simp
  ultimately show "a = c \<and> b = d"
    by (auto intro!: bit_word_eqI)
qed simp

lemma line_eq_iff: "line_eq l v \<longleftrightarrow> l = v"
  by (cases l; cases v) (auto simp: line_eq_def line_hi_def line_lo_def word_cat_inj)

end
