(* ===== verification/Avalon_Slave.thy ===== *)
theory Avalon_Slave
  imports Avalon_Line
begin

text \<open>
  The base class \<open>slave\<close> of \<open>tb/top/conspiracion/avalon.hpp\<close>: the geometry of a bus device
  (base, mask, log2 of the word size) with its constructor's assertions, and the four default
  data operations. The defaults are virtual and call each other: a device overrides either the
  word operations (\<open>read\<close>, \<open>write\<close>) or the line operations (\<open>read_line\<close>, \<open>write_line\<close>)
  and inherits the other pair, so each default takes the overriding operation as an argument.
  An operation takes the value its reference parameter holds on entry, since a device may
  leave it unchanged, and returns the device, the value on exit and the \<open>bool\<close> result
  (\<open>False\<close>: wait, ask again in the next cycle).
\<close>

section \<open>Geometry\<close>

record slave =
  sl_base :: u32
  sl_mask :: u32
  sl_word :: nat

text \<open>\<open>__builtin_clz\<close>: zeros above the highest set bit; undefined for 0.\<close>

fun clz_from :: "nat \<Rightarrow> u32 \<Rightarrow> nat" where
  "clz_from 0 i = 0"
| "clz_from (Suc n) i = (if bit i n then 0 else Suc (clz_from n i))"

definition log2i :: "u32 \<Rightarrow> nat" where
  "log2i i = 32 - clz_from 32 i - 1"

lemma log2i_4 [simp]: "log2i 4 = 2"
  by code_simp

definition base_address :: "slave \<Rightarrow> u32" where
  "base_address s = sl_base s"

definition address_mask :: "slave \<Rightarrow> u32" where
  "address_mask s = sl_mask s"

definition word_mask :: "slave \<Rightarrow> u32" where
  "word_mask s = push_bit (sl_word s) 1 - 1"

definition word_size :: "slave \<Rightarrow> u64" where
  "word_size s = push_bit (sl_word s) 1"

definition word_bits :: "slave \<Rightarrow> nat" where
  "word_bits s = sl_word s"

definition address_span :: "slave \<Rightarrow> u32" where
  "address_span s = NOT (sl_mask s) + 1"

definition slave_init :: "u32 \<Rightarrow> u32 \<Rightarrow> u64 \<Rightarrow> slave res" where
  "slave_init bas siz wsize =
     (if (ucast wsize :: u32) = 0 then Inl Undefined
      else let s = \<lparr>sl_base = bas, sl_mask = NOT (siz - 1), sl_word = log2i (ucast wsize)\<rparr> in
        if (wsize - 1) AND wsize \<noteq> 0 then Inl Assert_Failure
        else if bas AND word_mask s \<noteq> 0 \<or> siz AND word_mask s \<noteq> 0 \<or> (siz - 1) AND siz \<noteq> 0
        then Inl Assert_Failure
        else Inr s)"

text \<open>
  The decoder's test in \<open>interconnect\<close>, and the assertion of \<open>interconnect::attach\<close> that
  the base is a multiple of the span.
\<close>

definition decodes :: "slave \<Rightarrow> u32 \<Rightarrow> bool" where
  "decodes s addr \<longleftrightarrow> addr AND sl_mask s = sl_base s"

definition base_aligned :: "slave \<Rightarrow> bool" where
  "base_aligned s \<longleftrightarrow> sl_base s AND sl_mask s = sl_base s"

text \<open>A span of \<open>2 ^ k\<close> bytes; \<open>k = 32\<close> is the whole address space (\<open>size\<close> 0 in the code).\<close>

definition spans :: "slave \<Rightarrow> nat \<Rightarrow> bool" where
  "spans s k \<longleftrightarrow> k \<le> 32 \<and> sl_mask s = NOT (mask k)"

lemma slave_init_spans:
  assumes "slave_init b sz ws = Inr s"
  shows "\<exists>k. spans s k \<and> sz = 2 ^ k \<and> address_span s = sz \<and> sl_base s = b"
proof -
  from assms have s: "sl_mask s = NOT (sz - 1)" "sl_base s = b" and p: "(sz - 1) AND sz = 0"
    by (auto simp: slave_init_def Let_def split: if_splits)
  from and_pred_eq_0_pow2 [OF p] obtain k where k: "k \<le> 32" "sz = 2 ^ k" by auto
  then have "spans s k" using s by (simp add: spans_def not_pow2_minus_1)
  moreover have "address_span s = sz" using s by (simp add: address_span_def)
  ultimately show ?thesis using s k by auto
qed

lemma slave_init_Inr:
  "slave_init b sz ws = Inr s \<Longrightarrow>
     s = \<lparr>sl_base = b, sl_mask = NOT (sz - 1), sl_word = log2i (ucast ws)\<rparr>"
  by (auto simp: slave_init_def Let_def split: if_splits)

lemma decodes_iff:
  assumes "spans s k" "base_aligned s"
  shows "decodes s a \<longleftrightarrow> unat (sl_base s) \<le> unat a \<and> unat a < unat (sl_base s) + 2 ^ k"
  using assms in_block_iff [of "sl_base s" k a]
  by (simp add: spans_def base_aligned_def decodes_def)

text \<open>The offset of an address inside the device, as the interconnect computes it.\<close>

lemma offset_in_span:
  assumes "spans s k" "base_aligned s" "decodes s a"
  shows "unat (a AND NOT (sl_mask s)) = unat a - unat (sl_base s)"
    and "unat (a AND NOT (sl_mask s)) < 2 ^ k"
proof -
  have a: "a AND NOT (sl_mask s) = a AND mask k" and b: "a AND NOT (mask k) = sl_base s"
    using assms by (simp_all add: spans_def decodes_def)
  show "unat (a AND NOT (sl_mask s)) = unat a - unat (sl_base s)"
    using and_mask_plus [of a k] by (simp add: a b)
  show "unat (a AND NOT (sl_mask s)) < 2 ^ k"
    by (simp add: a unat_and_mask)
qed

section \<open>The default data operations\<close>

type_synonym 's reader = "u32 \<Rightarrow> u32 \<Rightarrow> 's \<Rightarrow> ('s \<times> u32 \<times> bool) res"
type_synonym 's writer = "u32 \<Rightarrow> u32 \<Rightarrow> u32 \<Rightarrow> 's \<Rightarrow> ('s \<times> bool) res"
type_synonym 's line_reader = "u32 \<Rightarrow> line \<Rightarrow> u32 \<Rightarrow> 's \<Rightarrow> ('s \<times> line \<times> bool) res"
type_synonym 's line_writer = "u32 \<Rightarrow> line \<Rightarrow> u32 \<Rightarrow> 's \<Rightarrow> ('s \<times> bool) res"

text \<open>The word index inside a line and the byte enables of that word, \<open>(addr & 0b11)\<close>.\<close>

definition lane :: "u32 \<Rightarrow> nat" where
  "lane addr = unat (addr AND 0b11)"

definition slave_read :: "'s line_reader \<Rightarrow> 's reader" where
  "slave_read read_line addr data s =
     bind_res (read_line (drop_bit 2 addr) line_zero (push_bit (lane addr * 4) 0b1111) s)
       (\<lambda>(s', line_data, ok).
          if \<not> ok then Inr (s', data, False)
          else Inr (s', words line_data (lane addr), True))"

definition slave_write :: "'s line_writer \<Rightarrow> 's writer" where
  "slave_write write_line addr data byte_enable s =
     write_line (drop_bit 2 addr) (set_word (lane addr) data line_zero)
       (push_bit (lane addr * 4) byte_enable) s"

definition into_word :: "nat \<Rightarrow> line \<Rightarrow> ('s \<times> u32 \<times> bool) res \<Rightarrow> ('s \<times> line \<times> bool) res" where
  "into_word i data r = bind_res r (\<lambda>(s', w, ok). Inr (s', set_word i w data, ok))"

definition slave_read_line :: "'s reader \<Rightarrow> 's line_reader" where
  "slave_read_line read addr data byte_enable s =
     (if byte_enable AND 0x000f \<noteq> 0 then into_word 0 data (read (push_bit 2 addr) (words data 0) s)
      else if byte_enable AND 0x00f0 \<noteq> 0
      then into_word 1 data (read (push_bit 2 addr + 1) (words data 1) s)
      else if byte_enable AND 0x0f00 \<noteq> 0
      then into_word 2 data (read (push_bit 2 addr + 2) (words data 2) s)
      else if byte_enable AND 0xf000 \<noteq> 0
      then into_word 3 data (read (push_bit 2 addr + 3) (words data 3) s)
      else Inr (s, data, True))"

definition write_offset :: "u32 \<Rightarrow> nat" where
  "write_offset byte_enable =
     (if byte_enable AND 0x00f0 \<noteq> 0 then 1
      else if byte_enable AND 0x0f00 \<noteq> 0 then 2
      else if byte_enable AND 0xf000 \<noteq> 0 then 3
      else 0)"

definition slave_write_line :: "'s writer \<Rightarrow> 's line_writer" where
  "slave_write_line write addr data byte_enable s =
     (let offset = write_offset byte_enable in
      write (push_bit 2 addr + of_nat offset) (words data offset)
        (drop_bit (offset * 4) byte_enable AND 0b1111) s)"

lemma lane_less [simp]: "lane a < 4"
proof -
  have "lane a = unat (a AND mask 2)" by (simp add: lane_def mask_eq_exp_minus_1)
  then show ?thesis by (simp add: unat_and_mask)
qed

lemma lane_le [simp]: "lane a \<le> 3"
  using lane_less [of a] by linarith

section \<open>The contract of a bus device\<close>

text \<open>
  The line positions the interconnect can pass to a device: \<open>(address & ~mask) >> 4\<close>.
\<close>

definition reaches :: "slave \<Rightarrow> u32 \<Rightarrow> bool" where
  "reaches g pos \<longleftrightarrow> pos \<le> drop_bit 4 (NOT (sl_mask g))"

lemma drop_bit_mono: "a \<le> b \<Longrightarrow> drop_bit n a \<le> drop_bit n b" for a b :: "'a::len word"
  by (simp add: word_le_nat_alt unat_drop_bit div_le_mono)

lemma reaches_offset [simp]: "reaches g (drop_bit 4 (x AND NOT (sl_mask g)))"
  unfolding reaches_def by (intro drop_bit_mono word_and_le1)

text \<open>
  What the interconnect relies on: within the device's span neither line operation fails,
  both keep the device's invariant and its geometry.
\<close>

locale bus_device =
  fixes geom :: "'s \<Rightarrow> slave"
    and inv :: "'s \<Rightarrow> bool"
    and read_line :: "'s line_reader"
    and write_line :: "'s line_writer"
  assumes read_line_law: "inv s \<Longrightarrow> reaches (geom s) a \<Longrightarrow>
      \<exists>s' l' ok. read_line a l be s = Inr (s', l', ok) \<and> inv s' \<and> geom s' = geom s"
    and write_line_law: "inv s \<Longrightarrow> reaches (geom s) a \<Longrightarrow>
      \<exists>s' ok. write_line a l be s = Inr (s', ok) \<and> inv s' \<and> geom s' = geom s"
begin

lemma read_line_safe:
  assumes "inv s" "reaches (geom s) a"
  obtains s' l' ok where "read_line a l be s = Inr (s', l', ok)" "inv s'" "geom s' = geom s"
  using read_line_law [OF assms] by blast

lemma write_line_safe:
  assumes "inv s" "reaches (geom s) a"
  obtains s' ok where "write_line a l be s = Inr (s', ok)" "inv s'" "geom s' = geom s"
  using write_line_law [OF assms] by blast

lemma read_line_inv:
  "read_line a l be s = Inr (s', l', ok) \<Longrightarrow> inv s \<Longrightarrow> reaches (geom s) a \<Longrightarrow>
     inv s' \<and> geom s' = geom s"
  using read_line_law [of s a l be] by auto

lemma write_line_inv:
  "write_line a l be s = Inr (s', ok) \<Longrightarrow> inv s \<Longrightarrow> reaches (geom s) a \<Longrightarrow>
     inv s' \<and> geom s' = geom s"
  using write_line_law [of s a l be] by auto

end

text \<open>
  A register device overrides the word operations, which accept any word address; its line
  operations are the defaults, and they meet the contract.
\<close>

locale word_device =
  fixes geom :: "'s \<Rightarrow> slave"
    and inv :: "'s \<Rightarrow> bool"
    and rd :: "'s reader"
    and wr :: "'s writer"
  assumes read_law: "inv s \<Longrightarrow>
      \<exists>s' w' ok. rd a w s = Inr (s', w', ok) \<and> inv s' \<and> geom s' = geom s"
    and write_law: "inv s \<Longrightarrow>
      \<exists>s' ok. wr a w be s = Inr (s', ok) \<and> inv s' \<and> geom s' = geom s"
begin

lemma into_word_law:
  assumes "inv s"
  shows "\<exists>s' l' ok. into_word i l (rd a w s) = Inr (s', l', ok) \<and> inv s' \<and> geom s' = geom s"
  using read_law [OF assms, of a w] by (auto simp: into_word_def)

text \<open>The other words of the line keep the value they had on entry.\<close>

lemma into_word_frame:
  "into_word i l (rd a w s) = Inr (s', l', ok) \<Longrightarrow> i < 4 \<Longrightarrow> j < 4 \<Longrightarrow> i \<noteq> j \<Longrightarrow> words l' j = words l j"
  by (auto simp: into_word_def bind_res_Inr_iff words_set_word)

end

sublocale word_device \<subseteq> bus_device geom inv "slave_read_line rd" "slave_write_line wr"
proof unfold_locales
  fix s a l be
  assume "inv s"
  have ok: "\<exists>b. b" by blast
  from \<open>inv s\<close> show "\<exists>s' l' ok. slave_read_line rd a l be s = Inr (s', l', ok) \<and> inv s' \<and> geom s' = geom s"
    using into_word_law [of s] by (simp add: slave_read_line_def ok)
  from \<open>inv s\<close> show "\<exists>s' ok. slave_write_line wr a l be s = Inr (s', ok) \<and> inv s' \<and> geom s' = geom s"
    using write_law by (simp add: slave_write_line_def Let_def)
qed

section \<open>Which word a line access reaches\<close>

lemma nibble_cases:
  fixes n :: u32
  assumes "0 < unat n" "unat n < 16"
  shows "n \<in> {1, 2, 3, 4, 5, 6, 7, 8, 9, 10, 11, 12, 13, 14, 15}"
proof -
  have "unat n \<in> {1, 2, 3, 4, 5, 6, 7, 8, 9, 10, 11, 12, 13, 14, 15}"
    unfolding insert_iff empty_iff using assms by presburger
  then have "word_of_nat (unat n) \<in> (word_of_nat ` {1, 2, 3, 4, 5, 6, 7, 8, 9, 10, 11, 12, 13, 14, 15} :: u32 set)"
    by (rule imageI)
  then show ?thesis by simp
qed

lemma one_word_enables:
  fixes n :: u32
  assumes "i < 4" "0 < unat n" "unat n < 16"
  shows "push_bit (4 * i) n AND 0x000f \<noteq> 0 \<longleftrightarrow> i = 0" "push_bit (4 * i) n AND 0x00f0 \<noteq> 0 \<longleftrightarrow> i = 1"
    "push_bit (4 * i) n AND 0x0f00 \<noteq> 0 \<longleftrightarrow> i = 2" "push_bit (4 * i) n AND 0xf000 \<noteq> 0 \<longleftrightarrow> i = 3"
    "drop_bit (i * 4) (push_bit (4 * i) n) AND 0b1111 = n"
proof -
  have i: "i = 0 \<or> i = 1 \<or> i = 2 \<or> i = 3" using assms(1) by auto
  note n = nibble_cases [OF assms(2,3)]
  show "push_bit (4 * i) n AND 0x000f \<noteq> 0 \<longleftrightarrow> i = 0" using i n by (elim disjE) auto
  show "push_bit (4 * i) n AND 0x00f0 \<noteq> 0 \<longleftrightarrow> i = 1" using i n by (elim disjE) auto
  show "push_bit (4 * i) n AND 0x0f00 \<noteq> 0 \<longleftrightarrow> i = 2" using i n by (elim disjE) auto
  show "push_bit (4 * i) n AND 0xf000 \<noteq> 0 \<longleftrightarrow> i = 3" using i n by (elim disjE) auto
  show "drop_bit (i * 4) (push_bit (4 * i) n) AND 0b1111 = n" using i n by (elim disjE) auto
qed

section \<open>Properties\<close>

text \<open>
  Address decoding is exact: for a device whose constructor's assertions pass and whose base
  passes the assertion of \<open>interconnect::attach\<close>, the span is a power of two \<open>2 ^ k\<close>, and the
  test \<open>(address & mask) == base\<close> selects the addresses from the base up to, not including,
  base plus span, with no wrap-around; the offset handed to the device is the distance from the
  base.
\<close>

theorem address_decoding_exact:
  assumes "slave_init b sz ws = Inr s" "base_aligned s"
  shows "\<exists>k \<le> 32. sz = 2 ^ k
    \<and> (\<forall>a. decodes s a \<longleftrightarrow> unat b \<le> unat a \<and> unat a < unat b + 2 ^ k)
    \<and> (\<forall>a. decodes s a \<longrightarrow> unat (a AND NOT (sl_mask s)) = unat a - unat b)"
proof -
  from slave_init_spans [OF assms(1)] obtain k where k: "spans s k" "sz = 2 ^ k" "sl_base s = b"
    by blast
  then have "k \<le> 32" by (simp add: spans_def)
  with k show ?thesis
    using decodes_iff [OF k(1) assms(2)] offset_in_span(1) [OF k(1) assms(2)] by auto
qed

theorem address_decoding_exact_witness:
  "\<exists>s. slave_init 0x30000000 8 4 = Inr s \<and> (\<exists>k \<le> 32. (8 :: u32) = 2 ^ k
    \<and> (\<forall>a. decodes s a \<longleftrightarrow> unat (0x30000000 :: u32) \<le> unat a \<and> unat a < unat (0x30000000 :: u32) + 2 ^ k)
    \<and> (\<forall>a. decodes s a \<longrightarrow> unat (a AND NOT (sl_mask s)) = unat a - unat (0x30000000 :: u32)))"
proof -
  let ?s = "\<lparr>sl_base = 0x30000000, sl_mask = NOT (8 - 1), sl_word = log2i 4\<rparr>"
  have i: "slave_init 0x30000000 8 4 = Inr ?s"
    by (simp add: slave_init_def Let_def word_mask_def)
  have "base_aligned ?s" by (simp add: base_aligned_def)
  from address_decoding_exact [OF i this] i show ?thesis by blast
qed

text \<open>
  The default line operations a register device inherits, with the byte enables of one word
  (\<open>n\<close>, placed at word \<open>i\<close>): the read reaches word \<open>4 * pos + i\<close> alone and leaves the other
  three words of the line as they were, and the write reaches the same word with the byte
  enables \<open>n\<close>. With a whole line enabled they reach different words: a read serves word 0,
  a write word 1.
\<close>

theorem single_word_line_access:
  assumes "i < 4" "0 < unat n" "unat n < 16"
  shows "slave_read_line rd pos l (push_bit (4 * i) n) s
      = into_word i l (rd (push_bit 2 pos + of_nat i) (words l i) s)
    \<and> slave_write_line wr pos l (push_bit (4 * i) n) s
      = wr (push_bit 2 pos + of_nat i) (words l i) n s
    \<and> slave_read_line rd pos l 0xffff s = into_word 0 l (rd (push_bit 2 pos) (words l 0) s)
    \<and> slave_write_line wr pos l 0xffff s = wr (push_bit 2 pos + 1) (words l 1) 0b1111 s"
proof -
  note e = one_word_enables [OF assms]
  have i: "i = 0 \<or> i = 1 \<or> i = 2 \<or> i = 3" using assms(1) by auto
  have w: "write_offset (push_bit (4 * i) n) = i"
    using i unfolding write_offset_def e by auto
  have "slave_write_line wr pos l (push_bit (4 * i) n) s = wr (push_bit 2 pos + of_nat i) (words l i) n s"
    unfolding slave_write_line_def Let_def w e(5) ..
  moreover have "slave_read_line rd pos l (push_bit (4 * i) n) s
      = into_word i l (rd (push_bit 2 pos + of_nat i) (words l i) s)"
    unfolding slave_read_line_def e using i by auto
  ultimately show ?thesis
    by (simp add: slave_read_line_def slave_write_line_def write_offset_def)
qed

theorem single_word_line_access_witness:
  "slave_read_line (\<lambda>a w s. Inr (s, a, True)) 5 line_zero (push_bit (4 * 2) 0b1111) ()
      = into_word 2 line_zero (Inr ((), 22, True))
    \<and> slave_write_line (\<lambda>a w be s. Inr (a, True)) 5 line_zero (push_bit (4 * 2) 0b1111) 0 = Inr (22, True)"
  using single_word_line_access [of 2 15 "\<lambda>a w s. Inr (s, a, True)" 5 line_zero "()"]
    single_word_line_access [of 2 15 _ 5 line_zero _ "\<lambda>a w be s. Inr (a, True)"]
  by auto

end
