(* ===== verification/Avalon_Mem.thy ===== *)
theory Avalon_Mem
  imports Avalon_Slave
begin

text \<open>
  The RAM device (\<open>mem.hpp\<close>, \<open>mem.cpp\<close>): a zero-initialised array of lines that overrides
  the line operations and inherits the word operations. \<open>block\<close> is the array as a function
  with its length kept beside it; an index outside the array is \<open>Out_Of_Bounds\<close>. The loader
  of \<open>mem::load\<close> is an argument: given the number of lines requested it returns the lines
  it stored from the given element on, its count result and its next state. \<open>fread_lines\<close> is
  the loader of \<open>conspiracion.cpp\<close>: \<open>fread\<close> of 16-byte items, where a trailing partial item
  is stored (its element is indeterminate, here the \<open>img_tail\<close> of the file) but not counted.
\<close>

section \<open>State and operations\<close>

record mem =
  mem_slave :: slave
  mem_len :: nat
  block :: "nat \<Rightarrow> line"
  mem_count :: u32

definition mem_init :: "u32 \<Rightarrow> u32 \<Rightarrow> mem res" where
  "mem_init bas siz =
     bind_res (slave_init bas siz 4) (\<lambda>s.
       Inr \<lparr>mem_slave = s, mem_len = unat (drop_bit 4 siz), block = (\<lambda>_. line_zero), mem_count = 0\<rparr>)"

definition mem_read_line :: "mem line_reader" where
  "mem_read_line addr data byte_enable m =
     (if unat addr < mem_len m then Inr (m, block m (unat addr), True) else Inl Out_Of_Bounds)"

definition enabled_bytes :: "u32 \<Rightarrow> u32" where
  "enabled_bytes byte_enable =
     (if byte_enable AND 0b1000 \<noteq> 0 then push_bit 24 0xff else 0)
     OR (if byte_enable AND 0b0100 \<noteq> 0 then push_bit 16 0xff else 0)
     OR (if byte_enable AND 0b0010 \<noteq> 0 then push_bit 8 0xff else 0)
     OR (if byte_enable AND 0b0001 \<noteq> 0 then 0xff else 0)"

function mem_write_loop :: "nat \<Rightarrow> line \<Rightarrow> u32 \<Rightarrow> line \<Rightarrow> line" where
  "mem_write_loop i data byte_enable l =
     (if i < 4 then
        let bytes = enabled_bytes byte_enable in
        mem_write_loop (i + 1) data (drop_bit 4 byte_enable)
          (set_word i ((words data i AND bytes) OR (words l i AND NOT bytes)) l)
      else l)"
  by pat_completeness auto
termination by (relation "measure (\<lambda>(i, _). 4 - i)") auto

declare mem_write_loop.simps [simp del]

definition mem_write_line :: "mem line_writer" where
  "mem_write_line addr data byte_enable m =
     (if unat addr < mem_len m
      then Inr (m\<lparr>block := (block m)
             (unat addr := mem_write_loop 0 data byte_enable (block m (unat addr)))\<rparr>, True)
      else Inl Out_Of_Bounds)"

definition mem_read :: "mem reader" where
  "mem_read = slave_read mem_read_line"

definition mem_write :: "mem writer" where
  "mem_write = slave_write mem_write_line"

definition mem_ready :: "mem \<Rightarrow> mem \<times> bool" where
  "mem_ready m =
     (let c = (if 0 < mem_count m then mem_count m - 1 else 2)
      in (m\<lparr>mem_count := c\<rparr>, c = 0))"

section \<open>Loading an image\<close>

type_synonym 'f loader = "'f \<Rightarrow> u64 \<Rightarrow> line list \<times> u64 \<times> 'f"

fun store_lines :: "nat \<Rightarrow> line list \<Rightarrow> (nat \<Rightarrow> line) \<Rightarrow> (nat \<Rightarrow> line)" where
  "store_lines i [] b = b"
| "store_lines i (l # ls) b = store_lines (Suc i) ls (b(i := l))"

partial_function (option) mem_load_loop ::
  "'f loader \<Rightarrow> u64 \<Rightarrow> u64 \<Rightarrow> u64 \<Rightarrow> 'f \<Rightarrow> mem \<Rightarrow> (mem \<times> 'f) res option" where
  "mem_load_loop ld bas siz addr f m =
     (if bas \<le> addr \<and> addr < bas + siz then
        let at = unat (drop_bit 4 (addr - bas));
            r = ld f (drop_bit 4 (bas + siz - addr))
        in if mem_len m < at + length (fst r) then Some (Inl Out_Of_Bounds)
           else let m' = m\<lparr>block := store_lines at (fst r) (block m)\<rparr> in
             if fst (snd r) = 0 then Some (Inr (m', snd (snd r)))
             else mem_load_loop ld bas siz (addr + push_bit 4 (fst (snd r))) (snd (snd r)) m'
      else Some (Inr (m, f)))"

definition mem_load :: "'f loader \<Rightarrow> u64 \<Rightarrow> 'f \<Rightarrow> mem \<Rightarrow> (mem \<times> 'f) res option" where
  "mem_load ld offset f m =
     mem_load_loop ld (ucast (base_address (mem_slave m))) (ucast (address_span (mem_slave m)))
       (ucast (base_address (mem_slave m)) + offset) f m"

record img_file =
  img_lines :: "line list"
  img_tail :: "line option"

definition fread_lines :: "img_file loader" where
  "fread_lines f n =
     (let k = min (unat n) (length (img_lines f)) in
      if k < unat n
      then (img_lines f @ (case img_tail f of None \<Rightarrow> [] | Some t \<Rightarrow> [t]), of_nat k,
            \<lparr>img_lines = [], img_tail = None\<rparr>)
      else (take k (img_lines f), n, f\<lparr>img_lines := drop k (img_lines f)\<rparr>))"

section \<open>Invariant\<close>

definition mem_inv :: "mem \<Rightarrow> bool" where
  "mem_inv m \<longleftrightarrow> (\<exists>k. 4 \<le> k \<and> k < 32 \<and> spans (mem_slave m) k \<and> mem_len m = 2 ^ (k - 4))
     \<and> sl_word (mem_slave m) = 2"

lemma mem_init_inv:
  assumes "mem_init b sz = Inr m" "16 \<le> sz"
  shows "mem_inv m"
proof -
  from assms(1) obtain s where s: "slave_init b sz 4 = Inr s" and m: "mem_slave m = s"
      "mem_len m = unat (drop_bit 4 sz)"
    by (auto simp: mem_init_def bind_res_Inr_iff)
  from slave_init_spans [OF s] obtain k where k: "spans s k" "sz = 2 ^ k" by blast
  have sz: "16 \<le> unat sz"
    using assms(2) by (simp add: word_le_nat_alt)
  have "k \<noteq> 32"
    using sz k(2) by auto
  with k(1) have "k < 32"
    by (simp add: spans_def)
  with sz k(2) have p: "(2::nat) ^ 4 \<le> 2 ^ k"
    by (simp add: unat_pow2)
  moreover have "4 \<le> k"
    using p power_increasing_iff [of "2::nat" 4 k] by simp
  moreover have "unat (drop_bit 4 sz) = 2 ^ (k - 4)"
    using k(2) \<open>k < 32\<close> \<open>4 \<le> k\<close> unat_pow2 [of k, where 'a = 32]
    by (simp add: unat_drop_bit power_diff)
  moreover have "sl_word s = 2"
    using slave_init_Inr [OF s] by simp
  ultimately show ?thesis using m k(1) \<open>k < 32\<close> unfolding mem_inv_def by auto
qed

lemma mem_reaches:
  assumes "mem_inv m" "reaches (mem_slave m) a"
  shows "unat a < mem_len m"
proof -
  from assms obtain k where k: "4 \<le> k" "k < 32" "spans (mem_slave m) k" "mem_len m = 2 ^ (k - 4)"
    by (auto simp: mem_inv_def)
  have "unat a \<le> unat (drop_bit 4 (mask k :: u32))"
    using assms(2) k(3) by (simp add: reaches_def spans_def word_le_nat_alt)
  also have "\<dots> = (2 ^ k - 1) div 2 ^ 4"
    using k(2) by (simp add: unat_drop_bit mask_eq_exp_minus_1 unat_pow2 unat_minus_one)
  also have "\<dots> < 2 ^ (k - 4)"
  proof -
    have "(2::nat) ^ k = 2 ^ (k - 4) * 16"
      using k(1) power_add [of "2::nat" "k - 4" 4] by simp
    then show ?thesis by (simp add: div_less_iff_less_mult)
  qed
  finally show ?thesis by (simp add: k(4))
qed

lemma mem_inv_block [simp]: "mem_inv (m\<lparr>block := b\<rparr>) = mem_inv m"
  by (simp add: mem_inv_def)

interpretation ram: bus_device mem_slave mem_inv mem_read_line mem_write_line
  by unfold_locales (auto simp: mem_read_line_def mem_write_line_def dest: mem_reaches)

section \<open>The bytes of the memory\<close>

text \<open>Byte \<open>n\<close> of a line and of the whole device (little-endian).\<close>

definition line_byte :: "line \<Rightarrow> nat \<Rightarrow> u8" where
  "line_byte l n = byte_of (words l (n div 4)) (n mod 4)"

lemma bit_byte_lane: "bit (push_bit s (mask 8) :: u32) n \<longleftrightarrow> s \<le> n \<and> n < 32 \<and> n < s + 8"
  unfolding bit_push_bit_iff bit_mask_iff by auto

lemma bit_if_zero: "bit (if c then x else 0) n \<longleftrightarrow> c \<and> bit x n" for x :: "'a::len word"
  by simp

lemma bit_enabled_bytes: "bit (enabled_bytes be) n \<longleftrightarrow> n < 32 \<and> bit be (n div 8)"
proof -
  have ff: "(0xff :: u32) = mask 8" by (simp add: mask_eq_exp_minus_1)
  have en: "be AND 0b1000 \<noteq> 0 \<longleftrightarrow> bit be 3" "be AND 0b0100 \<noteq> 0 \<longleftrightarrow> bit be 2"
      "be AND 0b0010 \<noteq> 0 \<longleftrightarrow> bit be 1" "be AND 0b0001 \<noteq> 0 \<longleftrightarrow> bit be 0"
    using and_bit_neq_0 [of be 3] and_bit_neq_0 [of be 2] and_bit_neq_0 [of be 1]
      and_bit_neq_0 [of be 0] by simp_all
  have e: "bit (enabled_bytes be) n \<longleftrightarrow>
      bit be 3 \<and> 24 \<le> n \<and> n < 32 \<or> bit be 2 \<and> 16 \<le> n \<and> n < 24
      \<or> bit be 1 \<and> 8 \<le> n \<and> n < 16 \<or> bit be 0 \<and> n < 8"
    unfolding enabled_bytes_def ff bit_or_iff bit_if_zero bit_byte_lane bit_mask_iff en by auto
  consider "n div 8 = 0" | "n div 8 = 1" | "n div 8 = 2" | "n div 8 = 3" | "4 \<le> n div 8" by linarith
  then show ?thesis
  proof cases
    case 1 then have "n < 8" by simp
    then show ?thesis unfolding e 1 by simp
  next
    case 2 then have "8 \<le> n \<and> n < 16" by presburger
    then show ?thesis unfolding e 2 by simp
  next
    case 3 then have "16 \<le> n \<and> n < 24" by presburger
    then show ?thesis unfolding e 3 by simp
  next
    case 4 then have "24 \<le> n \<and> n < 32" by presburger
    then show ?thesis unfolding e 4 by simp
  next
    case 5 then have "32 \<le> n" by presburger
    then show ?thesis unfolding e by simp
  qed
qed

lemma byte_merge:
  "j < 4 \<Longrightarrow> byte_of ((d AND enabled_bytes be) OR (w AND NOT (enabled_bytes be))) j
     = (if bit be j then byte_of d j else byte_of w j)"
  by (rule bit_word_eqI)
     (auto simp: byte_of_def bit_simps bit_enabled_bytes)

lemma words_write_loop:
  assumes "i \<le> 4" "j < 4"
  shows "words (mem_write_loop i data be l) j =
    (if i \<le> j then (words data j AND enabled_bytes (drop_bit (4 * (j - i)) be))
        OR (words l j AND NOT (enabled_bytes (drop_bit (4 * (j - i)) be)))
     else words l j)"
  using assms
proof (induction i data be l rule: mem_write_loop.induct)
  case (1 i data be l)
  show ?case
  proof (cases "i < 4")
    case True
    have d: "drop_bit (4 * (j - i)) be = drop_bit (4 * (j - Suc i)) (drop_bit 4 be)" if "i < j"
    proof -
      have "4 * (j - i) = 4 * (j - Suc i) + 4" using that by simp
      then show ?thesis by simp
    qed
    from True have "i + 1 \<le> 4" by simp
    note IH = 1(1) [OF True refl this "1.prems"(2)]
    show ?thesis
      using True "1.prems" IH
      by (cases "i = j"; subst mem_write_loop.simps) (auto simp: Let_def words_set_word d)
  next
    case False
    with "1.prems" show ?thesis by (subst mem_write_loop.simps) simp
  qed
qed

lemma line_byte_write_loop:
  assumes "n < 16"
  shows "line_byte (mem_write_loop 0 data be l) n =
    (if bit be n then line_byte data n else line_byte l n)"
proof -
  have "n div 4 < 4" "n mod 4 < 4" using assms by simp_all
  moreover have "4 * (n div 4) + n mod 4 = n" by simp
  ultimately show ?thesis
    using words_write_loop [of 0 "n div 4" data be l]
    by (simp add: line_byte_def byte_merge bit_drop_bit_eq)
qed
definition mem_bytes :: "mem \<Rightarrow> nat \<Rightarrow> u8" where
  "mem_bytes m n = line_byte (block m (n div 16)) (n mod 16)"

lemma lane_mod: "lane a = unat a mod 4"
proof -
  have "lane a = unat (a AND mask 2)" by (simp add: lane_def mask_eq_exp_minus_1)
  then show ?thesis by (simp add: unat_and_mask)
qed

lemma mem_write_line_flat:
  assumes "mem_write_line a d be m = Inr (m', ok)"
  shows "ok \<and> mem_len m' = mem_len m \<and> mem_slave m' = mem_slave m
    \<and> mem_bytes m' = flat_store (16 * unat a) 16 (bit be) (line_byte d) (mem_bytes m)"
proof -
  have eq: "n div 16 = unat a \<longleftrightarrow> 16 * unat a \<le> n \<and> n < 16 * unat a + 16" for n :: nat
    by arith
  have "mem_bytes m' n = flat_store (16 * unat a) 16 (bit be) (line_byte d) (mem_bytes m) n" for n
  proof (cases "n div 16 = unat a")
    case True
    then have n: "n - 16 * unat a = n mod 16" "16 * unat a \<le> n \<and> n < 16 * unat a + 16"
      by (simp_all add: eq minus_mult_div_eq_mod flip: True)
    then show ?thesis
      using assms True
      by (auto simp: mem_write_line_def mem_bytes_def flat_store_def line_byte_write_loop split: if_splits)
  next
    case False
    then have "\<not> (16 * unat a \<le> n \<and> n < 16 * unat a + 16)" by (simp add: eq)
    with False assms show ?thesis
      by (auto simp: mem_write_line_def mem_bytes_def flat_store_def split: if_splits)
  qed
  then show ?thesis using assms by (auto simp: mem_write_line_def split: if_splits)
qed

lemma mem_write_flat:
  assumes "mem_write w v be m = Inr (m', ok)" "unat be < 16"
  shows "ok \<and> mem_len m' = mem_len m \<and> mem_slave m' = mem_slave m
    \<and> mem_bytes m' = flat_store (4 * unat w) 4 (bit be) (byte_of v) (mem_bytes m)"
proof -
  let ?d = "set_word (lane w) v line_zero" and ?e = "push_bit (lane w * 4) be"
  from assms(1) have w: "mem_write_line (drop_bit 2 w) ?d ?e m = Inr (m', ok)"
    by (simp add: mem_write_def slave_write_def)
  have a: "16 * unat (drop_bit 2 w) + 4 * lane w = 4 * unat w"
    by (simp add: unat_drop_bit lane_mod) arith
  have "flat_store (16 * unat (drop_bit 2 w)) 16 (bit ?e) (line_byte ?d) f n
      = flat_store (4 * unat w) 4 (bit be) (byte_of v) f n" for f n
  proof (cases "4 * unat w \<le> n \<and> n < 4 * unat w + 4")
    case True
    define j where "j = n - 4 * unat w"
    have j: "j < 4" "n - 16 * unat (drop_bit 2 w) = 4 * lane w + j" "n = 4 * unat w + j"
      using True a by (auto simp: j_def)
    have l: "4 * lane w + j < 16" using j(1) lane_less [of w] by linarith
    have "line_byte ?d (4 * lane w + j) = byte_of v j"
      using j(1) by (simp add: line_byte_def)
    moreover have "bit ?e (4 * lane w + j) = bit be j"
      using l by (auto simp: bit_push_bit_iff mult.commute)
    ultimately show ?thesis
      using True j l a by (simp add: flat_store_def)
  next
    case False
    have "\<not> bit ?e (n - 16 * unat (drop_bit 2 w))"
      if "16 * unat (drop_bit 2 w) \<le> n" "n < 16 * unat (drop_bit 2 w) + 16"
    proof
      assume "bit ?e (n - 16 * unat (drop_bit 2 w))"
      then have "lane w * 4 \<le> n - 16 * unat (drop_bit 2 w)"
        "n - 16 * unat (drop_bit 2 w) - lane w * 4 < 4"
        using bit_nibble [OF assms(2)] by (auto simp: bit_push_bit_iff)
      with that a False show False by linarith
    qed
    with False show ?thesis by (auto simp: flat_store_def)
  qed
  with mem_write_line_flat [OF w] show ?thesis by auto
qed

lemma mem_read_flat:
  assumes "mem_read w v0 m = Inr (m', v, ok)" "j < 4"
  shows "ok \<and> m' = m \<and> byte_of v j = mem_bytes m (4 * unat w + j)"
proof -
  from assms(1) have v: "ok" "m' = m" "v = words (block m (unat (drop_bit 2 w))) (lane w)"
    by (auto simp: mem_read_def slave_read_def mem_read_line_def split: if_splits)
  have d: "unat (drop_bit 2 w) = unat w div 4"
    by (simp add: unat_drop_bit)
  have e: "4 * unat w + j = (4 * lane w + j) + unat (drop_bit 2 w) * 16"
    using d lane_mod [of w] div_mult_mod_eq [of "unat w" 4] by linarith
  have l: "4 * lane w + j < 16"
    using assms(2) lane_less [of w] by linarith
  have "(4 * unat w + j) div 16 = unat (drop_bit 2 w)"
    unfolding e using l by (simp only: div_mult_self3 div_less)
  moreover have "(4 * unat w + j) mod 16 = 4 * lane w + j"
    unfolding e using l by (simp only: mod_mult_self1 mod_less)
  ultimately show ?thesis
    using v assms(2) by (simp add: mem_bytes_def line_byte_def)
qed

section \<open>What a load leaves in the array\<close>

lemma store_lines_apply:
  "store_lines i ls b j = (if i \<le> j \<and> j < i + length ls then ls ! (j - i) else b j)"
  by (induction ls arbitrary: i b) (auto simp: nth_Cons' Suc_diff_Suc)

lemma address_span_spans: "spans s k \<Longrightarrow> k < 32 \<Longrightarrow> unat (address_span s) = 2 ^ k"
  by (simp add: spans_def address_span_def mask_eq_exp_minus_1 unat_pow2)

text \<open>What the array holds after loading \<open>f\<close> at line \<open>o\<close>.\<close>

definition loaded :: "img_file \<Rightarrow> nat \<Rightarrow> mem \<Rightarrow> nat \<Rightarrow> line" where
  "loaded f off m i =
     (if off \<le> i \<and> i < mem_len m \<and> i < off + length (img_lines f) then img_lines f ! (i - off)
      else if i = off + length (img_lines f) \<and> i < mem_len m
      then (case img_tail f of None \<Rightarrow> block m i | Some t \<Rightarrow> t)
      else block m i)"

lemma fread_lines_short:
  "length (img_lines f) < unat n \<Longrightarrow>
     fread_lines f n = (img_lines f @ (case img_tail f of None \<Rightarrow> [] | Some t \<Rightarrow> [t]),
       of_nat (length (img_lines f)), \<lparr>img_lines = [], img_tail = None\<rparr>)"
  by (simp add: fread_lines_def min_def)

lemma fread_lines_full:
  "unat n \<le> length (img_lines f) \<Longrightarrow>
     fread_lines f n = (take (unat n) (img_lines f), n,
       f\<lparr>img_lines := drop (unat n) (img_lines f)\<rparr>)"
  by (simp add: fread_lines_def min_def Let_def)

lemma load_loop_done:
  "\<not> (bas \<le> addr \<and> addr < bas + siz) \<Longrightarrow> mem_load_loop ld bas siz addr f m = Some (Inr (m, f))"
  by (subst mem_load_loop.simps) (rule if_not_P)

text \<open>One pass over an exhausted file stops without storing anything.\<close>

lemma load_loop_eof:
  assumes "unat (drop_bit 4 (addr - bas)) \<le> mem_len m"
  shows "\<exists>f'. mem_load_loop fread_lines bas siz addr \<lparr>img_lines = [], img_tail = None\<rparr> m
    = Some (Inr (m, f'))"
  using assms
  by (subst mem_load_loop.simps) (auto simp: fread_lines_def Let_def unat_eq_zero)

text \<open>The positions and sizes of the loop as natural numbers.\<close>

lemma load_window:
  fixes bas siz addr :: u64
  assumes "unat bas < 2 ^ 32" "unat siz \<le> 2 ^ 32" "unat addr = unat bas + 16 * p" "16 * p \<le> unat siz"
  shows "bas \<le> addr \<and> addr < bas + siz \<longleftrightarrow> 16 * p < unat siz"
    and "unat (drop_bit 4 (addr - bas)) = p"
    and "unat (drop_bit 4 (bas + siz - addr)) = (unat siz - 16 * p) div 16"
proof -
  have sum: "unat (bas + siz) = unat bas + unat siz"
    using assms by (simp add: unat_word_ariths)
  have "unat (addr - bas) = 16 * p"
    using assms(3) by (simp add: unat_sub word_le_nat_alt)
  then show "unat (drop_bit 4 (addr - bas)) = p"
    by (simp add: unat_drop_bit)
  have "unat (bas + siz - addr) = unat siz - 16 * p"
    using assms sum by (simp add: unat_sub word_le_nat_alt)
  then show "unat (drop_bit 4 (bas + siz - addr)) = (unat siz - 16 * p) div 16"
    by (simp add: unat_drop_bit)
  show "bas \<le> addr \<and> addr < bas + siz \<longleftrightarrow> 16 * p < unat siz"
    using assms(3) sum by (simp add: word_le_nat_alt word_less_nat_alt)
qed

lemma mem_load_loop_image:
  fixes bas siz addr :: u64
  assumes b: "unat bas < 2 ^ 32" and s: "unat siz = 16 * mem_len m" "mem_len m \<le> 2 ^ 28"
    and a: "unat addr = unat bas + 16 * p" and p: "p < mem_len m"
  shows "\<exists>f'. mem_load_loop fread_lines bas siz addr f m = Some (Inr (m\<lparr>block := loaded f p m\<rparr>, f'))"
proof -
  define n where "n = drop_bit 4 (bas + siz - addr)"
  have w: "bas \<le> addr" "addr < bas + siz" "unat (drop_bit 4 (addr - bas)) = p"
      "unat n = mem_len m - p"
    using load_window [OF b _ a, of siz] s p by (auto simp: n_def)
  show ?thesis
  proof (cases "length (img_lines f) < unat n")
    case True
    let ?k = "length (img_lines f)" and ?ls = "img_lines f @ (case img_tail f of None \<Rightarrow> [] | Some t \<Rightarrow> [t])"
    let ?m = "m\<lparr>block := store_lines p ?ls (block m)\<rparr>"
    have k: "p + ?k < mem_len m" using True w(4) by simp
    then have len: "p + length ?ls \<le> mem_len m" by (auto split: option.splits)
    have "store_lines p ?ls (block m) = loaded f p m"
      using k by (intro ext)
        (auto simp: store_lines_apply loaded_def nth_append nth_Cons' split: option.splits)
    then have m: "?m = m\<lparr>block := loaded f p m\<rparr>" by simp
    have step: "mem_load_loop fread_lines bas siz addr f m =
        (if (of_nat ?k :: u64) = 0 then Some (Inr (?m, \<lparr>img_lines = [], img_tail = None\<rparr>))
         else mem_load_loop fread_lines bas siz (addr + push_bit 4 (of_nat ?k))
           \<lparr>img_lines = [], img_tail = None\<rparr> ?m)"
      using w len by (subst mem_load_loop.simps)
        (simp add: fread_lines_short [OF True] Let_def flip: n_def)
    have kw: "unat (of_nat ?k :: u64) = ?k"
      using k s(2) by (simp add: unat_of_nat)
    have "unat (push_bit 4 (of_nat ?k :: u64)) = 16 * ?k"
      using kw k s(2) by (simp add: push_bit_eq_mult unat_word_ariths)
    then have "unat (addr + push_bit 4 (of_nat ?k)) = unat bas + 16 * (p + ?k)"
      using a b k s(2) by (simp add: unat_word_ariths)
    then have "unat (drop_bit 4 (addr + push_bit 4 (of_nat ?k) - bas)) = p + ?k"
      using load_window(2) [OF b, of siz "addr + push_bit 4 (of_nat ?k)" "p + ?k"] s k by simp
    then have "\<exists>f'. mem_load_loop fread_lines bas siz (addr + push_bit 4 (of_nat ?k))
           \<lparr>img_lines = [], img_tail = None\<rparr> ?m = Some (Inr (?m, f'))"
      using load_loop_eof [of "addr + push_bit 4 (of_nat ?k)" bas ?m siz] k by simp
    then show ?thesis unfolding step m by auto
  next
    case False
    then have le: "unat n \<le> length (img_lines f)" by simp
    let ?m = "m\<lparr>block := store_lines p (take (unat n) (img_lines f)) (block m)\<rparr>"
    have "store_lines p (take (unat n) (img_lines f)) (block m) = loaded f p m"
      using le w(4) p by (intro ext) (auto simp: store_lines_apply loaded_def)
    then have m: "?m = m\<lparr>block := loaded f p m\<rparr>" by simp
    have "n \<noteq> 0" using w(4) p by auto
    then have step: "mem_load_loop fread_lines bas siz addr f m =
        mem_load_loop fread_lines bas siz (addr + push_bit 4 n)
           (f\<lparr>img_lines := drop (unat n) (img_lines f)\<rparr>) ?m"
      using w le p by (subst mem_load_loop.simps)
        (simp add: fread_lines_full [OF le] Let_def flip: n_def)
    have "unat (push_bit 4 n) = 16 * (mem_len m - p)"
      using w(4) s(2) by (simp add: push_bit_eq_mult unat_word_ariths)
    then have e: "unat (addr + push_bit 4 n) = unat bas + 16 * mem_len m"
      using a b p s(2) by (simp add: unat_word_ariths)
    have "\<not> (bas \<le> addr + push_bit 4 n \<and> addr + push_bit 4 n < bas + siz)"
      using load_window(1) [OF b _ e] s by simp
    then show ?thesis unfolding step m by (simp add: load_loop_done)
  qed
qed

lemma mem_load_image:
  assumes "mem_inv m" "unat offset = 16 * p" "p < mem_len m"
  shows "\<exists>f'. mem_load fread_lines offset f m = Some (Inr (m\<lparr>block := loaded f p m\<rparr>, f'))"
proof -
  from assms(1) obtain k where k: "4 \<le> k" "k < 32" "spans (mem_slave m) k" "mem_len m = 2 ^ (k - 4)"
    by (auto simp: mem_inv_def)
  have len: "mem_len m \<le> 2 ^ 28"
    using k by (simp add: power_increasing del: power_numeral)
  have siz: "unat (ucast (address_span (mem_slave m)) :: u64) = 16 * mem_len m"
    using k address_span_spans [OF k(3,2)] power_add [of "2::nat" 4 "k - 4"]
    by (simp add: unat_ucast_32_64)
  have bas: "unat (ucast (base_address (mem_slave m)) :: u64) < 2 ^ 32"
    using unsigned_less [of "base_address (mem_slave m)"] by (simp add: unat_ucast_32_64)
  have "unat (ucast (base_address (mem_slave m)) + offset :: u64)
      = unat (ucast (base_address (mem_slave m)) :: u64) + 16 * p"
    using bas assms(2,3) len by (simp add: unat_word_ariths)
  then show ?thesis
    unfolding mem_load_def using mem_load_loop_image [OF bas siz len _ assms(3)] by blast
qed

section \<open>Properties\<close>

text \<open>
  A line write on the RAM implements the byte-enabled write of a flat byte memory: at any
  line inside the array it succeeds at once, byte \<open>n\<close> of that line takes the written byte
  exactly when bit \<open>n\<close> of the byte enables is set, and every other byte of the device is kept.
\<close>

theorem ram_line_write_refines_flat:
  assumes "unat a < mem_len m"
  shows "\<exists>m'. mem_write_line a d be m = Inr (m', True) \<and> mem_len m' = mem_len m
    \<and> mem_bytes m' = flat_store (16 * unat a) 16 (bit be) (line_byte d) (mem_bytes m)"
proof -
  obtain m' where w: "mem_write_line a d be m = Inr (m', True)"
    using assms by (auto simp: mem_write_line_def)
  with mem_write_line_flat [OF w] show ?thesis by blast
qed

definition ram_example :: mem where
  "ram_example = \<lparr>mem_slave = \<lparr>sl_base = 0, sl_mask = NOT 63, sl_word = 2\<rparr>, mem_len = 4,
     block = (\<lambda>_. line_zero), mem_count = 0\<rparr>"

theorem ram_line_write_refines_flat_witness:
  "\<exists>m'. mem_write_line 2 (Line 1 2 3 4) 0x00f0 ram_example = Inr (m', True) \<and> mem_len m' = 4
    \<and> mem_bytes m' = flat_store 32 16 (bit (0x00f0 :: u32)) (line_byte (Line 1 2 3 4))
        (mem_bytes ram_example)"
  using ram_line_write_refines_flat [of 2 ram_example "Line 1 2 3 4" "0x00f0"]
  by (simp add: ram_example_def)

text \<open>
  The word operations that the RAM inherits from the base class refine the same flat memory:
  a word write inside the array stores exactly its enabled bytes at \<open>4 * w\<close>, and a word read
  afterwards, at any word of the array, returns the four bytes stored there and changes nothing.
\<close>

theorem ram_word_access_refines_flat:
  assumes "unat w div 4 < mem_len m" "unat be < 16"
  shows "\<exists>m'. mem_write w v be m = Inr (m', True)
    \<and> mem_bytes m' = flat_store (4 * unat w) 4 (bit be) (byte_of v) (mem_bytes m)
    \<and> (\<forall>x x0. unat x div 4 < mem_len m \<longrightarrow>
         (\<exists>r. mem_read x x0 m' = Inr (m', r, True)
            \<and> (\<forall>j < 4. byte_of r j = mem_bytes m' (4 * unat x + j))))"
proof -
  have "unat (drop_bit 2 x) = unat x div 4" for x :: u32
    by (simp add: unat_drop_bit)
  then obtain m' where w: "mem_write w v be m = Inr (m', True)" and "mem_len m' = mem_len m"
    using assms(1) by (auto simp: mem_write_def slave_write_def mem_write_line_def)
  then have "\<exists>r. mem_read x x0 m' = Inr (m', r, True)
      \<and> (\<forall>j < 4. byte_of r j = mem_bytes m' (4 * unat x + j))" if "unat x div 4 < mem_len m" for x x0
    using that \<open>\<And>x. unat (drop_bit 2 x) = unat x div 4\<close>
    using mem_read_flat [of x x0 m' m' "words (block m' (unat x div 4)) (lane x)" True]
    by (auto simp: mem_read_def slave_read_def mem_read_line_def)
  with mem_write_flat [OF w assms(2)] w show ?thesis by blast
qed

theorem ram_word_access_refines_flat_witness:
  "\<exists>m'. mem_write 9 0xdeadbeef 0b0110 ram_example = Inr (m', True)
    \<and> mem_bytes m' = flat_store 36 4 (bit (0b0110 :: u32)) (byte_of 0xdeadbeef) (mem_bytes ram_example)
    \<and> (\<forall>x x0. unat x div 4 < mem_len ram_example \<longrightarrow>
         (\<exists>r. mem_read x x0 m' = Inr (m', r, True)
            \<and> (\<forall>j < 4. byte_of r j = mem_bytes m' (4 * unat x + j))))"
  using ram_word_access_refines_flat [of 9 ram_example "0b0110" "0xdeadbeef"]
  by (simp add: ram_example_def)

text \<open>
  Loading an image at a line-aligned offset inside the device terminates without an
  out-of-range store, and leaves the file's lines from that offset on, cut at the end of the
  array, with every other line as it was (the one after a file that ends in a partial line
  holds that partial item).
\<close>

theorem ram_load_terminates_with_image:
  assumes "mem_init b sz = Inr m0" "16 \<le> sz" "mem_slave m = mem_slave m0" "mem_len m = mem_len m0"
    and "unat offset = 16 * p" "p < mem_len m"
  shows "\<exists>f'. mem_load fread_lines offset f m = Some (Inr (m\<lparr>block := loaded f p m\<rparr>, f'))"
proof -
  have "mem_inv m"
    using mem_init_inv [OF assms(1,2)] assms(3,4) by (simp add: mem_inv_def)
  then show ?thesis using assms(5,6) by (rule mem_load_image)
qed

theorem ram_load_terminates_with_image_witness:
  "\<exists>m f'. mem_init 0 64 = Inr m
    \<and> mem_load fread_lines 32 \<lparr>img_lines = [Line 1 2 3 4], img_tail = Some (Line 5 0 0 0)\<rparr> m
      = Some (Inr (m\<lparr>block := loaded \<lparr>img_lines = [Line 1 2 3 4], img_tail = Some (Line 5 0 0 0)\<rparr> 2 m\<rparr>, f'))
    \<and> loaded \<lparr>img_lines = [Line 1 2 3 4], img_tail = Some (Line 5 0 0 0)\<rparr> 2 m 3 = Line 5 0 0 0"
proof -
  let ?m = "\<lparr>mem_slave = \<lparr>sl_base = 0, sl_mask = NOT (64 - 1), sl_word = 2\<rparr>, mem_len = 4,
      block = (\<lambda>_. line_zero), mem_count = 0\<rparr> :: mem"
  have i: "mem_init 0 64 = Inr ?m"
    by (simp add: mem_init_def slave_init_def Let_def word_mask_def)
  show ?thesis
    using i ram_load_terminates_with_image [OF i, of ?m 32 2 "\<lparr>img_lines = [Line 1 2 3 4], img_tail = Some (Line 5 0 0 0)\<rparr>"]
    by (simp add: loaded_def)
qed

end
