(* ===== verification/Component_Laws.thy ===== *)
theory Component_Laws
  imports Prelude
begin

text \<open>
  Interfaces shared by the components. A component is a step function over its events that may
  fail; \<open>stepping\<close> is the contract that its invariant excludes failure as long as the surroundings
  keep a rule, and \<open>fifo_channel\<close>
  extends it for a component that carries values from an input to an output: what it held,
  followed by what went in, is what came out, followed by what it holds. The lemmas about whole
  runs are proved here once and reach each component through an interpretation.
\<close>

fun run :: "('e \<Rightarrow> 's \<Rightarrow> 's res) \<Rightarrow> 'e list \<Rightarrow> 's \<Rightarrow> 's res" where
  "run f [] s = Inr s"
| "run f (e # es) s = bind_res (f e s) (run f es)"

fun emitted :: "('e \<Rightarrow> 's \<Rightarrow> 'a list) \<Rightarrow> ('e \<Rightarrow> 's \<Rightarrow> 's res) \<Rightarrow> 'e list \<Rightarrow> 's \<Rightarrow> 'a list" where
  "emitted g f [] s = []"
| "emitted g f (e # es) s = g e s @ (case f e s of Inl _ \<Rightarrow> [] | Inr s' \<Rightarrow> emitted g f es s')"

lemma run_append: "run f (xs @ ys) s = bind_res (run f xs s) (run f ys)"
proof (induction xs arbitrary: s)
  case (Cons e xs)
  show ?case by (cases "f e s") (simp_all add: Cons.IH)
qed simp

text \<open>
  What the surroundings owe the component at each step of a run: \<open>ok e s\<close> judges the event \<open>e\<close> by
  the state it meets. Nothing is skipped: \<open>legal\<close> only says which runs are looked at.
\<close>

fun legal :: "('e \<Rightarrow> 's \<Rightarrow> bool) \<Rightarrow> ('e \<Rightarrow> 's \<Rightarrow> 's res) \<Rightarrow> 'e list \<Rightarrow> 's \<Rightarrow> bool" where
  "legal ok f [] s \<longleftrightarrow> True"
| "legal ok f (e # es) s \<longleftrightarrow> ok e s \<and> (case f e s of Inl _ \<Rightarrow> True | Inr s' \<Rightarrow> legal ok f es s')"

lemma legal_any [simp]: "legal (\<lambda>_ _. True) f es s"
  by (induction es arbitrary: s) (simp_all split: sum.split)

lemma legal_Cons:
  "ok e s \<Longrightarrow> (\<And>s'. f e s = Inr s' \<Longrightarrow> legal ok f es s') \<Longrightarrow> legal ok f (e # es) s"
  by (simp split: sum.split)

lemma legal_stateless: "list_all g es \<Longrightarrow> legal (\<lambda>e _. g e) f es s"
  by (induction es arbitrary: s) (simp_all split: sum.split)

locale stepping =
  fixes ok :: "'e \<Rightarrow> 's \<Rightarrow> bool"
    and step :: "'e \<Rightarrow> 's \<Rightarrow> 's res"
    and inv :: "'s \<Rightarrow> bool"
  assumes step_law: "inv s \<Longrightarrow> ok e s \<Longrightarrow> \<exists>s'. step e s = Inr s' \<and> inv s'"
begin

lemma step_inv: "inv s \<Longrightarrow> ok e s \<Longrightarrow> step e s = Inr s' \<Longrightarrow> inv s'"
  using step_law [of s e] by auto

lemma run_safe: "inv s \<Longrightarrow> legal ok step es s \<Longrightarrow> \<exists>s'. run step es s = Inr s' \<and> inv s'"
proof (induction es arbitrary: s)
  case Nil
  then show ?case by simp
next
  case (Cons e es)
  from step_law [OF Cons.prems(1)] Cons.prems(2) obtain s1 where "step e s = Inr s1" "inv s1" by auto
  with Cons.IH [of s1] Cons.prems(2) show ?case by simp
qed

end

locale fifo_channel = stepping ok step inv
  for ok :: "'e \<Rightarrow> 's \<Rightarrow> bool" and step :: "'e \<Rightarrow> 's \<Rightarrow> 's res" and inv :: "'s \<Rightarrow> bool" +
  fixes contents :: "'s \<Rightarrow> 'a list"
    and ins :: "'e \<Rightarrow> 's \<Rightarrow> 'a list"
    and outs :: "'e \<Rightarrow> 's \<Rightarrow> 'a list"
  assumes conserve: "inv s \<Longrightarrow> ok e s \<Longrightarrow> step e s = Inr s' \<Longrightarrow> contents s @ ins e s = outs e s @ contents s'"
begin

lemma run_conserve:
  "inv s \<Longrightarrow> legal ok step es s \<Longrightarrow> run step es s = Inr s' \<Longrightarrow>
     contents s @ emitted ins step es s = emitted outs step es s @ contents s'"
proof (induction es arbitrary: s)
  case Nil
  then show ?case by simp
next
  case (Cons e es)
  from step_law [OF Cons.prems(1)] Cons.prems(2) obtain s1 where s1: "step e s = Inr s1" "inv s1" by auto
  with Cons.prems(2,3) have "run step es s1 = Inr s'" "legal ok step es s1" by simp_all
  with Cons.IH s1(2) have
    "contents s1 @ emitted ins step es s1 = emitted outs step es s1 @ contents s'" by blast
  with conserve [OF Cons.prems(1) _ s1(1)] Cons.prems(2) s1 show ?case
    by (simp flip: append_assoc) (simp add: append_assoc)
qed

end

end
