(* ===== verification/Avalon_Timer.thy ===== *)
theory Avalon_Timer
  imports Avalon_Slave Component_Laws
begin

text \<open>
  The interval timer (\<open>interval_timer.hpp\<close>, \<open>interval_timer.cpp\<close>): a down-counter with a
  period, a snapshot register and two control bits, advanced once per rising bus edge. The
  constructor leaves \<open>count\<close>, \<open>period\<close> and \<open>snap\<close> uninitialised, so they are arguments of
  \<open>timer_init\<close>.
\<close>

record interval_timer =
  tm_slave :: slave
  tm_count :: u32
  tm_period :: u32
  tm_snap :: u32
  status_to :: bool
  status_run :: bool
  control_ito :: bool
  control_cont :: bool

definition timer_init :: "u32 \<Rightarrow> u32 \<Rightarrow> u32 \<Rightarrow> u32 \<Rightarrow> interval_timer res" where
  "timer_init bas cnt per snp =
     bind_res (slave_init bas 32 4) (\<lambda>s. Inr
       \<lparr>tm_slave = s, tm_count = cnt, tm_period = per, tm_snap = snp,
        status_to = False, status_run = False, control_ito = False, control_cont = False\<rparr>)"

definition timer_tick :: "interval_timer \<Rightarrow> interval_timer" where
  "timer_tick t =
     (if \<not> status_run t then t
      else if 0 < tm_count t then t\<lparr>tm_count := tm_count t - 1\<rparr>
      else t\<lparr>tm_count := tm_period t, status_to := True, status_run := control_cont t\<rparr>)"

definition timer_read :: "interval_timer reader" where
  "timer_read addr data t = Inr (t,
     (if addr = 0 then push_bit 1 (of_bool (status_run t)) OR push_bit 0 (of_bool (status_to t))
      else if addr = 1 then push_bit 1 (of_bool (control_cont t)) OR push_bit 0 (of_bool (control_ito t))
      else if addr = 2 then tm_period t AND 0xffff
      else if addr = 3 then drop_bit 16 (tm_period t)
      else if addr = 4 then tm_snap t AND 0xffff
      else if addr = 5 then drop_bit 16 (tm_snap t)
      else data),
     True)"

definition timer_write :: "interval_timer writer" where
  "timer_write addr data byte_enable t = Inr (
     (if addr = 0 then t\<lparr>status_to := False\<rparr>
      else if addr = 1 then
        t\<lparr>control_ito := flag data 0, control_cont := flag data 1,
          status_run := (status_run t \<and> flag data 3) \<or> flag data 2\<rparr>
      else if addr = 2 then
        let p = (tm_period t AND 0xffff0000) OR (data AND 0xffff)
        in t\<lparr>tm_period := p, tm_count := p\<rparr>
      else if addr = 3 then
        let p = (tm_period t AND 0xffff) OR push_bit 16 (data AND 0xffff)
        in t\<lparr>tm_period := p, tm_count := p\<rparr>
      else if addr = 4 \<or> addr = 5 then t\<lparr>tm_snap := tm_count t\<rparr>
      else t),
     True)"

definition timer_irq :: "interval_timer \<Rightarrow> bool" where
  "timer_irq t \<longleftrightarrow> control_ito t \<and> status_to t"

interpretation timer: word_device tm_slave "\<lambda>_. True" timer_read timer_write
  by unfold_locales (auto simp: timer_read_def timer_write_def Let_def)

section \<open>Counting\<close>

text \<open>The specification of the counter: its state after \<open>n\<close> rising edges.\<close>

definition periodic_value :: "nat \<Rightarrow> nat \<Rightarrow> nat \<Rightarrow> nat" where
  "periodic_value c p n = (if n \<le> c then c - n else p - (n - c - 1) mod (p + 1))"

lemma periodic_value_Suc:
  "periodic_value c p (Suc n) =
     (if periodic_value c p n = 0 then p else periodic_value c p n - 1)"
proof (cases "n \<le> c")
  case True
  then show ?thesis by (auto simp: periodic_value_def)
next
  case False
  define k where "k = n - c - 1"
  have k: "Suc n - c - 1 = Suc k" using False by (simp add: k_def)
  have lt: "k mod Suc p < Suc p" by simp
  show ?thesis
  proof (cases "k mod Suc p = p")
    case True
    then show ?thesis using False k by (simp add: periodic_value_def mod_Suc flip: k_def)
  next
    case neq: False
    with lt have "k mod Suc p < p" by linarith
    then show ?thesis using False k neq by (simp add: periodic_value_def mod_Suc flip: k_def)
  qed
qed

lemma periodic_value_run:
  assumes "status_run t" "control_cont t"
  shows "unat (tm_count ((timer_tick ^^ n) t)) = periodic_value (unat (tm_count t)) (unat (tm_period t)) n
    \<and> status_to ((timer_tick ^^ n) t) = (status_to t \<or> unat (tm_count t) < n)
    \<and> status_run ((timer_tick ^^ n) t) \<and> control_cont ((timer_tick ^^ n) t)
    \<and> tm_period ((timer_tick ^^ n) t) = tm_period t"
proof (induction n)
  case 0
  then show ?case using assms by (simp add: periodic_value_def)
next
  case (Suc n)
  let ?t = "(timer_tick ^^ n) t"
  let ?v = "periodic_value (unat (tm_count t)) (unat (tm_period t)) n"
  show ?case
  proof (cases "0 < tm_count ?t")
    case True
    then have "unat (tm_count ?t) \<noteq> 0" by (simp add: unat_eq_zero word_gt_0)
    then have "?v \<noteq> 0" using Suc by simp
    moreover have "\<not> n = unat (tm_count t)"
      using \<open>?v \<noteq> 0\<close> by (auto simp: periodic_value_def)
    moreover have "unat (tm_count t) < Suc n \<longleftrightarrow> unat (tm_count t) < n \<or> n = unat (tm_count t)"
      by auto
    ultimately show ?thesis
      using Suc True by (simp add: timer_tick_def [of ?t] periodic_value_Suc unat_minus_1)
  next
    case False
    then have "tm_count ?t = 0" by (simp add: word_gt_0)
    then have v: "?v = 0" using Suc by simp
    have "unat (tm_count t) < Suc n"
    proof (rule ccontr)
      assume "\<not> unat (tm_count t) < Suc n"
      with v show False by (auto simp: periodic_value_def)
    qed
    then show ?thesis
      using Suc v \<open>tm_count ?t = 0\<close> by (simp add: timer_tick_def [of ?t] periodic_value_Suc)
  qed
qed

lemma timer_run_stopped: "\<not> status_run t \<Longrightarrow> (timer_tick ^^ n) t = t"
  by (induction n) (simp_all add: timer_tick_def)

lemma timer_run_down:
  assumes "status_run t" "n \<le> unat (tm_count t)"
  shows "(timer_tick ^^ n) t = t\<lparr>tm_count := tm_count t - of_nat n\<rparr>"
  using assms(2)
proof (induction n)
  case 0
  then show ?case by simp
next
  case (Suc n)
  let ?t = "t\<lparr>tm_count := tm_count t - of_nat n\<rparr>"
  have "unat (tm_count t - of_nat n) = unat (tm_count t) - n"
    using Suc.prems le_unat_uoi [of n "tm_count t"]
    by (subst unat_sub) (simp_all add: word_le_nat_alt)
  then have "0 < tm_count t - of_nat n"
    using Suc.prems by (simp add: word_less_nat_alt)
  then show ?case
    using Suc assms(1) by (simp add: timer_tick_def [of ?t] algebra_simps)
qed

lemma timer_run_one_shot:
  assumes "status_run t" "\<not> control_cont t"
  shows "(timer_tick ^^ n) t =
    (if n \<le> unat (tm_count t) then t\<lparr>tm_count := tm_count t - of_nat n\<rparr>
     else t\<lparr>tm_count := tm_period t, status_to := True, status_run := False\<rparr>)"
proof (cases "n \<le> unat (tm_count t)")
  case True
  then show ?thesis using timer_run_down [OF assms(1)] by simp
next
  case False
  define c where "c = unat (tm_count t)"
  obtain k where k: "n = k + Suc c"
    using False unfolding c_def by (metis add.commute le_add_diff_inverse not_less_eq_eq)
  have "(timer_tick ^^ c) t = t\<lparr>tm_count := 0\<rparr>"
    using timer_run_down [OF assms(1), of c] by (simp add: c_def)
  then have "(timer_tick ^^ Suc c) t = t\<lparr>tm_count := tm_period t, status_to := True, status_run := False\<rparr>"
    using assms by (simp add: timer_tick_def [of "t\<lparr>tm_count := 0\<rparr>"])
  then show ?thesis
    using False unfolding k funpow_add comp_def
    by (simp add: timer_run_stopped c_def)
qed

section \<open>Registers\<close>

lemma low_high_halves:
  "(((p AND 0xffff) OR push_bit 16 (h AND 0xffff)) AND 0xffff) = p AND 0xffff"
  "drop_bit 16 ((p AND 0xffff) OR push_bit 16 (h AND 0xffff)) = h AND 0xffff"
  "((p AND 0xffff0000) OR (l AND 0xffff)) AND 0xffff = l AND 0xffff"
  for p h l :: u32
proof -
  have m: "(0xffff :: u32) = mask 16" "(0xffff0000 :: u32) = push_bit 16 (mask 16)"
    by (simp_all add: mask_eq_exp_minus_1)
  show "(((p AND 0xffff) OR push_bit 16 (h AND 0xffff)) AND 0xffff) = p AND 0xffff"
    "drop_bit 16 ((p AND 0xffff) OR push_bit 16 (h AND 0xffff)) = h AND 0xffff"
    "((p AND 0xffff0000) OR (l AND 0xffff)) AND 0xffff = l AND 0xffff"
    unfolding m by (auto simp: bit_eq_iff bit_and_iff bit_or_iff bit_push_bit_iff bit_drop_bit_eq bit_mask_iff)
qed

definition running_example :: interval_timer where
  "running_example = \<lparr>tm_slave = \<lparr>sl_base = 0x30020000, sl_mask = NOT 31, sl_word = 2\<rparr>,
     tm_count = 3, tm_period = 5, tm_snap = 0, status_to = False, status_run = True,
     control_ito = True, control_cont = True\<rparr>"

section \<open>Properties\<close>

text \<open>
  A running timer in continuous mode is periodic: after \<open>n\<close> rising edges its count is the
  closed form \<open>periodic_value\<close> (down to zero from the initial count, then cycling through
  \<open>period, ..., 0\<close>), it still runs, its timeout flag is set exactly when it was set before or
  more edges than the initial count have passed, and with interrupts enabled the interrupt line
  equals that flag.
\<close>

theorem timer_continuous_closed_form:
  assumes "status_run t" "control_cont t"
  shows "unat (tm_count ((timer_tick ^^ n) t)) = periodic_value (unat (tm_count t)) (unat (tm_period t)) n
    \<and> status_run ((timer_tick ^^ n) t)
    \<and> (status_to ((timer_tick ^^ n) t) = (status_to t \<or> unat (tm_count t) < n))
    \<and> (timer_irq ((timer_tick ^^ n) t) = (control_ito t \<and> (status_to t \<or> unat (tm_count t) < n)))"
proof -
  have "control_ito ((timer_tick ^^ m) t) = control_ito t" for m
    by (induction m) (auto simp: timer_tick_def)
  then show ?thesis
    using periodic_value_run [OF assms(1,2), of n] by (simp add: timer_irq_def)
qed

theorem timer_continuous_closed_form_witness:
  "unat (tm_count ((timer_tick ^^ 7) running_example)) = 2
    \<and> timer_irq ((timer_tick ^^ 7) running_example)"
  using timer_continuous_closed_form [of running_example 7]
  by (simp add: running_example_def periodic_value_def)

text \<open>
  A running timer in one-shot mode counts down once: for the first \<open>count\<close> edges only the
  count changes; the next edge reloads the period, sets the timeout flag and stops the timer, and
  no later edge changes anything.
\<close>

theorem timer_one_shot_stops:
  assumes "status_run t" "\<not> control_cont t"
  shows "(timer_tick ^^ n) t =
    (if n \<le> unat (tm_count t) then t\<lparr>tm_count := tm_count t - of_nat n\<rparr>
     else t\<lparr>tm_count := tm_period t, status_to := True, status_run := False\<rparr>)"
  using assms by (rule timer_run_one_shot)

theorem timer_one_shot_stops_witness:
  "(timer_tick ^^ 9) (running_example\<lparr>control_cont := False\<rparr>) =
    running_example\<lparr>control_cont := False, tm_count := 5, status_to := True, status_run := False\<rparr>"
  using timer_one_shot_stops [of "running_example\<lparr>control_cont := False\<rparr>" 9]
  by (simp add: running_example_def)

text \<open>
  The period registers round-trip: after the low half is written to register 2 and the high
  half to register 3, reading registers 2 and 3 returns the written halves (their low 16 bits),
  the period is the two halves joined, and the count has been reloaded with it; the snapshot
  written next reads back, through registers 4 and 5, as the same two halves.
\<close>

theorem timer_period_registers_roundtrip:
  "\<exists>t1 t2 t3. timer_write 2 lo be t = Inr (t1, True) \<and> timer_write 3 hi be t1 = Inr (t2, True)
    \<and> timer_write 4 x be t2 = Inr (t3, True)
    \<and> tm_count t2 = tm_period t2
    \<and> tm_period t2 = (lo AND 0xffff) OR push_bit 16 (hi AND 0xffff)
    \<and> timer_read 2 d t3 = Inr (t3, lo AND 0xffff, True)
    \<and> timer_read 3 d t3 = Inr (t3, hi AND 0xffff, True)
    \<and> timer_read 4 d t3 = Inr (t3, lo AND 0xffff, True)
    \<and> timer_read 5 d t3 = Inr (t3, hi AND 0xffff, True)"
proof -
  define P1 where "P1 = (tm_period t AND 0xffff0000) OR (lo AND 0xffff)"
  define P2 where "P2 = (P1 AND 0xffff) OR push_bit 16 (hi AND 0xffff)"
  let ?t1 = "t\<lparr>tm_period := P1, tm_count := P1\<rparr>" and ?t2 = "t\<lparr>tm_period := P2, tm_count := P2\<rparr>"
  have w1: "timer_write 2 lo be t = Inr (?t1, True)"
    by (simp add: timer_write_def Let_def P1_def)
  have w2: "timer_write 3 hi be ?t1 = Inr (?t2, True)"
    by (simp add: timer_write_def Let_def P2_def)
  have w3: "timer_write 4 x be ?t2 = Inr (?t2\<lparr>tm_snap := P2\<rparr>, True)"
    by (simp add: timer_write_def)
  have p1: "P1 AND 0xffff = lo AND 0xffff"
    unfolding P1_def by (rule low_high_halves(3))
  have p2: "P2 AND 0xffff = lo AND 0xffff" "drop_bit 16 P2 = hi AND 0xffff"
    unfolding P2_def low_high_halves(1,2) p1 by (rule refl)+
  have p3: "P2 = (lo AND 0xffff) OR push_bit 16 (hi AND 0xffff)"
    unfolding P2_def p1 by (rule refl)
  have "tm_period ?t2 = P2" by simp
  note p4 = trans [OF this p3]
  show ?thesis
    by (intro exI conjI, rule w1, rule w2, rule w3, simp, rule p4) (simp_all add: timer_read_def p2)
qed

text \<open>
  The STOP bit of the control register works the wrong way round: a write that sets it
  without START leaves a running timer running, and a write that leaves both clear stops it.
  (The device modelled here stops when STOP is written as 1.)
\<close>

theorem timer_stop_bit_is_inverted:
  assumes "status_run t"
  shows "\<exists>t1 t2. timer_write 1 0b1000 be t = Inr (t1, True) \<and> status_run t1
    \<and> timer_write 1 0b0000 be t = Inr (t2, True) \<and> \<not> status_run t2"
  using assms by (simp add: timer_write_def flag_def)

theorem timer_stop_bit_is_inverted_witness:
  "\<exists>t1 t2. timer_write 1 0b1000 15 running_example = Inr (t1, True) \<and> status_run t1
    \<and> timer_write 1 0b0000 15 running_example = Inr (t2, True) \<and> \<not> status_run t2"
  using timer_stop_bit_is_inverted [of running_example 15] by (simp add: running_example_def)

end
