(* ===== verification/Avalon_Uart.thy ===== *)
theory Avalon_Uart
  imports Avalon_Slave Component_Laws
begin

text \<open>
  The JTAG UART (\<open>jtag_uart.hpp\<close>, \<open>jtag_uart.cpp\<close>): a 64-byte receive ring filled from the
  terminal by \<open>tick\<close>, a data register and a control register. The value \<open>getch\<close> returns when
  the tick calls it is an argument (\<open>ERR\<close> is -1); the results of the four ncurses set-up calls
  are the record \<open>curses\<close>. Bytes written to standard output and calls of \<open>endwin\<close> are recorded
  in \<open>tty_out\<close> and \<open>endwins\<close>. The ring is uninitialised at construction, an argument of
  \<open>uart_init\<close>.
\<close>

record jtag_uart =
  ua_slave :: slave
  countdown :: u32
  rx_avail :: u32
  rx_next :: u32
  ctrl_re :: bool
  ctrl_we :: bool
  ctrl_ac :: bool
  took_over :: bool
  rx :: "nat \<Rightarrow> u8"
  tty_out :: "u8 list"
  endwins :: nat

record curses =
  initscr_ok :: bool
  noecho_ok :: bool
  nodelay_ok :: bool
  cbreak_ok :: bool

definition uart_init :: "u32 \<Rightarrow> (nat \<Rightarrow> u8) \<Rightarrow> jtag_uart res" where
  "uart_init bas ring =
     bind_res (slave_init bas 8 4) (\<lambda>s. Inr
       \<lparr>ua_slave = s, countdown = 0, rx_avail = 0, rx_next = 0, ctrl_re = False, ctrl_we = False,
        ctrl_ac = True, took_over = False, rx = ring, tty_out = [], endwins = 0\<rparr>)"

definition uart_release :: "jtag_uart \<Rightarrow> jtag_uart" where
  "uart_release u =
     (if took_over u then u\<lparr>endwins := Suc (endwins u), tty_out := tty_out u @ [10]\<rparr> else u)"

definition uart_destroy :: "jtag_uart \<Rightarrow> jtag_uart" where
  "uart_destroy u = uart_release u"

definition uart_bail :: "jtag_uart \<Rightarrow> jtag_uart" where
  "uart_bail u = uart_release u"

definition uart_takeover :: "curses \<Rightarrow> jtag_uart \<Rightarrow> jtag_uart res" where
  "uart_takeover c u =
     (if took_over u then Inr u
      else if \<not> initscr_ok c then Inl Assert_Failure
      else if \<not> noecho_ok c then Inl Assert_Failure
      else if \<not> nodelay_ok c then Inl Assert_Failure
      else if \<not> cbreak_ok c then Inl Assert_Failure
      else Inr (u\<lparr>took_over := True\<rparr>))"

text \<open>The slot \<open>tick\<close> stores into: \<open>rx_next + rx_avail\<close>, wrapped once.\<close>

definition rx_index :: "jtag_uart \<Rightarrow> u32" where
  "rx_index u =
     (let index = rx_next u + rx_avail u in if 64 \<le> index then index - 64 else index)"

definition uart_tick :: "int \<Rightarrow> jtag_uart \<Rightarrow> jtag_uart res" where
  "uart_tick getch u =
     (if \<not> took_over u \<or> rx_avail u = 64 then Inr u
      else if 0 < countdown u then Inr (u\<lparr>countdown := countdown u - 1\<rparr>)
      else
        let u1 = u\<lparr>countdown := 10000\<rparr> in
        if getch \<noteq> -1 then
          (if 64 \<le> rx_index u then Inl Out_Of_Bounds
           else Inr (u1\<lparr>rx := (rx u)(unat (rx_index u) := of_int getch),
                       rx_avail := rx_avail u + 1, ctrl_ac := True\<rparr>))
        else Inr (u1\<lparr>ctrl_ac := True\<rparr>))"

definition uart_read :: "jtag_uart reader" where
  "uart_read addr data u =
     (if addr = 0 then
        (if 64 \<le> rx_next u then Inl Out_Of_Bounds
         else
           let byte = rx u (unat (rx_next u));
               valid_read = 0 < rx_avail u;
               u1 = (if valid_read
                     then u\<lparr>rx_avail := rx_avail u - 1,
                            rx_next := (if rx_next u + 1 < 64 then rx_next u + 1 else 0)\<rparr>
                     else u)
           in Inr (u1, push_bit 16 (rx_avail u1) OR push_bit 15 (of_bool valid_read)
                       OR (ucast byte AND 0xff), True))
      else if addr = 1 then
        Inr (u, push_bit 0 (of_bool (ctrl_re u)) OR push_bit 1 (of_bool (ctrl_we u))
                OR push_bit 8 (of_bool (ctrl_re u \<and> 0 < rx_avail u))
                OR push_bit 9 (of_bool (ctrl_we u)) OR push_bit 10 (of_bool (ctrl_ac u))
                OR push_bit 12 (of_bool (0 < rx_avail u)) OR push_bit 16 63, True)
      else Inr (u, data, True))"

definition uart_write :: "jtag_uart writer" where
  "uart_write addr data byte_enable u =
     (if addr = 0 then
        Inr (u\<lparr>tty_out := tty_out u @ [ucast (data AND 0xff)], ctrl_ac := True\<rparr>, True)
      else if addr = 1 then
        let u1 = u\<lparr>ctrl_re := flag data 0, ctrl_we := flag data 1\<rparr>
        in Inr (if flag data 10 then u1\<lparr>ctrl_ac := False\<rparr> else u1, True)
      else Inr (u, True))"

definition uart_irq :: "jtag_uart \<Rightarrow> bool" where
  "uart_irq u \<longleftrightarrow> ctrl_we u \<or> (ctrl_re u \<and> 0 < rx_avail u)"

section \<open>The ring as a queue\<close>

definition uart_inv :: "jtag_uart \<Rightarrow> bool" where
  "uart_inv u \<longleftrightarrow> unat (rx_avail u) \<le> 64 \<and> unat (rx_next u) < 64"

definition uart_queue :: "jtag_uart \<Rightarrow> u8 list" where
  "uart_queue u = map (\<lambda>i. rx u ((unat (rx_next u) + i) mod 64)) [0..<unat (rx_avail u)]"

lemma uart_queue_length [simp]: "length (uart_queue u) = unat (rx_avail u)"
  by (simp add: uart_queue_def)

lemma uart_queue_frame:
  "rx u' = rx u \<Longrightarrow> rx_avail u' = rx_avail u \<Longrightarrow> rx_next u' = rx_next u \<Longrightarrow> uart_queue u' = uart_queue u"
  by (simp add: uart_queue_def)

text \<open>The code wraps by comparing and subtracting; within the invariant that is \<open>mod 64\<close>.\<close>

lemma unat_rx_index:
  assumes "uart_inv u"
  shows "unat (rx_index u) = (unat (rx_next u) + unat (rx_avail u)) mod 64" "rx_index u < 64"
proof -
  have s: "unat (rx_next u + rx_avail u) = unat (rx_next u) + unat (rx_avail u)"
    using assms by (simp add: uart_inv_def unat_word_ariths)
  show e: "unat (rx_index u) = (unat (rx_next u) + unat (rx_avail u)) mod 64"
  proof (cases "64 \<le> rx_next u + rx_avail u")
    case True
    then have "unat (rx_index u) = unat (rx_next u) + unat (rx_avail u) - 64"
      using s by (simp add: rx_index_def unat_sub)
    moreover have "64 \<le> unat (rx_next u) + unat (rx_avail u)"
      using True s by (simp add: word_le_nat_alt)
    moreover have "unat (rx_next u) + unat (rx_avail u) - 64 < 64"
      using assms by (auto simp: uart_inv_def)
    ultimately show ?thesis
      by (simp add: le_mod_geq [of 64 "unat (rx_next u) + unat (rx_avail u)"])
  next
    case False
    with s show ?thesis by (simp add: rx_index_def word_le_nat_alt)
  qed
  have "unat (rx_index u) < 64" unfolding e by simp
  then show "rx_index u < 64" by (simp add: word_less_nat_alt)
qed

lemma uart_store:
  fixes x :: u8
  assumes "uart_inv u" "rx_avail u \<noteq> 64"
  defines "u' \<equiv> u\<lparr>rx := (rx u)(unat (rx_index u) := x), rx_avail := rx_avail u + 1\<rparr>"
  shows "uart_inv u' \<and> uart_queue u' = uart_queue u @ [x]"
proof -
  let ?a = "unat (rx_avail u)" and ?n = "unat (rx_next u)"
  have a: "?a < 64"
    using assms(1,2) by (auto simp: uart_inv_def le_less word_unat_eq_iff)
  have "unat (rx_avail u + 1) = Suc ?a"
    using a by (simp add: unat_word_ariths)
  moreover have "(?n + i) mod 64 \<noteq> (?n + ?a) mod 64" if "i < ?a" for i
  proof
    assume "(?n + i) mod 64 = (?n + ?a) mod 64"
    then have "64 dvd ?n + ?a - (?n + i)"
      using that mod_eq_dvd_iff_nat [of "?n + i" "?n + ?a" 64] by simp
    then have "64 dvd ?a - i" by simp
    with that a show False using dvd_imp_le [of 64 "?a - i"] by simp
  qed
  ultimately show ?thesis
    using a assms(1) unat_rx_index [OF assms(1)]
    by (simp add: u'_def uart_inv_def uart_queue_def)
qed

lemma uart_take:
  assumes "uart_inv u" "0 < rx_avail u"
  defines "u' \<equiv> u\<lparr>rx_avail := rx_avail u - 1,
                  rx_next := (if rx_next u + 1 < 64 then rx_next u + 1 else 0)\<rparr>"
  shows "uart_inv u' \<and> uart_queue u = rx u (unat (rx_next u)) # uart_queue u'"
proof -
  let ?a = "unat (rx_avail u)" and ?n = "unat (rx_next u)"
  have n: "?n < 64" "?a \<le> 64" using assms(1) by (auto simp: uart_inv_def)
  then have n1: "unat (rx_next u + 1) = Suc ?n"
    by (simp add: unat_word_ariths)
  have next': "unat (rx_next u') = Suc ?n mod 64"
  proof (cases "?n = 63")
    case True
    with n1 show ?thesis by (simp add: u'_def word_less_nat_alt)
  next
    case False
    with n n1 show ?thesis by (simp add: u'_def word_less_nat_alt)
  qed
  have avail': "unat (rx_avail u') = ?a - 1"
    using assms(2) by (simp add: u'_def unat_minus_1)
  obtain b where b: "?a = Suc b"
    using assms(2) by (metis gr0_implies_Suc unat_gt_0 word_gt_0)
  have "uart_queue u = map (\<lambda>i. rx u ((?n + i) mod 64)) (0 # map Suc [0..<b])"
    by (simp add: uart_queue_def b upt_conv_Cons map_Suc_upt del: upt_Suc)
  moreover have "(Suc ?n mod 64 + i) mod 64 = (?n + Suc i) mod 64" for i
    by (simp add: mod_simps)
  ultimately show ?thesis
    using n next' avail' b by (simp add: uart_inv_def uart_queue_def comp_def u'_def)
qed

text \<open>The data word of a register-0 read: RAVAIL above, RVALID at bit 15, the byte below.\<close>

lemma bit_one_iff': "bit (1 :: 'a::len word) n \<longleftrightarrow> n = 0"
  by (cases n) (simp_all add: bit_0 bit_Suc)

lemma uart_data_word:
  fixes c :: u8 and a :: u32 and v :: bool
  defines "w \<equiv> push_bit 16 a OR push_bit 15 (of_bool v) OR (ucast c AND 0xff)"
  shows "bit w 15 \<longleftrightarrow> v" "(ucast w :: u8) = c" "unat a \<le> 64 \<Longrightarrow> drop_bit 16 w = a"
proof -
  have m: "(0xff :: u32) = mask 8" by (simp add: mask_eq_exp_minus_1)
  have b: "bit w n \<longleftrightarrow> n < 32 \<and> (16 \<le> n \<and> bit a (n - 16) \<or> n = 15 \<and> v \<or> n < 8 \<and> bit c n)" for n
    unfolding w_def m by (auto simp: bit_simps bit_or_iff bit_one_iff')
  show "bit w 15 \<longleftrightarrow> v" by (simp add: b)
  show "(ucast w :: u8) = c"
    by (rule bit_word_eqI) (simp add: bit_ucast_iff b)
  assume "unat a \<le> 64"
  then have "bit a n \<Longrightarrow> n < 16" for n
    using bit_below [of a 16 n] by simp
  then show "drop_bit 16 w = a"
    by (intro bit_word_eqI) (auto simp: bit_drop_bit_eq b)
qed

section \<open>The UART as a channel\<close>

datatype uart_event = Tick int | Read u32 u32 | Write u32 u32 u32 | Bail

fun uart_step :: "uart_event \<Rightarrow> jtag_uart \<Rightarrow> jtag_uart res" where
  "uart_step (Tick c) u = uart_tick c u"
| "uart_step (Read a d) u = bind_res (uart_read a d u) (\<lambda>(u', _, _). Inr u')"
| "uart_step (Write a d be) u = bind_res (uart_write a d be u) (\<lambda>(u', _). Inr u')"
| "uart_step Bail u = Inr (uart_bail u)"

text \<open>
  What enters the ring (a key read by a tick that polls) and what the software receives (the
  low byte of a data word whose RVALID bit is set).
\<close>

fun uart_received :: "uart_event \<Rightarrow> jtag_uart \<Rightarrow> u8 list" where
  "uart_received (Tick c) u =
     (if took_over u \<and> rx_avail u \<noteq> 64 \<and> countdown u = 0 \<and> c \<noteq> -1 then [of_int c] else [])"
| "uart_received _ u = []"

fun uart_delivered :: "uart_event \<Rightarrow> jtag_uart \<Rightarrow> u8 list" where
  "uart_delivered (Read a d) u =
     (case uart_read a d u of
        Inl _ \<Rightarrow> []
      | Inr (u', w, ok) \<Rightarrow> if a = 0 \<and> bit w 15 then [ucast w] else [])"
| "uart_delivered _ u = []"

lemma uart_read_data:
  assumes "uart_inv u"
  shows "uart_read 0 d u =
    (case uart_queue u of
       [] \<Rightarrow> Inr (u, push_bit 16 0 OR push_bit 15 (of_bool False) OR (ucast (rx u (unat (rx_next u))) AND 0xff), True)
     | c # cs \<Rightarrow> Inr (u\<lparr>rx_avail := rx_avail u - 1,
           rx_next := (if rx_next u + 1 < 64 then rx_next u + 1 else 0)\<rparr>,
         push_bit 16 (rx_avail u - 1) OR push_bit 15 (of_bool True) OR (ucast c AND 0xff), True))"
proof -
  have n: "\<not> 64 \<le> rx_next u"
    using assms by (simp add: uart_inv_def word_le_nat_alt)
  show ?thesis
  proof (cases "0 < rx_avail u")
    case True
    with uart_take [OF assms True] show ?thesis
      by (simp only: uart_read_def n Let_def list.case refl if_True if_False) simp
  next
    case False
    then have "rx_avail u = 0" by (simp add: word_gt_0)
    moreover from this have "uart_queue u = []" by (simp add: uart_queue_def)
    ultimately show ?thesis
      by (simp only: uart_read_def n Let_def list.case refl if_True if_False) simp
  qed
qed

lemma uart_tick_law:
  assumes "uart_inv u"
  shows "\<exists>u'. uart_tick c u = Inr u' \<and> uart_inv u' \<and> ua_slave u' = ua_slave u
    \<and> uart_queue u' = uart_queue u @ uart_received (Tick c) u"
proof -
  have f: "uart_queue (u\<lparr>countdown := k, ctrl_ac := a\<rparr>) = uart_queue u"
    "uart_queue (u\<lparr>countdown := k\<rparr>) = uart_queue u" for k a
    by (rule uart_queue_frame; simp)+
  have g: "uart_queue (u\<lparr>countdown := k, rx := r, rx_avail := v, ctrl_ac := a\<rparr>)
      = uart_queue (u\<lparr>rx := r, rx_avail := v\<rparr>)" for k r v a
    by (rule uart_queue_frame) simp_all
  have "\<not> 64 \<le> rx_index u" using unat_rx_index(2) [OF assms] by simp
  then show ?thesis
    using assms uart_store [OF assms, of "of_int c"]
    by (auto simp: uart_tick_def Let_def f g word_gt_0) (auto simp: uart_inv_def)
qed

lemma uart_read_law:
  assumes "uart_inv u"
  shows "\<exists>u' w. uart_read a d u = Inr (u', w, True) \<and> uart_inv u' \<and> ua_slave u' = ua_slave u
    \<and> uart_queue u = uart_delivered (Read a d) u @ uart_queue u'"
proof (cases "a = 0")
  case True
  show ?thesis
  proof (cases "0 < rx_avail u")
    case False
    then have "rx_avail u = 0" by (simp add: word_gt_0)
    then have q: "uart_queue u = []" by (simp add: uart_queue_def)
    show ?thesis
      unfolding True uart_delivered.simps uart_read_data [OF assms] q
      by (simp only: list.case sum.case prod.case uart_data_word) (simp add: assms q)
  next
    case avail: True
    from uart_take [OF assms avail] obtain c where
      q: "uart_queue u = c # uart_queue (u\<lparr>rx_avail := rx_avail u - 1,
           rx_next := (if rx_next u + 1 < 64 then rx_next u + 1 else 0)\<rparr>)" and
      i: "uart_inv (u\<lparr>rx_avail := rx_avail u - 1,
           rx_next := (if rx_next u + 1 < 64 then rx_next u + 1 else 0)\<rparr>)" by blast
    show ?thesis
      unfolding True uart_delivered.simps uart_read_data [OF assms]
      by (subst (1 2 3) q) (simp only: list.case sum.case prod.case uart_data_word, simp add: i)
  qed
next
  case False
  then show ?thesis using assms by (simp add: uart_read_def)
qed

lemma uart_write_law:
  assumes "uart_inv u"
  shows "\<exists>u'. uart_write a d be u = Inr (u', True) \<and> uart_inv u' \<and> ua_slave u' = ua_slave u
    \<and> uart_queue u' = uart_queue u"
  using assms by (auto simp: uart_write_def Let_def uart_inv_def uart_queue_def)

lemma uart_release_frame:
  "uart_inv (uart_release u) = uart_inv u" "ua_slave (uart_release u) = ua_slave u"
  "uart_queue (uart_release u) = uart_queue u"
  by (auto simp: uart_release_def uart_inv_def uart_queue_def)

interpretation uart: word_device ua_slave uart_inv uart_read uart_write
proof unfold_locales
  fix u a w be
  assume "uart_inv u"
  then show "\<exists>u' w' ok. uart_read a w u = Inr (u', w', ok) \<and> uart_inv u' \<and> ua_slave u' = ua_slave u"
    and "\<exists>u' ok. uart_write a w be u = Inr (u', ok) \<and> uart_inv u' \<and> ua_slave u' = ua_slave u"
    using uart_read_law [of u a w] uart_write_law [of u a w be] by blast+
qed

interpretation uart_channel: fifo_channel "\<lambda>_ _. True" uart_step uart_inv uart_queue uart_received uart_delivered
proof unfold_locales
  fix u e
  assume i: "uart_inv u"
  show "\<exists>u'. uart_step e u = Inr u' \<and> uart_inv u'"
  proof (cases e)
    case (Tick c)
    with uart_tick_law [OF i, of c] show ?thesis by auto
  next
    case (Read a d)
    with uart_read_law [OF i, of a d] show ?thesis by auto
  next
    case (Write a d be)
    with uart_write_law [OF i, of a d be] show ?thesis by auto
  next
    case Bail
    with i show ?thesis by (simp add: uart_bail_def uart_release_frame)
  qed
next
  fix u e u'
  assume "uart_inv u" "uart_step e u = Inr u'"
  then show "uart_queue u @ uart_received e u = uart_delivered e u @ uart_queue u'"
  proof (cases e)
    case (Tick c)
    with \<open>uart_step e u = Inr u'\<close> uart_tick_law [OF \<open>uart_inv u\<close>, of c] show ?thesis by auto
  next
    case (Read a d)
    with \<open>uart_step e u = Inr u'\<close> uart_read_law [OF \<open>uart_inv u\<close>, of a d] show ?thesis
      by (auto simp del: uart_delivered.simps)
  next
    case (Write a d be)
    with \<open>uart_step e u = Inr u'\<close> uart_write_law [OF \<open>uart_inv u\<close>, of a d be] show ?thesis by auto
  next
    case Bail
    with \<open>uart_step e u = Inr u'\<close> show ?thesis by (auto simp: uart_bail_def uart_release_frame)
  qed
qed

section \<open>Properties\<close>

text \<open>
  The UART never loses, reorders or invents a character: from a freshly constructed device,
  whatever the interleaving of ticks, register accesses and bails, no ring access is out of
  bounds, at most 64 characters are waiting, and the characters accepted from the terminal, in
  order, are exactly the ones the software has received from valid data reads followed by the
  ones still queued.
\<close>

theorem uart_is_a_fifo:
  assumes "uart_init bas ring = Inr u"
  shows "\<exists>u'. run uart_step es u = Inr u' \<and> length (uart_queue u') \<le> 64
    \<and> emitted uart_received uart_step es u = emitted uart_delivered uart_step es u @ uart_queue u'"
proof -
  from assms have i: "uart_inv u" and q: "uart_queue u = []"
    by (auto simp: uart_init_def bind_res_Inr_iff uart_inv_def uart_queue_def)
  from uart_channel.run_safe [OF i legal_any] obtain u' where u': "run uart_step es u = Inr u'" "uart_inv u'"
    by blast
  with uart_channel.run_conserve [OF i legal_any u'(1)] q show ?thesis
    by (simp add: uart_inv_def)
qed

theorem uart_is_a_fifo_witness:
  "\<exists>u u'. uart_init 0x30000000 (\<lambda>_. 7) = Inr u \<and> run uart_step [Tick 65, Read 0 9] u = Inr u'
    \<and> length (uart_queue u') \<le> 64
    \<and> emitted uart_received uart_step [Tick 65, Read 0 9] u
      = emitted uart_delivered uart_step [Tick 65, Read 0 9] u @ uart_queue u'"
proof -
  obtain u where u: "uart_init 0x30000000 (\<lambda>_. 7) = Inr u"
    by (simp add: uart_init_def slave_init_def Let_def word_mask_def)
  from uart_is_a_fifo [OF u] u show ?thesis by blast
qed

text \<open>
  The data register: a read pops the oldest character, with RVALID (bit 15) set, the number
  of characters left after it in the high half and the character in the low byte; on an empty
  queue it changes nothing and RVALID and the count are clear (the low byte is stale).
\<close>

theorem uart_data_register:
  assumes "uart_inv u"
  shows "\<exists>u' w. uart_read 0 d u = Inr (u', w, True) \<and> uart_inv u'
    \<and> (case uart_queue u of
         [] \<Rightarrow> u' = u \<and> \<not> bit w 15 \<and> drop_bit 16 w = 0
       | c # cs \<Rightarrow> uart_queue u' = cs \<and> bit w 15 \<and> (ucast w :: u8) = c
           \<and> drop_bit 16 w = of_nat (length cs))"
proof -
  show ?thesis
  proof (cases "uart_queue u")
    case Nil
    show ?thesis
      unfolding uart_read_data [OF assms] Nil list.case
      by (intro exI conjI, rule refl, rule assms, rule refl)
        (simp_all only: uart_data_word not_False_eq_True unsigned_0 le0 zero_le)
  next
    case (Cons c cs)
    have "rx_avail u \<noteq> 0" using Cons by (auto simp: uart_queue_def)
    then have pos: "0 < rx_avail u" by (simp add: word_gt_0)
    from uart_take [OF assms pos] Cons
    have t: "uart_queue (u\<lparr>rx_avail := rx_avail u - 1,
           rx_next := (if rx_next u + 1 < 64 then rx_next u + 1 else 0)\<rparr>) = cs"
      "uart_inv (u\<lparr>rx_avail := rx_avail u - 1,
           rx_next := (if rx_next u + 1 < 64 then rx_next u + 1 else 0)\<rparr>)" by auto
    from t(1) have "unat (rx_avail u - 1) = length cs" by (metis uart_queue_length
        jtag_uart.select_convs(3) jtag_uart.surjective jtag_uart.update_convs(3,4))
    then have e: "rx_avail u - 1 = of_nat (length cs)"
      by (metis of_nat_unat ucast_id)
    have le: "unat (rx_avail u - 1) \<le> 64"
      using assms unat_minus_1 [OF pos] unfolding uart_inv_def by linarith
    show ?thesis
      unfolding uart_read_data [OF assms] Cons list.case
      by (intro exI conjI, rule refl, rule t(2), rule t(1))
        (simp_all only: uart_data_word uart_data_word(3) [OF le], rule e)
  qed
qed

theorem uart_data_register_witness:
  "\<exists>u u' w. uart_inv u \<and> uart_queue u = [65] \<and> uart_read 0 0 u = Inr (u', w, True) \<and> uart_inv u'
    \<and> uart_queue u' = [] \<and> bit w 15 \<and> (ucast w :: u8) = 65"
proof -
  let ?u = "\<lparr>ua_slave = \<lparr>sl_base = 0, sl_mask = NOT 7, sl_word = 2\<rparr>, countdown = 0, rx_avail = 1,
    rx_next = 63, ctrl_re = True, ctrl_we = False, ctrl_ac = True, took_over = True,
    rx = (\<lambda>_. 65), tty_out = [], endwins = 0\<rparr>"
  have i: "uart_inv ?u" by (simp add: uart_inv_def)
  have q: "uart_queue ?u = [65]" by (simp add: uart_queue_def)
  from uart_data_register [OF i, of 0] i q show ?thesis by auto
qed

lemma bit_control_word:
  fixes r w ri a y :: bool
  defines "c \<equiv> (push_bit 0 (of_bool r) OR push_bit 1 (of_bool w) OR push_bit 8 (of_bool ri)
      OR push_bit 9 (of_bool w) OR push_bit 10 (of_bool a) OR push_bit 12 (of_bool y)
      OR push_bit 16 63 :: u32)"
  shows "bit c 0 = r" "bit c 1 = w" "bit c 8 = ri" "bit c 9 = w" "bit c 10 = a" "bit c 12 = y"
  unfolding c_def bit_or_iff bit_push_bit_iff by (cases r; cases w; simp add: bit_0)+

text \<open>
  Interrupts and the control register: the line is raised exactly when write interrupts are
  enabled or read interrupts are enabled and a character is waiting; the two enables read back
  as written; and the activity bit is cleared only by writing it as 1 and set again by output.
\<close>

theorem uart_control_and_irq:
  "\<exists>u1 c. uart_write 1 d be u = Inr (u1, True) \<and> uart_read 1 x u1 = Inr (u1, c, True)
    \<and> bit c 0 = bit d 0 \<and> bit c 1 = bit d 1
    \<and> bit c 8 = (bit d 0 \<and> uart_queue u \<noteq> []) \<and> bit c 12 = (uart_queue u \<noteq> [])
    \<and> bit c 10 = (ctrl_ac u \<and> \<not> bit d 10)
    \<and> uart_irq u1 = (bit d 1 \<or> (bit d 0 \<and> uart_queue u \<noteq> []))
    \<and> (\<exists>u2. uart_write 0 y be u1 = Inr (u2, True) \<and> ctrl_ac u2
         \<and> tty_out u2 = tty_out u @ [ucast (y AND 0xff)])"
proof -
  have q: "uart_queue u \<noteq> [] \<longleftrightarrow> 0 < rx_avail u"
    by (simp add: uart_queue_def unat_eq_zero word_gt_0)
  let ?u1 = "u\<lparr>ctrl_re := flag d 0, ctrl_we := flag d 1,
      ctrl_ac := (ctrl_ac u \<and> \<not> flag d 10)\<rparr>"
  have w: "uart_write 1 d be u = Inr (?u1, True)"
    by (simp add: uart_write_def Let_def)
  show ?thesis
    by (intro exI conjI, rule w, simp only: uart_read_def one_neq_zero if_False refl if_True,
        simp_all only: bit_control_word q) 
       (simp_all add: flag_bit uart_irq_def uart_write_def q, simp_all)
qed

text \<open>
  \<open>release\<close> does not record that the terminal was given back: when the owner releases the
  UART and then destroys it, \<open>endwin\<close> runs twice and two newlines are printed.
\<close>

theorem uart_releases_twice:
  assumes "uart_takeover c u = Inr u1" "\<not> took_over u"
  shows "endwins (uart_destroy (uart_release u1)) = endwins u + 2
    \<and> tty_out (uart_destroy (uart_release u1)) = tty_out u @ [10, 10]"
  using assms by (auto simp: uart_takeover_def uart_destroy_def uart_release_def split: if_splits)

theorem uart_releases_twice_witness:
  "\<exists>u u1. uart_init 0x30000000 (\<lambda>_. 0) = Inr u
    \<and> uart_takeover \<lparr>initscr_ok = True, noecho_ok = True, nodelay_ok = True, cbreak_ok = True\<rparr> u = Inr u1
    \<and> endwins (uart_destroy (uart_release u1)) = 2 \<and> tty_out (uart_destroy (uart_release u1)) = [10, 10]"
proof -
  let ?c = "\<lparr>initscr_ok = True, noecho_ok = True, nodelay_ok = True, cbreak_ok = True\<rparr>"
  obtain u where u: "uart_init 0x30000000 (\<lambda>_. 0) = Inr u"
    by (simp add: uart_init_def slave_init_def Let_def word_mask_def)
  then have f: "\<not> took_over u" "endwins u = 0" "tty_out u = []"
    by (auto simp: uart_init_def bind_res_Inr_iff)
  then obtain u1 where u1: "uart_takeover ?c u = Inr u1" by (simp add: uart_takeover_def)
  from uart_releases_twice [OF u1 f(1)] u u1 f show ?thesis by auto
qed

end
