(* ===== verification/Avalon_Simple.thy ===== *)
theory Avalon_Simple
  imports Avalon_Slave
begin

text \<open>
  The three stateless devices: \<open>const_map\<close> (\<open>const.hpp\<close>, reads one constant everywhere and
  drops writes), \<open>null\<close> (\<open>null.hpp\<close>, completes every access and leaves read data as it was) and
  \<open>window\<close> (\<open>window.hpp\<close>, forwards the word operations to another device, whose operations are
  arguments here; its state is paired with the downstream device's).
\<close>

section \<open>Constants\<close>

record const_map =
  cm_slave :: slave
  cm_value :: u32

definition const_init :: "u32 \<Rightarrow> u32 \<Rightarrow> u32 \<Rightarrow> const_map res" where
  "const_init addr value siz =
     bind_res (slave_init addr siz 4) (\<lambda>s. Inr \<lparr>cm_slave = s, cm_value = value\<rparr>)"

definition const_read :: "const_map reader" where
  "const_read addr data c = Inr (c, cm_value c, True)"

definition const_write :: "const_map writer" where
  "const_write addr data byte_enable c = Inr (c, True)"

interpretation const: word_device cm_slave "\<lambda>_. True" const_read const_write
  by unfold_locales (auto simp: const_read_def const_write_def)

section \<open>The null device\<close>

record null_slave =
  nl_slave :: slave

definition null_init :: "u32 \<Rightarrow> u32 \<Rightarrow> u64 \<Rightarrow> null_slave res" where
  "null_init bas siz wsize = bind_res (slave_init bas siz wsize) (\<lambda>s. Inr \<lparr>nl_slave = s\<rparr>)"

definition null_read :: "null_slave reader" where
  "null_read addr data n = Inr (n, data, True)"

definition null_write :: "null_slave writer" where
  "null_write addr data byte_enable n = Inr (n, True)"

interpretation null: word_device nl_slave "\<lambda>_. True" null_read null_write
  by unfold_locales (auto simp: null_read_def null_write_def)

section \<open>Windows\<close>

record window =
  wn_slave :: slave

definition window_init :: "slave \<Rightarrow> u32 \<Rightarrow> window res" where
  "window_init downstream bas =
     bind_res (slave_init bas (address_span downstream) (word_size downstream))
       (\<lambda>s. Inr \<lparr>wn_slave = s\<rparr>)"

definition window_read :: "'s reader \<Rightarrow> (window \<times> 's) reader" where
  "window_read downstream addr data ws =
     bind_res (downstream addr data (snd ws)) (\<lambda>(s', d, ok). Inr ((fst ws, s'), d, ok))"

definition window_write :: "'s writer \<Rightarrow> (window \<times> 's) writer" where
  "window_write downstream addr data byte_enable ws =
     bind_res (downstream addr data byte_enable (snd ws)) (\<lambda>(s', ok). Inr ((fst ws, s'), ok))"

text \<open>A window on a device that meets the word contract meets it too.\<close>

context word_device
begin

lemma window_word_device:
  "word_device (wn_slave \<circ> fst) (\<lambda>ws. inv (snd ws)) (window_read rd) (window_write wr)"
proof unfold_locales
  fix ws :: "window \<times> 's" and a w be
  assume i: "inv (snd ws)"
  from read_law [OF i, of a w]
  show "\<exists>s' w' ok. window_read rd a w ws = Inr (s', w', ok) \<and> inv (snd s')
      \<and> (wn_slave \<circ> fst) s' = (wn_slave \<circ> fst) ws"
    by (auto simp: window_read_def)
  from write_law [OF i, of a w be]
  show "\<exists>s' ok. window_write wr a w be ws = Inr (s', ok) \<and> inv (snd s')
      \<and> (wn_slave \<circ> fst) s' = (wn_slave \<circ> fst) ws"
    by (auto simp: window_write_def)
qed

end

section \<open>Properties\<close>

text \<open>
  A constant mapping answers the bus at one address only, and only when its base is a multiple
  of 16: the interconnect presents 16-byte-aligned addresses, and the four-byte span of a constant
  whose base is not line-aligned contains none, so its decoder never selects it; a line-aligned
  one is selected exactly at its base.
\<close>

theorem const_map_reachable_only_when_line_aligned:
  assumes "const_init bas value 4 = Inr c" "addr AND 0b1111 = 0"
  shows "decodes (cm_slave c) addr \<longleftrightarrow> bas AND 0b1111 = 0 \<and> addr = bas"
proof -
  from assms(1) have s: "cm_slave c = \<lparr>sl_base = bas, sl_mask = NOT 3, sl_word = 2\<rparr>"
    and al: "bas AND 3 = 0"
    by (auto simp: const_init_def bind_res_Inr_iff slave_init_def Let_def word_mask_def split: if_splits)
  have m: "(3 :: u32) = mask 2" "(0b1111 :: u32) = mask 4" by (simp_all add: mask_eq_exp_minus_1)
  have a: "addr AND NOT (mask 2) = addr"
    using assms(2) unfolding m by (auto simp: bit_eq_iff bit_simps)
  show ?thesis
    using assms(2) a by (auto simp: decodes_def s m(1))
qed

theorem const_map_reachable_only_when_line_aligned_witness:
  "\<exists>c. const_init 0x40000004 7 4 = Inr c \<and> \<not> decodes (cm_slave c) 0x40000000"
proof -
  obtain c where c: "const_init 0x40000004 7 4 = Inr c"
    by (simp add: const_init_def slave_init_def Let_def word_mask_def)
  from const_map_reachable_only_when_line_aligned [OF c, of "0x40000000"] c show ?thesis
    by auto
qed

end
