(* ===== verification/Avalon_Sim_Slave.thy ===== *)
theory Avalon_Sim_Slave
  imports Avalon_Slave
begin

text \<open>
  The bridge to a bus slave simulated in the hardware model (\<open>sim_slave.hpp\<close>, \<open>sim_slave.cpp\<close>).
  \<open>verilated_slave\<close> holds the signals of \<open>sim_slave.sv\<close> the C++ side sees: it drives \<open>v_read\<close>,
  \<open>v_write\<close>, \<open>v_address\<close> and \<open>v_writedata\<close>, the hardware drives \<open>v_readdata\<close> and
  \<open>v_waitrequest\<close>. The constructor does not initialise \<open>latch\<close> and \<open>latch_readdata\<close>, so they
  are arguments of \<open>sim_slave_init\<close>.
\<close>

record verilated_slave =
  v_read :: bool
  v_write :: bool
  v_address :: u32
  v_writedata :: u32
  v_readdata :: u32
  v_waitrequest :: bool

record sim_slave =
  ss_slave :: slave
  ss_dev :: verilated_slave
  latch :: bool
  latch_readdata :: u32

definition sim_slave_init :: "verilated_slave \<Rightarrow> u32 \<Rightarrow> u32 \<Rightarrow> bool \<Rightarrow> u32 \<Rightarrow> sim_slave res" where
  "sim_slave_init dev bas siz l0 r0 =
     bind_res (slave_init bas siz 4) (\<lambda>s. Inr
       \<lparr>ss_slave = s, ss_dev = dev\<lparr>v_read := False, v_write := False\<rparr>, latch = l0,
        latch_readdata = r0\<rparr>)"

definition sim_tick :: "sim_slave \<Rightarrow> sim_slave" where
  "sim_tick s =
     (if latch s then s\<lparr>ss_dev := (ss_dev s)\<lparr>v_read := False, v_write := False\<rparr>\<rparr> else s)"

definition sim_tick_falling :: "sim_slave \<Rightarrow> sim_slave" where
  "sim_tick_falling s =
     (if (v_read (ss_dev s) \<or> v_write (ss_dev s)) \<and> \<not> v_waitrequest (ss_dev s)
      then s\<lparr>latch := True, latch_readdata := v_readdata (ss_dev s)\<rparr>
      else s)"

definition sim_read :: "sim_slave reader" where
  "sim_read addr data s =
     (if latch s then Inr (s\<lparr>latch := False\<rparr>, latch_readdata s, True)
      else if \<not> v_read (ss_dev s) \<and> \<not> v_write (ss_dev s)
      then Inr (s\<lparr>ss_dev := (ss_dev s)\<lparr>v_read := True, v_address := addr\<rparr>\<rparr>, data, False)
      else Inr (s, data, False))"

definition sim_write :: "sim_slave writer" where
  "sim_write addr data byte_enable s =
     (if latch s then Inr (s\<lparr>latch := False\<rparr>, True)
      else if \<not> v_read (ss_dev s) \<and> \<not> v_write (ss_dev s)
      then Inr (s\<lparr>ss_dev := (ss_dev s)\<lparr>v_write := True, v_address := addr, v_writedata := data\<rparr>\<rparr>, False)
      else Inr (s, False))"

interpretation sim: word_device ss_slave "\<lambda>_. True" sim_read sim_write
  by unfold_locales (auto simp: sim_read_def sim_write_def)

section \<open>The handshake\<close>

text \<open>
  One bus cycle of an access that the interconnect keeps asking for: the rising edge (\<open>tick\<close>,
  then the operation) and, when it answers \<open>False\<close>, the falling edge after the hardware has
  set its two signals (\<open>waitrequest\<close>, \<open>readdata\<close>). \<open>Inl\<close> carries the state to the next cycle,
  \<open>Inr\<close> the final state and the data.
\<close>

definition hw_drive :: "bool \<times> u32 \<Rightarrow> sim_slave \<Rightarrow> sim_slave" where
  "hw_drive h s = s\<lparr>ss_dev := (ss_dev s)\<lparr>v_waitrequest := fst h, v_readdata := snd h\<rparr>\<rparr>"

definition read_cycle :: "u32 \<Rightarrow> bool \<times> u32 \<Rightarrow> sim_slave \<Rightarrow> sim_slave + (sim_slave \<times> u32)" where
  "read_cycle addr h s =
     (case sim_read addr 0 (sim_tick s) of
        Inr (s', d, True) \<Rightarrow> Inr (s', d)
      | Inr (s', d, False) \<Rightarrow> Inl (sim_tick_falling (hw_drive h s'))
      | Inl _ \<Rightarrow> Inl s)"

definition write_cycle :: "u32 \<Rightarrow> u32 \<Rightarrow> bool \<times> u32 \<Rightarrow> sim_slave \<Rightarrow> sim_slave + sim_slave" where
  "write_cycle addr data h s =
     (case sim_write addr data 0b1111 (sim_tick s) of
        Inr (s', True) \<Rightarrow> Inr s'
      | Inr (s', False) \<Rightarrow> Inl (sim_tick_falling (hw_drive h s'))
      | Inl _ \<Rightarrow> Inl s)"

text \<open>The access over the hardware's answers; \<open>None\<close> while it is still waiting at their end.\<close>

fun read_access :: "u32 \<Rightarrow> (bool \<times> u32) list \<Rightarrow> sim_slave \<Rightarrow> (sim_slave \<times> u32) option" where
  "read_access addr [] s = None"
| "read_access addr (h # hs) s =
     (case read_cycle addr h s of Inr r \<Rightarrow> Some r | Inl s' \<Rightarrow> read_access addr hs s')"

fun write_access :: "u32 \<Rightarrow> u32 \<Rightarrow> (bool \<times> u32) list \<Rightarrow> sim_slave \<Rightarrow> sim_slave option" where
  "write_access addr data [] s = None"
| "write_access addr data (h # hs) s =
     (case write_cycle addr data h s of Inr r \<Rightarrow> Some r | Inl s' \<Rightarrow> write_access addr data hs s')"

definition sim_idle :: "sim_slave \<Rightarrow> bool" where
  "sim_idle s \<longleftrightarrow> \<not> latch s \<and> \<not> v_read (ss_dev s) \<and> \<not> v_write (ss_dev s)"

text \<open>The state while a read waits for the hardware.\<close>

definition reading :: "u32 \<Rightarrow> sim_slave \<Rightarrow> bool" where
  "reading addr s \<longleftrightarrow> \<not> latch s \<and> v_read (ss_dev s) \<and> \<not> v_write (ss_dev s) \<and> v_address (ss_dev s) = addr"

definition writing :: "u32 \<Rightarrow> u32 \<Rightarrow> sim_slave \<Rightarrow> bool" where
  "writing addr data s \<longleftrightarrow> \<not> latch s \<and> v_write (ss_dev s) \<and> \<not> v_read (ss_dev s)
     \<and> v_address (ss_dev s) = addr \<and> v_writedata (ss_dev s) = data"

lemmas sim_defs = sim_tick_def sim_tick_falling_def sim_read_def sim_write_def hw_drive_def

lemma read_cycle_wait:
  assumes "sim_idle s \<or> reading addr s"
  shows "\<exists>s'. read_cycle addr (True, r) s = Inl s' \<and> reading addr s' \<and> ss_slave s' = ss_slave s"
  using assms by (auto simp: read_cycle_def sim_defs sim_idle_def reading_def)

lemma read_cycle_grant:
  assumes "sim_idle s \<or> reading addr s"
  shows "\<exists>s'. read_cycle addr (False, r) s = Inl s' \<and> latch s' \<and> latch_readdata s' = r
    \<and> v_read (ss_dev s') \<and> v_address (ss_dev s') = addr \<and> ss_slave s' = ss_slave s"
  using assms by (auto simp: read_cycle_def sim_defs sim_idle_def reading_def)

lemma read_cycle_done:
  assumes "latch s"
  shows "\<exists>s'. read_cycle addr h s = Inr (s', latch_readdata s) \<and> sim_idle s' \<and> ss_slave s' = ss_slave s"
  using assms by (auto simp: read_cycle_def sim_defs sim_idle_def)

lemma write_cycle_wait:
  assumes "sim_idle s \<or> writing addr d s"
  shows "\<exists>s'. write_cycle addr d (True, r) s = Inl s' \<and> writing addr d s' \<and> ss_slave s' = ss_slave s"
  using assms by (auto simp: write_cycle_def sim_defs sim_idle_def writing_def)

lemma write_cycle_grant:
  assumes "sim_idle s \<or> writing addr d s"
  shows "\<exists>s'. write_cycle addr d (False, r) s = Inl s' \<and> latch s'
    \<and> v_write (ss_dev s') \<and> v_address (ss_dev s') = addr \<and> v_writedata (ss_dev s') = d
    \<and> ss_slave s' = ss_slave s"
  using assms by (auto simp: write_cycle_def sim_defs sim_idle_def writing_def)

lemma write_cycle_done:
  assumes "latch s"
  shows "\<exists>s'. write_cycle addr d h s = Inr s' \<and> sim_idle s' \<and> ss_slave s' = ss_slave s"
  using assms by (auto simp: write_cycle_def sim_defs sim_idle_def)

lemma read_access_waits:
  "sim_idle s \<or> reading addr s \<Longrightarrow> list_all fst ws \<Longrightarrow>
     \<exists>s'. read_access addr (ws @ rest) s = read_access addr rest s'
       \<and> (sim_idle s' \<or> reading addr s') \<and> ss_slave s' = ss_slave s"
proof (induction ws arbitrary: s)
  case Nil
  then show ?case by auto
next
  case (Cons w ws)
  obtain r where w: "w = (True, r)" using Cons.prems(2) by (cases w) auto
  from read_cycle_wait [OF Cons.prems(1), of r] obtain s1 where
    s1: "read_cycle addr w s = Inl s1" "reading addr s1" "ss_slave s1 = ss_slave s"
    unfolding w by blast
  from Cons.IH [of s1] s1(2) Cons.prems(2) s1 show ?case by auto
qed

lemma write_access_waits:
  "sim_idle s \<or> writing addr d s \<Longrightarrow> list_all fst ws \<Longrightarrow>
     \<exists>s'. write_access addr d (ws @ rest) s = write_access addr d rest s'
       \<and> (sim_idle s' \<or> writing addr d s') \<and> ss_slave s' = ss_slave s"
proof (induction ws arbitrary: s)
  case Nil
  then show ?case by auto
next
  case (Cons w ws)
  obtain r where w: "w = (True, r)" using Cons.prems(2) by (cases w) auto
  from write_cycle_wait [OF Cons.prems(1), of r] obtain s1 where
    s1: "write_cycle addr d w s = Inl s1" "writing addr d s1" "ss_slave s1 = ss_slave s"
    unfolding w by blast
  from Cons.IH [of s1] s1(2) Cons.prems(2) s1 show ?case by auto
qed

section \<open>Properties\<close>

text \<open>
  The read handshake: an access to an idle bridge completes in the cycle after the first
  falling edge at which the hardware does not ask to wait, however many cycles it waited before;
  the data is what the hardware drove at that edge, whatever it drives later, and the bridge is
  idle again with both request lines low.
\<close>

theorem sim_read_handshake:
  assumes "sim_idle s" "list_all fst waits"
  shows "\<exists>s'. read_access addr (waits @ (False, r) # h # rest) s = Some (s', r)
    \<and> sim_idle s' \<and> ss_slave s' = ss_slave s"
proof -
  from read_access_waits [OF disjI1 [OF assms(1)] assms(2)] obtain s1 where
    s1: "read_access addr (waits @ (False, r) # h # rest) s = read_access addr ((False, r) # h # rest) s1"
      "sim_idle s1 \<or> reading addr s1" "ss_slave s1 = ss_slave s" by blast
  from read_cycle_grant [OF s1(2), of r] obtain s2 where
    s2: "read_cycle addr (False, r) s1 = Inl s2" "latch s2" "latch_readdata s2 = r"
      "ss_slave s2 = ss_slave s1" by blast
  from read_cycle_done [OF s2(2), of addr h] obtain s3 where
    "read_cycle addr h s2 = Inr (s3, r)" "sim_idle s3" "ss_slave s3 = ss_slave s2"
    using s2(3) by blast
  with s1 s2 show ?thesis by auto
qed

definition sim_example :: sim_slave where
  "sim_example = \<lparr>ss_slave = \<lparr>sl_base = 0x30100000, sl_mask = NOT 31, sl_word = 2\<rparr>,
     ss_dev = \<lparr>v_read = False, v_write = False, v_address = 0, v_writedata = 0, v_readdata = 0,
       v_waitrequest = True\<rparr>, latch = False, latch_readdata = 0\<rparr>"

theorem sim_read_handshake_witness:
  "\<exists>s'. read_access 3 [(True, 1), (True, 2), (False, 42), (True, 9)] sim_example = Some (s', 42)
    \<and> sim_idle s' \<and> ss_slave s' = ss_slave sim_example"
  using sim_read_handshake [of sim_example "[(True, 1), (True, 2)]" 3 42 "(True, 9)" "[]"]
  by (simp add: sim_example_def sim_idle_def del: read_access.simps)

text \<open>
  The write handshake: a write to an idle bridge holds address and data on the request lines
  from its first cycle until the hardware stops asking to wait, then completes in the next cycle
  and leaves the bridge idle.
\<close>

theorem sim_write_handshake:
  assumes "sim_idle s" "list_all fst waits"
  shows "(\<exists>s'. write_access addr d (waits @ (False, r) # h # rest) s = Some s'
      \<and> sim_idle s' \<and> ss_slave s' = ss_slave s)
    \<and> (\<exists>s1. write_cycle addr d (True, r) s = Inl s1 \<and> writing addr d s1
      \<and> (\<forall>q. \<exists>s2. write_cycle addr d (True, q) s1 = Inl s2 \<and> writing addr d s2))"
proof -
  from write_access_waits [OF disjI1 [OF assms(1)] assms(2)] obtain s1 where
    s1: "write_access addr d (waits @ (False, r) # h # rest) s = write_access addr d ((False, r) # h # rest) s1"
      "sim_idle s1 \<or> writing addr d s1" "ss_slave s1 = ss_slave s" by blast
  from write_cycle_grant [OF s1(2), of r] obtain s2 where
    s2: "write_cycle addr d (False, r) s1 = Inl s2" "latch s2" "ss_slave s2 = ss_slave s1" by blast
  from write_cycle_done [OF s2(2), of addr d h] obtain s3 where
    "write_cycle addr d h s2 = Inr s3" "sim_idle s3" "ss_slave s3 = ss_slave s2" by blast
  moreover have "\<exists>s1. write_cycle addr d (True, r) s = Inl s1 \<and> writing addr d s1
      \<and> (\<forall>q. \<exists>s2. write_cycle addr d (True, q) s1 = Inl s2 \<and> writing addr d s2)"
    using write_cycle_wait assms(1) by blast
  ultimately show ?thesis using s1 s2 by auto
qed

theorem sim_write_handshake_witness:
  "(\<exists>s'. write_access 3 7 [(True, 1), (False, 42), (True, 9)] sim_example = Some s'
      \<and> sim_idle s' \<and> ss_slave s' = ss_slave sim_example)
    \<and> (\<exists>s1. write_cycle 3 7 (True, 42) sim_example = Inl s1 \<and> writing 3 7 s1)"
  using sim_write_handshake [of sim_example "[(True, 1)]" 3 7 42 "(True, 9)" "[]"]
  by (auto simp: sim_example_def sim_idle_def simp del: write_access.simps)

end
