(* ===== verification/Avalon_Intc.thy ===== *)
theory Avalon_Intc
  imports Avalon_Slave
begin

text \<open>
  The interrupt controller (\<open>class interrupt_controller\<close> and \<open>irq_lines\<close> of \<open>avalon.hpp\<close>,
  \<open>interrupt.cpp\<close>): a mask register over two lines, each a pointer to another device or null.
  A pointer is the number of the object it points to; the virtual call \<open>irq()\<close> through it is
  the argument \<open>irq_of\<close>.
\<close>

record irq_lines =
  line_timer :: "nat option"
  line_jtaguart :: "nat option"

record interrupt_controller =
  ic_slave :: slave
  irqs :: irq_lines
  ic_mask :: u32

definition intc_init :: "u32 \<Rightarrow> interrupt_controller res" where
  "intc_init bas =
     bind_res (slave_init bas 8 4) (\<lambda>s. Inr
       \<lparr>ic_slave = s, irqs = \<lparr>line_timer = None, line_jtaguart = None\<rparr>, ic_mask = 0\<rparr>)"

definition intc_status :: "(nat \<Rightarrow> bool) \<Rightarrow> interrupt_controller \<Rightarrow> u32" where
  "intc_status irq_of i =
     ((case line_timer (irqs i) of None \<Rightarrow> 0 | Some r \<Rightarrow> push_bit 0 (of_bool (irq_of r)))
      OR (case line_jtaguart (irqs i) of None \<Rightarrow> 0 | Some r \<Rightarrow> push_bit 1 (of_bool (irq_of r))))
     AND ic_mask i"

definition intc_read :: "(nat \<Rightarrow> bool) \<Rightarrow> interrupt_controller reader" where
  "intc_read irq_of addr data i = Inr (i,
     (if addr = 0 then intc_status irq_of i else if addr = 1 then ic_mask i else data), True)"

definition intc_write :: "interrupt_controller writer" where
  "intc_write addr data byte_enable i =
     Inr (if addr = 1 then i\<lparr>ic_mask := data\<rparr> else i, True)"

definition intc_irq :: "(nat \<Rightarrow> bool) \<Rightarrow> interrupt_controller \<Rightarrow> bool" where
  "intc_irq irq_of i \<longleftrightarrow> intc_status irq_of i \<noteq> 0"

interpretation intc: word_device ic_slave "\<lambda>_. True" "intc_read f" intc_write for f
  by unfold_locales (auto simp: intc_read_def intc_write_def)

lemma intc_irq_iff:
  "intc_irq f i \<longleftrightarrow>
     bit (ic_mask i) 0 \<and> (\<exists>r. line_timer (irqs i) = Some r \<and> f r)
     \<or> bit (ic_mask i) 1 \<and> (\<exists>r. line_jtaguart (irqs i) = Some r \<and> f r)"
proof -
  have z: "w = 0 \<longleftrightarrow> (\<forall>n. \<not> bit w n)" for w :: u32
    by (rule iffI, simp, rule bit_word_eqI, simp)
  have s: "bit (intc_status f i) n \<longleftrightarrow>
      (n = 0 \<and> (\<exists>r. line_timer (irqs i) = Some r \<and> f r)
       \<or> n = 1 \<and> (\<exists>r. line_jtaguart (irqs i) = Some r \<and> f r)) \<and> bit (ic_mask i) n" for n
    by (auto simp: intc_status_def bit_and_iff bit_or_iff bit_push_bit_iff bit_of_bool_iff bit_2_iff split: option.splits)
  show ?thesis by (auto simp: intc_irq_def z s)
qed

end
