(* ===== verification/Float_Round.thy ===== *)
theory Float_Round
  imports Prelude Complex_Main
begin

text \<open>
  IEEE 754 round-to-nearest-even on rationals, for the places where the code computes with
  \<open>float\<close>, \<open>double\<close> and \<open>_Float16\<close>: a value is the rational it denotes, and every arithmetic
  operation is the exact one followed by a rounding to \<open>p\<close> significant bits with smallest
  quantum \<open>2 ^ emin\<close>. Overflow to infinity is left to the caller.
\<close>

section \<open>Rounding\<close>

definition pow2r :: "int \<Rightarrow> rat" where
  "pow2r e = (if 0 \<le> e then 2 ^ nat e else 1 / 2 ^ nat (- e))"

function int_log2 :: "int \<Rightarrow> int" where
  "int_log2 n = (if n < 2 then 0 else 1 + int_log2 (n div 2))"
  by pat_completeness auto
termination by (relation "measure nat") auto

declare int_log2.simps [simp del]

text \<open>The exponent of a positive rational: the greatest \<open>e\<close> with \<open>2 ^ e \<le> x\<close>.\<close>

definition rat_log2 :: "rat \<Rightarrow> int" where
  "rat_log2 x =
     (let (a, b) = quotient_of x;
          e = int_log2 a - int_log2 b
      in if x < pow2r e then e - 1 else e)"

definition round_even :: "rat \<Rightarrow> int" where
  "round_even x =
     (let f = floor x; r = x - of_int f in
      if r < 1 / 2 then f
      else if 1 / 2 < r then f + 1
      else if even f then f else f + 1)"

definition round_float :: "int \<Rightarrow> int \<Rightarrow> rat \<Rightarrow> rat" where
  "round_float p emin x =
     (if x = 0 then 0
      else let q = pow2r (max (rat_log2 \<bar>x\<bar> - (p - 1)) emin)
           in of_int (round_even (x / q)) * q)"

definition f32 :: "rat \<Rightarrow> rat" where
  "f32 = round_float 24 (-149)"

definition f64 :: "rat \<Rightarrow> rat" where
  "f64 = round_float 53 (-1074)"

section \<open>Laws of the rounding\<close>

lemma pow2r_pos [simp]: "0 < pow2r e"
  by (simp add: pow2r_def)

lemma pow2r_nonzero [simp]: "pow2r e \<noteq> 0"
  by (rule less_imp_neq [THEN not_sym]) simp

lemma pow2r_0 [simp]: "pow2r 0 = 1"
  by (simp add: pow2r_def)

lemma round_even_int [simp]: "round_even (of_int n) = n"
  by (simp add: round_even_def)

lemma round_even_error: "\<bar>of_int (round_even x) - x\<bar> \<le> 1 / 2"
proof -
  have "of_int (floor x) \<le> x" "x < of_int (floor x) + 1"
    by linarith+
  then show ?thesis
    by (auto simp: round_even_def Let_def abs_le_iff)
qed

lemma round_even_mono: "x \<le> y \<Longrightarrow> round_even x \<le> round_even y"
proof (cases "floor x = floor y")
  case True
  assume "x \<le> y"
  with True show ?thesis by (auto simp: round_even_def Let_def)
next
  case False
  assume le: "x \<le> y"
  then have "floor x < floor y" using False floor_mono [OF le] by simp
  then have "floor x + 1 \<le> floor y" by simp
  moreover have "round_even x \<le> floor x + 1" by (simp add: round_even_def Let_def)
  moreover have "floor y \<le> round_even y" by (simp add: round_even_def Let_def)
  ultimately show ?thesis by linarith
qed

text \<open>The rounding error is at most half a quantum.\<close>

lemma round_float_error:
  "\<exists>q. q = pow2r (max (rat_log2 \<bar>x\<bar> - (p - 1)) emin) \<and> \<bar>round_float p emin x - x\<bar> \<le> q / 2"
proof (cases "x = 0")
  case False
  let ?q = "pow2r (max (rat_log2 \<bar>x\<bar> - (p - 1)) emin)"
  have "of_int (round_even (x / ?q)) * ?q - x = (of_int (round_even (x / ?q)) - x / ?q) * ?q"
    by (simp add: field_simps)
  then have "\<bar>of_int (round_even (x / ?q)) * ?q - x\<bar> = \<bar>of_int (round_even (x / ?q)) - x / ?q\<bar> * ?q"
    by (simp only: abs_mult abs_of_pos [OF pow2r_pos])
  also have "\<dots> \<le> 1 / 2 * ?q"
    by (intro mult_right_mono round_even_error) (simp add: less_imp_le)
  finally show ?thesis using False by (simp add: round_float_def Let_def)
qed (simp add: round_float_def less_imp_le)

lemma round_float_0 [simp]: "round_float p emin 0 = 0"
  by (simp add: round_float_def)

end
