(* ===== verification/Vga_Display.thy ===== *)
theory Vga_Display
  imports Avalon_Slave Component_Laws Float_Round
begin

text \<open>
  The display (\<open>vga.hpp\<close>, \<open>vga.impl.hpp\<close>): a frame buffer on the bus (\<open>write\<close>, \<open>tick\<close>) and a
  signal-level monitor (\<open>signal_tick\<close>) that measures the sync pulses of the simulated CRTC,
  guesses the video mode and paints pixels. SDL is outside the repository: what its calls
  return is the record \<open>sdl\<close>, the events it delivers are a list, and of its effects the model
  keeps the window's existence, the length of its surface in pixels and the pixels themselves.
  \<open>unsigned\<close> fields are 32-bit words; the mode pointer is an optional copy of the table entry.
\<close>

section \<open>Video modes\<close>

record timings =
  t_active :: u32
  front_porch :: u32
  t_sync :: u32
  back_porch :: u32

record video_mode =
  pixel_clk :: u32
  mode_h :: timings
  mode_v :: timings

definition timings_of :: "u32 \<Rightarrow> u32 \<Rightarrow> u32 \<Rightarrow> u32 \<Rightarrow> timings" where
  "timings_of a f s b = \<lparr>t_active = a, front_porch = f, t_sync = s, back_porch = b\<rparr>"

definition video_mode_of :: "u32 \<Rightarrow> timings \<Rightarrow> timings \<Rightarrow> video_mode" where
  "video_mode_of c h v = \<lparr>pixel_clk = c, mode_h = h, mode_v = v\<rparr>"

definition MODES :: "video_mode list" where
  "MODES =
    [video_mode_of 25175000 (timings_of  640 16  96  48) (timings_of 480 11 2 31),
     video_mode_of 31500000 (timings_of  640 24  40 128) (timings_of 480  9 3 28),
     video_mode_of 31500000 (timings_of  640 16  96  48) (timings_of 480 11 2 32),
     video_mode_of 36000000 (timings_of  640 32  48 112) (timings_of 480  1 3 25),
     video_mode_of 38100000 (timings_of  800 32 128 128) (timings_of 600  1 4 14),
     video_mode_of 40000000 (timings_of  800 40 128  88) (timings_of 600  1 4 23),
     video_mode_of 50000000 (timings_of  800 56 120  64) (timings_of 600 37 6 23),
     video_mode_of 49500000 (timings_of  800 16  80 160) (timings_of 600  1 2 21),
     video_mode_of 56250000 (timings_of  800 32  64 152) (timings_of 600  1 3 27),
     video_mode_of 65000000 (timings_of 1024 24 136 160) (timings_of 768  3 6 29),
     video_mode_of 75000000 (timings_of 1024 24 136 144) (timings_of 768  3 6 29),
     video_mode_of 78750000 (timings_of 1024 16  96 176) (timings_of 768  1 3 28),
     video_mode_of 94500000 (timings_of 1024 48  96 208) (timings_of 768  1 3 36)]"

definition total :: "timings \<Rightarrow> u32" where
  "total t = t_active t + front_porch t + t_sync t + back_porch t"

section \<open>State\<close>

record display =
  vg_slave :: slave
  ticks :: u32
  refresh_ticks :: u32
  max_addr :: u32
  vg_window :: bool
  vg_mode :: "video_mode option"
  row :: u32
  col :: u32
  hsync_lo :: u32
  hsync_hi :: u32
  vsync_hi :: u32
  vsync_lo :: u32
  last_hsync :: bool
  last_vsync :: bool
  found_line :: bool
  clock_hz :: u32
  keys :: "nat \<Rightarrow> bool"
  surf_len :: nat
  pixels :: "nat \<Rightarrow> u32"

record crtc =
  vga_hsync :: bool
  vga_vsync :: bool
  vga_r :: u8
  vga_g :: u8
  vga_b :: u8

record sdl =
  video_was_init :: bool
  init_ok :: bool
  window_ok :: bool
  surface_ok :: bool
  format_rgb888 :: bool

datatype sdl_event = Key_Down int | Key_Up int | Other_Event

text \<open>\<open>static_cast<float>(bus_hz) / pixel_clk * dots * lines\<close>, each step rounded, truncated.\<close>

definition refresh_of :: "u32 \<Rightarrow> video_mode \<Rightarrow> u32" where
  "refresh_of bus_hz m =
     of_int \<lfloor>f32 (f32 (f32 (f32 (of_int (uint bus_hz)) / f32 (of_int (uint (pixel_clk m))))
                       * f32 (of_int (uint (total (mode_h m)))))
                  * f32 (of_int (uint (total (mode_v m)))))\<rfloor>"

definition display_init :: "u32 \<Rightarrow> u32 \<Rightarrow> u32 \<Rightarrow> display res" where
  "display_init bas clk bus_hz =
     bind_res (slave_init bas (push_bit 20 64) 4) (\<lambda>s.
       let d = \<lparr>vg_slave = s, ticks = 0, refresh_ticks = 0, max_addr = 0, vg_window = False,
                vg_mode = None, row = 0, col = 0, hsync_lo = 0, hsync_hi = 0, vsync_hi = 0,
                vsync_lo = 0, last_hsync = False, last_vsync = False, found_line = False,
                clock_hz = clk, keys = (\<lambda>_. False), surf_len = 0, pixels = (\<lambda>_. 0)\<rparr>
       in if 0 < bus_hz
          then let m = MODES ! 0; r = refresh_of bus_hz m
               in Inr (d\<lparr>vg_mode := Some m,
                          max_addr := t_active (mode_h m) * t_active (mode_v m),
                          refresh_ticks := r, ticks := r - 1\<rparr>)
          else Inr d)"

section \<open>The window\<close>

definition surface_size :: "video_mode \<Rightarrow> nat" where
  "surface_size m = unat (t_active (mode_h m)) * unat (t_active (mode_v m))"

definition update_window :: "sdl \<Rightarrow> display \<Rightarrow> display res" where
  "update_window e d =
     (case vg_mode d of
        None \<Rightarrow> Inr (if vg_window d then d\<lparr>vg_window := False\<rparr> else d)
      | Some m \<Rightarrow>
          if vg_window d then Inr d
          else if \<not> video_was_init e \<and> \<not> init_ok e then Inl Assert_Failure
          else if \<not> window_ok e then Inl Assert_Failure
          else Inr (d\<lparr>vg_window := True, surf_len := surface_size m, pixels := (\<lambda>_. 0)\<rparr>))"

definition display_destroy :: "sdl \<Rightarrow> display \<Rightarrow> display res" where
  "display_destroy e d = update_window e (d\<lparr>vg_mode := None\<rparr>)"

section \<open>Bus side\<close>

definition display_tick :: "sdl \<Rightarrow> display \<Rightarrow> display res" where
  "display_tick e d =
     (let d1 = d\<lparr>ticks := ticks d + 1\<rparr> in
      if ticks d1 = refresh_ticks d1
      then let d2 = d1\<lparr>ticks := 0\<rparr> in if \<not> vg_window d2 then update_window e d2 else Inr d2
      else Inr d1)"

definition display_read :: "display reader" where
  "display_read addr data d = Inr (d, data, True)"

definition store_pixel :: "nat \<Rightarrow> u32 \<Rightarrow> display \<Rightarrow> display res" where
  "store_pixel i v d =
     (if i < surf_len d then Inr (d\<lparr>pixels := (pixels d)(i := v)\<rparr>) else Inl Out_Of_Bounds)"

definition display_write :: "sdl \<Rightarrow> display writer" where
  "display_write e addr data byte_enable d =
     (if \<not> vg_window d \<or> vg_mode d = None then Inr (d, True)
      else if \<not> surface_ok e then Inr (d, True)
      else if addr < max_addr d
      then bind_res (store_pixel (unat addr) data d) (\<lambda>d'. Inr (d', True))
      else Inr (d, True))"

section \<open>Signal side\<close>

definition put_pixel :: "sdl \<Rightarrow> crtc \<Rightarrow> display \<Rightarrow> display res" where
  "put_pixel e c d =
     (case vg_mode d of
        None \<Rightarrow> Inr d
      | Some m \<Rightarrow>
          let start_h = t_sync (mode_h m) + back_porch (mode_h m);
              start_v = t_sync (mode_v m) + back_porch (mode_v m)
          in if col d < start_h \<or> start_h + t_active (mode_h m) \<le> col d
                \<or> row d < start_v \<or> start_v + t_active (mode_v m) \<le> row d
             then Inr d
             else if \<not> vg_window d \<or> \<not> surface_ok e then Inr d
             else if \<not> format_rgb888 e then Inl Assert_Failure
             else store_pixel
                    (unat ((row d - start_v) * t_active (mode_h m) + (col d - start_h)))
                    (push_bit 16 (ucast (vga_r c) AND 0xff) OR push_bit 8 (ucast (vga_g c) AND 0xff)
                      OR (ucast (vga_b c) AND 0xff)) d)"

definition move_pos :: "crtc \<Rightarrow> display \<Rightarrow> display" where
  "move_pos c d =
     (case vg_mode d of
        None \<Rightarrow>
          if found_line d
          then let col' = col d + 1
               in d\<lparr>col := (if hsync_lo d + hsync_hi d \<le> col' then 0 else col')\<rparr>
          else d
      | Some m \<Rightarrow>
          let dots = total (mode_h m);
              lines = total (mode_v m);
              d1 = (if col d + 1 \<noteq> t_sync (mode_h m) \<or> (\<not> last_hsync d \<and> vga_hsync c)
                    then let col' = col d + 1 in
                      if dots \<le> col' then
                        (if row d + 1 \<noteq> t_sync (mode_v m)
                         then let row' = row d + 1
                              in d\<lparr>col := 0, row := (if lines \<le> row' then 0 else row')\<rparr>
                         else d\<lparr>col := 0\<rparr>)
                      else d\<lparr>col := col'\<rparr>
                    else d)
          in if \<not> last_vsync d \<and> vga_vsync c then d1\<lparr>row := row d1 + 1\<rparr> else d1)"

definition signal_lost :: "sdl \<Rightarrow> display \<Rightarrow> display res" where
  "signal_lost e d =
     update_window e (d\<lparr>vg_mode := None, row := 0, col := 0, hsync_lo := 0, hsync_hi := 0,
       vsync_lo := 0, vsync_hi := 0, found_line := False\<rparr>)"

text \<open>
  The differences are over \<open>int\<close>: the measured counters are read as signed 32-bit values, as the
  casts do (the subtraction overflows only for counters near \<open>2 ^ 31\<close>).
\<close>

definition timings_match :: "display \<Rightarrow> video_mode \<Rightarrow> bool" where
  "timings_match d m \<longleftrightarrow>
     (let dots = sint (t_active (mode_h m) + front_porch (mode_h m) + back_porch (mode_h m));
          lines = sint (t_active (mode_v m) + front_porch (mode_v m) + back_porch (mode_v m))
      in \<bar>dots - sint (hsync_hi d)\<bar> \<le> 2 \<and> \<bar>lines - sint (vsync_hi d)\<bar> \<le> 2
       \<and> \<bar>sint (hsync_lo d) - sint (t_sync (mode_h m))\<bar> \<le> 2
       \<and> \<bar>sint (vsync_lo d) - sint (t_sync (mode_v m))\<bar> \<le> 2)"

definition clock_close :: "u32 \<Rightarrow> video_mode \<Rightarrow> bool" where
  "clock_close clk m \<longleftrightarrow>
     (let actual = f32 (of_int (uint clk)); expected = f32 (of_int (uint (pixel_clk m)))
      in \<bar>f32 (f32 (expected - actual) / expected)\<bar> < f64 (2 / 100))"

definition best_mode :: "display \<Rightarrow> video_mode option" where
  "best_mode d = find (\<lambda>m. timings_match d m \<and> clock_close (clock_hz d) m) MODES"

definition guess_mode :: "sdl \<Rightarrow> display \<Rightarrow> display res" where
  "guess_mode e d =
     (if (case vg_mode d of None \<Rightarrow> False | Some m \<Rightarrow> timings_match d m) then Inr d
      else bind_res (update_window e (d\<lparr>vg_mode := best_mode d\<rparr>)) (\<lambda>d1.
        Inr (case vg_mode d1 of
               None \<Rightarrow> d1
             | Some m \<Rightarrow> if vg_window d1 then d1\<lparr>surf_len := surface_size m\<rparr> else d1)))"

definition reset_syncs :: "display \<Rightarrow> display" where
  "reset_syncs d =
     d\<lparr>hsync_lo := 0, hsync_hi := 0, vsync_lo := 0, vsync_hi := 0, found_line := False\<rparr>"

text \<open>
  \<open>scan_syncs\<close> and \<open>scan_vsync\<close> call each other; the call back to \<open>scan_syncs\<close> comes after the
  counters have been reset, where it takes the first branch.
\<close>

function scan_syncs :: "sdl \<Rightarrow> crtc \<Rightarrow> display \<Rightarrow> display res"
  and scan_vsync :: "sdl \<Rightarrow> crtc \<Rightarrow> display \<Rightarrow> display res" where
  "scan_syncs e c d =
     (if hsync_lo d = 0 then
        Inr (d\<lparr>hsync_lo := hsync_lo d + of_bool (last_hsync d \<and> \<not> vga_hsync c)\<rparr>)
      else if hsync_hi d = 0 then
        (if vga_hsync c then scan_vsync e c d else Inr (d\<lparr>hsync_lo := hsync_lo d + 1\<rparr>))
      else scan_vsync e c d)"
| "scan_vsync e c d =
     (if found_line d \<and> vga_hsync c \<noteq> (hsync_lo d \<le> col d) then signal_lost e d
      else if \<not> found_line d then
        (if vga_hsync c then Inr (d\<lparr>hsync_hi := hsync_hi d + 1\<rparr>)
         else Inr (d\<lparr>found_line := True\<rparr>))
      else if vsync_lo d = 0 then
        Inr (d\<lparr>vsync_lo := vsync_lo d + of_bool (last_vsync d \<and> \<not> vga_vsync c)\<rparr>)
      else if last_hsync d \<and> \<not> vga_hsync c then
        (if vga_vsync c then Inr (d\<lparr>vsync_hi := vsync_hi d + 1\<rparr>)
         else if vsync_hi d = 0 then Inr (d\<lparr>vsync_lo := vsync_lo d + 1\<rparr>)
         else bind_res (guess_mode e d) (\<lambda>d1. scan_syncs e c (reset_syncs d1)))
      else Inr d)"
  by pat_completeness auto
termination
  by (relation "measure (\<lambda>x. case x of Inl (e, c, d) \<Rightarrow> if hsync_lo d = 0 then 0 else 2
                                     | Inr (e, c, d) \<Rightarrow> 1)")
    (auto simp: reset_syncs_def)

declare scan_syncs.simps [simp del] scan_vsync.simps [simp del]

text \<open>The key of an event: \<open>SDLK_1\<close> to \<open>SDLK_4\<close> are the character codes 49 to 52.\<close>

fun key_index :: "int \<Rightarrow> nat option" where
  "key_index k =
     (if k = 49 then Some 0 else if k = 50 then Some 1 else if k = 51 then Some 2
      else if k = 52 then Some 3 else None)"

fun handle_event :: "sdl_event \<Rightarrow> (nat \<Rightarrow> bool) \<Rightarrow> (nat \<Rightarrow> bool)" where
  "handle_event (Key_Down k) ks = (case key_index k of None \<Rightarrow> ks | Some i \<Rightarrow> ks(i := False))"
| "handle_event (Key_Up k) ks = (case key_index k of None \<Rightarrow> ks | Some i \<Rightarrow> ks(i := True))"
| "handle_event Other_Event ks = ks"

definition signal_tick :: "sdl \<Rightarrow> crtc \<Rightarrow> sdl_event list \<Rightarrow> bool \<Rightarrow> display \<Rightarrow> display res" where
  "signal_tick e c evs clk d =
     (if \<not> clk then Inr d
      else
        bind_res (put_pixel e c d) (\<lambda>d1.
        bind_res (scan_syncs e c (move_pos c d1)) (\<lambda>d2.
        Inr (d2\<lparr>last_hsync := vga_hsync c, last_vsync := vga_vsync c,
                keys := fold handle_event evs (keys d2)\<rparr>))))"

definition display_key :: "nat \<Rightarrow> display \<Rightarrow> bool res" where
  "display_key index d = (if index < 4 then Inr (keys d index) else Inl Out_Of_Bounds)"

section \<open>Invariant\<close>

text \<open>
  An open window shows a mode of the table with a surface of its size, and the frame buffer's
  bound never exceeds the smallest surface (640 by 480).
\<close>

definition display_inv :: "display \<Rightarrow> bool" where
  "display_inv d \<longleftrightarrow>
     (\<forall>m. vg_mode d = Some m \<longrightarrow> m \<in> set MODES)
     \<and> (vg_window d \<longrightarrow> (\<exists>m. vg_mode d = Some m \<and> surf_len d = surface_size m))
     \<and> max_addr d \<le> 307200"

text \<open>SDL can open the window and gives it a 32-bit RGB surface.\<close>

definition healthy :: "sdl \<Rightarrow> bool" where
  "healthy e \<longleftrightarrow> (video_was_init e \<or> init_ok e) \<and> window_ok e \<and> format_rgb888 e"

lemma MODES_bounds:
  "m \<in> set MODES \<Longrightarrow> 307200 \<le> surface_size m
    \<and> unat (t_active (mode_h m)) \<le> 1024 \<and> unat (t_active (mode_v m)) \<le> 768
    \<and> unat (t_sync (mode_h m)) + unat (back_porch (mode_h m)) \<le> 1024
    \<and> unat (t_sync (mode_v m)) + unat (back_porch (mode_v m)) \<le> 1024"
  by (simp add: MODES_def surface_size_def video_mode_of_def timings_of_def) (elim disjE; simp)

lemma window_offset:
  fixes x a n :: u32
  assumes "\<not> (x < a \<or> a + n \<le> x)" "unat a + unat n < 2 ^ 32"
  shows "unat (x - a) < unat n"
proof -
  have "unat (a + n) = unat a + unat n" using assms(2) by (simp add: unat_word_ariths)
  then show ?thesis
    using assms(1) by (simp add: word_less_nat_alt word_le_nat_alt unat_sub not_less not_le) linarith
qed

lemma pixel_index:
  fixes r c w :: u32
  assumes "unat r < h" "unat c < unat w" "h \<le> 768" "unat w \<le> 1024"
  shows "unat (r * w + c) = unat r * unat w + unat c" "unat (r * w + c) < unat w * h"
proof -
  have "unat r * unat w + unat c < Suc (unat r) * unat w" using assms(2) by simp
  also have "\<dots> \<le> h * unat w" using assms(1) by (intro mult_right_mono) auto
  finally have lt: "unat r * unat w + unat c < h * unat w" .
  have "h * unat w \<le> 768 * 1024" using assms(3,4) by (intro mult_mono) auto
  then have "unat r * unat w + unat c < 2 ^ 32" using lt by simp
  then show e: "unat (r * w + c) = unat r * unat w + unat c"
    by (simp add: unat_word_ariths)
  with lt show "unat (r * w + c) < unat w * h" by (simp add: mult.commute)
qed

lemma put_pixel_law:
  assumes "display_inv d" "healthy e"
  shows "\<exists>d'. put_pixel e c d = Inr d' \<and> display_inv d' \<and> vg_slave d' = vg_slave d"
proof (cases "vg_mode d")
  case None
  with assms show ?thesis by (simp add: put_pixel_def)
next
  case (Some m)
  then have m: "m \<in> set MODES" using assms(1) by (simp add: display_inv_def)
  let ?sh = "t_sync (mode_h m) + back_porch (mode_h m)" and ?sv = "t_sync (mode_v m) + back_porch (mode_v m)"
  have sums: "unat ?sh + unat (t_active (mode_h m)) < 2 ^ 32" "unat ?sv + unat (t_active (mode_v m)) < 2 ^ 32"
    using MODES_bounds [OF m] by (simp_all add: unat_word_ariths)
  show ?thesis
  proof (cases "col d < ?sh \<or> ?sh + t_active (mode_h m) \<le> col d \<or> row d < ?sv
      \<or> ?sv + t_active (mode_v m) \<le> row d \<or> \<not> vg_window d \<or> \<not> surface_ok e")
    case True
    with Some assms show ?thesis by (auto simp: put_pixel_def Let_def)
  next
    case False
    have "unat (col d - ?sh) < unat (t_active (mode_h m))" "unat (row d - ?sv) < unat (t_active (mode_v m))"
      using False sums by (intro window_offset; blast)+
    then have "unat ((row d - ?sv) * t_active (mode_h m) + (col d - ?sh)) < surface_size m"
      using pixel_index(2) MODES_bounds [OF m] by (simp add: surface_size_def)
    moreover have "surf_len d = surface_size m"
      using False Some assms(1) by (auto simp: display_inv_def)
    ultimately show ?thesis
      using False Some assms by (auto simp: put_pixel_def Let_def store_pixel_def healthy_def display_inv_def)
  qed
qed

lemma update_window_law:
  assumes "\<And>m. vg_mode d = Some m \<Longrightarrow> m \<in> set MODES" "max_addr d \<le> 307200" "healthy e"
    and "vg_window d \<Longrightarrow> vg_mode d \<noteq> None \<Longrightarrow> display_inv d"
  shows "\<exists>d'. update_window e d = Inr d' \<and> display_inv d' \<and> vg_slave d' = vg_slave d"
  using assms by (cases "vg_mode d") (auto simp: update_window_def display_inv_def healthy_def)

lemma display_inv_frame:
  "vg_mode d' = vg_mode d \<Longrightarrow> vg_window d' = vg_window d \<Longrightarrow> surf_len d' = surf_len d \<Longrightarrow>
     max_addr d' = max_addr d \<Longrightarrow> display_inv d' = display_inv d"
  by (simp add: display_inv_def)

lemma signal_lost_law:
  assumes "display_inv d" "healthy e"
  shows "\<exists>d'. signal_lost e d = Inr d' \<and> display_inv d' \<and> vg_slave d' = vg_slave d"
  unfolding signal_lost_def
  using update_window_law [of "d\<lparr>vg_mode := None, row := 0, col := 0, hsync_lo := 0, hsync_hi := 0,
       vsync_lo := 0, vsync_hi := 0, found_line := False\<rparr>" e] assms
  by (auto simp: display_inv_def)

lemma best_mode_in_MODES: "best_mode d = Some m \<Longrightarrow> m \<in> set MODES"
  by (auto simp: best_mode_def find_Some_iff)

text \<open>A change of mode re-sizes an open window's surface, so the invariant survives.\<close>

lemma guess_mode_law:
  assumes "display_inv d" "healthy e"
  shows "\<exists>d'. guess_mode e d = Inr d' \<and> display_inv d' \<and> vg_slave d' = vg_slave d"
proof (cases "case vg_mode d of None \<Rightarrow> False | Some m \<Rightarrow> timings_match d m")
  case True
  with assms show ?thesis by (simp add: guess_mode_def)
next
  case False
  then have g: "guess_mode e d = bind_res (update_window e (d\<lparr>vg_mode := best_mode d\<rparr>)) (\<lambda>d1.
        Inr (case vg_mode d1 of
               None \<Rightarrow> d1
             | Some m \<Rightarrow> if vg_window d1 then d1\<lparr>surf_len := surface_size m\<rparr> else d1))"
    by (simp add: guess_mode_def)
  show ?thesis
  proof (cases "best_mode d")
    case None
    with assms show ?thesis by (auto simp: g update_window_def display_inv_def)
  next
    case (Some m)
    with best_mode_in_MODES assms show ?thesis
      by (auto simp: g update_window_def display_inv_def healthy_def)
  qed
qed

lemma scan_syncs_first:
  "hsync_lo d = 0 \<Longrightarrow> scan_syncs e c d =
     Inr (d\<lparr>hsync_lo := of_bool (last_hsync d \<and> \<not> vga_hsync c)\<rparr>)"
  by (simp add: scan_syncs.simps)

lemma scan_vsync_law:
  assumes "display_inv d" "healthy e"
  shows "\<exists>d'. scan_vsync e c d = Inr d' \<and> display_inv d' \<and> vg_slave d' = vg_slave d"
proof -
  have "\<exists>d'. bind_res (guess_mode e d) (\<lambda>d1. scan_syncs e c (reset_syncs d1)) = Inr d'
      \<and> display_inv d' \<and> vg_slave d' = vg_slave d"
    using guess_mode_law [OF assms] by (auto simp: scan_syncs_first reset_syncs_def display_inv_def)
  moreover have "display_inv (d\<lparr>hsync_hi := a\<rparr>)" "display_inv (d\<lparr>found_line := b\<rparr>)"
    "display_inv (d\<lparr>vsync_lo := a\<rparr>)" "display_inv (d\<lparr>vsync_hi := a\<rparr>)" for a b
    using assms(1) by (simp_all add: display_inv_def)
  ultimately show ?thesis
    using signal_lost_law [OF assms] assms(1) by (subst scan_vsync.simps) simp
qed

lemma scan_syncs_law:
  assumes "display_inv d" "healthy e"
  shows "\<exists>d'. scan_syncs e c d = Inr d' \<and> display_inv d' \<and> vg_slave d' = vg_slave d"
  using scan_vsync_law [OF assms] assms(1)
  by (subst scan_syncs.simps) (simp add: display_inv_def)

lemma move_pos_frame:
  "vg_mode (move_pos c d) = vg_mode d" "vg_window (move_pos c d) = vg_window d"
  "surf_len (move_pos c d) = surf_len d" "max_addr (move_pos c d) = max_addr d"
  "vg_slave (move_pos c d) = vg_slave d"
  by (auto simp: move_pos_def Let_def split: option.split)

lemma signal_tick_law:
  assumes "display_inv d" "healthy e"
  shows "\<exists>d'. signal_tick e c evs clk d = Inr d' \<and> display_inv d' \<and> vg_slave d' = vg_slave d"
proof (cases clk)
  case True
  from put_pixel_law [OF assms] obtain d1 where
    d1: "put_pixel e c d = Inr d1" "display_inv d1" "vg_slave d1 = vg_slave d" by blast
  then have "display_inv (move_pos c d1)" by (simp add: display_inv_frame [OF move_pos_frame(1-4)])
  from scan_syncs_law [OF this assms(2)] obtain d2 where
    "scan_syncs e c (move_pos c d1) = Inr d2" "display_inv d2" "vg_slave d2 = vg_slave d"
    using d1(3) by (auto simp: move_pos_frame)
  with True d1 show ?thesis by (simp add: signal_tick_def display_inv_def)
qed (use assms in \<open>simp add: signal_tick_def\<close>)

lemma display_tick_law:
  assumes "display_inv d" "healthy e"
  shows "\<exists>d'. display_tick e d = Inr d' \<and> display_inv d' \<and> vg_slave d' = vg_slave d"
  using assms update_window_law [of "d\<lparr>ticks := 0\<rparr>" e]
  by (auto simp: display_tick_def Let_def display_inv_def)

lemma display_write_law:
  assumes "display_inv d"
  shows "\<exists>d'. display_write e a v be d = Inr (d', True) \<and> display_inv d' \<and> vg_slave d' = vg_slave d"
proof -
  have "unat a < surf_len d" if "vg_window d" "a < max_addr d"
  proof -
    from assms that(1) obtain m where m: "m \<in> set MODES" "surf_len d = surface_size m"
      by (auto simp: display_inv_def)
    have "unat a < 307200"
      using assms that(2) by (auto simp: display_inv_def word_less_nat_alt word_le_nat_alt)
    with MODES_bounds [OF m(1)] m(2) show ?thesis by simp
  qed
  then show ?thesis
    using assms by (auto simp: display_write_def store_pixel_def display_inv_def)
qed

interpretation vga: word_device vg_slave display_inv display_read "display_write e" for e
  by unfold_locales (use display_write_law in \<open>fastforce simp: display_read_def\<close>)+

text \<open>Everything the simulator does with a display, under an SDL that works.\<close>

datatype display_event =
    Bus_Tick sdl
  | Bus_Read u32 u32
  | Bus_Write sdl u32 u32 u32
  | Signal_Tick sdl crtc "sdl_event list" bool

fun display_step :: "display_event \<Rightarrow> display \<Rightarrow> display res" where
  "display_step (Bus_Tick e) d = display_tick e d"
| "display_step (Bus_Read a x) d = bind_res (display_read a x d) (\<lambda>(d', _, _). Inr d')"
| "display_step (Bus_Write e a v be) d = bind_res (display_write e a v be d) (\<lambda>(d', _). Inr d')"
| "display_step (Signal_Tick e c evs clk) d = signal_tick e c evs clk d"

fun event_healthy :: "display_event \<Rightarrow> bool" where
  "event_healthy (Bus_Tick e) = healthy e"
| "event_healthy (Bus_Read _ _) = True"
| "event_healthy (Bus_Write _ _ _ _) = True"
| "event_healthy (Signal_Tick e _ _ _) = healthy e"

interpretation display: stepping "\<lambda>v _. event_healthy v" display_step display_inv
proof unfold_locales
  fix d v
  assume i: "display_inv d" and h: "event_healthy v"
  show "\<exists>d'. display_step v d = Inr d' \<and> display_inv d'"
  proof (cases v)
    case (Bus_Tick e)
    with i h display_tick_law [OF i] show ?thesis by auto
  next
    case (Bus_Read a x)
    with i show ?thesis by (simp add: display_read_def)
  next
    case (Bus_Write e a x be)
    with display_write_law [OF i, of e a x be] show ?thesis by auto
  next
    case (Signal_Tick e c evs clk)
    with i h signal_tick_law [OF i, of e c evs clk] show ?thesis by auto
  qed
qed

lemma display_init_inv: "display_init b clk hz = Inr d \<Longrightarrow> display_inv d"
  by (auto simp: display_init_def bind_res_Inr_iff display_inv_def Let_def MODES_def
      video_mode_of_def timings_of_def split: if_splits)

section \<open>Properties\<close>

text \<open>
  C8. The display never writes outside its surface and never trips an assertion while SDL works:
  from a freshly constructed display, on any interleaving of bus ticks, frame-buffer accesses and
  signal ticks with any sync signals, measured modes and mode changes, every operation completes,
  and afterwards an open window shows a mode of the table with a surface of exactly that mode's
  size.
\<close>

theorem display_memory_safe:
  assumes "display_init b clk hz = Inr d" "list_all event_healthy es"
  shows "\<exists>d'. run display_step es d = Inr d'
    \<and> (vg_window d' \<longrightarrow> (\<exists>m \<in> set MODES. vg_mode d' = Some m \<and> surf_len d' = surface_size m))"
proof -
  from display.run_safe [OF display_init_inv [OF assms(1)] legal_stateless [OF assms(2)]] obtain d' where
    "run display_step es d = Inr d'" "display_inv d'" by blast
  then show ?thesis by (auto simp: display_inv_def)
qed

definition sdl_example :: sdl where
  "sdl_example = \<lparr>video_was_init = False, init_ok = True, window_ok = True, surface_ok = True,
     format_rgb888 = True\<rparr>"

theorem display_memory_safe_witness:
  "\<exists>d d'. display_init 0x38000000 25175000 50000000 = Inr d
    \<and> run display_step [Bus_Tick sdl_example, Bus_Write sdl_example 307199 1 15] d = Inr d'
    \<and> (vg_window d' \<longrightarrow> (\<exists>m \<in> set MODES. vg_mode d' = Some m \<and> surf_len d' = surface_size m))"
proof -
  obtain d where d: "display_init 0x38000000 25175000 50000000 = Inr d"
    by (simp add: display_init_def slave_init_def Let_def word_mask_def)
  have "list_all event_healthy [Bus_Tick sdl_example, Bus_Write sdl_example 307199 1 15]"
    by (simp add: healthy_def sdl_example_def)
  from display_memory_safe [OF d this] d show ?thesis by blast
qed

text \<open>A display that has measured exactly the timings of a mode.\<close>

definition measured :: "display \<Rightarrow> video_mode \<Rightarrow> bool" where
  "measured d m \<longleftrightarrow> hsync_hi d = t_active (mode_h m) + front_porch (mode_h m) + back_porch (mode_h m)
     \<and> vsync_hi d = t_active (mode_v m) + front_porch (mode_v m) + back_porch (mode_v m)
     \<and> hsync_lo d = t_sync (mode_h m) \<and> vsync_lo d = t_sync (mode_v m)"

definition probe :: "video_mode \<Rightarrow> display" where
  "probe m = \<lparr>vg_slave = \<lparr>sl_base = 0, sl_mask = 0, sl_word = 2\<rparr>, ticks = 0, refresh_ticks = 0,
     max_addr = 0, vg_window = False, vg_mode = None, row = 0, col = 0,
     hsync_lo = t_sync (mode_h m),
     hsync_hi = t_active (mode_h m) + front_porch (mode_h m) + back_porch (mode_h m),
     vsync_hi = t_active (mode_v m) + front_porch (mode_v m) + back_porch (mode_v m),
     vsync_lo = t_sync (mode_v m), last_hsync = False, last_vsync = False, found_line = False,
     clock_hz = pixel_clk m, keys = (\<lambda>_. False), surf_len = 0, pixels = (\<lambda>_. 0)\<rparr>"

lemma best_mode_cong:
  "hsync_hi d = hsync_hi d' \<Longrightarrow> vsync_hi d = vsync_hi d' \<Longrightarrow> hsync_lo d = hsync_lo d' \<Longrightarrow>
     vsync_lo d = vsync_lo d' \<Longrightarrow> clock_hz d = clock_hz d' \<Longrightarrow> best_mode d = best_mode d'"
  by (simp add: best_mode_def timings_match_def)

lemma best_mode_probe: "list_all (\<lambda>m. best_mode (probe m) = Some m) MODES"
  by code_simp

text \<open>
  Mode detection recognises every mode of the table: once the measured counters are a mode's
  own active-plus-porch and sync widths and the pixel clock is the mode's, the guess is exactly
  that mode, although other entries of the table agree with it in some of the four counters.
\<close>

theorem guess_recognises_every_mode:
  assumes "m \<in> set MODES" "measured d m" "clock_hz d = pixel_clk m" "vg_mode d = None" "vg_window d = False"
    and "healthy e"
  shows "\<exists>d'. guess_mode e d = Inr d' \<and> vg_mode d' = Some m \<and> vg_window d' \<and> surf_len d' = surface_size m"
proof -
  have "best_mode d = best_mode (probe m)"
    using assms(2,3) by (intro best_mode_cong) (simp_all add: measured_def probe_def)
  also have "\<dots> = Some m"
    using best_mode_probe assms(1) by (simp add: list_all_iff)
  finally show ?thesis
    using assms(4-6) by (auto simp: guess_mode_def update_window_def healthy_def)
qed

theorem guess_recognises_every_mode_witness:
  "\<exists>d'. guess_mode sdl_example (probe (MODES ! 2)) = Inr d' \<and> vg_mode d' = Some (MODES ! 2)
    \<and> vg_window d' \<and> surf_len d' = surface_size (MODES ! 2)"
proof -
  have m: "MODES ! 2 \<in> set MODES" by (simp add: MODES_def)
  show ?thesis
    by (rule guess_recognises_every_mode [OF m])
      (simp_all add: measured_def probe_def healthy_def sdl_example_def)
qed

end
