(* ===== verification/Avalon_Interconnect.thy ===== *)
theory Avalon_Interconnect
  imports Avalon_Mem Avalon_Timer Avalon_Uart Avalon_Simple Avalon_Sim_Slave Avalon_Intc Vga_Display
begin

text \<open>
  The bus interconnect (\<open>template interconnect\<close> of \<open>avalon.hpp\<close>, \<open>avalon.impl.hpp\<close>) over the
  device classes of the simulator. Virtual dispatch is a case distinction on the datatype
  \<open>device\<close>; the objects live in the store \<open>objs\<close>, and a \<open>slave*\<close> or \<open>slave&\<close> is the number of
  an object, so that a device attached to the bus and referenced by the interrupt controller is
  one object. The signals of the simulated platform that the code touches are the record
  \<open>platform\<close>. What ncurses and SDL return during an edge is the record \<open>host\<close>.
\<close>

section \<open>Devices and dispatch\<close>

datatype device =
    D_mem mem
  | D_timer interval_timer
  | D_uart jtag_uart
  | D_intc interrupt_controller
  | D_const const_map
  | D_null null_slave
  | D_sim sim_slave
  | D_vga display

record host =
  h_getch :: "nat \<Rightarrow> int"
  h_sdl :: sdl

fun dev_slave :: "device \<Rightarrow> slave" where
  "dev_slave (D_mem m) = mem_slave m"
| "dev_slave (D_timer t) = tm_slave t"
| "dev_slave (D_uart u) = ua_slave u"
| "dev_slave (D_intc i) = ic_slave i"
| "dev_slave (D_const c) = cm_slave c"
| "dev_slave (D_null n) = nl_slave n"
| "dev_slave (D_sim s) = ss_slave s"
| "dev_slave (D_vga d) = vg_slave d"

fun dev_tick :: "host \<Rightarrow> nat \<Rightarrow> device \<Rightarrow> device res" where
  "dev_tick h r (D_timer t) = Inr (D_timer (timer_tick t))"
| "dev_tick h r (D_uart u) = bind_res (uart_tick (h_getch h r) u) (\<lambda>u'. Inr (D_uart u'))"
| "dev_tick h r (D_sim s) = Inr (D_sim (sim_tick s))"
| "dev_tick h r (D_vga d) = bind_res (display_tick (h_sdl h) d) (\<lambda>d'. Inr (D_vga d'))"
| "dev_tick h r d = Inr d"

fun dev_tick_falling :: "device \<Rightarrow> device" where
  "dev_tick_falling (D_sim s) = D_sim (sim_tick_falling s)"
| "dev_tick_falling d = d"

fun dev_bail :: "device \<Rightarrow> device" where
  "dev_bail (D_uart u) = D_uart (uart_bail u)"
| "dev_bail d = d"

text \<open>
  \<open>irq()\<close> through a line of the interrupt controller. (No program object makes a controller a
  line of a controller; such a line would count as low here.)
\<close>

fun dev_irq :: "device \<Rightarrow> bool" where
  "dev_irq (D_timer t) = timer_irq t"
| "dev_irq (D_uart u) = uart_irq u"
| "dev_irq _ = False"

definition wrap_read :: "('s \<Rightarrow> device) \<Rightarrow> ('s \<times> 'd \<times> bool) res \<Rightarrow> (device \<times> 'd \<times> bool) res" where
  "wrap_read c r = bind_res r (\<lambda>(s, d, ok). Inr (c s, d, ok))"

definition wrap_write :: "('s \<Rightarrow> device) \<Rightarrow> ('s \<times> bool) res \<Rightarrow> (device \<times> bool) res" where
  "wrap_write c r = bind_res r (\<lambda>(s, ok). Inr (c s, ok))"

fun dev_read :: "(nat \<Rightarrow> bool) \<Rightarrow> device reader" where
  "dev_read f a x (D_mem m) = wrap_read D_mem (mem_read a x m)"
| "dev_read f a x (D_timer t) = wrap_read D_timer (timer_read a x t)"
| "dev_read f a x (D_uart u) = wrap_read D_uart (uart_read a x u)"
| "dev_read f a x (D_intc i) = wrap_read D_intc (intc_read f a x i)"
| "dev_read f a x (D_const c) = wrap_read D_const (const_read a x c)"
| "dev_read f a x (D_null n) = wrap_read D_null (null_read a x n)"
| "dev_read f a x (D_sim s) = wrap_read D_sim (sim_read a x s)"
| "dev_read f a x (D_vga d) = wrap_read D_vga (display_read a x d)"

fun dev_write :: "host \<Rightarrow> device writer" where
  "dev_write h a x be (D_mem m) = wrap_write D_mem (mem_write a x be m)"
| "dev_write h a x be (D_timer t) = wrap_write D_timer (timer_write a x be t)"
| "dev_write h a x be (D_uart u) = wrap_write D_uart (uart_write a x be u)"
| "dev_write h a x be (D_intc i) = wrap_write D_intc (intc_write a x be i)"
| "dev_write h a x be (D_const c) = wrap_write D_const (const_write a x be c)"
| "dev_write h a x be (D_null n) = wrap_write D_null (null_write a x be n)"
| "dev_write h a x be (D_sim s) = wrap_write D_sim (sim_write a x be s)"
| "dev_write h a x be (D_vga d) = wrap_write D_vga (display_write (h_sdl h) a x be d)"

fun dev_read_line :: "(nat \<Rightarrow> bool) \<Rightarrow> device line_reader" where
  "dev_read_line f a l be (D_mem m) = wrap_read D_mem (mem_read_line a l be m)"
| "dev_read_line f a l be d = slave_read_line (dev_read f) a l be d"

fun dev_write_line :: "host \<Rightarrow> device line_writer" where
  "dev_write_line h a l be (D_mem m) = wrap_write D_mem (mem_write_line a l be m)"
| "dev_write_line h a l be d = slave_write_line (dev_write h) a l be d"

section \<open>State of the interconnect\<close>

record platform =
  reset_reset_n :: bool
  p_irq :: bool
  p_address :: u32
  p_read :: bool
  p_write :: bool
  p_writedata :: line
  p_byteenable :: u32
  p_waitrequest :: bool
  p_readdata :: line

record binding =
  b_base :: u32
  b_mask :: u32
  b_dev :: nat

record interconnect =
  plat :: platform
  active :: "nat option"
  devices :: "binding list"
  root_intc :: "nat option"
  avl_address :: u32
  avl_writedata :: line
  avl_byteenable :: u32
  avl_read :: bool
  avl_write :: bool
  objs :: "nat \<Rightarrow> device"

definition interconnect_init :: "platform \<Rightarrow> (nat \<Rightarrow> device) \<Rightarrow> interconnect" where
  "interconnect_init p os =
     \<lparr>plat = p, active = None, devices = [], root_intc = None, avl_address = 0,
      avl_writedata = line_zero, avl_byteenable = 0, avl_read = False, avl_write = False, objs = os\<rparr>"

definition attach :: "nat \<Rightarrow> interconnect \<Rightarrow> interconnect res" where
  "attach r ic =
     (let bas = base_address (dev_slave (objs ic r)); msk = address_mask (dev_slave (objs ic r)) in
      if bas AND msk \<noteq> bas then Inl Assert_Failure
      else Inr (ic\<lparr>devices := devices ic @ [\<lparr>b_base = bas, b_mask = msk, b_dev = r\<rparr>]\<rparr>))"

definition attach_intc :: "nat \<Rightarrow> interconnect \<Rightarrow> interconnect res" where
  "attach_intc r ic =
     (if root_intc ic \<noteq> None then Inl Assert_Failure
      else bind_res (attach r ic) (\<lambda>ic'. Inr (ic'\<lparr>root_intc := Some r\<rparr>)))"

text \<open>\<open>for (auto &binding : devices) ... binding.dev ...\<close>\<close>

fun for_devices ::
  "(nat \<Rightarrow> device \<Rightarrow> device res) \<Rightarrow> binding list \<Rightarrow> (nat \<Rightarrow> device) \<Rightarrow> (nat \<Rightarrow> device) res" where
  "for_devices f [] os = Inr os"
| "for_devices f (b # bs) os =
     bind_res (f (b_dev b) (os (b_dev b))) (\<lambda>d. for_devices f bs (os(b_dev b := d)))"

definition irq_of :: "interconnect \<Rightarrow> nat \<Rightarrow> bool" where
  "irq_of ic r = dev_irq (objs ic r)"

definition root_irq :: "interconnect \<Rightarrow> nat \<Rightarrow> bool" where
  "root_irq ic r = (case objs ic r of D_intc i \<Rightarrow> intc_irq (irq_of ic) i | d \<Rightarrow> dev_irq d)"

definition binding_matches :: "u32 \<Rightarrow> binding \<Rightarrow> bool" where
  "binding_matches addr b \<longleftrightarrow> addr AND b_mask b = b_base b"

definition find_device :: "u32 \<Rightarrow> interconnect \<Rightarrow> nat option" where
  "find_device addr ic = map_option b_dev (find (binding_matches addr) (devices ic))"

section \<open>One edge of the bus clock\<close>

definition bus_bail :: "interconnect \<Rightarrow> interconnect" where
  "bus_bail ic =
     (case for_devices (\<lambda>_ d. Inr (dev_bail d)) (devices ic) (objs ic) of
        Inl _ \<Rightarrow> ic | Inr os \<Rightarrow> ic\<lparr>objs := os\<rparr>)"

definition bus_tick_falling :: "interconnect \<Rightarrow> interconnect" where
  "bus_tick_falling ic =
     (let ic1 = (case for_devices (\<lambda>_ d. Inr (dev_tick_falling d)) (devices ic) (objs ic) of
                   Inl _ \<Rightarrow> ic | Inr os \<Rightarrow> ic\<lparr>objs := os\<rparr>)
      in if \<not> p_waitrequest (plat ic1) then ic1\<lparr>active := None\<rparr> else ic1)"

text \<open>
  The data phase of \<open>tick_rising\<close>, with a device selected. An avl_bus_error leaves the state as it
  was when it was thrown, so a result is the state and the exception, if one was thrown.
\<close>

definition data_phase :: "host \<Rightarrow> nat \<Rightarrow> interconnect \<Rightarrow> (interconnect \<times> fault option) res" where
  "data_phase h r ic =
     (let pos = drop_bit 4 (avl_address ic AND NOT (address_mask (dev_slave (objs ic r)))) in
      if avl_read ic then
        bind_res (dev_read_line (irq_of ic) pos line_zero (avl_byteenable ic) (objs ic r))
          (\<lambda>(d, l, ok). Inr (ic\<lparr>objs := (objs ic)(r := d),
             plat := (plat ic)\<lparr>p_waitrequest := \<not> ok, p_readdata := l\<rparr>\<rparr>, None))
      else if avl_write ic then
        bind_res (dev_write_line h pos (avl_writedata ic) (avl_byteenable ic) (objs ic r))
          (\<lambda>(d, ok). Inr (ic\<lparr>objs := (objs ic)(r := d),
             plat := (plat ic)\<lparr>p_waitrequest := \<not> ok\<rparr>\<rparr>, None))
      else Inr (ic, None))"

definition bus_tick_rising :: "host \<Rightarrow> interconnect \<Rightarrow> (interconnect \<times> fault option) res" where
  "bus_tick_rising h ic0 =
     bind_res (for_devices (dev_tick h) (devices ic0) (objs ic0)) (\<lambda>os.
       let ic1 = ic0\<lparr>objs := os\<rparr>;
           ic2 = (case root_intc ic1 of
                    None \<Rightarrow> ic1
                  | Some r \<Rightarrow> ic1\<lparr>plat := (plat ic1)\<lparr>p_irq := root_irq ic1 r\<rparr>\<rparr>)
       in case active ic2 of
            Some r \<Rightarrow> data_phase h r ic2
          | None \<Rightarrow>
              let ic3 = ic2\<lparr>avl_address := p_address (plat ic2), avl_read := p_read (plat ic2),
                            avl_write := p_write (plat ic2), avl_writedata := p_writedata (plat ic2),
                            avl_byteenable := p_byteenable (plat ic2)\<rparr>
              in if \<not> avl_read ic3 \<and> \<not> avl_write ic3 then Inr (ic3, None)
                 else case find_device (avl_address ic3) ic3 of
                        None \<Rightarrow> Inr (bus_bail ic3, Some (Memory_Hole (avl_address ic3)))
                      | Some r \<Rightarrow>
                          let ic4 = ic3\<lparr>active := Some r\<rparr> in
                          if avl_address ic4 AND 0b1111 \<noteq> 0
                          then Inr (bus_bail ic4, Some (Unaligned (avl_address ic4)))
                          else data_phase h r ic4)"

definition request_held :: "interconnect \<Rightarrow> bool" where
  "request_held ic \<longleftrightarrow>
     avl_address ic = p_address (plat ic) \<and> avl_read ic = p_read (plat ic)
     \<and> avl_write ic = p_write (plat ic) \<and> line_eq (avl_writedata ic) (p_writedata (plat ic))
     \<and> avl_byteenable ic = p_byteenable (plat ic)"

definition bus_tick :: "host \<Rightarrow> bool \<Rightarrow> interconnect \<Rightarrow> (interconnect \<times> bool) res" where
  "bus_tick h clk ic =
     (if \<not> reset_reset_n (plat ic) then
        Inr (ic\<lparr>active := None, plat := (plat ic)\<lparr>p_irq := False\<rparr>, avl_read := False,
                avl_write := False, avl_address := 0, avl_byteenable := 0\<rparr>, True)
      else if active ic \<noteq> None \<and> \<not> request_held ic then Inl Assert_Failure
      else if \<not> clk then Inr (bus_tick_falling ic, True)
      else if active ic = None \<and> \<not> (\<not> avl_read ic \<or> \<not> avl_write ic) then Inl Assert_Failure
      else bind_res (bus_tick_rising h ic) (\<lambda>(ic', thrown). Inr (ic', thrown = None)))"

section \<open>Access from outside the clock\<close>

definition resolve_external :: "u32 \<Rightarrow> interconnect \<Rightarrow> nat option" where
  "resolve_external addr ic = find_device addr ic"

definition external_pos :: "u32 \<Rightarrow> slave \<Rightarrow> u32" where
  "external_pos addr s = drop_bit (word_bits s) (addr AND NOT (address_mask s))"

text \<open>\<open>while (!dev->read(pos, word)) continue;\<close> no clock edge happens inside the loop.\<close>

partial_function (option) dump_loop ::
  "nat \<Rightarrow> u32 \<Rightarrow> u32 \<Rightarrow> interconnect \<Rightarrow> (interconnect \<times> u32) res option" where
  "dump_loop r pos word ic =
     (case dev_read (irq_of ic) pos word (objs ic r) of
        Inl e \<Rightarrow> Some (Inl e)
      | Inr (d, w, ok) \<Rightarrow>
          if ok then Some (Inr (ic\<lparr>objs := (objs ic)(r := d)\<rparr>, w))
          else dump_loop r pos w (ic\<lparr>objs := (objs ic)(r := d)\<rparr>))"

definition bus_dump :: "u32 \<Rightarrow> u32 \<Rightarrow> interconnect \<Rightarrow> (interconnect \<times> u32 \<times> bool) res option" where
  "bus_dump addr word ic =
     (let a = push_bit 2 addr in
      case resolve_external a ic of
        None \<Rightarrow> Some (Inr (ic, word, False))
      | Some r \<Rightarrow>
          map_option (\<lambda>x. bind_res x (\<lambda>(ic', w). Inr (ic', w, True)))
            (dump_loop r (external_pos a (dev_slave (objs ic r))) word ic))"

partial_function (option) patch_loop ::
  "host \<Rightarrow> nat \<Rightarrow> u32 \<Rightarrow> u32 \<Rightarrow> interconnect \<Rightarrow> interconnect res option" where
  "patch_loop h r pos word ic =
     (case dev_write h pos word 0b1111 (objs ic r) of
        Inl e \<Rightarrow> Some (Inl e)
      | Inr (d, ok) \<Rightarrow>
          if ok then Some (Inr (ic\<lparr>objs := (objs ic)(r := d)\<rparr>))
          else patch_loop h r pos word (ic\<lparr>objs := (objs ic)(r := d)\<rparr>))"

definition bus_patch :: "host \<Rightarrow> u32 \<Rightarrow> u32 \<Rightarrow> interconnect \<Rightarrow> (interconnect \<times> bool) res option" where
  "bus_patch h addr word ic =
     (let a = push_bit 2 addr in
      case resolve_external a ic of
        None \<Rightarrow> Some (Inr (ic, False))
      | Some r \<Rightarrow>
          map_option (\<lambda>x. bind_res x (\<lambda>ic'. Inr (ic', True)))
            (patch_loop h r (external_pos a (dev_slave (objs ic r))) word ic))"

section \<open>The devices meet the bus contract\<close>

fun dev_inv :: "device \<Rightarrow> bool" where
  "dev_inv (D_mem m) = mem_inv m"
| "dev_inv (D_uart u) = uart_inv u"
| "dev_inv (D_vga d) = display_inv d"
| "dev_inv _ = True"

fun reg_inv :: "device \<Rightarrow> bool" where
  "reg_inv (D_mem m) = False"
| "reg_inv d = dev_inv d"

lemma wrap_read_law:
  "\<exists>s' x ok. r = Inr (s', x, ok) \<and> P s' \<and> g s' = v \<Longrightarrow>
     (\<And>s. dev_slave (c s) = g s) \<Longrightarrow> (\<And>s. P s \<Longrightarrow> Q (c s)) \<Longrightarrow>
     \<exists>d x ok. wrap_read c r = Inr (d, x, ok) \<and> Q d \<and> dev_slave d = v"
  by (auto simp: wrap_read_def)

lemma wrap_write_law:
  "\<exists>s' ok. r = Inr (s', ok) \<and> P s' \<and> g s' = v \<Longrightarrow>
     (\<And>s. dev_slave (c s) = g s) \<Longrightarrow> (\<And>s. P s \<Longrightarrow> Q (c s)) \<Longrightarrow>
     \<exists>d ok. wrap_write c r = Inr (d, ok) \<and> Q d \<and> dev_slave d = v"
  by (auto simp: wrap_write_def)

lemma dev_read_law:
  assumes "reg_inv d"
  shows "\<exists>d' x' ok. dev_read f a x d = Inr (d', x', ok) \<and> reg_inv d' \<and> dev_slave d' = dev_slave d"
  using assms
proof (cases d)
  case (D_timer t)
  then show ?thesis
    using timer.read_law [where s = t and a = a and w = x] assms by (auto simp: wrap_read_def)
next
  case (D_uart u)
  then show ?thesis
    using uart.read_law [where s = u and a = a and w = x] assms by (auto simp: wrap_read_def)
next
  case (D_intc i)
  then show ?thesis
    using intc.read_law [where s = i and a = a and w = x and f = f] assms by (auto simp: wrap_read_def)
next
  case (D_const c)
  then show ?thesis
    using const.read_law [where s = c and a = a and w = x] assms by (auto simp: wrap_read_def)
next
  case (D_null n)
  then show ?thesis
    using null.read_law [where s = n and a = a and w = x] assms by (auto simp: wrap_read_def)
next
  case (D_sim s)
  then show ?thesis
    using sim.read_law [where s = s and a = a and w = x] assms by (auto simp: wrap_read_def)
next
  case (D_vga v)
  then show ?thesis
    using vga.read_law [where s = v and a = a and w = x] assms by (auto simp: wrap_read_def)
qed simp

lemma dev_write_law:
  assumes "reg_inv d"
  shows "\<exists>d' ok. dev_write h a x be d = Inr (d', ok) \<and> reg_inv d' \<and> dev_slave d' = dev_slave d"
  using assms
proof (cases d)
  case (D_timer t)
  then show ?thesis
    using timer.write_law [where s = t and a = a and w = x and be = be] assms by (auto simp: wrap_write_def)
next
  case (D_uart u)
  then show ?thesis
    using uart.write_law [where s = u and a = a and w = x and be = be] assms by (auto simp: wrap_write_def)
next
  case (D_intc i)
  then show ?thesis
    using intc.write_law [where s = i and a = a and w = x and be = be] assms by (auto simp: wrap_write_def)
next
  case (D_const c)
  then show ?thesis
    using const.write_law [where s = c and a = a and w = x and be = be] assms by (auto simp: wrap_write_def)
next
  case (D_null n)
  then show ?thesis
    using null.write_law [where s = n and a = a and w = x and be = be] assms by (auto simp: wrap_write_def)
next
  case (D_sim s)
  then show ?thesis
    using sim.write_law [where s = s and a = a and w = x and be = be] assms by (auto simp: wrap_write_def)
next
  case (D_vga v)
  then show ?thesis
    using vga.write_law [where s = v and a = a and w = x and be = be and e = "h_sdl h"] assms by (auto simp: wrap_write_def)
qed simp

interpretation regs: word_device dev_slave reg_inv "dev_read f" "dev_write h" for f h
  by unfold_locales (blast intro: dev_read_law dev_write_law)+

lemma reg_inv_dev_inv: "reg_inv d \<Longrightarrow> dev_inv d"
  by (cases d) auto

interpretation bus: bus_device dev_slave dev_inv "dev_read_line f" "dev_write_line h" for f h
proof unfold_locales
  fix d a l be
  assume i: "dev_inv d" and r: "reaches (dev_slave d) a"
  show "\<exists>d' l' ok. dev_read_line f a l be d = Inr (d', l', ok) \<and> dev_inv d' \<and> dev_slave d' = dev_slave d"
  proof (cases "reg_inv d")
    case True
    then have "dev_read_line f a l be d = slave_read_line (dev_read f) a l be d"
      by (cases d) auto
    with regs.read_line_law [OF True r, of f l be] reg_inv_dev_inv show ?thesis by fastforce
  next
    case False
    with i obtain m where m: "d = D_mem m" "mem_inv m" by (cases d) auto
    with ram.read_line_law [of m a l be] r show ?thesis by (auto simp: wrap_read_def)
  qed
  show "\<exists>d' ok. dev_write_line h a l be d = Inr (d', ok) \<and> dev_inv d' \<and> dev_slave d' = dev_slave d"
  proof (cases "reg_inv d")
    case True
    then have "dev_write_line h a l be d = slave_write_line (dev_write h) a l be d"
      by (cases d) auto
    with regs.write_line_law [OF True r, of h l be] reg_inv_dev_inv show ?thesis by fastforce
  next
    case False
    with i obtain m where m: "d = D_mem m" "mem_inv m" by (cases d) auto
    with ram.write_line_law [of m a l be] r show ?thesis by (auto simp: wrap_write_def)
  qed
qed

section \<open>Sweeps over the bound devices\<close>

text \<open>
  The laws of a per-device operation that the three loops over \<open>devices\<close> use (\<open>tick\<close>,
  \<open>tick_falling\<close>, \<open>bail\<close>), and what a whole sweep then does.
\<close>

locale device_sweep =
  fixes f :: "nat \<Rightarrow> device \<Rightarrow> device res"
  assumes f_law: "dev_inv d \<Longrightarrow> \<exists>d'. f r d = Inr d' \<and> dev_inv d' \<and> dev_slave d' = dev_slave d"
begin

lemma sweep:
  "(\<forall>b \<in> set bs. dev_inv (os (b_dev b))) \<Longrightarrow>
     \<exists>os'. for_devices f bs os = Inr os' \<and> (\<forall>r. dev_slave (os' r) = dev_slave (os r)
       \<and> (dev_inv (os r) \<longrightarrow> dev_inv (os' r)) \<and> (r \<notin> b_dev ` set bs \<longrightarrow> os' r = os r))"
proof (induction bs arbitrary: os)
  case Nil
  then show ?case by simp
next
  case (Cons b bs)
  from Cons.prems f_law [of "os (b_dev b)" "b_dev b"] obtain d where
    d: "f (b_dev b) (os (b_dev b)) = Inr d" "dev_inv d" "dev_slave d = dev_slave (os (b_dev b))" by auto
  let ?os = "os(b_dev b := d)"
  have "\<forall>b' \<in> set bs. dev_inv (?os (b_dev b'))" using Cons.prems d(2) by simp
  from Cons.IH [OF this] obtain os' where
    os': "for_devices f bs ?os = Inr os'" "\<forall>r. dev_slave (os' r) = dev_slave (?os r)
       \<and> (dev_inv (?os r) \<longrightarrow> dev_inv (os' r)) \<and> (r \<notin> b_dev ` set bs \<longrightarrow> os' r = ?os r)" by blast
  from os'(2) d have "dev_slave (os' r) = dev_slave (os r) \<and> (dev_inv (os r) \<longrightarrow> dev_inv (os' r))
      \<and> (r \<notin> b_dev ` set (b # bs) \<longrightarrow> os' r = os r)" for r
    by (cases "r = b_dev b") auto
  with d os'(1) show ?case by auto
qed

end

lemma dev_tick_law:
  assumes "dev_inv d" "healthy (h_sdl h)"
  shows "\<exists>d'. dev_tick h r d = Inr d' \<and> dev_inv d' \<and> dev_slave d' = dev_slave d"
proof (cases d)
  case (D_uart u)
  with assms uart_tick_law [of u "h_getch h r"] show ?thesis by auto
next
  case (D_vga x)
  with assms display_tick_law [of x "h_sdl h"] show ?thesis by auto
next
  case (D_timer t)
  then show ?thesis by (simp add: timer_tick_def)
next
  case (D_sim s)
  then show ?thesis by (simp add: sim_tick_def)
qed (use assms in auto)

text \<open>The sweep of \<open>tick\<close> stops at nothing when SDL works.\<close>

definition safe_tick :: "host \<Rightarrow> nat \<Rightarrow> device \<Rightarrow> device res" where
  "safe_tick h r d = (if healthy (h_sdl h) then dev_tick h r d else Inr d)"

interpretation tick_sweep: device_sweep "safe_tick h" for h
  by unfold_locales (auto simp: safe_tick_def dest: dev_tick_law)

lemma dev_tick_falling_law:
  "dev_inv (dev_tick_falling d) = dev_inv d" "dev_slave (dev_tick_falling d) = dev_slave d"
  by (cases d; simp add: sim_tick_falling_def)+

lemma dev_bail_law:
  "dev_inv d \<Longrightarrow> dev_inv (dev_bail d)" "dev_slave (dev_bail d) = dev_slave d"
  by (cases d; simp add: uart_bail_def uart_release_frame)+

interpretation falling_sweep: device_sweep "\<lambda>_ d. Inr (dev_tick_falling d)"
  by unfold_locales (simp add: dev_tick_falling_law)

interpretation bail_sweep: device_sweep "\<lambda>_ d. Inr (dev_bail d)"
  by unfold_locales (simp add: dev_bail_law)

end
