(* ===== verification/Avalon_Bus.thy ===== *)
theory Avalon_Bus
  imports Avalon_Interconnect
begin

text \<open>
  What the interconnect guarantees. A run is a sequence of clock edges; before an edge the hardware
  may change every signal it drives, and \<open>follows_protocol\<close> is what the bus asks of the masters
  (never read and write at once, a request is held until it is answered), judged on the signals
  alone. The invariant \<open>edge_inv\<close> says that the table of bindings agrees with the devices it points
  to and that the copy of the request which the interconnect compares against is the request still
  unanswered; it excludes every failure of the code, whatever curses returns.
\<close>

section \<open>The invariant\<close>

text \<open>A device the constructor and \<open>attach\<close> accepted: its span is a block aligned to its size.\<close>

definition well_placed :: "slave \<Rightarrow> bool" where
  "well_placed s \<longleftrightarrow> base_aligned s \<and> (\<exists>k. spans s k)"

definition claims :: "slave \<Rightarrow> u32 \<Rightarrow> bool" where
  "claims s a \<longleftrightarrow> unat (sl_base s) \<le> unat a \<and> unat a < unat (sl_base s) + (unat (NOT (sl_mask s)) + 1)"

lemma decodes_claims: "well_placed s \<Longrightarrow> decodes s a \<longleftrightarrow> claims s a"
proof -
  assume "well_placed s"
  then obtain k where k: "spans s k" "base_aligned s" by (auto simp: well_placed_def)
  then have "unat (NOT (sl_mask s)) + 1 = 2 ^ k"
    by (cases "k = 32") (simp_all add: spans_def mask_eq_exp_minus_1 unat_minus_one unat_pow2)
  with decodes_iff [OF k] show ?thesis by (simp add: claims_def)
qed

definition binding_ok :: "(nat \<Rightarrow> device) \<Rightarrow> binding \<Rightarrow> bool" where
  "binding_ok os b \<longleftrightarrow> (let s = dev_slave (os (b_dev b)) in
     b_base b = sl_base s \<and> b_mask b = sl_mask s \<and> well_placed s \<and> dev_inv (os (b_dev b)))"

definition attached :: "interconnect \<Rightarrow> nat \<Rightarrow> bool" where
  "attached ic r \<longleftrightarrow> r \<in> b_dev ` set (devices ic)"

definition bus_inv :: "interconnect \<Rightarrow> bool" where
  "bus_inv ic \<longleftrightarrow> (\<forall>b \<in> set (devices ic). binding_ok (objs ic) b)
     \<and> (\<forall>r. active ic = Some r \<longrightarrow> attached ic r) \<and> \<not> (avl_read ic \<and> avl_write ic)"

lemma binding_ok_frame:
  "binding_ok os b \<Longrightarrow> (\<And>r. dev_slave (os' r) = dev_slave (os r)) \<Longrightarrow>
     (\<And>r. dev_inv (os r) \<Longrightarrow> dev_inv (os' r)) \<Longrightarrow> binding_ok os' b"
  by (simp add: binding_ok_def Let_def)

lemma attached_inv: "bus_inv ic \<Longrightarrow> attached ic r \<Longrightarrow> dev_inv (objs ic r) \<and> well_placed (dev_slave (objs ic r))"
  by (auto simp: bus_inv_def attached_def binding_ok_def Let_def)

lemma find_attached: "find_device a ic = Some r \<Longrightarrow> attached ic r"
  by (auto simp: find_device_def attached_def find_Some_iff)

lemma attach_inv:
  assumes "bus_inv ic" "attach r ic = Inr ic'" "dev_inv (objs ic r)" "spans (dev_slave (objs ic r)) k"
  shows "bus_inv ic'"
proof -
  from assms(2) have ic': "ic' = ic\<lparr>devices := devices ic @
      [\<lparr>b_base = sl_base (dev_slave (objs ic r)), b_mask = sl_mask (dev_slave (objs ic r)), b_dev = r\<rparr>]\<rparr>"
    and "base_aligned (dev_slave (objs ic r))"
    by (auto simp: attach_def Let_def base_aligned_def base_address_def address_mask_def split: if_splits)
  with assms(4) have "well_placed (dev_slave (objs ic r))" by (auto simp: well_placed_def)
  with assms(1,3) show ?thesis
    by (auto simp: ic' bus_inv_def attached_def binding_ok_def Let_def)
qed

lemma find_device_claims:
  assumes "bus_inv ic"
  shows "find_device a ic = None \<longleftrightarrow> \<not> (\<exists>r. attached ic r \<and> claims (dev_slave (objs ic r)) a)"
    and "find_device a ic = Some r \<Longrightarrow> claims (dev_slave (objs ic r)) a"
proof -
  have m: "binding_matches a b \<longleftrightarrow> claims (dev_slave (objs ic (b_dev b))) a" if "b \<in> set (devices ic)" for b
  proof -
    from assms that have b: "binding_ok (objs ic) b" by (simp add: bus_inv_def)
    then show ?thesis
      using decodes_claims [of "dev_slave (objs ic (b_dev b))" a]
      by (simp add: binding_ok_def Let_def binding_matches_def decodes_def)
  qed
  then show "find_device a ic = None \<longleftrightarrow> \<not> (\<exists>r. attached ic r \<and> claims (dev_slave (objs ic r)) a)"
    by (auto simp: find_device_def find_None_iff attached_def)
  show "claims (dev_slave (objs ic r)) a" if "find_device a ic = Some r"
    using that m by (auto simp: find_device_def find_Some_iff)
qed

section \<open>Every operation keeps the invariant\<close>

lemma bus_bail_law:
  assumes "bus_inv ic"
  shows "bus_inv (bus_bail ic)" and "dev_slave (objs (bus_bail ic) r) = dev_slave (objs ic r)"
    and "\<exists>os. bus_bail ic = ic\<lparr>objs := os\<rparr>"
proof -
  have "\<forall>b \<in> set (devices ic). dev_inv (objs ic (b_dev b))"
    using assms by (auto simp: bus_inv_def binding_ok_def Let_def)
  from bail_sweep.sweep [OF this] obtain os where
    os: "for_devices (\<lambda>_ d. Inr (dev_bail d)) (devices ic) (objs ic) = Inr os"
      "\<And>r. dev_slave (os r) = dev_slave (objs ic r)" "\<And>r. dev_inv (objs ic r) \<Longrightarrow> dev_inv (os r)" by blast
  then have b: "bus_bail ic = ic\<lparr>objs := os\<rparr>" by (simp add: bus_bail_def)
  show "bus_inv (bus_bail ic)"
    using assms os(2,3) binding_ok_frame [of "objs ic" _ os] by (simp add: b bus_inv_def attached_def)
  show "dev_slave (objs (bus_bail ic) r) = dev_slave (objs ic r)" "\<exists>os. bus_bail ic = ic\<lparr>objs := os\<rparr>"
    using os(2) by (auto simp: b)
qed

lemma bus_tick_falling_law:
  assumes "bus_inv ic"
  obtains os where "bus_tick_falling ic = ic\<lparr>objs := os, active := (if p_waitrequest (plat ic) then active ic else None)\<rparr>"
    "bus_inv (bus_tick_falling ic)" "for_devices (\<lambda>_ d. Inr (dev_tick_falling d)) (devices ic) (objs ic) = Inr os"
proof -
  have "\<forall>b \<in> set (devices ic). dev_inv (objs ic (b_dev b))"
    using assms by (auto simp: bus_inv_def binding_ok_def Let_def)
  from falling_sweep.sweep [OF this] obtain os where
    os: "for_devices (\<lambda>_ d. Inr (dev_tick_falling d)) (devices ic) (objs ic) = Inr os"
      "\<And>r. dev_slave (os r) = dev_slave (objs ic r)" "\<And>r. dev_inv (objs ic r) \<Longrightarrow> dev_inv (os r)" by blast
  then have b: "bus_tick_falling ic = ic\<lparr>objs := os, active := (if p_waitrequest (plat ic) then active ic else None)\<rparr>"
    by (simp add: bus_tick_falling_def)
  moreover have "bus_inv (bus_tick_falling ic)"
    using assms os(2,3) binding_ok_frame [of "objs ic" _ os] by (simp add: b bus_inv_def attached_def)
  ultimately show ?thesis using os(1) that by blast
qed

lemma data_phase_law:
  assumes "bus_inv ic" "attached ic r"
  shows "\<exists>ic'. data_phase h r ic = Inr (ic', None) \<and> bus_inv ic' \<and> active ic' = active ic
    \<and> p_irq (plat ic') = p_irq (plat ic)"
proof -
  let ?d = "objs ic r"
  let ?p = "drop_bit 4 (avl_address ic AND NOT (address_mask (dev_slave ?d)))"
  from attached_inv [OF assms] have d: "dev_inv ?d" by blast
  have p: "reaches (dev_slave ?d) ?p" unfolding address_mask_def by (rule reaches_offset)
  have keep: "bus_inv (ic\<lparr>objs := (objs ic)(r := d'), plat := q\<rparr>)"
    if "dev_inv d'" "dev_slave d' = dev_slave ?d" for d' q
    using assms(1) that binding_ok_frame [of "objs ic" _ "(objs ic)(r := d')"]
    by (simp add: bus_inv_def attached_def)
  from bus.read_line_safe [OF d p] obtain d1 l1 ok1 where
    "dev_read_line (irq_of ic) ?p line_zero (avl_byteenable ic) ?d = Inr (d1, l1, ok1)"
    "dev_inv d1" "dev_slave d1 = dev_slave ?d" .
  moreover from bus.write_line_safe [OF d p] obtain d2 ok2 where
    "dev_write_line h ?p (avl_writedata ic) (avl_byteenable ic) ?d = Inr (d2, ok2)"
    "dev_inv d2" "dev_slave d2 = dev_slave ?d" .
  ultimately show ?thesis using assms(1) keep by (auto simp: data_phase_def Let_def)
qed

lemma tick_sweep_law:
  assumes "bus_inv ic" "healthy (h_sdl h)"
  shows "\<exists>os. for_devices (dev_tick h) (devices ic) (objs ic) = Inr os
    \<and> (\<forall>r. dev_slave (os r) = dev_slave (objs ic r) \<and> (dev_inv (objs ic r) \<longrightarrow> dev_inv (os r)))"
proof -
  have "\<forall>b \<in> set (devices ic). dev_inv (objs ic (b_dev b))"
    using assms by (auto simp: bus_inv_def binding_ok_def Let_def)
  from tick_sweep.sweep [OF this, of h] show ?thesis
    using assms(2) by (auto simp: safe_tick_def [abs_def])
qed

lemma find_device_plat [simp]:
  "find_device a (ic\<lparr>plat := q\<rparr>) = find_device a ic" "find_device a (ic\<lparr>objs := os\<rparr>) = find_device a ic"
  by (simp_all add: find_device_def)

lemma bus_inv_latch:
  "bus_inv ic \<Longrightarrow> \<not> (p_read (plat ic) \<and> p_write (plat ic)) \<Longrightarrow>
     bus_inv (ic\<lparr>avl_address := a, avl_read := p_read (plat ic), avl_write := p_write (plat ic),
       avl_writedata := d, avl_byteenable := be\<rparr>)"
  by (simp add: bus_inv_def attached_def)

lemma bus_inv_plat [simp]: "bus_inv (ic\<lparr>plat := q\<rparr>) = bus_inv ic"
  by (simp add: bus_inv_def attached_def)

lemma bus_inv_active: "bus_inv ic \<Longrightarrow> attached ic r \<Longrightarrow> bus_inv (ic\<lparr>active := Some r\<rparr>)"
  by (simp add: bus_inv_def attached_def)

text \<open>The state after the devices have ticked and the interrupt line is driven.\<close>

definition ticked :: "(nat \<Rightarrow> device) \<Rightarrow> interconnect \<Rightarrow> interconnect" where
  "ticked os ic =
     (let ic1 = ic\<lparr>objs := os\<rparr> in
      case root_intc ic1 of None \<Rightarrow> ic1
      | Some r \<Rightarrow> ic1\<lparr>plat := (plat ic1)\<lparr>p_irq := root_irq ic1 r\<rparr>\<rparr>)"

definition latched :: "interconnect \<Rightarrow> interconnect" where
  "latched ic = ic\<lparr>avl_address := p_address (plat ic), avl_read := p_read (plat ic),
     avl_write := p_write (plat ic), avl_writedata := p_writedata (plat ic),
     avl_byteenable := p_byteenable (plat ic)\<rparr>"

lemma ticked_frame [simp]:
  "active (ticked os ic) = active ic" "devices (ticked os ic) = devices ic"
  "objs (ticked os ic) = os" "avl_address (ticked os ic) = avl_address ic"
  "avl_read (ticked os ic) = avl_read ic" "avl_write (ticked os ic) = avl_write ic"
  "avl_writedata (ticked os ic) = avl_writedata ic" "avl_byteenable (ticked os ic) = avl_byteenable ic"
  "p_address (plat (ticked os ic)) = p_address (plat ic)" "p_read (plat (ticked os ic)) = p_read (plat ic)"
  "p_write (plat (ticked os ic)) = p_write (plat ic)"
  "p_writedata (plat (ticked os ic)) = p_writedata (plat ic)"
  "p_byteenable (plat (ticked os ic)) = p_byteenable (plat ic)"
  by (simp_all add: ticked_def Let_def split: option.splits)

lemma bus_tick_rising_alt:
  assumes "for_devices (dev_tick h) (devices ic) (objs ic) = Inr os"
  shows "bus_tick_rising h ic =
    (case active ic of
       Some r \<Rightarrow> data_phase h r (ticked os ic)
     | None \<Rightarrow>
         let ic3 = latched (ticked os ic) in
         if \<not> p_read (plat ic) \<and> \<not> p_write (plat ic) then Inr (ic3, None)
         else case find_device (p_address (plat ic)) ic3 of
                None \<Rightarrow> Inr (bus_bail ic3, Some (Memory_Hole (p_address (plat ic))))
              | Some r \<Rightarrow>
                  if p_address (plat ic) AND 0b1111 \<noteq> 0
                  then Inr (bus_bail (ic3\<lparr>active := Some r\<rparr>), Some (Unaligned (p_address (plat ic))))
                  else data_phase h r (ic3\<lparr>active := Some r\<rparr>))"
proof -
  have t: "ticked os ic = (let ic1 = ic\<lparr>objs := os\<rparr> in
      case root_intc ic1 of None \<Rightarrow> ic1
      | Some r \<Rightarrow> ic1\<lparr>plat := (plat ic1)\<lparr>p_irq := root_irq ic1 r\<rparr>\<rparr>)" by (simp add: ticked_def)
  show ?thesis
    unfolding bus_tick_rising_def assms bind_res_simps Let_def t [unfolded Let_def, symmetric]
    by (auto simp: latched_def split: option.splits)
qed

lemma ticked_inv:
  assumes "bus_inv ic" "\<forall>r. dev_slave (os r) = dev_slave (objs ic r) \<and> (dev_inv (objs ic r) \<longrightarrow> dev_inv (os r))"
  shows "bus_inv (ticked os ic)"
  using assms binding_ok_frame [of "objs ic" _ os] by (simp add: bus_inv_def attached_def)

lemma latched_inv:
  "bus_inv ic \<Longrightarrow> \<not> (p_read (plat ic) \<and> p_write (plat ic)) \<Longrightarrow> bus_inv (latched ic)"
  by (simp add: bus_inv_def attached_def latched_def)

lemma latched_frame [simp]:
  "active (latched ic) = active ic" "devices (latched ic) = devices ic" "objs (latched ic) = objs ic"
  "plat (latched ic) = plat ic" "find_device a (latched ic) = find_device a ic"
  "avl_address (latched ic) = p_address (plat ic)" "avl_read (latched ic) = p_read (plat ic)"
  "avl_write (latched ic) = p_write (plat ic)" "avl_writedata (latched ic) = p_writedata (plat ic)"
  "avl_byteenable (latched ic) = p_byteenable (plat ic)"
  by (simp_all add: latched_def find_device_def)

lemma bus_tick_rising_law:
  assumes i: "bus_inv ic" and h: "healthy (h_sdl h)"
    and p: "\<not> (p_read (plat ic) \<and> p_write (plat ic))"
  shows "\<exists>ic' e. bus_tick_rising h ic = Inr (ic', e) \<and> bus_inv ic'"
proof -
  from tick_sweep_law [OF i h] obtain os where
    os: "for_devices (dev_tick h) (devices ic) (objs ic) = Inr os"
      "\<forall>r. dev_slave (os r) = dev_slave (objs ic r) \<and> (dev_inv (objs ic r) \<longrightarrow> dev_inv (os r))" by blast
  note t = ticked_inv [OF i os(2)]
  have l: "bus_inv (latched (ticked os ic))" using t p by (simp add: latched_inv)
  show ?thesis
  proof (cases "active ic")
    case (Some r)
    with i have "attached (ticked os ic) r" by (auto simp: bus_inv_def attached_def)
    from data_phase_law [OF t this, of h] show ?thesis
      by (auto simp: bus_tick_rising_alt [OF os(1)] Some)
  next
    case None
    have a: "attached (latched (ticked os ic)) r"
      if "find_device (p_address (plat ic)) (latched (ticked os ic)) = Some r" for r
      using that by (rule find_attached)
    have d: "\<exists>ic' e. data_phase h r (latched (ticked os ic)\<lparr>active := Some r\<rparr>) = Inr (ic', e) \<and> bus_inv ic'"
      if "attached (latched (ticked os ic)) r" for r
      using data_phase_law [OF bus_inv_active [OF l that], of r h] that by (auto simp: attached_def)
    show ?thesis
      using None l bus_bail_law(1) a d bus_inv_active [OF l]
      by (auto simp: bus_tick_rising_alt [OF os(1)] Let_def split: option.splits)
  qed
qed

section \<open>Runs of the bus\<close>

text \<open>
  What may change before an edge: the signals of the platform that the hardware drives (\<open>q\<close>
  carries them), and the two signals of each verilated slave.
\<close>

definition drive_dev :: "bool \<times> u32 \<Rightarrow> device \<Rightarrow> device" where
  "drive_dev x d = (case d of D_sim s \<Rightarrow> D_sim (hw_drive x s) | _ \<Rightarrow> d)"

definition drive :: "platform \<Rightarrow> (nat \<Rightarrow> bool \<times> u32) \<Rightarrow> interconnect \<Rightarrow> interconnect" where
  "drive q hw ic = ic\<lparr>plat := (plat ic)\<lparr>reset_reset_n := reset_reset_n q, p_address := p_address q,
     p_read := p_read q, p_write := p_write q, p_writedata := p_writedata q,
     p_byteenable := p_byteenable q\<rparr>, objs := (\<lambda>r. drive_dev (hw r) (objs ic r))\<rparr>"

text \<open>
  The protocol the processors owe the bus, stated on the signals alone: a request on the bus at a
  rising edge is answered at the first falling edge that finds \<open>waitrequest\<close> low, and until then
  its five signals stay as they were; a reset drops it; no request reads and writes at once. \<open>asked\<close>
  is what a platform asks for, and the first component of a run's state is the request that is still
  unanswered, which an observer of the signals keeps and the interconnect does not see.
\<close>

type_synonym request = "u32 \<times> bool \<times> bool \<times> line \<times> u32"

definition asked :: "platform \<Rightarrow> request" where
  "asked q = (p_address q, p_read q, p_write q, p_writedata q, p_byteenable q)"

datatype bus_edge = Edge (e_host: host) (e_clk: bool) (e_plat: platform) (e_hw: "nat \<Rightarrow> bool \<times> u32")

definition unanswered :: "bool \<Rightarrow> platform \<Rightarrow> bool \<Rightarrow> request option \<Rightarrow> request option" where
  "unanswered clk q wait r =
     (if \<not> reset_reset_n q then None
      else if clk then if p_read q \<or> p_write q then Some (asked q) else r
      else if wait then r else None)"

text \<open>One edge: the signals take their values and \<open>tick\<close> runs, whatever they are.\<close>

fun bus_step :: "bus_edge \<Rightarrow> request option \<times> interconnect \<Rightarrow> (request option \<times> interconnect) res" where
  "bus_step (Edge h clk q hw) (r, ic) =
     bind_res (bus_tick h clk (drive q hw ic))
       (\<lambda>(ic', _). Inr (unanswered clk q (p_waitrequest (plat ic)) r, ic'))"

fun follows_protocol :: "bus_edge \<Rightarrow> request option \<times> interconnect \<Rightarrow> bool" where
  "follows_protocol (Edge h clk q hw) (r, _) \<longleftrightarrow>
     healthy (h_sdl h) \<and> \<not> (p_read q \<and> p_write q)
     \<and> (r = None \<or> \<not> reset_reset_n q \<or> r = Some (asked q))"

text \<open>The interconnect's own copy of a request it is serving is the unanswered one.\<close>

definition own_request :: "interconnect \<Rightarrow> request" where
  "own_request ic = (avl_address ic, avl_read ic, avl_write ic, avl_writedata ic, avl_byteenable ic)"

definition edge_inv :: "request option \<times> interconnect \<Rightarrow> bool" where
  "edge_inv x \<longleftrightarrow> bus_inv (snd x) \<and> (active (snd x) \<noteq> None \<longrightarrow> fst x = Some (own_request (snd x)))"

lemma drive_dev_frame [simp]:
  "dev_slave (drive_dev x d) = dev_slave d" "dev_inv (drive_dev x d) = dev_inv d"
  by (simp_all add: drive_dev_def hw_drive_def split: device.split)

lemma drive_inv: "bus_inv ic \<Longrightarrow> bus_inv (drive q hw ic)"
  by (simp add: drive_def bus_inv_def attached_def binding_ok_def)

lemma drive_frame [simp]:
  "active (drive q hw ic) = active ic" "p_read (plat (drive q hw ic)) = p_read q"
  "p_write (plat (drive q hw ic)) = p_write q" "reset_reset_n (plat (drive q hw ic)) = reset_reset_n q"
  "avl_read (drive q hw ic) = avl_read ic" "avl_write (drive q hw ic) = avl_write ic"
  by (simp_all add: drive_def)

lemma drive_latch [simp]: "own_request (drive q hw ic) = own_request ic"
    "p_waitrequest (plat (drive q hw ic)) = p_waitrequest (plat ic)"
    "asked (plat (drive q hw ic)) = asked q"
  by (simp_all add: drive_def own_request_def asked_def)

lemma held_latch: "request_held ic \<longleftrightarrow> own_request ic = asked (plat ic)"
  by (auto simp: request_held_def own_request_def asked_def line_eq_iff)

lemma bus_inv_reset:
  "bus_inv ic \<Longrightarrow> bus_inv (ic\<lparr>active := None, plat := q, avl_read := False, avl_write := False,
     avl_address := 0, avl_byteenable := 0\<rparr>)"
  by (simp add: bus_inv_def)

text \<open>A rising edge leaves a device selected only with the request of this edge in its latches.\<close>

lemma data_phase_latch:
  "data_phase h r ic = Inr (ic', e) \<Longrightarrow> own_request ic' = own_request ic"
  by (auto simp: data_phase_def own_request_def Let_def bind_res_Inr_iff split: if_splits)

lemma bail_latch [simp]: "own_request (bus_bail ic) = own_request ic"
  by (simp add: bus_bail_def own_request_def split: sum.split)

lemma bail_active [simp]: "active (bus_bail ic) = active ic"
  by (simp add: bus_bail_def split: sum.split)

lemma ticked_latch [simp]: "own_request (ticked os ic) = own_request ic"
  by (simp add: own_request_def)

lemma latched_latch [simp]: "own_request (latched ic) = asked (plat ic)" "own_request (ic\<lparr>active := a\<rparr>) = own_request ic"
    "asked (plat (ticked os ic)) = asked (plat ic)"
  by (simp_all add: own_request_def asked_def)

lemma bus_tick_rising_latch:
  assumes "bus_inv ic" "healthy (h_sdl h)" "active ic \<noteq> None \<Longrightarrow> own_request ic = asked (plat ic)"
    "bus_tick_rising h ic = Inr (ic', e)" "active ic' \<noteq> None"
  shows "own_request ic' = asked (plat ic) \<and> (p_read (plat ic) \<or> p_write (plat ic) \<or> active ic \<noteq> None)"
proof -
  from tick_sweep_law [OF assms(1,2)] obtain os where
    os: "for_devices (dev_tick h) (devices ic) (objs ic) = Inr os" by blast
  show ?thesis
    using assms(3-5)
    by (auto simp: bus_tick_rising_alt [OF os] Let_def dest!: data_phase_latch split: option.splits if_splits)
qed

lemma bus_tick_law:
  assumes "bus_inv ic" "healthy (h_sdl h)" "\<not> (p_read (plat ic) \<and> p_write (plat ic))"
    "active ic \<noteq> None \<longrightarrow> reset_reset_n (plat ic) \<longrightarrow> request_held ic"
  shows "\<exists>ic' ok. bus_tick h clk ic = Inr (ic', ok) \<and> bus_inv ic'"
proof -
  have "\<not> (avl_read ic \<and> avl_write ic)" using assms(1) by (simp add: bus_inv_def)
  moreover from bus_tick_rising_law [OF assms(1-3)] obtain ic' e where
    "bus_tick_rising h ic = Inr (ic', e)" "bus_inv ic'" by blast
  moreover obtain os where "bus_inv (bus_tick_falling ic)" using bus_tick_falling_law [OF assms(1)] .
  ultimately show ?thesis
    using assms(1,4) bus_inv_reset by (cases clk) (auto simp: bus_tick_def)
qed

lemma bus_tick_latch:
  assumes "bus_inv ic" "healthy (h_sdl h)" "active ic \<noteq> None \<longrightarrow> r = Some (own_request ic)"
    "r = None \<or> \<not> reset_reset_n (plat ic) \<or> r = Some (asked (plat ic))"
    "bus_tick h clk ic = Inr (ic', ok)" "active ic' \<noteq> None"
  shows "unanswered clk (plat ic) (p_waitrequest (plat ic)) r = Some (own_request ic')"
proof (cases "reset_reset_n (plat ic) \<and> clk")
  case True
  then obtain e where "bus_tick_rising h ic = Inr (ic', e)"
    using assms(5) by (auto simp: bus_tick_def bind_res_Inr_iff split: if_splits)
  with bus_tick_rising_latch [OF assms(1,2) _ this assms(6)] assms(3,4) True show ?thesis
    by (auto simp: unanswered_def)
next
  case False
  have f: "active (bus_tick_falling ic) = (if p_waitrequest (plat ic) then active ic else None)"
      "own_request (bus_tick_falling ic) = own_request ic"
    by (rule bus_tick_falling_law [OF assms(1)], simp add: own_request_def)+
  from False assms(5,6) have "reset_reset_n (plat ic)" "\<not> clk" "ic' = bus_tick_falling ic"
    by (auto simp: bus_tick_def split: if_splits)
  with f assms(3,6) show ?thesis by (simp add: unanswered_def split: if_splits)
qed

interpretation clocked: stepping follows_protocol bus_step edge_inv
proof unfold_locales
  fix x e
  assume i: "edge_inv x" and p: "follows_protocol e x"
  obtain h clk q hw where e: "e = Edge h clk q hw" by (cases e)
  obtain r ic where x: "x = (r, ic)" by (cases x)
  let ?ic = "drive q hw ic"
  have b: "bus_inv ?ic" and l: "active ?ic \<noteq> None \<longrightarrow> r = Some (own_request ?ic)"
    using i x drive_inv by (auto simp: edge_inv_def)
  have q: "healthy (h_sdl h)" "\<not> (p_read q \<and> p_write q)" "r = None \<or> \<not> reset_reset_n q \<or> r = Some (asked q)"
    using p x e by simp_all
  have "active ?ic \<noteq> None \<longrightarrow> reset_reset_n (plat ?ic) \<longrightarrow> request_held ?ic"
    using l q(3) by (auto simp: held_latch)
  from bus_tick_law [OF b q(1) _ this, of clk] q(2) obtain ic' ok where
    t: "bus_tick h clk ?ic = Inr (ic', ok)" "bus_inv ic'" by (simp only: drive_frame) blast
  have "active ic' \<noteq> None \<longrightarrow> unanswered clk (plat ?ic) (p_waitrequest (plat ?ic)) r = Some (own_request ic')"
    using bus_tick_latch [OF b q(1) l _ t(1)] q(3) by simp
  moreover have "unanswered clk (plat ?ic) (p_waitrequest (plat ?ic)) r
      = unanswered clk q (p_waitrequest (plat ic)) r"
    by (simp add: unanswered_def)
  ultimately have "edge_inv (unanswered clk q (p_waitrequest (plat ic)) r, ic')"
    using t(2) by (simp add: edge_inv_def)
  then show "\<exists>x'. bus_step e x = Inr x' \<and> edge_inv x'" using t(1) by (auto simp: x e)
qed

text \<open>Attaching a list of devices to a fresh interconnect.\<close>

fun attach_all :: "nat list \<Rightarrow> interconnect \<Rightarrow> interconnect res" where
  "attach_all [] ic = Inr ic"
| "attach_all (r # rs) ic = bind_res (attach r ic) (attach_all rs)"

lemma attach_objs: "attach r ic = Inr ic' \<Longrightarrow> objs ic' = objs ic"
  by (auto simp: attach_def Let_def split: if_splits)

lemma attach_all_inv:
  "bus_inv ic \<Longrightarrow> attach_all rs ic = Inr ic' \<Longrightarrow>
     \<forall>r \<in> set rs. dev_inv (objs ic r) \<and> Ex (spans (dev_slave (objs ic r))) \<Longrightarrow> bus_inv ic'"
proof (induction rs arbitrary: ic)
  case (Cons r rs)
  from Cons.prems(2) obtain ic1 where 1: "attach r ic = Inr ic1" "attach_all rs ic1 = Inr ic'"
    by (auto simp: bind_res_Inr_iff)
  from Cons.prems(3) obtain k where "dev_inv (objs ic r)" "spans (dev_slave (objs ic r)) k" by auto
  from attach_inv [OF Cons.prems(1) 1(1) this] have "bus_inv ic1" .
  from Cons.IH [OF this 1(2)] Cons.prems(3) show ?case by (simp add: attach_objs [OF 1(1)])
qed simp

lemma attach_all_active: "attach_all rs ic = Inr ic' \<Longrightarrow> active ic' = active ic"
  by (induction rs arbitrary: ic)
     (auto simp: attach_def Let_def bind_res_Inr_iff split: if_splits)

lemma interconnect_init_inv: "bus_inv (interconnect_init p os)"
  by (simp add: bus_inv_def interconnect_init_def)

section \<open>A RAM behind the bus\<close>

lemma for_devices_stable:
  assumes "\<And>i. f i d = Inr d"
  shows "for_devices f bs os = Inr os' \<Longrightarrow> os r = d \<Longrightarrow> os' r = d"
proof (induction bs arbitrary: os)
  case (Cons b bs)
  from Cons.prems(1) obtain x where x: "f (b_dev b) (os (b_dev b)) = Inr x"
      "for_devices f bs (os(b_dev b := x)) = Inr os'"
    by (auto simp: bind_res_Inr_iff)
  have "(os(b_dev b := x)) r = d" using x(1) assms Cons.prems(2) by auto
  from Cons.IH [OF x(2) this] show ?case .
qed simp

lemma line_offset:
  assumes "mem_inv m" "well_placed (mem_slave m)" "claims (mem_slave m) a" "a AND 15 = 0"
  shows "unat (drop_bit 4 (a AND NOT (address_mask (mem_slave m)))) < mem_len m"
    and "16 * unat (drop_bit 4 (a AND NOT (address_mask (mem_slave m)))) = unat a - unat (sl_base (mem_slave m))"
proof -
  show "unat (drop_bit 4 (a AND NOT (address_mask (mem_slave m)))) < mem_len m"
    by (rule mem_reaches [OF assms(1)], unfold address_mask_def, rule reaches_offset)
  from assms(2) obtain k where k: "spans (mem_slave m) k" "base_aligned (mem_slave m)"
    by (auto simp: well_placed_def)
  let ?o = "a AND NOT (sl_mask (mem_slave m))"
  have o: "unat ?o = unat a - unat (sl_base (mem_slave m))"
    using offset_in_span(1) [OF k] decodes_claims [OF assms(2)] assms(3) by blast
  have "?o AND mask 4 = (a AND 15) AND NOT (sl_mask (mem_slave m))"
    by (simp add: mask_eq_exp_minus_1 ac_simps)
  then have "unat ?o mod 16 = 0"
    using unat_and_mask [of ?o 4] assms(4) by simp
  then show "16 * unat (drop_bit 4 (a AND NOT (address_mask (mem_slave m)))) = unat a - unat (sl_base (mem_slave m))"
    unfolding address_mask_def unat_drop_bit using o mult_div_mod_eq [of 16 "unat ?o"] by simp
qed

text \<open>A new request to a RAM reaches the data phase in the same edge.\<close>

lemma ram_request:
  assumes "bus_inv ic" "healthy (h_sdl h)" "reset_reset_n (plat ic)" "active ic = None"
    "p_read (plat ic) \<noteq> p_write (plat ic)" "p_address (plat ic) AND 15 = 0"
    "find_device (p_address (plat ic)) ic = Some r" "objs ic r = D_mem m"
  obtains ic1 where "bus_tick h True ic = bind_res (data_phase h r ic1) (\<lambda>(ic', thrown). Inr (ic', thrown = None))"
    "bus_inv ic1" "attached ic1 r" "active ic1 = Some r" "objs ic1 r = D_mem m"
    "avl_address ic1 = p_address (plat ic)" "avl_read ic1 = p_read (plat ic)" "avl_write ic1 = p_write (plat ic)"
    "avl_writedata ic1 = p_writedata (plat ic)" "avl_byteenable ic1 = p_byteenable (plat ic)"
    "reset_reset_n (plat ic1)" "request_held ic1"
proof -
  from tick_sweep_law [OF assms(1,2)] obtain os where
    os: "for_devices (dev_tick h) (devices ic) (objs ic) = Inr os"
      "\<forall>r. dev_slave (os r) = dev_slave (objs ic r) \<and> (dev_inv (objs ic r) \<longrightarrow> dev_inv (os r))" by blast
  have m: "os r = D_mem m"
    by (rule for_devices_stable [OF _ os(1) assms(8)]) simp
  let ?ic1 = "latched (ticked os ic)\<lparr>active := Some r\<rparr>"
  have f: "find_device (p_address (plat ic)) (ticked os ic) = Some r"
    using assms(7) by (simp add: find_device_def)
  have nb: "\<not> (p_read (plat ic) \<and> p_write (plat ic))" "p_read (plat ic) \<or> p_write (plat ic)" using assms(5) by auto
  have "bus_tick h True ic = bind_res (data_phase h r ?ic1) (\<lambda>(ic', thrown). Inr (ic', thrown = None))"
    using assms(1,3,4,6) f nb by (auto simp: bus_tick_def bus_tick_rising_alt [OF os(1)] Let_def bus_inv_def)
  moreover have "bus_inv ?ic1" "attached ?ic1 r"
    using bus_inv_active [OF latched_inv [OF ticked_inv [OF assms(1) os(2)]]] nb find_attached [OF assms(7)]
    by (auto simp: attached_def)
  moreover have "reset_reset_n (plat ?ic1)" "request_held ?ic1"
    using assms(3) by (simp_all add: request_held_def line_eq_iff ticked_def Let_def split: option.splits)
  ultimately show ?thesis using m by (intro that [of ?ic1]) simp_all
qed

lemma falling_frees:
  assumes "bus_inv ic" "reset_reset_n (plat ic)" "request_held ic" "\<not> p_waitrequest (plat ic)" "objs ic r = D_mem m"
  shows "\<exists>ic'. bus_tick h False ic = Inr (ic', True) \<and> active ic' = None \<and> objs ic' r = D_mem m"
proof -
  from bus_tick_falling_law [OF assms(1)] obtain os where
    os: "bus_tick_falling ic = ic\<lparr>objs := os, active := (if p_waitrequest (plat ic) then active ic else None)\<rparr>"
      "for_devices (\<lambda>_ d. Inr (dev_tick_falling d)) (devices ic) (objs ic) = Inr os" .
  have "os r = D_mem m"
    by (rule for_devices_stable [OF _ os(2) assms(5)]) simp
  with os(1) assms(2,3,4) show ?thesis by (auto simp: bus_tick_def)
qed

lemma ram_write:
  assumes "bus_inv ic" "healthy (h_sdl h)" "reset_reset_n (plat ic)" "active ic = None"
    "\<not> p_read (plat ic)" "p_write (plat ic)" "p_address (plat ic) AND 15 = 0"
    "find_device (p_address (plat ic)) ic = Some r" "objs ic r = D_mem m"
  shows "\<exists>ic' m' ic''. bus_tick h True ic = Inr (ic', True) \<and> objs ic' r = D_mem m'
    \<and> mem_bytes m' = flat_store (unat (p_address (plat ic)) - unat (sl_base (mem_slave m))) 16
        (bit (p_byteenable (plat ic))) (line_byte (p_writedata (plat ic))) (mem_bytes m)
    \<and> \<not> p_waitrequest (plat ic')
    \<and> bus_tick h False ic' = Inr (ic'', True) \<and> active ic'' = None \<and> objs ic'' r = D_mem m'"
proof -
  let ?a = "p_address (plat ic)" and ?pos = "\<lambda>a. drop_bit 4 (a AND NOT (address_mask (mem_slave m)))"
  have "p_read (plat ic) \<noteq> p_write (plat ic)" using assms(5,6) by simp
  from ram_request [OF assms(1-4) this assms(7-9)] obtain ic1 where
    ic1: "bus_tick h True ic = bind_res (data_phase h r ic1) (\<lambda>(ic', thrown). Inr (ic', thrown = None))"
    "bus_inv ic1" "attached ic1 r" "active ic1 = Some r" "objs ic1 r = D_mem m"
    "avl_address ic1 = ?a" "avl_read ic1 = p_read (plat ic)" "avl_write ic1 = p_write (plat ic)"
    "avl_writedata ic1 = p_writedata (plat ic)" "avl_byteenable ic1 = p_byteenable (plat ic)"
    "reset_reset_n (plat ic1)" "request_held ic1" .
  have m: "mem_inv m" "well_placed (mem_slave m)" using attached_inv [OF ic1(2,3)] ic1(5) by simp_all
  have "claims (mem_slave m) ?a" using find_device_claims(2) [OF assms(1,8)] assms(9) by simp
  note o = line_offset [OF m this assms(7)]
  then obtain m' where w: "mem_write_line (?pos ?a) (p_writedata (plat ic)) (p_byteenable (plat ic)) m = Inr (m', True)"
    by (simp add: mem_write_line_def del: drop_bit_and)
  let ?ic' = "ic1\<lparr>objs := (objs ic1)(r := D_mem m'), plat := (plat ic1)\<lparr>p_waitrequest := False\<rparr>\<rparr>"
  have dp: "data_phase h r ic1 = Inr (?ic', None)"
    using w assms(5,6) by (simp add: data_phase_def Let_def ic1(5-10) wrap_write_def)
  have i: "bus_inv ?ic'" using data_phase_law [OF ic1(2,3), of h] dp by simp
  have "reset_reset_n (plat ?ic')" "request_held ?ic'"
    using ic1(11,12) by (simp_all add: request_held_def)
  from falling_frees [OF i this, of r m' h] have
    "\<exists>ic''. bus_tick h False ?ic' = Inr (ic'', True) \<and> active ic'' = None \<and> objs ic'' r = D_mem m'" by simp
  moreover have "bus_tick h True ic = Inr (?ic', True)" by (simp add: ic1(1) dp)
  moreover have "objs ?ic' r = D_mem m'" "\<not> p_waitrequest (plat ?ic')" by simp_all
  ultimately show ?thesis using mem_write_line_flat [OF w] o(2) by metis
qed

section \<open>Properties\<close>

text \<open>
  C2. No clock edge makes the bus fail: start an interconnect, attach devices in any order whose
  constructors' checks passed (\<open>attach\<close> accepting each of them), and clock it over any sequence of
  edges, resets included, with any signals of the processors that keep the protocol of the bus: a
  request is held until the edge that answers it, and none reads and writes at once. Then the
  interconnect's comparison of the held request with its latched copy never fails, nor does any other
  assertion of it, nor an assertion or array access of a device, and the bindings stay consistent with
  the devices. The protocol is judged on the signals (\<open>waitrequest\<close> and the request itself), not on
  the latches.
\<close>

theorem bus_runs_safely:
  assumes "attach_all rs (interconnect_init p os) = Inr ic"
    "\<forall>r \<in> set rs. dev_inv (os r) \<and> Ex (spans (dev_slave (os r)))"
    "legal follows_protocol bus_step es (None, ic)"
  shows "\<exists>r ic'. run bus_step es (None, ic) = Inr (r, ic') \<and> bus_inv ic'
    \<and> (active ic' \<noteq> None \<longrightarrow> r = Some (own_request ic'))"
proof -
  have "bus_inv ic"
    using attach_all_inv [OF interconnect_init_inv assms(1)] assms(2) by (simp add: interconnect_init_def)
  moreover have "active ic = None"
    using attach_all_active [OF assms(1)] by (simp add: interconnect_init_def)
  ultimately have "edge_inv (None, ic)" by (simp add: edge_inv_def)
  from clocked.run_safe [OF this assms(3)] show ?thesis by (auto simp: edge_inv_def)
qed

definition host_example :: host where
  "host_example = \<lparr>h_getch = (\<lambda>_. -1), h_sdl = sdl_example\<rparr>"

definition plat_example :: platform where
  "plat_example = \<lparr>reset_reset_n = True, p_irq = False, p_address = 0x20, p_read = False, p_write = True,
     p_writedata = Line 1 2 3 4, p_byteenable = 0x00f0, p_waitrequest = False, p_readdata = line_zero\<rparr>"

definition objs_example :: "nat \<Rightarrow> device" where
  "objs_example = (\<lambda>_. D_sim sim_example)(0 := D_mem ram_example)"

definition bus_example :: interconnect where
  "bus_example = (interconnect_init plat_example objs_example)
     \<lparr>devices := [\<lparr>b_base = 0, b_mask = NOT 63, b_dev = 0\<rparr>, \<lparr>b_base = 0x30100000, b_mask = NOT 31, b_dev = 1\<rparr>]\<rparr>"

lemma bus_example_attach: "attach_all [0, 1] (interconnect_init plat_example objs_example) = Inr bus_example"
  by (simp add: attach_def Let_def bus_example_def interconnect_init_def objs_example_def
      ram_example_def sim_example_def base_address_def address_mask_def)

lemma ram_example_inv: "mem_inv ram_example"
  by (simp add: mem_inv_def ram_example_def spans_def exI [of _ 6] mask_eq_exp_minus_1)

lemma objs_example_ok: "\<forall>r \<in> set [0, 1]. dev_inv (objs_example r) \<and> Ex (spans (dev_slave (objs_example r)))"
proof -
  have "spans (mem_slave ram_example) 6" "spans (ss_slave sim_example) 5"
    by (simp_all add: spans_def ram_example_def sim_example_def mask_eq_exp_minus_1)
  then show ?thesis using ram_example_inv by (auto simp: objs_example_def)
qed

lemma host_example_healthy: "healthy (h_sdl host_example)"
  by (simp add: host_example_def healthy_def sdl_example_def)

lemma bus_example_legal:
  "legal follows_protocol bus_step [Edge host_example True plat_example (\<lambda>_. (True, 0)),
      Edge host_example False plat_example (\<lambda>_. (False, 7)),
      Edge host_example True (plat_example\<lparr>p_write := False\<rparr>) (\<lambda>_. (True, 0))] (None, bus_example)"
proof -
  let ?ic = "drive plat_example (\<lambda>_. (True, 0)) bus_example"
  have "find_device (p_address (plat ?ic)) ?ic = Some 0" "objs ?ic 0 = D_mem ram_example"
    by (simp_all add: plat_example_def bus_example_def interconnect_init_def find_device_def
        binding_matches_def objs_example_def drive_def drive_dev_def)
  moreover have "bus_inv ?ic"
    using attach_all_inv [OF interconnect_init_inv bus_example_attach] objs_example_ok
    by (intro drive_inv) (simp add: interconnect_init_def)
  moreover have "reset_reset_n (plat ?ic)" "active ?ic = None" "\<not> p_read (plat ?ic)"
      "p_write (plat ?ic)" "p_address (plat ?ic) AND 15 = 0"
    by (simp_all add: plat_example_def bus_example_def interconnect_init_def drive_def)
  ultimately obtain ic' where
    "bus_tick host_example True ?ic = Inr (ic', True)" "\<not> p_waitrequest (plat ic')"
    using ram_write [of ?ic host_example 0 ram_example] host_example_healthy by blast
  moreover have "asked (plat_example\<lparr>p_write := False\<rparr>) = (0x20, False, False, Line 1 2 3 4, 0x00f0)"
      "reset_reset_n plat_example" "p_write plat_example" "\<not> p_read plat_example"
    by (simp_all add: asked_def plat_example_def)
  ultimately show ?thesis
    using host_example_healthy
    by (intro legal_Cons) (auto simp: unanswered_def bind_res_Inr_iff)
qed

text \<open>A write request taken at one rising edge, held over the falling edge, and gone at the next.\<close>

theorem bus_runs_safely_witness:
  "\<exists>r ic'. run bus_step [Edge host_example True plat_example (\<lambda>_. (True, 0)),
      Edge host_example False plat_example (\<lambda>_. (False, 7)),
      Edge host_example True (plat_example\<lparr>p_write := False\<rparr>) (\<lambda>_. (True, 0))] (None, bus_example) = Inr (r, ic')
    \<and> bus_inv ic' \<and> (active ic' \<noteq> None \<longrightarrow> r = Some (own_request ic'))"
  by (rule bus_runs_safely [OF bus_example_attach objs_example_ok bus_example_legal])

lemma bus_example_inv: "bus_inv bus_example"
  using attach_all_inv [OF interconnect_init_inv bus_example_attach] objs_example_ok
  by (simp add: interconnect_init_def)

text \<open>
  C7. A bus error is exactly an access to an address no attached device claims, or an access to
  one that is not on a 16-byte boundary, in this order: in a rising edge that takes a new
  request, the exception thrown is \<open>memory hole\<close>, \<open>unaligned address\<close> or none, accordingly,
  it carries the address of the request, and \<open>tick\<close> returns \<open>false\<close> just then.
\<close>

theorem bus_errors_exactly:
  assumes "bus_inv ic" "healthy (h_sdl h)" "reset_reset_n (plat ic)" "active ic = None"
    "p_read (plat ic) \<noteq> p_write (plat ic)"
  shows "\<exists>ic' e. bus_tick_rising h ic = Inr (ic', e) \<and> bus_tick h True ic = Inr (ic', e = None)
    \<and> e = (let a = p_address (plat ic) in
           if \<not> (\<exists>r. attached ic r \<and> claims (dev_slave (objs ic r)) a) then Some (Memory_Hole a)
           else if unat a mod 16 \<noteq> 0 then Some (Unaligned a) else None)"
proof -
  let ?a = "p_address (plat ic)"
  from tick_sweep_law [OF assms(1,2)] obtain os where
    os: "for_devices (dev_tick h) (devices ic) (objs ic) = Inr os"
      "\<forall>r. dev_slave (os r) = dev_slave (objs ic r) \<and> (dev_inv (objs ic r) \<longrightarrow> dev_inv (os r))" by blast
  have rw: "\<not> (p_read (plat ic) \<and> p_write (plat ic))" "p_read (plat ic) \<or> p_write (plat ic)"
    using assms(5) by auto
  let ?l = "latched (ticked os ic)"
  have l: "bus_inv ?l" using latched_inv [OF ticked_inv [OF assms(1) os(2)]] rw by simp
  have f: "find_device ?a (ticked os ic) = find_device ?a ic" by (simp add: find_device_def)
  have d: "\<exists>ic'. data_phase h r (?l\<lparr>active := Some r\<rparr>) = Inr (ic', None)" if "find_device ?a ic = Some r" for r
  proof -
    from find_attached [of ?a ?l r] f that have "attached ?l r" by simp
    with data_phase_law [OF bus_inv_active [OF l this], of r h] show ?thesis by (auto simp: attached_def)
  qed
  have al: "?a AND 15 = 0 \<longleftrightarrow> unat ?a mod 16 = 0"
    using unat_and_mask [of ?a 4] by (simp add: mask_eq_exp_minus_1 unat_eq_zero [symmetric])
  have t: "bus_tick h True ic = bind_res (bus_tick_rising h ic) (\<lambda>(ic', thrown). Inr (ic', thrown = None))"
    using assms(1,3,4) by (simp add: bus_tick_def bus_inv_def)
  have none: "find_device ?a ic = None \<longleftrightarrow> \<not> (\<exists>r. attached ic r \<and> claims (dev_slave (objs ic r)) ?a)"
    by (rule find_device_claims(1) [OF assms(1)])
  show ?thesis
  proof (cases "find_device ?a ic")
    case None
    with none rw assms(4) t show ?thesis
      by (auto simp: bus_tick_rising_alt [OF os(1)] Let_def f)
  next
    case (Some r)
    then have c: "\<exists>r. attached ic r \<and> claims (dev_slave (objs ic r)) ?a" using none by auto
    from d [OF Some] obtain ic' where "data_phase h r (?l\<lparr>active := Some r\<rparr>) = Inr (ic', None)" by blast
    with Some rw assms(4) t al c show ?thesis
      by (simp add: bus_tick_rising_alt [OF os(1)] Let_def f)
  qed
qed

theorem bus_errors_exactly_witness:
  "\<exists>ic' e. bus_tick_rising host_example (bus_example\<lparr>plat := plat_example\<lparr>p_address := 0x40\<rparr>\<rparr>) = Inr (ic', e)
    \<and> bus_tick host_example True (bus_example\<lparr>plat := plat_example\<lparr>p_address := 0x40\<rparr>\<rparr>) = Inr (ic', e = None)
    \<and> e = Some (Memory_Hole 0x40)"
proof -
  let ?ic = "bus_example\<lparr>plat := plat_example\<lparr>p_address := 0x40\<rparr>\<rparr>"
  have i: "bus_inv ?ic" using bus_example_inv by simp
  have r: "reset_reset_n (plat ?ic)" "active ?ic = None" "p_read (plat ?ic) \<noteq> p_write (plat ?ic)"
    by (simp_all add: plat_example_def bus_example_def interconnect_init_def)
  have "\<not> (\<exists>r. attached ?ic r \<and> claims (dev_slave (objs ?ic r)) 0x40)"
    by (simp add: bus_example_def interconnect_init_def attached_def claims_def
      objs_example_def ram_example_def sim_example_def)
  moreover have "p_address (plat ?ic) = 0x40" by simp
  ultimately show ?thesis
    using bus_errors_exactly [OF i host_example_healthy r] by (simp only: Let_def if_True not_True_eq_False not_False_eq_True)
qed

text \<open>
  C5. A line write to a RAM through the bus: in the rising edge that takes an aligned write
  request the RAM's bytes become those of a flat memory in which the enabled bytes of the line
  are stored at the distance of the address from the RAM's base; the bus does not ask to wait,
  and the next falling edge, the request still held, frees the bus and keeps the bytes.
\<close>

theorem ram_write_transaction:
  assumes "bus_inv ic" "healthy (h_sdl h)" "reset_reset_n (plat ic)" "active ic = None"
    "\<not> p_read (plat ic)" "p_write (plat ic)" "p_address (plat ic) AND 15 = 0"
    "find_device (p_address (plat ic)) ic = Some r" "objs ic r = D_mem m"
  shows "\<exists>ic' m' ic''. bus_tick h True ic = Inr (ic', True) \<and> objs ic' r = D_mem m'
    \<and> mem_bytes m' = flat_store (unat (p_address (plat ic)) - unat (sl_base (mem_slave m))) 16
        (bit (p_byteenable (plat ic))) (line_byte (p_writedata (plat ic))) (mem_bytes m)
    \<and> \<not> p_waitrequest (plat ic')
    \<and> bus_tick h False ic' = Inr (ic'', True) \<and> active ic'' = None \<and> objs ic'' r = D_mem m'"
  by (rule ram_write [OF assms])

theorem ram_write_transaction_witness:
  "\<exists>ic' m' ic''. bus_tick host_example True bus_example = Inr (ic', True) \<and> objs ic' 0 = D_mem m'
    \<and> mem_bytes m' = flat_store 0x20 16 (bit (0x00f0 :: u32)) (line_byte (Line 1 2 3 4)) (mem_bytes ram_example)
    \<and> \<not> p_waitrequest (plat ic')
    \<and> bus_tick host_example False ic' = Inr (ic'', True) \<and> active ic'' = None \<and> objs ic'' 0 = D_mem m'"
proof -
  have r: "reset_reset_n (plat bus_example)" "active bus_example = None" "\<not> p_read (plat bus_example)"
    "p_write (plat bus_example)" "p_address (plat bus_example) AND 15 = 0"
    "find_device (p_address (plat bus_example)) bus_example = Some 0" "objs bus_example 0 = D_mem ram_example"
    by (simp_all add: plat_example_def bus_example_def interconnect_init_def find_device_def
        binding_matches_def objs_example_def)
  have v: "p_address (plat bus_example) = 0x20" "p_byteenable (plat bus_example) = 0x00f0"
    "p_writedata (plat bus_example) = Line 1 2 3 4" "sl_base (mem_slave ram_example) = 0"
    by (simp_all add: plat_example_def bus_example_def interconnect_init_def ram_example_def)
  have u: "unat (0x20 :: u32) - unat (0 :: u32) = 0x20" by simp
  show ?thesis
    using ram_write_transaction [OF bus_example_inv host_example_healthy r] unfolding v u .
qed

text \<open>
  C6. A line read of a RAM through the bus: the rising edge that takes an aligned read request
  drives the sixteen bytes stored at the distance of the address from the RAM's base, does not
  ask to wait and changes no byte; the next falling edge frees the bus.
\<close>

theorem ram_read_transaction:
  assumes "bus_inv ic" "healthy (h_sdl h)" "reset_reset_n (plat ic)" "active ic = None"
    "p_read (plat ic)" "\<not> p_write (plat ic)" "p_address (plat ic) AND 15 = 0"
    "find_device (p_address (plat ic)) ic = Some r" "objs ic r = D_mem m"
  shows "\<exists>ic' ic''. bus_tick h True ic = Inr (ic', True) \<and> objs ic' r = D_mem m
    \<and> (\<forall>n < 16. line_byte (p_readdata (plat ic')) n
         = mem_bytes m (unat (p_address (plat ic)) - unat (sl_base (mem_slave m)) + n))
    \<and> \<not> p_waitrequest (plat ic')
    \<and> bus_tick h False ic' = Inr (ic'', True) \<and> active ic'' = None \<and> objs ic'' r = D_mem m"
proof -
  let ?a = "p_address (plat ic)" and ?pos = "\<lambda>a. drop_bit 4 (a AND NOT (address_mask (mem_slave m)))"
  have "p_read (plat ic) \<noteq> p_write (plat ic)" using assms(5,6) by simp
  from ram_request [OF assms(1-4) this assms(7-9)] obtain ic1 where
    ic1: "bus_tick h True ic = bind_res (data_phase h r ic1) (\<lambda>(ic', thrown). Inr (ic', thrown = None))"
    "bus_inv ic1" "attached ic1 r" "active ic1 = Some r" "objs ic1 r = D_mem m"
    "avl_address ic1 = ?a" "avl_read ic1 = p_read (plat ic)" "avl_write ic1 = p_write (plat ic)"
    "avl_writedata ic1 = p_writedata (plat ic)" "avl_byteenable ic1 = p_byteenable (plat ic)"
    "reset_reset_n (plat ic1)" "request_held ic1" .
  have m: "mem_inv m" "well_placed (mem_slave m)" using attached_inv [OF ic1(2,3)] ic1(5) by simp_all
  have "claims (mem_slave m) ?a" using find_device_claims(2) [OF assms(1,8)] assms(9) by simp
  note o = line_offset [OF m this assms(7)]
  let ?l = "block m (unat (?pos ?a))"
  have w: "mem_read_line (?pos ?a) line_zero (p_byteenable (plat ic)) m = Inr (m, ?l, True)"
    using o(1) by (simp add: mem_read_line_def del: drop_bit_and)
  let ?ic' = "ic1\<lparr>objs := (objs ic1)(r := D_mem m), plat := (plat ic1)\<lparr>p_waitrequest := False, p_readdata := ?l\<rparr>\<rparr>"
  have dp: "data_phase h r ic1 = Inr (?ic', None)"
    using w assms(5,6) by (simp add: data_phase_def Let_def ic1(5-10) wrap_read_def)
  have i: "bus_inv ?ic'" using data_phase_law [OF ic1(2,3), of h] dp by simp
  have "reset_reset_n (plat ?ic')" "request_held ?ic'"
    using ic1(11,12) by (simp_all add: request_held_def)
  from falling_frees [OF i this, of r m h] have
    "\<exists>ic''. bus_tick h False ?ic' = Inr (ic'', True) \<and> active ic'' = None \<and> objs ic'' r = D_mem m" by simp
  moreover have "line_byte ?l n = mem_bytes m (16 * unat (?pos ?a) + n)" if "n < 16" for n
    using that by (simp add: mem_bytes_def del: drop_bit_and)
  moreover have "bus_tick h True ic = Inr (?ic', True)" by (simp add: ic1(1) dp)
  moreover have "objs ?ic' r = D_mem m" "\<not> p_waitrequest (plat ?ic')" "p_readdata (plat ?ic') = ?l" by simp_all
  ultimately show ?thesis unfolding o(2) by metis
qed

theorem ram_read_transaction_witness:
  "\<exists>ic' ic''. bus_tick host_example True (bus_example\<lparr>plat := plat_example\<lparr>p_read := True, p_write := False\<rparr>\<rparr>)
      = Inr (ic', True) \<and> objs ic' 0 = D_mem ram_example
    \<and> (\<forall>n < 16. line_byte (p_readdata (plat ic')) n = mem_bytes ram_example (0x20 + n))
    \<and> \<not> p_waitrequest (plat ic')
    \<and> bus_tick host_example False ic' = Inr (ic'', True) \<and> active ic'' = None
    \<and> objs ic'' 0 = D_mem ram_example"
proof -
  let ?ic = "bus_example\<lparr>plat := plat_example\<lparr>p_read := True, p_write := False\<rparr>\<rparr>"
  have i: "bus_inv ?ic" using bus_example_inv by simp
  have r: "reset_reset_n (plat ?ic)" "active ?ic = None" "p_read (plat ?ic)"
    "\<not> p_write (plat ?ic)" "p_address (plat ?ic) AND 15 = 0"
    "find_device (p_address (plat ?ic)) ?ic = Some 0" "objs ?ic 0 = D_mem ram_example"
    by (simp_all add: plat_example_def bus_example_def interconnect_init_def find_device_def
        binding_matches_def objs_example_def)
  have v: "p_address (plat ?ic) = 0x20" "sl_base (mem_slave ram_example) = 0"
    by (simp_all add: plat_example_def ram_example_def)
  have u: "unat (0x20 :: u32) - unat (0 :: u32) = 0x20" by simp
  show ?thesis using ram_read_transaction [OF i host_example_healthy r] unfolding v u .
qed

text \<open>
  The interrupt line: after a rising edge with an interrupt controller attached, \<open>avl_irq\<close>
  is high exactly when the controller's mask enables the timer line and the timer's own request
  is high, or enables the UART line and the UART's is, as the devices stand after their \<open>tick\<close>
  of this very edge and before the edge's bus access; no access in the same edge changes it.
\<close>

theorem irq_line_is_masked_sources:
  assumes "bus_inv ic" "reset_reset_n (plat ic)" "bus_tick h True ic = Inr (ic', ok)"
    "root_intc ic = Some r" "for_devices (dev_tick h) (devices ic) (objs ic) = Inr os" "os r = D_intc i"
  shows "p_irq (plat ic') \<longleftrightarrow>
      bit (ic_mask i) 0 \<and> (\<exists>t. line_timer (irqs i) = Some t \<and> dev_irq (os t))
      \<or> bit (ic_mask i) 1 \<and> (\<exists>t. line_jtaguart (irqs i) = Some t \<and> dev_irq (os t))"
proof -
  have irq: "p_irq (plat (ticked os ic)) \<longleftrightarrow>
      bit (ic_mask i) 0 \<and> (\<exists>t. line_timer (irqs i) = Some t \<and> dev_irq (os t))
      \<or> bit (ic_mask i) 1 \<and> (\<exists>t. line_jtaguart (irqs i) = Some t \<and> dev_irq (os t))"
    by (simp add: ticked_def Let_def assms(4,6) root_irq_def intc_irq_iff irq_of_def)
  have bail: "plat (bus_bail x) = plat x" for x by (simp add: bus_bail_def split: sum.split)
  have dp: "p_irq (plat x') = p_irq (plat x)" if "data_phase h q x = Inr (x', e)" for x x' q e
    using that by (auto simp: data_phase_def Let_def bind_res_Inr_iff split: if_splits)
  obtain e where e: "bus_tick_rising h ic = Inr (ic', e)"
    using assms(1-3) by (auto simp: bus_tick_def bus_inv_def bind_res_Inr_iff split: if_splits)
  have "p_irq (plat ic') = p_irq (plat (ticked os ic))"
    using e by (auto simp: bus_tick_rising_alt [OF assms(5)] Let_def bail dest!: dp split: option.splits if_splits)
  then show ?thesis using irq by simp
qed

definition irq_example_objs :: "nat \<Rightarrow> device" where
  "irq_example_objs = (\<lambda>_. D_intc \<lparr>ic_slave = \<lparr>sl_base = 0x30070000, sl_mask = NOT 7, sl_word = 2\<rparr>,
       irqs = \<lparr>line_timer = Some 0, line_jtaguart = None\<rparr>, ic_mask = 1\<rparr>)
     (0 := D_timer \<lparr>tm_slave = \<lparr>sl_base = 0x30020000, sl_mask = NOT 31, sl_word = 2\<rparr>, tm_count = 0,
       tm_period = 5, tm_snap = 0, status_to = False, status_run = True, control_ito = True,
       control_cont = False\<rparr>)"

definition irq_example :: interconnect where
  "irq_example = (interconnect_init (plat_example\<lparr>p_write := False\<rparr>) irq_example_objs)
     \<lparr>devices := [\<lparr>b_base = 0x30020000, b_mask = NOT 31, b_dev = 0\<rparr>,
        \<lparr>b_base = 0x30070000, b_mask = NOT 7, b_dev = 1\<rparr>], root_intc := Some 1\<rparr>"

lemma irq_example_inv: "bus_inv irq_example"
proof -
  have "spans \<lparr>sl_base = 0x30020000, sl_mask = NOT 31, sl_word = 2\<rparr> 5"
    "spans \<lparr>sl_base = 0x30070000, sl_mask = NOT 7, sl_word = 2\<rparr> 3"
    by (simp_all add: spans_def mask_eq_exp_minus_1)
  then show ?thesis
    by (auto simp: bus_inv_def irq_example_def irq_example_objs_def interconnect_init_def binding_ok_def
        well_placed_def base_aligned_def)
qed

text \<open>The timer, one tick from its timeout, raises the line in this edge.\<close>

theorem irq_line_is_masked_sources_witness:
  "\<exists>ic'. bus_tick host_example True irq_example = Inr (ic', True) \<and> p_irq (plat ic')"
proof -
  let ?os = "irq_example_objs(0 := D_timer (timer_tick \<lparr>tm_slave = \<lparr>sl_base = 0x30020000, sl_mask = NOT 31,
       sl_word = 2\<rparr>, tm_count = 0, tm_period = 5, tm_snap = 0, status_to = False, status_run = True,
       control_ito = True, control_cont = False\<rparr>))"
  have os: "for_devices (dev_tick host_example) (devices irq_example) (objs irq_example) = Inr ?os"
    by (simp add: irq_example_def interconnect_init_def irq_example_objs_def fun_upd_def [abs_def])
       (rule ext, simp)
  have i: "?os 1 = D_intc \<lparr>ic_slave = \<lparr>sl_base = 0x30070000, sl_mask = NOT 7, sl_word = 2\<rparr>,
       irqs = \<lparr>line_timer = Some 0, line_jtaguart = None\<rparr>, ic_mask = 1\<rparr>"
    by (simp add: irq_example_objs_def)
  have r: "root_intc irq_example = Some 1" "reset_reset_n (plat irq_example)"
    by (simp_all add: irq_example_def interconnect_init_def plat_example_def)
  have t: "bus_tick host_example True irq_example = Inr (latched (ticked ?os irq_example), True)"
    by (simp add: bus_tick_def r bus_tick_rising_alt [OF os])
       (simp add: irq_example_def interconnect_init_def plat_example_def)
  from irq_line_is_masked_sources [OF irq_example_inv r(2) t r(1) os i] t show ?thesis
    by (auto simp: timer_tick_def timer_irq_def bit_0)
qed

end
