(* ===== verification/Avalon_External.thy ===== *)
theory Avalon_External
  imports Avalon_Bus
begin

text \<open>
  Access to the devices from outside the clock (\<open>interconnect::dump\<close> and \<open>patch\<close> of
  \<open>avalon.impl.hpp\<close>), the debugger's way to memory. Both resolve a word address to the first
  device that claims it and repeat the device's word operation until it answers \<open>true\<close>; no
  clock edge happens in the loop.
\<close>

section \<open>The position handed to a RAM\<close>

lemma push_bit_2_aligned: "push_bit 2 a AND 3 = 0" for a :: u32
proof -
  have "push_bit 2 a AND mask 2 = 0"
    by (rule bit_word_eqI) (simp add: bit_simps)
  then show ?thesis by (simp add: mask_eq_exp_minus_1)
qed

lemma external_pos_ram:
  assumes "mem_inv m" "well_placed (mem_slave m)" "claims (mem_slave m) a" "a AND 3 = 0"
  shows "unat (external_pos a (mem_slave m)) div 4 < mem_len m"
    and "4 * unat (external_pos a (mem_slave m)) = unat a - unat (sl_base (mem_slave m))"
proof -
  from assms(1) have w: "word_bits (mem_slave m) = 2" by (auto simp: mem_inv_def word_bits_def)
  from assms(2) obtain k where k: "spans (mem_slave m) k" "base_aligned (mem_slave m)"
    by (auto simp: well_placed_def)
  let ?o = "a AND NOT (sl_mask (mem_slave m))"
  have o: "unat ?o = unat a - unat (sl_base (mem_slave m))"
    using offset_in_span(1) [OF k] decodes_claims [OF assms(2)] assms(3) by blast
  have "?o AND mask 2 = (a AND 3) AND NOT (sl_mask (mem_slave m))"
    by (simp add: mask_eq_exp_minus_1 ac_simps)
  then have "unat ?o mod 4 = 0"
    using unat_and_mask [of ?o 2] assms(4) by simp
  then show "4 * unat (external_pos a (mem_slave m)) = unat a - unat (sl_base (mem_slave m))"
    unfolding external_pos_def w address_mask_def unat_drop_bit
    using o mult_div_mod_eq [of 4 "unat ?o"] by simp
  have "unat (drop_bit 4 ?o) < mem_len m"
    by (rule mem_reaches [OF assms(1) reaches_offset])
  then show "unat (external_pos a (mem_slave m)) div 4 < mem_len m"
    unfolding external_pos_def w address_mask_def unat_drop_bit by (simp add: div_mult2_eq [symmetric])
qed

lemma dump_loop_ram:
  assumes "mem_inv m" "unat pos div 4 < mem_len m" "objs ic r = D_mem m"
  shows "\<exists>v. dump_loop r pos word ic = Some (Inr (ic, v))
    \<and> (\<forall>j < 4. byte_of v j = mem_bytes m (4 * unat pos + j))"
proof -
  have "unat (drop_bit 2 pos) < mem_len m" using assms(2) by (simp add: unat_drop_bit)
  then obtain v where v: "mem_read pos word m = Inr (m, v, True)"
    by (auto simp: mem_read_def slave_read_def mem_read_line_def)
  have "ic\<lparr>objs := (objs ic)(r := D_mem m)\<rparr> = ic" using assms(3) by (simp flip: assms(3))
  then have "dump_loop r pos word ic = Some (Inr (ic, v))"
    by (subst dump_loop.simps) (simp add: assms(3) wrap_read_def v)
  then show ?thesis using mem_read_flat [OF v] by blast
qed

lemma patch_loop_ram:
  assumes "unat pos div 4 < mem_len m" "objs ic r = D_mem m"
  shows "\<exists>m'. patch_loop h r pos word ic = Some (Inr (ic\<lparr>objs := (objs ic)(r := D_mem m')\<rparr>))
    \<and> mem_len m' = mem_len m \<and> mem_slave m' = mem_slave m
    \<and> mem_bytes m' = flat_store (4 * unat pos) 4 (\<lambda>_. True) (byte_of word) (mem_bytes m)"
proof -
  have "unat (drop_bit 2 pos) < mem_len m" using assms(1) by (simp add: unat_drop_bit)
  then obtain m' where m': "mem_write pos word 0b1111 m = Inr (m', True)"
    by (auto simp: mem_write_def slave_write_def mem_write_line_def)
  have "flat_store s 4 (bit (0b1111 :: u32)) d f = flat_store s 4 (\<lambda>_. True) d f" for s d f
  proof -
    have "bit (0b1111 :: u32) j" if "j < 4" for j
    proof -
      have "(0b1111 :: u32) = mask 4" by (simp add: mask_eq_exp_minus_1)
      then show ?thesis using that by (simp only: bit_mask_iff) simp
    qed
    then show ?thesis by (auto simp: flat_store_def fun_eq_iff)
  qed
  moreover have "patch_loop h r pos word ic = Some (Inr (ic\<lparr>objs := (objs ic)(r := D_mem m')\<rparr>))"
    by (subst patch_loop.simps) (simp add: assms(2) wrap_write_def m')
  ultimately show ?thesis using mem_write_flat [OF m'] by auto
qed

section \<open>A verilated slave never answers\<close>

definition sim_stuck :: "device \<Rightarrow> bool" where
  "sim_stuck d = (case d of D_sim s \<Rightarrow> \<not> latch s | _ \<Rightarrow> False)"

lemma sim_stuck_read:
  assumes "sim_stuck d"
  shows "\<exists>d'. dev_read f a x d = Inr (d', x, False) \<and> sim_stuck d'"
  using assms by (cases d) (auto simp: sim_stuck_def sim_read_def wrap_read_def)

lemma sim_stuck_write:
  assumes "sim_stuck d"
  shows "\<exists>d'. dev_write h a x be d = Inr (d', False) \<and> sim_stuck d'"
  using assms by (cases d) (auto simp: sim_stuck_def sim_write_def wrap_write_def)

lemma dump_loop_stuck: "sim_stuck (objs ic r) \<Longrightarrow> dump_loop r pos word ic = None"
proof -
  have "\<not> sim_stuck (objs ic r)" if "dump_loop r pos word ic = Some y" for y
  proof (rule dump_loop.raw_induct [where P = "\<lambda>r pos word ic y. \<not> sim_stuck (objs ic r)", OF _ that], rule notI)
    fix loop r pos word ic y
    assume IH: "\<And>r pos word ic y. loop r pos word ic = Some y \<Longrightarrow> \<not> sim_stuck (objs ic r)"
      and body: "(case dev_read (irq_of ic) pos word (objs ic r) of
          Inl e \<Rightarrow> Some (Inl e)
        | Inr (d, w, ok) \<Rightarrow> if ok then Some (Inr (ic\<lparr>objs := (objs ic)(r := d)\<rparr>, w))
            else loop r pos w (ic\<lparr>objs := (objs ic)(r := d)\<rparr>)) = Some y"
      assume s: "sim_stuck (objs ic r)"
      from sim_stuck_read [OF s, of "irq_of ic" pos word] obtain d where
        d: "dev_read (irq_of ic) pos word (objs ic r) = Inr (d, word, False)" "sim_stuck d" by blast
      with body have "loop r pos word (ic\<lparr>objs := (objs ic)(r := d)\<rparr>) = Some y" by simp
      from IH [OF this] d(2) show False by simp
  qed
  then show "sim_stuck (objs ic r) \<Longrightarrow> dump_loop r pos word ic = None"
    by (cases "dump_loop r pos word ic") auto
qed

lemma patch_loop_stuck: "sim_stuck (objs ic r) \<Longrightarrow> patch_loop h r pos word ic = None"
proof -
  have "\<not> sim_stuck (objs ic r)" if "patch_loop h r pos word ic = Some y" for y
  proof (rule patch_loop.raw_induct [where P = "\<lambda>h r pos word ic y. \<not> sim_stuck (objs ic r)", OF _ that], rule notI)
    fix loop h r pos word ic y
    assume IH: "\<And>h r pos word ic y. loop h r pos word ic = Some y \<Longrightarrow> \<not> sim_stuck (objs ic r)"
      and body: "(case dev_write h pos word 0b1111 (objs ic r) of
          Inl e \<Rightarrow> Some (Inl e)
        | Inr (d, ok) \<Rightarrow> if ok then Some (Inr (ic\<lparr>objs := (objs ic)(r := d)\<rparr>))
            else loop h r pos word (ic\<lparr>objs := (objs ic)(r := d)\<rparr>)) = Some y"
      assume s: "sim_stuck (objs ic r)"
      from sim_stuck_write [OF s, of h pos word] obtain d where
        d: "dev_write h pos word 0b1111 (objs ic r) = Inr (d, False)" "sim_stuck d" by blast
      with body have "loop h r pos word (ic\<lparr>objs := (objs ic)(r := d)\<rparr>) = Some y" by simp
      from IH [OF this] d(2) show False by simp
  qed
  then show "sim_stuck (objs ic r) \<Longrightarrow> patch_loop h r pos word ic = None"
    by (cases "patch_loop h r pos word ic") auto
qed

section \<open>Properties\<close>

text \<open>
  The debugger's access to a RAM: \<open>patch\<close> of a word address that resolves to a RAM succeeds
  and stores the four bytes of the word, lowest first, at the distance of the byte address from
  the RAM's base, and nothing else; a \<open>dump\<close> of the same address then returns the word that was
  written and changes nothing.
\<close>

theorem patch_then_dump:
  assumes "bus_inv ic" "resolve_external (push_bit 2 addr) ic = Some r" "objs ic r = D_mem m"
  shows "\<exists>m' ic'. bus_patch h addr w ic = Some (Inr (ic', True))
    \<and> ic' = ic\<lparr>objs := (objs ic)(r := D_mem m')\<rparr>
    \<and> mem_bytes m' = flat_store (unat (push_bit 2 addr) - unat (sl_base (mem_slave m))) 4 (\<lambda>_. True)
        (byte_of w) (mem_bytes m)
    \<and> bus_dump addr x ic' = Some (Inr (ic', w, True))"
proof -
  let ?a = "push_bit 2 addr"
  have f: "find_device ?a ic = Some r" using assms(2) by (simp add: resolve_external_def)
  have m: "mem_inv m" "well_placed (mem_slave m)" "claims (mem_slave m) ?a"
    using attached_inv [OF assms(1) find_attached [OF f]] find_device_claims(2) [OF assms(1) f] assms(3)
    by simp_all
  note o = external_pos_ram [OF m push_bit_2_aligned]
  let ?p = "external_pos ?a (mem_slave m)"
  from patch_loop_ram [OF o(1) assms(3), of h w] obtain m' where
    m': "patch_loop h r ?p w ic = Some (Inr (ic\<lparr>objs := (objs ic)(r := D_mem m')\<rparr>))"
      "mem_len m' = mem_len m" "mem_slave m' = mem_slave m"
      "mem_bytes m' = flat_store (4 * unat ?p) 4 (\<lambda>_. True) (byte_of w) (mem_bytes m)" by blast
  let ?ic' = "ic\<lparr>objs := (objs ic)(r := D_mem m')\<rparr>"
  have p: "bus_patch h addr w ic = Some (Inr (?ic', True))"
    by (simp add: bus_patch_def assms(2,3) m'(1))
  have "mem_inv m'" using m(1) m'(2,3) by (simp add: mem_inv_def)
  from dump_loop_ram [OF this, of ?p ?ic' r x] obtain v where
    v: "dump_loop r ?p x ?ic' = Some (Inr (?ic', v))"
      "\<forall>j < 4. byte_of v j = mem_bytes m' (4 * unat ?p + j)" using o(1) m'(2) by auto
  have "v = w"
    by (rule word_bytes_eqI) (simp add: v(2) m'(4) flat_store_def)
  moreover have "resolve_external ?a ?ic' = Some r"
    using f by (simp add: resolve_external_def)
  ultimately have "bus_dump addr x ?ic' = Some (Inr (?ic', w, True))"
    using v(1) by (simp add: bus_dump_def m'(3))
  with p m'(4) o(2) show ?thesis by auto
qed

theorem patch_then_dump_witness:
  "\<exists>m' ic'. bus_patch host_example 3 0xcafe bus_example = Some (Inr (ic', True))
    \<and> ic' = bus_example\<lparr>objs := (objs bus_example)(0 := D_mem m')\<rparr>
    \<and> mem_bytes m' = flat_store 12 4 (\<lambda>_. True) (byte_of 0xcafe) (mem_bytes ram_example)
    \<and> bus_dump 3 0 ic' = Some (Inr (ic', 0xcafe, True))"
proof -
  have r: "resolve_external (push_bit 2 3) bus_example = Some 0" "objs bus_example 0 = D_mem ram_example"
    by (simp_all add: bus_example_def interconnect_init_def resolve_external_def find_device_def
        binding_matches_def objs_example_def)
  have v: "unat (push_bit 2 3 :: u32) - unat (sl_base (mem_slave ram_example)) = 12"
    by (simp add: ram_example_def)
  show ?thesis using patch_then_dump [OF bus_example_inv r, of host_example "0xcafe" 0] unfolding v .
qed

text \<open>
  The debugger hangs on a verilated slave: a \<open>dump\<close> or a \<open>patch\<close> of an address that
  resolves to a \<open>sim_slave\<close> with no answer latched never returns, because the answer is latched
  at a falling edge and the loop of either takes none.
\<close>

theorem external_access_hangs_on_sim_slave:
  assumes "resolve_external (push_bit 2 addr) ic = Some r" "objs ic r = D_sim s" "\<not> latch s"
  shows "bus_dump addr word ic = None \<and> bus_patch h addr word ic = None"
proof -
  have "sim_stuck (objs ic r)" using assms(2,3) by (simp add: sim_stuck_def)
  then show ?thesis
    by (simp add: bus_dump_def bus_patch_def assms(1) dump_loop_stuck patch_loop_stuck)
qed

theorem external_access_hangs_on_sim_slave_witness:
  "bus_dump 0x0c040000 0 bus_example = None \<and> bus_patch host_example 0x0c040000 0 bus_example = None"
proof -
  have "resolve_external (push_bit 2 0x0c040000) bus_example = Some 1" "objs bus_example 1 = D_sim sim_example"
    by (simp_all add: bus_example_def interconnect_init_def resolve_external_def find_device_def
        binding_matches_def objs_example_def)
  from external_access_hangs_on_sim_slave [OF this] show ?thesis by (simp add: sim_example_def)
qed

end
