(* ===== verification/Axi_Dram.thy ===== *)
theory Axi_Dram
  imports Component_Laws
begin

text \<open>
  The memory and display side of the \<open>wavelet3d\<close> simulator: the lambda \<open>sys_bus_cycle\<close> of
  \<open>platform/wavelet3d/main.cpp\<close>, an AXI slave with three request queues in front of a DRAM
  array, and the pixel sink of the DAC. The signals that the verilated hardware drives at the end
  of \<open>cycle()\<close> are the record \<open>axi_out\<close>, those the simulator drives are \<open>axi_in\<close>. DRAM and
  frame buffer are functions with their lengths written out; an index outside is
  \<open>Out_Of_Bounds\<close>. SDL calls are the window's existence and the texture's last contents.
\<close>

section \<open>State\<close>

record a_req =
  a_id :: u32
  a_addr :: u32
  a_len :: u32

record w_req =
  w_last :: bool
  w_data :: u32
  w_strb :: u32

record axi_out =
  o_rready :: bool
  o_bready :: bool
  o_arvalid :: bool
  o_arid :: u8
  o_araddr :: u32
  o_arlen :: u8
  o_awvalid :: bool
  o_awid :: u8
  o_awaddr :: u32
  o_awlen :: u8
  o_wvalid :: bool
  o_wlast :: bool
  o_wdata :: u32
  o_wstrb :: u8
  dac_valid :: bool
  dac_first :: bool
  dac_last :: bool
  dac_r :: u16
  dac_g :: u16
  dac_b :: u16

record axi_in =
  i_rvalid :: bool
  i_rid :: u8
  i_rlast :: bool
  i_rresp :: u8
  i_rdata :: u32
  i_bvalid :: bool
  i_bid :: u8
  i_bresp :: u8
  i_arready :: bool
  i_awready :: bool
  i_wready :: bool

record axi_dram =
  ports :: axi_in
  ar_queue :: "a_req list"
  aw_queue :: "a_req list"
  w_queue :: "w_req list"
  dram :: "nat \<Rightarrow> u32"
  fb :: "nat \<Rightarrow> u32"
  fb_ptr :: nat
  w3d_window :: bool
  texture :: "(nat \<Rightarrow> u32) option"

definition MAX_PENDING :: nat where
  "MAX_PENDING = 8"

definition DRAM_SIZE :: u64 where
  "DRAM_SIZE = drop_bit 2 (push_bit 20 512)"

definition FLASH_BOUNDARY :: u64 where
  "FLASH_BOUNDARY = drop_bit 2 (push_bit 20 64)"

definition FB_SIZE :: nat where
  "FB_SIZE = 640 * 480"

definition STRB_MASKS :: "u32 list" where
  "STRB_MASKS =
    [0x00000000, 0x000000ff, 0x0000ff00, 0x0000ffff, 0x00ff0000, 0x00ff00ff, 0x00ffff00, 0x00ffffff,
     0xff000000, 0xff0000ff, 0xff00ff00, 0xff00ffff, 0xffff0000, 0xffff00ff, 0xffffff00, 0xffffffff]"

section \<open>One bus cycle\<close>

definition dram_ok :: "u32 \<Rightarrow> bool" where
  "dram_ok addr \<longleftrightarrow> \<not> DRAM_SIZE \<le> ucast (drop_bit 2 addr)"

definition read_channel :: "axi_out \<Rightarrow> axi_dram \<Rightarrow> axi_dram" where
  "read_channel t s =
     (let p = (ports s)\<lparr>i_rvalid := False\<rparr> in
      case ar_queue s of
        [] \<Rightarrow> s\<lparr>ports := p\<rparr>
      | ar # rest \<Rightarrow>
          let p1 = p\<lparr>i_rid := ucast (a_id ar), i_rlast := (a_len ar = 0), i_rresp := 0, i_rvalid := True\<rparr>;
              index = drop_bit 2 (a_addr ar);
              p2 = (if \<not> dram_ok (a_addr ar) then p1\<lparr>i_rresp := 3\<rparr>
                    else p1\<lparr>i_rdata := dram s (unat index)\<rparr>)
          in if i_rvalid p2 \<and> o_rready t then
               s\<lparr>ports := p2, ar_queue :=
                 (if i_rlast p2 then rest
                  else ar\<lparr>a_addr := a_addr ar + 4, a_len := a_len ar - 1\<rparr> # rest)\<rparr>
             else s\<lparr>ports := p2\<rparr>)"

definition store_beat :: "u32 \<Rightarrow> w_req \<Rightarrow> (nat \<Rightarrow> u32) \<Rightarrow> (nat \<Rightarrow> u32)" where
  "store_beat addr w m =
     (if \<not> dram_ok addr then m
      else let index = unat (drop_bit 2 addr); msk = STRB_MASKS ! unat (w_strb w AND 0b1111)
           in m(index := (w_data w AND msk) OR (m index AND NOT msk)))"

definition write_channel :: "axi_out \<Rightarrow> axi_dram \<Rightarrow> axi_dram" where
  "write_channel t s =
     (let p = (ports s)\<lparr>i_bvalid := False\<rparr> in
      case (aw_queue s, w_queue s) of
        (aw # aws, w # ws) \<Rightarrow>
          let p1 = p\<lparr>i_bresp := (if dram_ok (a_addr aw) then 0 else 3), i_bid := ucast (a_id aw),
                     i_bvalid := w_last w\<rparr>;
              s1 = s\<lparr>ports := p1, dram := store_beat (a_addr aw) w (dram s)\<rparr>;
              s2 = (if \<not> i_bvalid p1 \<or> o_bready t
                    then s1\<lparr>w_queue := ws, aw_queue := aw\<lparr>a_addr := a_addr aw + 4\<rparr> # aws\<rparr> else s1)
          in if i_bvalid p1 \<and> o_bready t then s2\<lparr>aw_queue := aws\<rparr> else s2
      | _ \<Rightarrow> s\<lparr>ports := p\<rparr>)"

definition accept_ar :: "axi_out \<Rightarrow> axi_dram \<Rightarrow> axi_dram" where
  "accept_ar t s =
     (let r = length (ar_queue s) < MAX_PENDING; s1 = s\<lparr>ports := (ports s)\<lparr>i_arready := r\<rparr>\<rparr> in
      if r \<and> o_arvalid t
      then s1\<lparr>ar_queue := ar_queue s @ [\<lparr>a_id = ucast (o_arid t), a_addr = o_araddr t, a_len = ucast (o_arlen t)\<rparr>]\<rparr>
      else s1)"

definition accept_aw :: "axi_out \<Rightarrow> axi_dram \<Rightarrow> axi_dram" where
  "accept_aw t s =
     (let r = length (aw_queue s) < MAX_PENDING; s1 = s\<lparr>ports := (ports s)\<lparr>i_awready := r\<rparr>\<rparr> in
      if r \<and> o_awvalid t
      then s1\<lparr>aw_queue := aw_queue s @ [\<lparr>a_id = ucast (o_awid t), a_addr = o_awaddr t, a_len = ucast (o_awlen t)\<rparr>]\<rparr>
      else s1)"

definition accept_w :: "axi_out \<Rightarrow> axi_dram \<Rightarrow> axi_dram" where
  "accept_w t s =
     (let r = length (w_queue s) < MAX_PENDING; s1 = s\<lparr>ports := (ports s)\<lparr>i_wready := r\<rparr>\<rparr> in
      if r \<and> o_wvalid t
      then s1\<lparr>w_queue := w_queue s @ [\<lparr>w_last = o_wlast t, w_data = o_wdata t, w_strb = ucast (o_wstrb t)\<rparr>]\<rparr>
      else s1)"

definition dac_pixel :: "axi_out \<Rightarrow> u32" where
  "dac_pixel t = push_bit 16 (ucast (drop_bit 2 (dac_r t))) OR push_bit 8 (ucast (drop_bit 2 (dac_g t)))
     OR push_bit 0 (ucast (drop_bit 2 (dac_b t)))"

definition dac_sink :: "axi_out \<Rightarrow> axi_dram \<Rightarrow> axi_dram res" where
  "dac_sink t s =
     (if \<not> dac_valid t then Inr s
      else
        let at = (if dac_first t then 0 else fb_ptr s) in
        if FB_SIZE \<le> at then Inl Out_Of_Bounds
        else
          let s1 = s\<lparr>fb := (fb s)(at := dac_pixel t), fb_ptr := at + 1\<rparr> in
          Inr (if dac_last t then s1\<lparr>w3d_window := True, texture := Some (fb s1)\<rparr> else s1))"

definition sys_bus_cycle :: "axi_out \<Rightarrow> axi_dram \<Rightarrow> axi_dram res" where
  "sys_bus_cycle t s =
     dac_sink t (accept_w t (accept_aw t (accept_ar t (write_channel t (read_channel t s)))))"

section \<open>Loading the flash image\<close>

text \<open>
  The image is read through a byte pointer into the little-endian words of the DRAM. The file is
  the list of its remaining bytes; \<open>fread\<close> of single bytes is short only at its end. The size
  is what \<open>ftell\<close> answered, which need not be the number of bytes that can be read.
\<close>

definition store_byte :: "nat \<Rightarrow> u8 \<Rightarrow> (nat \<Rightarrow> u32) \<Rightarrow> (nat \<Rightarrow> u32)" where
  "store_byte n b m =
     (let i = n div 4; j = 8 * (n mod 4)
      in m(i := (m i AND NOT (push_bit j 0xff)) OR push_bit j (ucast b)))"

fun store_bytes :: "nat \<Rightarrow> u8 list \<Rightarrow> (nat \<Rightarrow> u32) \<Rightarrow> (nat \<Rightarrow> u32)" where
  "store_bytes n [] m = m"
| "store_bytes n (b # bs) m = store_bytes (Suc n) bs (store_byte n b m)"

definition fread_bytes :: "nat \<Rightarrow> u8 list \<Rightarrow> u8 list \<times> u8 list" where
  "fread_bytes n f = (take n f, drop n f)"

partial_function (option) flash_loop ::
  "int \<Rightarrow> nat \<Rightarrow> u8 list \<Rightarrow> (nat \<Rightarrow> u32) \<Rightarrow> (nat \<Rightarrow> u32) option" where
  "flash_loop img_size read_base f m =
     (if 0 < img_size then
        let r = fread_bytes (nat img_size) f
        in flash_loop (img_size - int (length (fst r))) (read_base + length (fst r)) (snd r)
             (store_bytes read_base (fst r) m)
      else Some m)"

definition flash_size :: "int \<Rightarrow> int" where
  "flash_size img_size =
     (if img_size \<le> 0 then 0
      else if uint (FLASH_BOUNDARY * 4) < img_size then uint (FLASH_BOUNDARY * 4)
      else img_size)"

definition load_flash :: "int \<Rightarrow> u8 list \<Rightarrow> (nat \<Rightarrow> u32) \<Rightarrow> (nat \<Rightarrow> u32) option" where
  "load_flash img_size f m = flash_loop (flash_size img_size) 0 f m"

definition axi_init :: "axi_in \<Rightarrow> (nat \<Rightarrow> u32) \<Rightarrow> axi_dram" where
  "axi_init p m = \<lparr>ports = p\<lparr>i_bresp := 0, i_rresp := 0, i_bvalid := False, i_rvalid := False,
       i_wready := False, i_arready := False, i_awready := False\<rparr>,
     ar_queue = [], aw_queue = [], w_queue = [], dram = m, fb = (\<lambda>_. 0), fb_ptr = 0,
     w3d_window = False, texture = None\<rparr>"

section \<open>Invariant\<close>

definition axi_inv :: "axi_dram \<Rightarrow> bool" where
  "axi_inv s \<longleftrightarrow> length (ar_queue s) \<le> MAX_PENDING \<and> length (aw_queue s) \<le> MAX_PENDING
     \<and> length (w_queue s) \<le> MAX_PENDING \<and> fb_ptr s \<le> FB_SIZE"

text \<open>
  The frame rule: a pixel that does not start a frame comes while the frame buffer has room. It
  is no part of a cycle; a cycle that breaks it stores out of bounds.
\<close>

definition pixel_fits :: "axi_out \<Rightarrow> axi_dram \<Rightarrow> bool" where
  "pixel_fits t s \<longleftrightarrow> (dac_valid t \<longrightarrow> dac_first t \<or> fb_ptr s < FB_SIZE)"

definition bus_side :: "axi_out \<Rightarrow> axi_dram \<Rightarrow> axi_dram" where
  "bus_side t s = accept_w t (accept_aw t (accept_ar t (write_channel t (read_channel t s))))"

lemmas channel_defs = read_channel_def write_channel_def accept_ar_def accept_aw_def accept_w_def Let_def

lemma read_channel_frame [simp]:
  "aw_queue (read_channel t s) = aw_queue s" "w_queue (read_channel t s) = w_queue s"
  "dram (read_channel t s) = dram s" "fb_ptr (read_channel t s) = fb_ptr s" "fb (read_channel t s) = fb s"
  by (simp_all add: read_channel_def Let_def split: list.split)

lemma write_channel_frame [simp]:
  "ar_queue (write_channel t s) = ar_queue s" "fb_ptr (write_channel t s) = fb_ptr s"
  "fb (write_channel t s) = fb s"
  by (simp_all add: write_channel_def Let_def split: list.split prod.split)

lemma accept_frame [simp]:
  "aw_queue (accept_ar t s) = aw_queue s" "w_queue (accept_ar t s) = w_queue s"
  "dram (accept_ar t s) = dram s" "fb_ptr (accept_ar t s) = fb_ptr s" "fb (accept_ar t s) = fb s"
  "ar_queue (accept_aw t s) = ar_queue s" "w_queue (accept_aw t s) = w_queue s"
  "dram (accept_aw t s) = dram s" "fb_ptr (accept_aw t s) = fb_ptr s" "fb (accept_aw t s) = fb s"
  "ar_queue (accept_w t s) = ar_queue s" "aw_queue (accept_w t s) = aw_queue s"
  "dram (accept_w t s) = dram s" "fb_ptr (accept_w t s) = fb_ptr s" "fb (accept_w t s) = fb s"
  by (simp_all add: channel_defs)

lemma channel_lengths:
  "length (ar_queue (read_channel t s)) \<le> length (ar_queue s)"
  "length (aw_queue (write_channel t s)) \<le> length (aw_queue s)"
  "length (w_queue (write_channel t s)) \<le> length (w_queue s)"
  by (auto simp: channel_defs split: list.split prod.split)

lemma accept_lengths:
  "length (ar_queue s) \<le> MAX_PENDING \<Longrightarrow> length (ar_queue (accept_ar t s)) \<le> MAX_PENDING"
  "length (aw_queue s) \<le> MAX_PENDING \<Longrightarrow> length (aw_queue (accept_aw t s)) \<le> MAX_PENDING"
  "length (w_queue s) \<le> MAX_PENDING \<Longrightarrow> length (w_queue (accept_w t s)) \<le> MAX_PENDING"
  by (auto simp: channel_defs)

lemma bus_side_inv: "axi_inv s \<Longrightarrow> axi_inv (bus_side t s) \<and> fb_ptr (bus_side t s) = fb_ptr s"
  using channel_lengths [of t s] channel_lengths(2,3) [of t "read_channel t s"]
  by (auto simp: axi_inv_def bus_side_def intro!: accept_lengths)

lemma sys_bus_cycle_alt: "sys_bus_cycle t s = dac_sink t (bus_side t s)"
  by (simp add: sys_bus_cycle_def bus_side_def)

lemma dac_sink_law:
  assumes "axi_inv s" "pixel_fits t s"
  shows "\<exists>s'. dac_sink t s = Inr s' \<and> axi_inv s' \<and> ar_queue s' = ar_queue s \<and> aw_queue s' = aw_queue s
    \<and> w_queue s' = w_queue s \<and> dram s' = dram s \<and> ports s' = ports s"
  using assms by (auto simp: dac_sink_def pixel_fits_def axi_inv_def Let_def FB_SIZE_def)

lemma pixel_fits_bus_side [simp]: "pixel_fits t (bus_side t s) = pixel_fits t s"
  by (simp add: pixel_fits_def bus_side_def)

lemma cycle_law: "axi_inv s \<Longrightarrow> pixel_fits t s \<Longrightarrow> \<exists>s'. sys_bus_cycle t s = Inr s' \<and> axi_inv s'"
  using dac_sink_law [of "bus_side t s" t] bus_side_inv [of s t] by (auto simp: sys_bus_cycle_alt)

lemma cycle_overflow: "\<not> pixel_fits t s \<Longrightarrow> sys_bus_cycle t s = Inl Out_Of_Bounds"
  by (auto simp: sys_bus_cycle_alt dac_sink_def pixel_fits_def bus_side_def)

lemma cycle_queues:
  assumes "sys_bus_cycle t s = Inr s'"
  shows "ar_queue s' = ar_queue (bus_side t s)" "aw_queue s' = aw_queue (bus_side t s)"
    "w_queue s' = w_queue (bus_side t s)" "dram s' = dram (bus_side t s)" "ports s' = ports (bus_side t s)"
  using assms by (auto simp: sys_bus_cycle_alt dac_sink_def Let_def split: if_splits)

section \<open>Reads come back in order\<close>

text \<open>
  The beats a read request stands for: id, byte address and the last flag, one beat every four
  bytes, \<open>len + 1\<close> of them.
\<close>

function beats :: "a_req \<Rightarrow> (u8 \<times> u32 \<times> bool) list" where
  "beats a = (ucast (a_id a), a_addr a, a_len a = 0) #
     (if a_len a = 0 then [] else beats (a\<lparr>a_addr := a_addr a + 4, a_len := a_len a - 1\<rparr>))"
  by pat_completeness auto
termination by (relation "measure (\<lambda>a. unat (a_len a))") (auto simp: unat_minus_one unat_gt_0)

declare beats.simps [simp del]

lemma beats_nth:
  "beats a = map (\<lambda>i. (ucast (a_id a), a_addr a + of_nat (4 * i), i = unat (a_len a))) [0..<Suc (unat (a_len a))]"
proof (induction a rule: beats.induct)
  case (1 a)
  show ?case
  proof (cases "a_len a = 0")
    case False
    let ?a = "a\<lparr>a_addr := a_addr a + 4, a_len := a_len a - 1\<rparr>"
    have u: "unat (a_len a) = Suc (unat (a_len a - 1))"
      using False by (simp add: unat_minus_one unat_gt_0)
    have r: "[0..<Suc (Suc n)] = 0 # map Suc [0..<Suc n]" for n
      by (simp add: upt_conv_Cons map_Suc_upt del: upt_Suc)
    have "beats a = (ucast (a_id a), a_addr a, False) # beats ?a"
      using False by (subst beats.simps) simp
    also have "\<dots> = (ucast (a_id a), a_addr a, False) #
        map (\<lambda>i. (ucast (a_id a), a_addr a + 4 + of_nat (4 * i), i = unat (a_len a - 1))) [0..<Suc (unat (a_len a - 1))]"
      using 1 [OF False] by simp
    also have "\<dots> = map (\<lambda>i. (ucast (a_id a), a_addr a + of_nat (4 * i), i = unat (a_len a))) [0..<Suc (unat (a_len a))]"
      unfolding u r by (simp add: comp_def algebra_simps del: upt_Suc)
    finally show ?thesis .
  qed (subst beats.simps, simp)
qed

definition read_pending :: "axi_dram \<Rightarrow> (u8 \<times> u32 \<times> bool) list" where
  "read_pending s = concat (map beats (ar_queue s))"

definition read_accepted :: "axi_out \<Rightarrow> axi_dram \<Rightarrow> (u8 \<times> u32 \<times> bool) list" where
  "read_accepted t s =
     (if o_arvalid t \<and> length (ar_queue (read_channel t s)) < MAX_PENDING
      then beats \<lparr>a_id = ucast (o_arid t), a_addr = o_araddr t, a_len = ucast (o_arlen t)\<rparr> else [])"

text \<open>The beat that is taken in this cycle: valid and ready, as the ports carry it.\<close>

definition read_taken :: "axi_out \<Rightarrow> axi_dram \<Rightarrow> (u8 \<times> u32 \<times> bool) list" where
  "read_taken t s =
     (let p = ports (read_channel t s) in
      if i_rvalid p \<and> o_rready t
      then [(i_rid p, a_addr (hd (ar_queue s)), i_rlast p)] else [])"

lemma read_channel_pending:
  "read_pending s = (let p = ports (read_channel t s) in
      if i_rvalid p \<and> o_rready t then [(i_rid p, a_addr (hd (ar_queue s)), i_rlast p)] else [])
    @ read_pending (read_channel t s)"
proof (cases "ar_queue s")
  case Nil
  then show ?thesis by (simp add: read_pending_def read_channel_def Let_def)
next
  case (Cons ar rest)
  then show ?thesis
    by (subst (1) read_pending_def) (simp add: read_pending_def read_channel_def Let_def beats.simps [of ar])
qed

interpretation axi_reads: fifo_channel pixel_fits sys_bus_cycle axi_inv read_pending read_accepted read_taken
proof unfold_locales
  fix s t
  assume "axi_inv s" "pixel_fits t s"
  then show "\<exists>s'. sys_bus_cycle t s = Inr s' \<and> axi_inv s'" by (rule cycle_law)
next
  fix s t s'
  assume st: "sys_bus_cycle t s = Inr s'"
  have "read_pending s' = read_pending (read_channel t s) @ read_accepted t s"
    by (simp add: cycle_queues(1) [OF st] read_pending_def bus_side_def accept_ar_def Let_def read_accepted_def)
  then show "read_pending s @ read_accepted t s = read_taken t s @ read_pending s'"
    using read_channel_pending [of s t] by (simp add: read_taken_def Let_def)
qed

text \<open>A run returns just when no pixel overflows the frame buffer.\<close>

lemma run_returns_iff:
  "axi_inv s \<Longrightarrow> case run sys_bus_cycle ts s of
     Inl e \<Rightarrow> e = Out_Of_Bounds \<and> \<not> legal pixel_fits sys_bus_cycle ts s
   | Inr s' \<Rightarrow> legal pixel_fits sys_bus_cycle ts s \<and> axi_inv s'"
proof (induction ts arbitrary: s)
  case (Cons t ts)
  show ?case
  proof (cases "pixel_fits t s")
    case True
    from cycle_law [OF Cons.prems True] obtain s1 where "sys_bus_cycle t s = Inr s1" "axi_inv s1" by blast
    with Cons.IH [of s1] True show ?thesis by (simp split: sum.splits)
  qed (simp add: cycle_overflow)
qed simp

section \<open>Writes are performed in order\<close>

text \<open>
  What a list of write requests and a list of data beats do to a memory: each beat is stored at
  the current address of the oldest request, which advances by four bytes and ends at a beat
  marked last. What is left over of the lists waits.
\<close>

function commit :: "a_req list \<Rightarrow> w_req list \<Rightarrow> (nat \<Rightarrow> u32) \<Rightarrow> (nat \<Rightarrow> u32)" where
  "commit (aw # aws) (w # ws) m =
     commit (if w_last w then aws else aw\<lparr>a_addr := a_addr aw + 4\<rparr> # aws) ws (store_beat (a_addr aw) w m)"
| "commit [] ws m = m"
| "commit (aw # aws) [] m = m"
  by pat_completeness auto
termination by (relation "measure (\<lambda>(_, ws, _). length ws)") auto

lemma store_beat_idem [simp]: "store_beat a w (store_beat a w m) = store_beat a w m"
proof -
  have "(d AND k) OR (((d AND k) OR (x AND NOT k)) AND NOT k) = (d AND k) OR (x AND NOT k)" for d k x :: u32
    by (rule bit_word_eqI) (auto simp: bit_simps)
  then show ?thesis by (auto simp: store_beat_def Let_def fun_eq_iff)
qed

lemma write_channel_commit:
  "commit (aw_queue (write_channel t s) @ xs) (w_queue (write_channel t s) @ ys) (dram (write_channel t s))
   = commit (aw_queue s @ xs) (w_queue s @ ys) (dram s)"
  by (auto simp: write_channel_def Let_def split: list.split)

definition aw_accepted :: "axi_out \<Rightarrow> axi_dram \<Rightarrow> a_req list" where
  "aw_accepted t s =
     (if o_awvalid t \<and> length (aw_queue (write_channel t (read_channel t s))) < MAX_PENDING
      then [\<lparr>a_id = ucast (o_awid t), a_addr = o_awaddr t, a_len = ucast (o_awlen t)\<rparr>] else [])"

definition w_accepted :: "axi_out \<Rightarrow> axi_dram \<Rightarrow> w_req list" where
  "w_accepted t s =
     (if o_wvalid t \<and> length (w_queue (write_channel t (read_channel t s))) < MAX_PENDING
      then [\<lparr>w_last = o_wlast t, w_data = o_wdata t, w_strb = ucast (o_wstrb t)\<rparr>] else [])"

lemma accept_queues:
  "aw_queue (accept_aw t s) = aw_queue s @ (if o_awvalid t \<and> length (aw_queue s) < MAX_PENDING
     then [\<lparr>a_id = ucast (o_awid t), a_addr = o_awaddr t, a_len = ucast (o_awlen t)\<rparr>] else [])"
  "w_queue (accept_w t s) = w_queue s @ (if o_wvalid t \<and> length (w_queue s) < MAX_PENDING
     then [\<lparr>w_last = o_wlast t, w_data = o_wdata t, w_strb = ucast (o_wstrb t)\<rparr>] else [])"
  by (simp_all add: accept_aw_def accept_w_def Let_def)

lemma cycle_commit:
  assumes "sys_bus_cycle t s = Inr s'"
  shows "commit (aw_queue s' @ xs) (w_queue s' @ ys) (dram s')
    = commit (aw_queue s @ aw_accepted t s @ xs) (w_queue s @ w_accepted t s @ ys) (dram s)"
proof -
  let ?w = "write_channel t (read_channel t s)"
  have "aw_queue s' = aw_queue ?w @ aw_accepted t s" "w_queue s' = w_queue ?w @ w_accepted t s"
    "dram s' = dram ?w"
    using cycle_queues [OF assms] accept_queues by (simp_all add: bus_side_def aw_accepted_def w_accepted_def)
  then show ?thesis using write_channel_commit [of t "read_channel t s"] by simp
qed

lemma run_commit:
  "run sys_bus_cycle ts s = Inr s' \<Longrightarrow>
     commit (aw_queue s' @ xs) (w_queue s' @ ys) (dram s')
     = commit (aw_queue s @ emitted aw_accepted sys_bus_cycle ts s @ xs)
         (w_queue s @ emitted w_accepted sys_bus_cycle ts s @ ys) (dram s)"
proof (induction ts arbitrary: s)
  case (Cons t ts)
  then obtain s1 where s1: "sys_bus_cycle t s = Inr s1" "run sys_bus_cycle ts s1 = Inr s'"
    by (auto simp: bind_res_Inr_iff)
  from Cons.IH [OF s1(2)] cycle_commit [OF s1(1)] s1(1) show ?case by simp
qed simp

section \<open>The memory as bytes\<close>

definition dram_bytes :: "(nat \<Rightarrow> u32) \<Rightarrow> nat \<Rightarrow> u8" where
  "dram_bytes m n = byte_of (m (n div 4)) (n mod 4)"

definition all_nibbles :: "u32 list" where
  "all_nibbles = [0, 1, 2, 3, 4, 5, 6, 7, 8, 9, 10, 11, 12, 13, 14, 15]"

lemma nibble_in_list: "w AND 0b1111 \<in> set all_nibbles" for w :: u32
proof -
  have "unat (w AND 0b1111) < 16"
    using unat_and_mask [of w 4] by (simp add: mask_eq_exp_minus_1)
  then have "unat (w AND 0b1111) \<in> set [0..<16]" by simp
  then have "word_of_nat (unat (w AND 0b1111)) \<in> (word_of_nat :: nat \<Rightarrow> u32) ` set [0..<16]"
    by (rule imageI)
  then show ?thesis by (simp add: upt_rec all_nibbles_def)
qed

lemma strobe_table:
  "list_all (\<lambda>w. list_all (\<lambda>n. bit (STRB_MASKS ! unat w) n = bit w (n div 8)) [0..<32]) all_nibbles"
  by code_simp

lemma bit_strobe:
  "n < 32 \<Longrightarrow> bit (STRB_MASKS ! unat (w AND 0b1111)) n \<longleftrightarrow> bit w (n div 8)" for w :: u32
proof -
  assume n: "n < 32"
  have "bit (STRB_MASKS ! unat (w AND 0b1111)) n \<longleftrightarrow> bit (w AND 0b1111) (n div 8)"
    using strobe_table nibble_in_list [of w] n unfolding list_all_iff by (auto simp: Ball_def)
  moreover have "bit (0b1111 :: u32) (n div 8)"
  proof -
    have "(0b1111 :: u32) = mask 4" by (simp add: mask_eq_exp_minus_1)
    moreover have "n div 8 < 4" using n by auto
    ultimately show ?thesis by (simp only: bit_mask_iff) simp
  qed
  ultimately show ?thesis by (simp add: bit_and_iff)
qed

lemma byte_strobe:
  "j < 4 \<Longrightarrow> byte_of ((d AND STRB_MASKS ! unat (w AND 0b1111)) OR (x AND NOT (STRB_MASKS ! unat (w AND 0b1111)))) j
     = (if bit w j then byte_of d j else byte_of x j)" for w :: u32
  by (rule bit_word_eqI) (auto simp: byte_of_def bit_simps bit_strobe)

lemma store_beat_flat:
  assumes "dram_ok a"
  shows "dram_bytes (store_beat a w m)
    = flat_store (4 * unat (drop_bit 2 a)) 4 (bit (w_strb w)) (byte_of (w_data w)) (dram_bytes m)"
proof
  fix n
  let ?i = "unat (drop_bit 2 a)"
  show "dram_bytes (store_beat a w m) n
    = flat_store (4 * ?i) 4 (bit (w_strb w)) (byte_of (w_data w)) (dram_bytes m) n"
  proof (cases "n div 4 = ?i")
    case True
    then have "4 * ?i \<le> n \<and> n < 4 * ?i + 4" "n - 4 * ?i = n mod 4"
      by (simp_all add: minus_mult_div_eq_mod flip: True)
    then show ?thesis
      using assms True by (simp add: dram_bytes_def store_beat_def Let_def flat_store_def byte_strobe)
  next
    case False
    then have "\<not> (4 * ?i \<le> n \<and> n < 4 * ?i + 4)" by arith
    then show ?thesis
      using assms False by (auto simp: dram_bytes_def store_beat_def Let_def flat_store_def)
  qed
qed

lemma store_byte_bytes: "dram_bytes (store_byte n b m) = (dram_bytes m)(n := b)"
proof
  fix k
  have ff: "(0xff :: u32) = mask 8" by (simp add: mask_eq_exp_minus_1)
  have same: "byte_of ((x AND NOT (push_bit (8 * i) 0xff)) OR push_bit (8 * i) (ucast b)) i = b" if "i < 4" for x i
    using that unfolding ff by (intro bit_word_eqI) (auto simp: byte_of_def bit_simps)
  have other: "byte_of ((x AND NOT (push_bit (8 * i) 0xff)) OR push_bit (8 * i) (ucast b)) j = byte_of x j"
    if "i < 4" "j < 4" "i \<noteq> j" for x i j
  proof (rule bit_word_eqI)
    fix n assume "n < LENGTH(8)"
    then have n: "n < 8" by simp
    have far: "\<not> (8 * i \<le> 8 * j + n \<and> 8 * j + n - 8 * i < 8)"
      using n that(3) by (cases "i < j") auto
    have "bit b k \<Longrightarrow> k < 8" for k using bit_imp_le_length [of b k] by simp
    with far n that show "bit (byte_of ((x AND NOT (push_bit (8 * i) 0xff)) OR push_bit (8 * i) (ucast b)) j) n
        = bit (byte_of x j) n"
      unfolding ff byte_of_def bit_unsigned_iff bit_drop_bit_eq bit_or_iff bit_and_iff bit_not_iff
        bit_push_bit_iff bit_mask_iff by auto
  qed
  show "dram_bytes (store_byte n b m) k = ((dram_bytes m)(n := b)) k"
  proof (cases "k = n")
    case False
    then have "k div 4 = n div 4 \<Longrightarrow> k mod 4 \<noteq> n mod 4" by (metis div_mult_mod_eq)
    then show ?thesis
      using False other [of "n mod 4" "k mod 4"] by (auto simp: dram_bytes_def store_byte_def Let_def)
  qed (simp add: dram_bytes_def store_byte_def Let_def same)
qed

lemma store_bytes_bytes:
  "dram_bytes (store_bytes n bs m) = (\<lambda>k. if n \<le> k \<and> k < n + length bs then bs ! (k - n) else dram_bytes m k)"
  by (induction bs arbitrary: n m) (auto simp: store_byte_bytes fun_eq_iff nth_Cons' Suc_diff_Suc)

section \<open>Frames\<close>

definition frame_body :: "axi_out list \<Rightarrow> bool" where
  "frame_body ts \<longleftrightarrow> (\<forall>t \<in> set ts. dac_valid t \<longrightarrow> \<not> dac_first t \<and> \<not> dac_last t)"

definition frame_pixels :: "axi_out list \<Rightarrow> u32 list" where
  "frame_pixels ts = map dac_pixel (filter dac_valid ts)"

text \<open>What one cycle does to the frame buffer.\<close>

lemma cycle_dac:
  assumes "axi_inv s" "pixel_fits t s"
  shows "\<exists>s'. sys_bus_cycle t s = Inr s' \<and> axi_inv s' \<and>
    (if dac_valid t then
       (let at = (if dac_first t then 0 else fb_ptr s) in
        fb_ptr s' = at + 1 \<and> fb s' = (fb s)(at := dac_pixel t)
        \<and> (dac_last t \<longrightarrow> texture s' = Some (fb s') \<and> w3d_window s'))
     else fb_ptr s' = fb_ptr s \<and> fb s' = fb s)"
proof -
  note b = bus_side_inv [OF assms(1), of t]
  have f: "fb (bus_side t s) = fb s" by (simp add: bus_side_def)
  obtain s' where s': "sys_bus_cycle t s = Inr s'" "axi_inv s'" using cycle_law [OF assms] by blast
  then have "dac_sink t (bus_side t s) = Inr s'" by (simp add: sys_bus_cycle_alt)
  then show ?thesis using s' b f by (auto simp: dac_sink_def Let_def split: if_splits)
qed

lemma frame_body_run:
  "axi_inv s \<Longrightarrow> frame_body ts \<Longrightarrow> fb_ptr s + length (frame_pixels ts) \<le> FB_SIZE \<Longrightarrow>
     \<exists>s'. run sys_bus_cycle ts s = Inr s' \<and> axi_inv s' \<and> fb_ptr s' = fb_ptr s + length (frame_pixels ts)
       \<and> fb s' = (\<lambda>i. if fb_ptr s \<le> i \<and> i < fb_ptr s + length (frame_pixels ts)
                     then frame_pixels ts ! (i - fb_ptr s) else fb s i)"
proof (induction ts arbitrary: s)
  case Nil
  then show ?case by (auto simp: frame_pixels_def fun_eq_iff)
next
  case (Cons t ts)
  have "pixel_fits t s" using Cons.prems(3) by (auto simp: pixel_fits_def frame_pixels_def)
  from cycle_dac [OF Cons.prems(1) this] Cons.prems(2) obtain s1 where
    s1: "sys_bus_cycle t s = Inr s1" "axi_inv s1"
      "if dac_valid t then fb_ptr s1 = fb_ptr s + 1 \<and> fb s1 = (fb s)(fb_ptr s := dac_pixel t)
       else fb_ptr s1 = fb_ptr s \<and> fb s1 = fb s"
    by (auto simp: frame_body_def Let_def split: if_splits)
  have "fb_ptr s1 + length (frame_pixels ts) \<le> FB_SIZE" "frame_body ts"
    using Cons.prems(2,3) s1(3) by (auto simp: frame_pixels_def frame_body_def split: if_splits)
  from Cons.IH [OF s1(2) this(2,1)] obtain s' where s': "run sys_bus_cycle ts s1 = Inr s'" "axi_inv s'"
    "fb_ptr s' = fb_ptr s1 + length (frame_pixels ts)"
    "fb s' = (\<lambda>i. if fb_ptr s1 \<le> i \<and> i < fb_ptr s1 + length (frame_pixels ts)
                     then frame_pixels ts ! (i - fb_ptr s1) else fb s1 i)" by blast
  show ?case
  proof (cases "dac_valid t")
    case True
    then have p: "frame_pixels (t # ts) = dac_pixel t # frame_pixels ts" by (simp add: frame_pixels_def)
    show ?thesis
      using s1 s' True by (auto simp: p fun_eq_iff nth_Cons' Suc_diff_Suc)
  next
    case False
    then have p: "frame_pixels (t # ts) = frame_pixels ts" by (simp add: frame_pixels_def)
    show ?thesis using s1 s' False by (auto simp: p fun_eq_iff)
  qed
qed

section \<open>Properties\<close>

lemma axi_init_inv: "axi_inv (axi_init p m)"
  by (simp add: axi_inv_def axi_init_def)


text \<open>
  C34. AXI reads are answered completely and in order: from reset, over any sequence of cycles with
  any signals, either some cycle brings a pixel past the end of the frame buffer and the store goes
  out of bounds, which happens in no other way, or the run returns; then the read beats the hardware
  has taken (id, address served, last flag, as driven on the ports) followed by the beats still owed
  are exactly the beats of the accepted requests, in the order of acceptance, \<open>len + 1\<close> beats four
  bytes apart each; and no queue grows past its bound.
\<close>

theorem axi_reads_in_order:
  "case run sys_bus_cycle ts (axi_init p m) of
     Inl e \<Rightarrow> e = Out_Of_Bounds \<and> \<not> legal pixel_fits sys_bus_cycle ts (axi_init p m)
   | Inr s' \<Rightarrow> legal pixel_fits sys_bus_cycle ts (axi_init p m) \<and> axi_inv s'
       \<and> emitted read_accepted sys_bus_cycle ts (axi_init p m)
         = emitted read_taken sys_bus_cycle ts (axi_init p m) @ read_pending s'"
proof -
  note r = run_returns_iff [OF axi_init_inv, of ts p m]
  show ?thesis
  proof (cases "run sys_bus_cycle ts (axi_init p m)")
    case (Inr s')
    with r axi_reads.run_conserve [OF axi_init_inv _ Inr] show ?thesis
      by (auto simp: read_pending_def axi_init_def)
  qed (use r in simp)
qed

text \<open>
  What a read beat carries: while requests wait, every cycle drives a valid beat of the oldest
  request with the word of the DRAM at its address and status OKAY, or, outside the 512 MiB, with
  status DECERR; if the hardware is not ready the request stays as it is, and the next cycle
  drives the same beat again as long as no write changes the word.
\<close>

theorem read_beat_data:
  assumes "ar_queue s = ar # rest"
  shows "let p = ports (read_channel t s) in
    i_rvalid p \<and> i_rid p = ucast (a_id ar) \<and> i_rlast p = (a_len ar = 0)
    \<and> (if unat (a_addr ar) < 2 ^ 29
       then i_rresp p = 0 \<and> i_rdata p = dram s (unat (a_addr ar) div 4) else i_rresp p = 3)
    \<and> (\<not> o_rready t \<longrightarrow> ar_queue (read_channel t s) = ar # rest
       \<and> ports (read_channel t' (read_channel t s)) = p)"
proof -
  have d: "unat DRAM_SIZE = 2 ^ 27" by (simp add: DRAM_SIZE_def)
  have "dram_ok (a_addr ar) \<longleftrightarrow> unat (a_addr ar) div 4 < 2 ^ 27"
    by (simp add: dram_ok_def word_le_nat_alt unat_ucast_32_64 unat_drop_bit d not_le)
  also have "\<dots> \<longleftrightarrow> unat (a_addr ar) < 2 ^ 29"
    by (simp add: div_less_iff_less_mult)
  finally have ok: "dram_ok (a_addr ar) \<longleftrightarrow> unat (a_addr ar) < 2 ^ 29" .
  show ?thesis
    using assms by (simp add: read_channel_def Let_def ok unat_drop_bit)
qed

definition axi_out_idle :: axi_out where
  "axi_out_idle = \<lparr>o_rready = False, o_bready = False, o_arvalid = False, o_arid = 0, o_araddr = 0,
     o_arlen = 0, o_awvalid = False, o_awid = 0, o_awaddr = 0, o_awlen = 0, o_wvalid = False,
     o_wlast = False, o_wdata = 0, o_wstrb = 0, dac_valid = False, dac_first = False, dac_last = False,
     dac_r = 0, dac_g = 0, dac_b = 0\<rparr>"

definition axi_in_idle :: axi_in where
  "axi_in_idle = \<lparr>i_rvalid = False, i_rid = 0, i_rlast = False, i_rresp = 0, i_rdata = 0,
     i_bvalid = False, i_bid = 0, i_bresp = 0, i_arready = False, i_awready = False, i_wready = False\<rparr>"

definition axi_example :: axi_dram where
  "axi_example = (axi_init axi_in_idle (\<lambda>n. of_nat n))
     \<lparr>ar_queue := [\<lparr>a_id = 5, a_addr = 0x40, a_len = 1\<rparr>]\<rparr>"

theorem read_beat_data_witness:
  "let p = ports (read_channel axi_out_idle axi_example) in
     i_rvalid p \<and> i_rid p = 5 \<and> \<not> i_rlast p \<and> i_rresp p = 0 \<and> i_rdata p = 16"
  using read_beat_data [of axi_example "\<lparr>a_id = 5, a_addr = 0x40, a_len = 1\<rparr>" "[]" axi_out_idle axi_out_idle]
  by (simp add: axi_example_def axi_init_def Let_def)

text \<open>
  C35. AXI writes are performed in order: over any sequence of cycles from reset that does not end
  with a pixel stored past the frame buffer, carrying out the writes that still wait in the two
  queues on the DRAM gives the memory that results from carrying out, on the initial memory, all
  accepted data beats in order, each at its place in its burst: no beat is lost, repeated with an
  effect, reordered or put at the address of another burst.
\<close>

theorem axi_writes_in_order:
  "case run sys_bus_cycle ts (axi_init p m) of
     Inl e \<Rightarrow> e = Out_Of_Bounds \<and> \<not> legal pixel_fits sys_bus_cycle ts (axi_init p m)
   | Inr s' \<Rightarrow> legal pixel_fits sys_bus_cycle ts (axi_init p m)
       \<and> commit (aw_queue s') (w_queue s') (dram s')
         = commit (emitted aw_accepted sys_bus_cycle ts (axi_init p m))
             (emitted w_accepted sys_bus_cycle ts (axi_init p m)) m"
proof -
  note r = run_returns_iff [OF axi_init_inv, of ts p m]
  show ?thesis
  proof (cases "run sys_bus_cycle ts (axi_init p m)")
    case (Inr s')
    with r run_commit [OF Inr, of "[]" "[]"] show ?thesis by (simp add: axi_init_def)
  qed (use r in simp)
qed

text \<open>
  A data beat inside the 512 MiB writes exactly the bytes whose strobe is set, at the word of
  its address, and a beat outside changes nothing.
\<close>

theorem write_beat_refines_flat:
  "dram_bytes (store_beat a w m) =
     (if unat a < 2 ^ 29
      then flat_store (4 * (unat a div 4)) 4 (bit (w_strb w)) (byte_of (w_data w)) (dram_bytes m)
      else dram_bytes m)"
proof -
  have d: "unat DRAM_SIZE = 2 ^ 27" by (simp add: DRAM_SIZE_def)
  have "dram_ok a \<longleftrightarrow> unat a div 4 < 2 ^ 27"
    by (simp add: dram_ok_def word_le_nat_alt unat_ucast_32_64 unat_drop_bit d not_le)
  also have "\<dots> \<longleftrightarrow> unat a < 2 ^ 29"
    by (simp add: div_less_iff_less_mult)
  finally have ok: "dram_ok a \<longleftrightarrow> unat a < 2 ^ 29" .
  have "store_beat a w m = m" if "\<not> dram_ok a" using that by (simp add: store_beat_def)
  then show ?thesis using store_beat_flat [of a w m] by (simp add: ok unat_drop_bit)
qed

text \<open>
  The write response: a beat that is not the last of its burst is consumed at once and gives
  no response; the last one drives a valid response with the id of the burst and the status of
  its own address, and stays in place, with nothing changed by repeating it, until the hardware
  is ready; then both the beat and its burst leave the queues.
\<close>

theorem write_response:
  assumes "aw_queue s = aw # aws" "w_queue s = w # ws"
  shows "let s' = write_channel t s in
    if \<not> w_last w then \<not> i_bvalid (ports s') \<and> w_queue s' = ws
      \<and> aw_queue s' = aw\<lparr>a_addr := a_addr aw + 4\<rparr> # aws
    else i_bvalid (ports s') \<and> i_bid (ports s') = ucast (a_id aw)
      \<and> i_bresp (ports s') = (if dram_ok (a_addr aw) then 0 else 3)
      \<and> (if o_bready t then w_queue s' = ws \<and> aw_queue s' = aws
         else w_queue s' = w # ws \<and> aw_queue s' = aw # aws \<and> write_channel t s' = s')"
  using assms by (simp add: write_channel_def Let_def)

theorem write_response_witness:
  "let s = axi_example\<lparr>aw_queue := [\<lparr>a_id = 7, a_addr = 0x20000000, a_len = 0\<rparr>],
       w_queue := [\<lparr>w_last = True, w_data = 1, w_strb = 15\<rparr>]\<rparr>;
       s' = write_channel (axi_out_idle\<lparr>o_bready := True\<rparr>) s
   in i_bvalid (ports s') \<and> i_bid (ports s') = 7 \<and> i_bresp (ports s') = 3 \<and> w_queue s' = [] \<and> aw_queue s' = []"
  using write_response [of "axi_example\<lparr>aw_queue := [\<lparr>a_id = 7, a_addr = 0x20000000, a_len = 0\<rparr>],
       w_queue := [\<lparr>w_last = True, w_data = 1, w_strb = 15\<rparr>]\<rparr>" "\<lparr>a_id = 7, a_addr = 0x20000000, a_len = 0\<rparr>"
       "[]" "\<lparr>w_last = True, w_data = 1, w_strb = 15\<rparr>" "[]" "axi_out_idle\<lparr>o_bready := True\<rparr>"]
  by (simp add: Let_def dram_ok_def DRAM_SIZE_def)

text \<open>
  C40. A complete frame reaches the screen: when the DAC sends a first pixel, further pixels with
  any gaps, and a last pixel, at most 640 x 480 in all, the run completes and the texture then
  holds the packed colours of exactly these pixels in order, whatever the buffer held before.
\<close>

theorem frame_reaches_texture:
  assumes "axi_inv s" "dac_valid t0" "dac_first t0" "\<not> dac_last t0" "frame_body ts"
    "dac_valid t1" "\<not> dac_first t1" "dac_last t1" "length (frame_pixels ts) + 2 \<le> FB_SIZE"
  shows "\<exists>s' f. run sys_bus_cycle (t0 # ts @ [t1]) s = Inr s' \<and> texture s' = Some f \<and> w3d_window s'
    \<and> (\<forall>i < length (frame_pixels ts) + 2. f i = (dac_pixel t0 # frame_pixels ts @ [dac_pixel t1]) ! i)"
proof -
  let ?n = "length (frame_pixels ts)"
  have "pixel_fits t0 s" using assms(3) by (simp add: pixel_fits_def)
  from cycle_dac [OF assms(1) this] assms(2,3) obtain s1 where
    s1: "sys_bus_cycle t0 s = Inr s1" "axi_inv s1" "fb_ptr s1 = 1" "fb s1 = (fb s)(0 := dac_pixel t0)"
    by (auto simp: Let_def)
  have "fb_ptr s1 + ?n \<le> FB_SIZE" using s1(3) assms(9) by simp
  from frame_body_run [OF s1(2) assms(5) this] obtain s2 where
    s2: "run sys_bus_cycle ts s1 = Inr s2" "axi_inv s2" "fb_ptr s2 = 1 + ?n"
      "fb s2 = (\<lambda>i. if 1 \<le> i \<and> i < 1 + ?n then frame_pixels ts ! (i - 1) else fb s1 i)"
    unfolding s1(3) by blast
  have "pixel_fits t1 s2" using s2(3) assms(9) by (simp add: pixel_fits_def)
  from cycle_dac [OF s2(2) this] assms(6-8) s2(3) obtain s3 where
    s3: "sys_bus_cycle t1 s2 = Inr s3" "fb s3 = (fb s2)(1 + ?n := dac_pixel t1)" "texture s3 = Some (fb s3)"
      "w3d_window s3" by (auto simp: Let_def)
  have "fb s3 i = (dac_pixel t0 # frame_pixels ts @ [dac_pixel t1]) ! i" if "i < ?n + 2" for i
  proof (cases i)
    case (Suc j)
    then show ?thesis using that by (auto simp: s3(2) s2(4) nth_append less_Suc_eq)
  qed (simp add: s3(2) s2(4) s1(4))
  moreover have "run sys_bus_cycle (t0 # ts @ [t1]) s = Inr s3"
    by (simp add: s1(1) run_append s2(1) s3(1))
  ultimately show ?thesis using s3(3,4) by blast
qed

theorem frame_reaches_texture_witness:
  "\<exists>s' f. run sys_bus_cycle [axi_out_idle\<lparr>dac_valid := True, dac_first := True, dac_r := 0x3ff\<rparr>, axi_out_idle,
      axi_out_idle\<lparr>dac_valid := True, dac_last := True, dac_b := 8\<rparr>] axi_example = Inr s'
    \<and> texture s' = Some f \<and> w3d_window s' \<and> f 0 = 0xff0000 \<and> f 1 = 2"
proof -
  let ?a = "axi_out_idle\<lparr>dac_valid := True, dac_first := True, dac_r := 0x3ff\<rparr>"
  let ?b = "axi_out_idle\<lparr>dac_valid := True, dac_last := True, dac_b := 8\<rparr>"
  have i: "axi_inv axi_example" by (simp add: axi_inv_def axi_example_def axi_init_def MAX_PENDING_def)
  have h: "dac_valid ?a" "dac_first ?a" "\<not> dac_last ?a" "frame_body [axi_out_idle]"
    "dac_valid ?b" "\<not> dac_first ?b" "dac_last ?b" "length (frame_pixels [axi_out_idle]) + 2 \<le> FB_SIZE"
    by (simp_all add: axi_out_idle_def frame_body_def frame_pixels_def FB_SIZE_def)
  have f: "frame_pixels [axi_out_idle] = []" by (simp add: frame_pixels_def axi_out_idle_def)
  have p: "dac_pixel ?a = 0xff0000" "dac_pixel ?b = 2"
    by (simp_all add: dac_pixel_def axi_out_idle_def)
  from frame_reaches_texture [OF i h] obtain s' g where
    "run sys_bus_cycle (?a # [axi_out_idle] @ [?b]) axi_example = Inr s'" "texture s' = Some g" "w3d_window s'"
    "\<forall>i < 2. g i = [0xff0000, 2] ! i" unfolding f p by auto
  then show ?thesis by (auto simp: numeral_2_eq_2)
qed

text \<open>
  The only cycle that fails is one with a pixel past the end of the frame buffer: a valid
  pixel that does not start a frame when 640 x 480 pixels have come since the last start is
  stored outside the array; in every other cycle nothing goes out of bounds.
\<close>

theorem cycle_fails_only_on_frame_overflow:
  assumes "axi_inv s"
  shows "(sys_bus_cycle t s = Inl Out_Of_Bounds \<longleftrightarrow> (dac_valid t \<and> \<not> dac_first t \<and> fb_ptr s = FB_SIZE))
    \<and> ((\<exists>s'. sys_bus_cycle t s = Inr s' \<and> axi_inv s') \<longleftrightarrow> pixel_fits t s)"
proof -
  have le: "fb_ptr s \<le> FB_SIZE" using assms by (simp add: axi_inv_def)
  have p: "fb_ptr (bus_side t s) = fb_ptr s" using bus_side_inv [OF assms] by blast
  have pos: "0 < FB_SIZE" by (simp add: FB_SIZE_def)
  have 1: "sys_bus_cycle t s = Inl Out_Of_Bounds \<longleftrightarrow> dac_valid t \<and> \<not> dac_first t \<and> fb_ptr s = FB_SIZE"
    using le p pos by (auto simp: sys_bus_cycle_alt dac_sink_def Let_def)
  have "(\<exists>s'. sys_bus_cycle t s = Inr s' \<and> axi_inv s') \<longleftrightarrow> pixel_fits t s"
    using cycle_law [OF assms, of t] cycle_overflow [of t s] by fastforce
  with 1 show ?thesis by simp
qed

theorem cycle_fails_only_on_frame_overflow_witness:
  "sys_bus_cycle (axi_out_idle\<lparr>dac_valid := True\<rparr>) (axi_example\<lparr>fb_ptr := FB_SIZE\<rparr>) = Inl Out_Of_Bounds"
proof -
  let ?s = "axi_example\<lparr>fb_ptr := FB_SIZE\<rparr>" and ?t = "axi_out_idle\<lparr>dac_valid := True\<rparr>"
  have "axi_inv ?s" by (simp add: axi_inv_def axi_example_def axi_init_def MAX_PENDING_def)
  from conjunct1 [OF cycle_fails_only_on_frame_overflow [OF this, of ?t]] show ?thesis
    by (simp add: axi_out_idle_def)
qed

section \<open>The flash image\<close>

lemma flash_loop_done: "sz \<le> 0 \<Longrightarrow> flash_loop sz b f m = Some m"
  by (subst flash_loop.simps) simp

lemma flash_loop_enough:
  "0 < sz \<Longrightarrow> nat sz \<le> length f \<Longrightarrow> flash_loop sz b f m = Some (store_bytes b (take (nat sz) f) m)"
  by (subst flash_loop.simps) (simp add: fread_bytes_def Let_def min_absorb2 flash_loop_done)

lemma flash_loop_empty: "0 < sz \<Longrightarrow> flash_loop sz b [] m = None"
proof -
  have "\<not> (0 < sz \<and> f = [])" if "flash_loop sz b f m = Some y" for f y
  proof (rule flash_loop.raw_induct [where P = "\<lambda>sz b f m y. \<not> (0 < sz \<and> f = [])", OF _ that], rule notI)
    fix loop sz b f m y
    assume IH: "\<And>sz b f m y. loop sz b f m = Some y \<Longrightarrow> \<not> (0 < sz \<and> f = [])"
      and body: "(if 0 < sz then
          let r = fread_bytes (nat sz) f
          in loop (sz - int (length (fst r))) (b + length (fst r)) (snd r) (store_bytes b (fst r) m)
        else Some m) = Some y" and e: "0 < sz \<and> f = []"
    then have "loop sz b [] m = Some y" by (simp add: fread_bytes_def)
    from IH [OF this] e show False by simp
  qed
  then show "0 < sz \<Longrightarrow> flash_loop sz b [] m = None" by (cases "flash_loop sz b [] m") auto
qed

lemma flash_loop_short:
  "int (length f) < sz \<Longrightarrow> flash_loop sz b f m = None"
  by (subst flash_loop.simps) (simp add: fread_bytes_def Let_def flash_loop_empty)

text \<open>
  Loading the flash image: when the file still has the announced number of bytes (cut at
  64 MiB), the loop ends and the first bytes of the DRAM are those of the file, the others as
  before; when it has fewer, the loop never ends, since a \<open>fread\<close> that returns 0 is repeated
  forever.
\<close>

theorem flash_load_ends_iff_file_is_long_enough:
  "if flash_size n \<le> int (length f)
   then \<exists>m'. load_flash n f m = Some m'
     \<and> dram_bytes m' = (\<lambda>k. if k < nat (flash_size n) then f ! k else dram_bytes m k)
   else load_flash n f m = None"
proof (cases "flash_size n \<le> int (length f)")
  case True
  show ?thesis
  proof (cases "0 < flash_size n")
    case pos: True
    have l: "nat (flash_size n) \<le> length f" using True by simp
    then have "load_flash n f m = Some (store_bytes 0 (take (nat (flash_size n)) f) m)"
      using pos by (simp add: load_flash_def flash_loop_enough)
    then show ?thesis using True l by (auto simp: store_bytes_bytes fun_eq_iff min_absorb2)
  qed (use True in \<open>auto simp: load_flash_def flash_loop_done\<close>)
qed (simp add: load_flash_def flash_loop_short)

end
