(* ===== verification/Remote_Jtag.thy ===== *)
theory Remote_Jtag
  imports Component_Laws
begin

text \<open>
  The JTAG server of the \<open>wavelet3d\<close> simulator (\<open>remote_jtag.hpp\<close>, \<open>remote_jtag.cpp\<close>): the
  constructor's socket set-up, with the results of the four calls as arguments, and
  \<open>process\<close>, which plays a batch of remote-bitbang commands on the JTAG pins and collects the
  answers. \<open>cycle\<close>, the simulator's bus cycle, is an argument: it maps the pins and the state
  of the hardware and may fail. Buffers are lists of 512 characters.
\<close>

section \<open>State\<close>

record jtag_pins =
  tck :: u8
  tms :: u8
  tdi :: u8
  trstn :: u8
  tdo :: u8

record remote_jtag =
  readable :: bool
  dead :: bool
  in_buffer :: "char list"
  out_buffer :: "char list"
  read_bytes :: int
  write_bytes :: u32

record socket_calls =
  r_socket :: int
  r_setsockopt :: int
  r_bind :: int
  r_listen :: int

definition jtag_init :: "socket_calls \<Rightarrow> char list \<Rightarrow> char list \<Rightarrow> remote_jtag res" where
  "jtag_init c ib ob =
     (if r_socket c < 0 then Inl Aborted
      else if r_setsockopt c < 0 then Inl Aborted
      else if r_bind c < 0 then Inl Aborted
      else if r_listen c < -1 then Inl Aborted
      else Inr \<lparr>readable = False, dead = False, in_buffer = ib, out_buffer = ob, read_bytes = 0, write_bytes = 0\<rparr>)"

definition jtag_pending :: "remote_jtag \<Rightarrow> bool" where
  "jtag_pending j = readable j"

definition jtag_alive :: "remote_jtag \<Rightarrow> bool" where
  "jtag_alive j \<longleftrightarrow> \<not> dead j"

section \<open>Processing a batch\<close>

text \<open>The effect of one command on the pins, the answer it asks for, and the state.\<close>

definition drive_pins :: "char \<Rightarrow> jtag_pins \<Rightarrow> jtag_pins" where
  "drive_pins command p =
     (if command = CHR ''r'' then p\<lparr>trstn := 1\<rparr>
      else if command = CHR ''s'' then p\<lparr>trstn := 1\<rparr>
      else if command = CHR ''t'' then p\<lparr>trstn := 0\<rparr>
      else if command = CHR ''u'' then p\<lparr>trstn := 0\<rparr>
      else if command = CHR ''0'' then p\<lparr>tck := 0, tms := 0, tdi := 0\<rparr>
      else if command = CHR ''1'' then p\<lparr>tck := 0, tms := 0, tdi := 1\<rparr>
      else if command = CHR ''2'' then p\<lparr>tck := 0, tms := 1, tdi := 0\<rparr>
      else if command = CHR ''3'' then p\<lparr>tck := 0, tms := 1, tdi := 1\<rparr>
      else if command = CHR ''4'' then p\<lparr>tck := 1, tms := 0, tdi := 0\<rparr>
      else if command = CHR ''5'' then p\<lparr>tck := 1, tms := 0, tdi := 1\<rparr>
      else if command = CHR ''6'' then p\<lparr>tck := 1, tms := 1, tdi := 0\<rparr>
      else if command = CHR ''7'' then p\<lparr>tck := 1, tms := 1, tdi := 1\<rparr>
      else p)"

definition answer :: "char \<Rightarrow> jtag_pins \<Rightarrow> char option" where
  "answer command p =
     (if command = CHR ''R'' then Some (if tdo p \<noteq> 0 then CHR ''1'' else CHR ''0'') else None)"

definition do_command :: "char \<Rightarrow> jtag_pins \<Rightarrow> remote_jtag \<Rightarrow> (remote_jtag \<times> jtag_pins) res" where
  "do_command command p j =
     (let j1 = (if command = CHR ''Q'' then j\<lparr>dead := True\<rparr> else j) in
      case answer command p of
        None \<Rightarrow> Inr (j1, drive_pins command p)
      | Some c \<Rightarrow>
          if unat (write_bytes j1) < length (out_buffer j1)
          then Inr (j1\<lparr>out_buffer := (out_buffer j1)[unat (write_bytes j1) := c],
                       write_bytes := write_bytes j1 + 1\<rparr>, drive_pins command p)
          else Inl Out_Of_Bounds)"

type_synonym 'h clocking = "jtag_pins \<times> 'h \<Rightarrow> (jtag_pins \<times> 'h) res"

fun process_batch :: "'h clocking \<Rightarrow> char list \<Rightarrow> remote_jtag \<Rightarrow> jtag_pins \<times> 'h \<Rightarrow> (remote_jtag \<times> jtag_pins \<times> 'h) res" where
  "process_batch cycle [] j x = Inr (j, x)"
| "process_batch cycle (command # cs) j x =
     bind_res (do_command command (fst x) j) (\<lambda>(j', p').
       bind_res (cycle (p', snd x)) (\<lambda>x'. process_batch cycle cs j' x'))"

definition process :: "'h clocking \<Rightarrow> remote_jtag \<Rightarrow> jtag_pins \<times> 'h \<Rightarrow> (remote_jtag \<times> jtag_pins \<times> 'h) res" where
  "process cycle j x =
     bind_res
       (if 0 < read_bytes j then
          (if int (length (in_buffer j)) < read_bytes j then Inl Out_Of_Bounds
           else process_batch cycle (take (nat (read_bytes j)) (in_buffer j)) (j\<lparr>write_bytes := 0\<rparr>) x)
        else Inr (j, x))
       (\<lambda>(j', x'). Inr (j'\<lparr>readable := False\<rparr>, x'))"

definition jtag_buffers :: "remote_jtag \<Rightarrow> bool" where
  "jtag_buffers j \<longleftrightarrow> length (in_buffer j) = 512 \<and> length (out_buffer j) = 512 \<and> read_bytes j \<le> 512"

section \<open>What a batch does\<close>

text \<open>
  The specification of a batch: the pins and hardware after it and the answers, one sample of
  TDO, taken before the cycle, for every \<open>R\<close>.
\<close>

fun play :: "'h clocking \<Rightarrow> char list \<Rightarrow> jtag_pins \<times> 'h \<Rightarrow> (char list \<times> jtag_pins \<times> 'h) res" where
  "play cycle [] x = Inr ([], x)"
| "play cycle (c # cs) x =
     bind_res (cycle (drive_pins c (fst x), snd x)) (\<lambda>x'.
       bind_res (play cycle cs x') (\<lambda>(ans, x''). Inr (case_option [] (\<lambda>a. [a]) (answer c (fst x)) @ ans, x'')))"

lemma play_length: "play cycle cs x = Inr (ans, y) \<Longrightarrow> length ans \<le> length cs"
proof (induction cs arbitrary: x ans)
  case (Cons c cs)
  then show ?case
    by (fastforce simp: bind_res_Inr_iff answer_def split: option.splits if_splits)
qed simp

lemma take_list_update_snoc: "n < length xs \<Longrightarrow> take (Suc n) (xs[n := c]) = take n xs @ [c]"
  by (simp add: take_Suc_conv_app_nth)

lemma process_batch_play:
  "unat (write_bytes j) + length cs \<le> length (out_buffer j) \<Longrightarrow> length (out_buffer j) \<le> 512 \<Longrightarrow>
   process_batch cycle cs j x =
     bind_res (play cycle cs x) (\<lambda>(ans, y). Inr
       (j\<lparr>dead := (dead j \<or> CHR ''Q'' \<in> set cs),
          out_buffer := take (unat (write_bytes j)) (out_buffer j) @ ans
             @ drop (unat (write_bytes j) + length ans) (out_buffer j),
          write_bytes := write_bytes j + of_nat (length ans)\<rparr>, y))"
proof (induction cs arbitrary: j x)
  case Nil
  then show ?case by simp
next
  case (Cons c cs)
  let ?n = "unat (write_bytes j)"
  let ?j1 = "j\<lparr>dead := (dead j \<or> c = CHR ''Q'')\<rparr>"
  have n: "?n < length (out_buffer j)" "?n < 512" using Cons.prems by auto
  have q: "(if c = CHR ''Q'' then j\<lparr>dead := True\<rparr> else j) = ?j1" by simp
  show ?case
  proof (cases "answer c (fst x)")
    case None
    then have "do_command c (fst x) j = Inr (?j1, drive_pins c (fst x))"
      by (simp add: do_command_def q del: if_split)
    then show ?thesis
      using Cons.IH [of ?j1] Cons.prems None
      by (auto simp: bind_res_assoc case_prod_unfold eq_commute [of "CHR ''Q''"] intro!: bind_res_cong)
  next
    case (Some a)
    let ?j2 = "?j1\<lparr>out_buffer := (out_buffer j)[?n := a], write_bytes := write_bytes j + 1\<rparr>"
    have d: "do_command c (fst x) j = Inr (?j2, drive_pins c (fst x))"
      using Some n by (simp add: do_command_def q del: if_split)
    have u: "unat (write_bytes j + 1) = Suc ?n"
      using n(2) by (simp add: unat_word_ariths)
    have t: "take (Suc ?n) ((out_buffer j)[?n := a]) = take ?n (out_buffer j) @ [a]"
      by (rule take_list_update_snoc [OF n(1)])
    show ?thesis
      using Cons.IH [of ?j2] Cons.prems Some d u t
      by (auto simp: bind_res_assoc case_prod_unfold add.assoc eq_commute [of "CHR ''Q''"] intro!: bind_res_cong)
  qed
qed

lemma process_law:
  assumes "jtag_buffers j" "0 < read_bytes j"
    and "play cycle (take (nat (read_bytes j)) (in_buffer j)) x = Inr (ans, y)"
  shows "\<exists>j'. process cycle j x = Inr (j', y) \<and> \<not> readable j'
    \<and> unat (write_bytes j') = length ans \<and> take (length ans) (out_buffer j') = ans
    \<and> (dead j' \<longleftrightarrow> dead j \<or> CHR ''Q'' \<in> set (take (nat (read_bytes j)) (in_buffer j)))
    \<and> jtag_buffers j' \<and> in_buffer j' = in_buffer j \<and> read_bytes j' = read_bytes j"
proof -
  let ?cs = "take (nat (read_bytes j)) (in_buffer j)"
  have l: "length ?cs \<le> 512" "length ans \<le> 512" "length (out_buffer j) = 512"
    using assms(1) play_length [OF assms(3)] by (auto simp: jtag_buffers_def)
  then show ?thesis
    using assms process_batch_play [of "j\<lparr>write_bytes := 0\<rparr>" ?cs cycle x]
    by (auto simp: process_def jtag_buffers_def unat_of_nat)
qed

lemma process_plays_batch_fails:
  assumes "jtag_buffers j" "0 < read_bytes j"
    and "play cycle (take (nat (read_bytes j)) (in_buffer j)) x = Inl e"
  shows "process cycle j x = Inl e"
  using assms process_batch_play [of "j\<lparr>write_bytes := 0\<rparr>" "take (nat (read_bytes j)) (in_buffer j)" cycle x]
  by (auto simp: process_def jtag_buffers_def)

section \<open>Properties\<close>

text \<open>
  A batch of JTAG commands is played exactly: for a received batch, \<open>process\<close> fails only
  where the simulated hardware fails; otherwise the commands act on the pins one after the other,
  each followed by a bus cycle, the output buffer holds one TDO sample per \<open>R\<close> in order, never
  past its end, the batch is marked consumed, and the connection is dead if it was or if the
  batch contains a \<open>Q\<close>.
\<close>

theorem process_plays_batch:
  assumes "jtag_buffers j" "0 < read_bytes j"
  shows "case play cycle (take (nat (read_bytes j)) (in_buffer j)) x of
      Inl e \<Rightarrow> process cycle j x = Inl e
    | Inr (ans, y) \<Rightarrow> \<exists>j'. process cycle j x = Inr (j', y) \<and> \<not> readable j'
        \<and> unat (write_bytes j') = length ans \<and> take (length ans) (out_buffer j') = ans
        \<and> (dead j' \<longleftrightarrow> dead j \<or> CHR ''Q'' \<in> set (take (nat (read_bytes j)) (in_buffer j)))"
proof (cases "play cycle (take (nat (read_bytes j)) (in_buffer j)) x")
  case (Inl e)
  then show ?thesis using process_plays_batch_fails [OF assms] by simp
next
  case (Inr r)
  obtain ans y where "r = (ans, y)" by (cases r)
  with Inr process_law [OF assms, of cycle x ans y] show ?thesis by (auto split: prod.splits)
qed

definition pins_example :: jtag_pins where
  "pins_example = \<lparr>tck = 1, tms = 1, tdi = 1, trstn = 1, tdo = 0\<rparr>"

definition jtag_example :: remote_jtag where
  "jtag_example = \<lparr>readable = True, dead = False,
     in_buffer = ''3R6R'' @ replicate 508 (CHR '' ''), out_buffer = replicate 512 (CHR '' ''),
     read_bytes = 4, write_bytes = 9\<rparr>"

text \<open>The hardware of the witness shows the clock on TDO after each cycle.\<close>

definition echo_clock :: "unit clocking" where
  "echo_clock x = Inr ((fst x)\<lparr>tdo := tck (fst x)\<rparr>, snd x)"

theorem process_plays_batch_witness:
  "\<exists>j' y. process echo_clock jtag_example (pins_example, ()) = Inr (j', y) \<and> \<not> readable j'
    \<and> unat (write_bytes j') = 2 \<and> take 2 (out_buffer j') = ''01'' \<and> \<not> dead j'"
proof -
  have b: "jtag_buffers jtag_example" "0 < read_bytes jtag_example"
    by (simp_all add: jtag_buffers_def jtag_example_def)
  have t: "take (nat (read_bytes jtag_example)) (in_buffer jtag_example) = ''3R6R''"
    by (simp add: jtag_example_def)
  have p: "play echo_clock ''3R6R'' (pins_example, ())
      = Inr (''01'', pins_example\<lparr>tck := 1, tms := 1, tdi := 0, tdo := 1\<rparr>, ())"
    by (simp add: echo_clock_def drive_pins_def answer_def pins_example_def)
  from process_plays_batch [OF b, of echo_clock "(pins_example, ())"] show ?thesis
    unfolding t p by (auto simp: jtag_example_def numeral_2_eq_2)
qed

text \<open>
  The eight commands \<open>0\<close> to \<open>7\<close> put the three bits of the digit on TCK, TMS and TDI, and
  leave the reset line alone; \<open>r\<close> and \<open>s\<close> raise the (active-low) reset line, \<open>t\<close> and \<open>u\<close>
  lower it, and no other character touches a pin.
\<close>

theorem commands_decode:
  "drive_pins c p =
    (if c \<in> set ''01234567''
     then p\<lparr>tck := of_bool (bit (of_char c :: nat) 2), tms := of_bool (bit (of_char c :: nat) 1),
            tdi := of_bool (bit (of_char c :: nat) 0)\<rparr>
     else if c \<in> set ''rs'' then p\<lparr>trstn := 1\<rparr>
     else if c \<in> set ''tu'' then p\<lparr>trstn := 0\<rparr>
     else p)"
proof -
  have v: "of_char (CHR ''0'') = (48 :: nat)" "of_char (CHR ''1'') = (49 :: nat)" "of_char (CHR ''2'') = (50 :: nat)"
    "of_char (CHR ''3'') = (51 :: nat)" "of_char (CHR ''4'') = (52 :: nat)" "of_char (CHR ''5'') = (53 :: nat)"
    "of_char (CHR ''6'') = (54 :: nat)" "of_char (CHR ''7'') = (55 :: nat)"
    by code_simp+
  have b: "\<not> bit (48 :: nat) 2" "\<not> bit (48 :: nat) 1" "\<not> bit (48 :: nat) 0"
    "\<not> bit (49 :: nat) 2" "\<not> bit (49 :: nat) 1" "bit (49 :: nat) 0"
    "\<not> bit (50 :: nat) 2" "bit (50 :: nat) 1" "\<not> bit (50 :: nat) 0"
    "\<not> bit (51 :: nat) 2" "bit (51 :: nat) 1" "bit (51 :: nat) 0"
    "bit (52 :: nat) 2" "\<not> bit (52 :: nat) 1" "\<not> bit (52 :: nat) 0"
    "bit (53 :: nat) 2" "\<not> bit (53 :: nat) 1" "bit (53 :: nat) 0"
    "bit (54 :: nat) 2" "bit (54 :: nat) 1" "\<not> bit (54 :: nat) 0"
    "bit (55 :: nat) 2" "bit (55 :: nat) 1" "bit (55 :: nat) 0"
    by code_simp+
  have "c \<in> set ''01234567'' \<Longrightarrow> ?thesis"
    by (auto simp: drive_pins_def v b)
  moreover have "c \<notin> set ''01234567'' \<Longrightarrow> ?thesis"
    by (auto simp: drive_pins_def)
  ultimately show ?thesis by blast
qed

text \<open>
  A failing \<open>listen\<close> goes unnoticed: \<open>listen\<close> reports an error with -1, and the constructor
  tests for less than -1, so with every other call succeeding it starts the server all the same.
\<close>

theorem listen_failure_is_ignored:
  assumes "0 \<le> r_socket c" "0 \<le> r_setsockopt c" "0 \<le> r_bind c" "r_listen c = -1"
  shows "\<exists>j. jtag_init c ib ob = Inr j \<and> jtag_alive j"
  using assms by (simp add: jtag_init_def jtag_alive_def)

theorem listen_failure_is_ignored_witness:
  "\<exists>j. jtag_init \<lparr>r_socket = 3, r_setsockopt = 0, r_bind = 0, r_listen = -1\<rparr> [] [] = Inr j \<and> jtag_alive j"
  by (rule listen_failure_is_ignored) simp_all

end
