(* ===== verification/Jtag_Protocol.thy ===== *)
theory Jtag_Protocol
  imports Remote_Jtag
begin

text \<open>
  The two threads of the JTAG server: \<open>poll_main\<close> of \<open>remote_jtag.cpp\<close>, which reads a batch
  from the socket, hands it over and sends the answers, and the main loop of \<open>main.cpp\<close>, which
  polls \<open>pending\<close> and calls \<open>process\<close>. They share the buffers under a mutex, two atomic flags
  and a condition variable. A state is the program counters of both, the owner of the mutex, the
  shared object and the hardware; the step relation interleaves them. \<open>wait(lock, pred)\<close> is
  its loop: test the predicate, release the mutex and sleep in one step, wake on a notification
  or spuriously, take the mutex again. What \<open>accept\<close>, \<open>read\<close> and \<open>write\<close> return is free.
  Four more fields record the history: the batches read and processed, the answers produced and
  the bytes written to the socket, and whether a \<open>write\<close> failed.
\<close>

section \<open>States and steps\<close>

datatype thread = Poll | Main

datatype poll_pc =
    P_Accept | P_Lock | P_Read | P_Pred | P_Wait | P_Woken | P_Check
  | P_Write nat nat
  | P_Close | P_Unlock | P_Done

datatype main_pc = M_Loop | M_Lock | M_Process | M_Notify | M_Alive | M_Join | M_Done

record 'h jsys =
  poll :: poll_pc
  main_at :: main_pc
  holder :: "thread option"
  jt :: remote_jtag
  hardware :: "jtag_pins \<times> 'h"
  g_read :: "char list list"
  g_processed :: "char list list"
  g_owed :: "char list"
  g_sent :: "char list"
  write_failed :: bool

definition batch :: "remote_jtag \<Rightarrow> char list" where
  "batch j = take (nat (read_bytes j)) (in_buffer j)"

definition answers :: "remote_jtag \<Rightarrow> char list" where
  "answers j = take (unat (write_bytes j)) (out_buffer j)"

definition fill :: "int \<Rightarrow> char list \<Rightarrow> remote_jtag \<Rightarrow> remote_jtag" where
  "fill n bs j = j\<lparr>in_buffer := bs @ drop (length bs) (in_buffer j), read_bytes := n, readable := True\<rparr>"

definition log_batch :: "int \<Rightarrow> char list \<Rightarrow> char list list" where
  "log_batch n b = (if 0 < n then [b] else [])"

inductive poll_step :: "'h jsys \<Rightarrow> 'h jsys \<Rightarrow> bool" where
  accept_fails: "poll s = P_Accept \<Longrightarrow> poll_step s (s\<lparr>jt := (jt s)\<lparr>dead := True\<rparr>, poll := P_Done\<rparr>)"
| accept_ok: "poll s = P_Accept \<Longrightarrow> poll_step s (s\<lparr>poll := P_Lock\<rparr>)"
| lock: "poll s = P_Lock \<Longrightarrow> holder s = None \<Longrightarrow> poll_step s (s\<lparr>holder := Some Poll, poll := P_Read\<rparr>)"
| read_batch: "poll s = P_Read \<Longrightarrow> n \<le> 512 \<Longrightarrow> length bs = nat n \<Longrightarrow>
    poll_step s (s\<lparr>jt := fill n bs (jt s), poll := P_Pred, g_read := g_read s @ log_batch n bs\<rparr>)"
| pred_true: "poll s = P_Pred \<Longrightarrow> \<not> readable (jt s) \<Longrightarrow> poll_step s (s\<lparr>poll := P_Check\<rparr>)"
| pred_sleep: "poll s = P_Pred \<Longrightarrow> readable (jt s) \<Longrightarrow> poll_step s (s\<lparr>holder := None, poll := P_Wait\<rparr>)"
| wake: "poll s = P_Woken \<Longrightarrow> holder s = None \<Longrightarrow> poll_step s (s\<lparr>holder := Some Poll, poll := P_Pred\<rparr>)"
| check_break: "poll s = P_Check \<Longrightarrow> read_bytes (jt s) \<le> 0 \<or> dead (jt s) \<Longrightarrow> poll_step s (s\<lparr>poll := P_Close\<rparr>)"
| check_respond: "poll s = P_Check \<Longrightarrow> \<not> (read_bytes (jt s) \<le> 0 \<or> dead (jt s)) \<Longrightarrow>
    poll_step s (s\<lparr>poll := P_Write 0 (unat (write_bytes (jt s)))\<rparr>)"
| written: "poll s = P_Write st sz \<Longrightarrow> 0 < k \<Longrightarrow> k \<le> sz \<Longrightarrow>
    poll_step s (s\<lparr>poll := P_Write (st + k) (sz - k),
      g_sent := g_sent s @ take k (drop st (out_buffer (jt s)))\<rparr>)"
| write_fails: "poll s = P_Write st sz \<Longrightarrow> 0 < sz \<Longrightarrow> poll_step s (s\<lparr>poll := P_Read, write_failed := True\<rparr>)"
| write_done: "poll s = P_Write st 0 \<Longrightarrow> poll_step s (s\<lparr>poll := P_Read\<rparr>)"
| close: "poll s = P_Close \<Longrightarrow> poll_step s (s\<lparr>jt := (jt s)\<lparr>dead := True\<rparr>, poll := P_Unlock\<rparr>)"
| unlock: "poll s = P_Unlock \<Longrightarrow> poll_step s (s\<lparr>holder := None, poll := P_Done\<rparr>)"

inductive main_step :: "'h clocking \<Rightarrow> 'h jsys \<Rightarrow> 'h jsys \<Rightarrow> bool" for cycle where
  idle: "main_at s = M_Loop \<Longrightarrow> cycle (hardware s) = Inr x \<Longrightarrow> \<not> jtag_pending (jt s) \<Longrightarrow>
    main_step cycle s (s\<lparr>hardware := x, main_at := M_Alive\<rparr>)"
| pending: "main_at s = M_Loop \<Longrightarrow> cycle (hardware s) = Inr x \<Longrightarrow> jtag_pending (jt s) \<Longrightarrow>
    main_step cycle s (s\<lparr>hardware := x, main_at := M_Lock\<rparr>)"
| main_lock: "main_at s = M_Lock \<Longrightarrow> holder s = None \<Longrightarrow>
    main_step cycle s (s\<lparr>holder := Some Main, main_at := M_Process\<rparr>)"
| processed: "main_at s = M_Process \<Longrightarrow> process cycle (jt s) (hardware s) = Inr (j, x) \<Longrightarrow>
    main_step cycle s (s\<lparr>holder := None, jt := j, hardware := x, main_at := M_Notify,
      g_processed := g_processed s @ log_batch (read_bytes (jt s)) (batch (jt s)),
      g_owed := g_owed s @ (if 0 < read_bytes (jt s) then answers j else [])\<rparr>)"
| notify: "main_at s = M_Notify \<Longrightarrow>
    main_step cycle s (s\<lparr>main_at := M_Alive, poll := (if poll s = P_Wait then P_Woken else poll s)\<rparr>)"
| again: "main_at s = M_Alive \<Longrightarrow> jtag_alive (jt s) \<Longrightarrow> main_step cycle s (s\<lparr>main_at := M_Loop\<rparr>)"
| leave: "main_at s = M_Alive \<Longrightarrow> \<not> jtag_alive (jt s) \<Longrightarrow> main_step cycle s (s\<lparr>main_at := M_Join\<rparr>)"
| join: "main_at s = M_Join \<Longrightarrow> poll s = P_Done \<Longrightarrow> main_step cycle s (s\<lparr>main_at := M_Done\<rparr>)"

inductive jsys_step :: "'h clocking \<Rightarrow> 'h jsys \<Rightarrow> 'h jsys \<Rightarrow> bool" for cycle where
  by_poll: "poll_step s s' \<Longrightarrow> jsys_step cycle s s'"
| by_main: "main_step cycle s s' \<Longrightarrow> jsys_step cycle s s'"
| spurious: "poll s = P_Wait \<Longrightarrow> jsys_step cycle s (s\<lparr>poll := P_Woken\<rparr>)"

definition jsys_init :: "remote_jtag \<Rightarrow> jtag_pins \<times> 'h \<Rightarrow> 'h jsys" where
  "jsys_init j x = \<lparr>poll = P_Accept, main_at = M_Loop, holder = None, jt = j, hardware = x, g_read = [],
     g_processed = [], g_owed = [], g_sent = [], write_failed = False\<rparr>"

inductive_cases poll_stepE: "poll_step s s'"
inductive_cases main_stepE: "main_step cycle s s'"
inductive_simps jsys_step_iff: "jsys_step cycle s s'"

section \<open>The invariant\<close>

fun poll_owns :: "poll_pc \<Rightarrow> bool" where
  "poll_owns P_Read = True"
| "poll_owns P_Pred = True"
| "poll_owns P_Check = True"
| "poll_owns (P_Write _ _) = True"
| "poll_owns P_Close = True"
| "poll_owns P_Unlock = True"
| "poll_owns _ = False"

text \<open>Control: who owns the mutex, when a batch waits, who may sleep.\<close>

definition control_inv :: "'h jsys \<Rightarrow> bool" where
  "control_inv s \<longleftrightarrow>
     (holder s = Some Poll \<longleftrightarrow> poll_owns (poll s))
     \<and> (holder s = Some Main \<longleftrightarrow> main_at s = M_Process)
     \<and> (readable (jt s) \<longrightarrow> poll s \<in> {P_Pred, P_Wait, P_Woken} \<and> \<not> dead (jt s))
     \<and> (main_at s \<in> {M_Lock, M_Process} \<longrightarrow> readable (jt s))
     \<and> (poll s = P_Wait \<and> \<not> readable (jt s) \<longrightarrow> main_at s = M_Notify)
     \<and> (main_at s \<in> {M_Join, M_Done} \<longrightarrow> dead (jt s))
     \<and> (dead (jt s) \<longrightarrow> poll s \<in> {P_Pred, P_Wait, P_Woken, P_Check, P_Close, P_Unlock, P_Done})
     \<and> (poll s \<in> {P_Unlock, P_Done} \<longrightarrow> dead (jt s))"

lemma control_facts:
  assumes "control_inv s"
  shows control_poll_owner: "holder s = Some Poll \<longleftrightarrow> poll_owns (poll s)"
    and control_main_owner: "holder s = Some Main \<longleftrightarrow> main_at s = M_Process"
    and control_readable: "readable (jt s) \<longrightarrow> poll s \<in> {P_Pred, P_Wait, P_Woken} \<and> \<not> dead (jt s)"
    and control_processing: "main_at s \<in> {M_Lock, M_Process} \<longrightarrow> readable (jt s)"
    and control_asleep: "poll s = P_Wait \<and> \<not> readable (jt s) \<longrightarrow> main_at s = M_Notify"
    and control_leaving: "main_at s \<in> {M_Join, M_Done} \<longrightarrow> dead (jt s)"
    and control_dead: "dead (jt s) \<longrightarrow>
      poll s \<in> {P_Pred, P_Wait, P_Woken, P_Check, P_Close, P_Unlock, P_Done}"
  using assms unfolding control_inv_def by blast+

text \<open>The answers produced and not yet written.\<close>

definition outstanding :: "'h jsys \<Rightarrow> char list" where
  "outstanding s = (case poll s of
       P_Accept \<Rightarrow> [] | P_Lock \<Rightarrow> [] | P_Read \<Rightarrow> []
     | P_Write st sz \<Rightarrow> take sz (drop st (out_buffer (jt s)))
     | _ \<Rightarrow> if \<not> readable (jt s) \<and> 0 < read_bytes (jt s) then answers (jt s) else [])"

definition data_inv :: "'h jsys \<Rightarrow> bool" where
  "data_inv s \<longleftrightarrow> jtag_buffers (jt s)
     \<and> (poll s \<in> {P_Accept, P_Lock} \<longrightarrow> read_bytes (jt s) = 0)
     \<and> g_read s = g_processed s @ (if readable (jt s) then log_batch (read_bytes (jt s)) (batch (jt s)) else [])
     \<and> (\<not> write_failed s \<longrightarrow> g_owed s = g_sent s @ outstanding s)"

lemma process_outcome:
  assumes "jtag_buffers j" "process cycle j x = Inr (j', y)"
  shows "\<not> readable j' \<and> jtag_buffers j' \<and> in_buffer j' = in_buffer j \<and> read_bytes j' = read_bytes j"
proof (cases "0 < read_bytes j")
  case True
  show ?thesis
  proof (cases "play cycle (take (nat (read_bytes j)) (in_buffer j)) x")
    case (Inl e)
    with process_plays_batch_fails [OF assms(1) True Inl] assms(2) show ?thesis by simp
  next
    case (Inr r)
    obtain ans z where "r = (ans, z)" by (cases r)
    with Inr process_law [OF assms(1) True, of cycle x ans z] assms(2) show ?thesis by auto
  qed
next
  case False
  with assms show ?thesis by (auto simp: process_def jtag_buffers_def)
qed

lemma control_init: "\<not> readable j \<Longrightarrow> \<not> dead j \<Longrightarrow> control_inv (jsys_init j x)"
  by (simp add: control_inv_def jsys_init_def)

lemma control_poll: "poll_step s s' \<Longrightarrow> control_inv s \<Longrightarrow> control_inv s'"
  by (erule poll_stepE) (auto simp: control_inv_def fill_def)

lemma control_main:
  assumes "main_step cycle s s'" "control_inv s" "jtag_buffers (jt s)"
  shows "control_inv s'"
  using assms(1)
proof (rule main_stepE)
  fix j x
  assume s': "s' = s\<lparr>holder := None, jt := j, hardware := x, main_at := M_Notify,
      g_processed := g_processed s @ log_batch (read_bytes (jt s)) (batch (jt s)),
      g_owed := g_owed s @ (if 0 < read_bytes (jt s) then answers j else [])\<rparr>"
    and m: "main_at s = M_Process" and p: "process cycle (jt s) (hardware s) = Inr (j, x)"
  from process_outcome [OF assms(3) p] have "\<not> readable j" by blast
  moreover have "poll s = P_Wait \<or> poll s = P_Woken"
    using assms(2) m by (cases "poll s") (auto simp: control_inv_def)
  ultimately show ?thesis using assms(2) m by (auto simp: control_inv_def s')
qed (use assms(2) in \<open>auto simp: control_inv_def jtag_pending_def jtag_alive_def\<close>)

lemma control_spurious:
  assumes "poll s = P_Wait" "control_inv s"
  shows "control_inv (s\<lparr>poll := P_Woken\<rparr>)"
proof -
  let ?t = "s\<lparr>poll := P_Woken\<rparr>"
  have t: "holder ?t = holder s" "main_at ?t = main_at s" "jt ?t = jt s" "poll ?t = P_Woken" by simp_all
  from assms have "holder s \<noteq> Some Poll" "holder s = Some Main \<longleftrightarrow> main_at s = M_Process"
    "readable (jt s) \<longrightarrow> \<not> dead (jt s)" "main_at s \<in> {M_Lock, M_Process} \<longrightarrow> readable (jt s)"
    "main_at s \<in> {M_Join, M_Done} \<longrightarrow> dead (jt s)"
    unfolding control_inv_def assms(1) poll_owns.simps by blast+
  moreover have "P_Woken \<noteq> P_Wait" "P_Woken \<notin> {P_Unlock, P_Done}" "\<not> poll_owns P_Woken" by simp_all
  ultimately show ?thesis unfolding control_inv_def t by blast
qed

lemma data_init:
  "jtag_buffers j \<Longrightarrow> read_bytes j = 0 \<Longrightarrow> \<not> readable j \<Longrightarrow> data_inv (jsys_init j x)"
  by (simp add: data_inv_def jsys_init_def outstanding_def)

lemma data_poll:
  assumes "poll_step s s'" "control_inv s" "data_inv s"
  shows "data_inv s'"
proof -
  have r: "readable (jt s) \<Longrightarrow> poll s \<in> {P_Pred, P_Wait, P_Woken}"
    using assms(2) by (simp add: control_inv_def)
  note d = assms(3) [unfolded data_inv_def]
  show ?thesis
    using assms(1)
  proof cases
    case (read_batch n bs)
    then show ?thesis
      using d r by (auto simp: data_inv_def fill_def jtag_buffers_def batch_def outstanding_def log_batch_def)
  next
    case (written st sz k)
    have "take k (drop st b) @ take (sz - k) (drop (st + k) b) = take sz (drop st b)" for b :: "char list"
      using written(4) by (metis add.commute drop_drop le_add_diff_inverse take_add)
    then show ?thesis using d r written by (simp add: data_inv_def outstanding_def)
  next
    case accept_fails
    then show ?thesis using d r by (simp add: data_inv_def outstanding_def jtag_buffers_def batch_def)
  next
    case close
    then show ?thesis using d r by (simp add: data_inv_def outstanding_def jtag_buffers_def batch_def answers_def)
  qed (use d r in \<open>auto simp: data_inv_def outstanding_def answers_def\<close>)
qed

lemma data_main:
  assumes "main_step cycle s s'" "control_inv s" "data_inv s"
  shows "data_inv s'"
  using assms(1)
proof (rule main_stepE)
  fix j x
  assume s': "s' = s\<lparr>holder := None, jt := j, hardware := x, main_at := M_Notify,
      g_processed := g_processed s @ log_batch (read_bytes (jt s)) (batch (jt s)),
      g_owed := g_owed s @ (if 0 < read_bytes (jt s) then answers j else [])\<rparr>"
    and m: "main_at s = M_Process" and p: "process cycle (jt s) (hardware s) = Inr (j, x)"
  have "jtag_buffers (jt s)" using assms(3) by (simp add: data_inv_def)
  from process_outcome [OF this p] have j: "\<not> readable j" "jtag_buffers j" "in_buffer j = in_buffer (jt s)"
    "read_bytes j = read_bytes (jt s)" by blast+
  have "poll s = P_Wait \<or> poll s = P_Woken"
    using assms(2) m by (cases "poll s") (auto simp: control_inv_def)
  moreover have "readable (jt s)" using assms(2) m by (simp add: control_inv_def)
  ultimately show ?thesis
    using assms(3) j by (auto simp: data_inv_def s' outstanding_def)
qed (use assms(2,3) in \<open>auto simp: data_inv_def outstanding_def split: poll_pc.splits\<close>)

lemma data_spurious: "poll s = P_Wait \<Longrightarrow> data_inv s \<Longrightarrow> data_inv (s\<lparr>poll := P_Woken\<rparr>)"
  by (simp add: data_inv_def outstanding_def)

lemma jsys_inv_step:
  assumes "jsys_step cycle s s'" "control_inv s" "data_inv s"
  shows "control_inv s' \<and> data_inv s'"
  using assms(1)
proof cases
  case by_poll
  then show ?thesis using assms control_poll data_poll by blast
next
  case by_main
  have "jtag_buffers (jt s)" using assms(3) by (simp add: data_inv_def)
  with by_main show ?thesis using assms control_main data_main by blast
next
  case spurious
  then show ?thesis using assms control_spurious data_spurious by blast
qed

section \<open>Reachable states\<close>

inductive jsys_reach :: "'h clocking \<Rightarrow> 'h jsys \<Rightarrow> bool" for cycle where
  start: "jtag_init c ib ob = Inr j \<Longrightarrow> length ib = 512 \<Longrightarrow> length ob = 512 \<Longrightarrow>
    jsys_reach cycle (jsys_init j x)"
| step: "jsys_reach cycle s \<Longrightarrow> jsys_step cycle s s' \<Longrightarrow> jsys_reach cycle s'"

lemma jsys_reach_inv: "jsys_reach cycle s \<Longrightarrow> control_inv s \<and> data_inv s"
proof (induction rule: jsys_reach.induct)
  case (start c ib ob j x)
  from start(1) have j: "j = \<lparr>readable = False, dead = False, in_buffer = ib, out_buffer = ob,
      read_bytes = 0, write_bytes = 0\<rparr>"
    by (auto simp: jtag_init_def split: if_splits)
  have "jtag_buffers j" using start(2,3) by (simp add: j jtag_buffers_def)
  then show ?case using control_init [of j x] data_init [of j x] by (simp add: j)
next
  case (step s s')
  then show ?case using jsys_inv_step by blast
qed

text \<open>
  That \<open>join\<close> returns on every schedule, as a least fixed point over the steps: either the poll
  thread has ended and the main thread's next step leaves \<open>join\<close>; or the poll thread is in none of
  the calls that wait for the client (\<open>accept\<close>, \<open>read\<close>, \<open>write\<close>), it can take a step, and whatever
  step of the system comes next, \<open>join\<close> returns from there.
\<close>

fun waits_for_client :: "poll_pc \<Rightarrow> bool" where
  "waits_for_client P_Accept = True"
| "waits_for_client P_Read = True"
| "waits_for_client (P_Write _ _) = True"
| "waits_for_client _ = False"

inductive join_returns :: "'h clocking \<Rightarrow> 'h jsys \<Rightarrow> bool" for cycle where
  ended: "poll s = P_Done \<Longrightarrow> main_step cycle s s' \<Longrightarrow> main_at s' = M_Done \<Longrightarrow> join_returns cycle s"
| goes_on: "\<not> waits_for_client (poll s) \<Longrightarrow> poll_step s t \<Longrightarrow>
    (\<And>s'. jsys_step cycle s s' \<Longrightarrow> join_returns cycle s') \<Longrightarrow> join_returns cycle s"

text \<open>How far the poll thread of a dead connection is from its end.\<close>

fun to_go :: "poll_pc \<Rightarrow> nat" where
  "to_go P_Woken = 5"
| "to_go P_Pred = 4"
| "to_go P_Check = 3"
| "to_go P_Close = 2"
| "to_go P_Unlock = 1"
| "to_go _ = 0"

lemma joining:
  assumes "jsys_reach cycle s" "main_at s = M_Join"
  shows "poll s \<in> {P_Woken, P_Pred, P_Check, P_Close, P_Unlock, P_Done}" "dead (jt s)" "\<not> readable (jt s)"
    "poll s = P_Woken \<Longrightarrow> holder s = None"
proof -
  from jsys_reach_inv [OF assms(1)] have c: "control_inv s" by blast
  show d: "dead (jt s)" using control_leaving [OF c] assms(2) by simp
  then show r: "\<not> readable (jt s)" using control_readable [OF c] by blast
  have "poll s \<noteq> P_Wait" using control_asleep [OF c] assms(2) r by auto
  then show "poll s \<in> {P_Woken, P_Pred, P_Check, P_Close, P_Unlock, P_Done}"
    using control_dead [OF c] d by blast
  show "holder s = None" if "poll s = P_Woken"
  proof (cases "holder s")
    case (Some t)
    then show ?thesis
      using control_poll_owner [OF c] control_main_owner [OF c] assms(2) that by (cases t) auto
  qed
qed

lemma joining_poll:
  assumes "jsys_reach cycle s" "main_at s = M_Join" "poll s \<noteq> P_Done"
  shows "\<exists>t. poll_step s t" and "\<not> waits_for_client (poll s)"
proof -
  note j = joining [OF assms(1,2)]
  from j(1) assms(3) consider "poll s = P_Woken" | "poll s = P_Pred" | "poll s = P_Check"
    | "poll s = P_Close" | "poll s = P_Unlock" by auto
  then show "\<exists>t. poll_step s t"
    using j(2-4) by cases (blast intro: poll_step.intros)+
  show "\<not> waits_for_client (poll s)" using j(1) by auto
qed

lemma joining_step:
  assumes "jsys_reach cycle s" "main_at s = M_Join" "poll s \<noteq> P_Done" "jsys_step cycle s s'"
  shows "jsys_reach cycle s'" "main_at s' = M_Join" "to_go (poll s') < to_go (poll s)"
proof -
  note j = joining [OF assms(1,2)]
  show "jsys_reach cycle s'" using assms(1,4) by (rule jsys_reach.step)
  have p: "poll_step s s'"
    using assms(4)
  proof cases
    case by_main
    then show ?thesis using assms(2,3) by cases auto
  next
    case spurious
    then show ?thesis using j(1) by simp
  qed
  then show "main_at s' = M_Join" using assms(2) by (auto elim: poll_stepE)
  show "to_go (poll s') < to_go (poll s)" using p j by (auto elim!: poll_stepE)
qed

section \<open>Properties\<close>

text \<open>
  C9. The hand-over of the JTAG server is correct in every reachable state of the two threads:
  the poll thread and \<open>process\<close> never own the buffers together; the batches processed are the
  batches read, in order, with at most the last one still to come, and \<open>process\<close> works on just
  that one; and when the poll thread goes on to read, everything read has been processed and, if
  no \<open>write\<close> failed, every answer has been sent, once and in order.
\<close>

theorem jtag_handover_is_correct:
  assumes "jsys_reach cycle s"
  shows "\<not> (poll_owns (poll s) \<and> main_at s = M_Process)
    \<and> (\<exists>todo. g_read s = g_processed s @ todo \<and> length todo \<le> 1
         \<and> (main_at s = M_Process \<and> 0 < read_bytes (jt s) \<longrightarrow> todo = [batch (jt s)]))
    \<and> (poll s = P_Read \<longrightarrow> g_read s = g_processed s \<and> (\<not> write_failed s \<longrightarrow> g_sent s = g_owed s))"
proof -
  from jsys_reach_inv [OF assms] have c: "control_inv s" and d: "data_inv s" by blast+
  note own = control_poll_owner [OF c] control_main_owner [OF c]
  have r: "main_at s = M_Process \<Longrightarrow> readable (jt s)" using control_processing [OF c] by simp
  have p: "poll s = P_Read \<Longrightarrow> \<not> readable (jt s)" using control_readable [OF c] by auto
  let ?todo = "if readable (jt s) then log_batch (read_bytes (jt s)) (batch (jt s)) else []"
  have g: "g_read s = g_processed s @ ?todo" using d unfolding data_inv_def by blast
  have owed: "\<not> write_failed s \<longrightarrow> g_owed s = g_sent s @ outstanding s" using d unfolding data_inv_def by blast
  have len: "length ?todo \<le> 1" by (simp add: log_batch_def)
  show ?thesis
  proof (intro conjI exI [of _ ?todo] impI)
    show "\<not> (poll_owns (poll s) \<and> main_at s = M_Process)" using own by auto
    show "g_read s = g_processed s @ ?todo" "length ?todo \<le> 1" by (rule g, rule len)
    show "?todo = [batch (jt s)]" if "main_at s = M_Process \<and> 0 < read_bytes (jt s)"
      using r that by (simp add: log_batch_def)
    show "g_read s = g_processed s" if "poll s = P_Read" using g p [OF that] by simp
    show "g_sent s = g_owed s" if "poll s = P_Read" "\<not> write_failed s"
      using owed that(2) by (simp add: outstanding_def that(1))
  qed
qed

definition jtag_start :: remote_jtag where
  "jtag_start = \<lparr>readable = False, dead = False, in_buffer = replicate 512 (CHR '' ''),
     out_buffer = replicate 512 (CHR '' ''), read_bytes = 0, write_bytes = 0\<rparr>"

definition jsys_start :: "unit jsys" where
  "jsys_start = jsys_init jtag_start (pins_example, ())"

lemma jsys_start_reach: "jsys_reach echo_clock jsys_start"
  unfolding jsys_start_def
  by (rule jsys_reach.start [where c = "\<lparr>r_socket = 3, r_setsockopt = 0, r_bind = 0, r_listen = 0\<rparr>"
        and ib = "replicate 512 (CHR '' '')" and ob = "replicate 512 (CHR '' '')"])
    (simp_all add: jtag_init_def jtag_start_def)

lemma reach_poll: "jsys_reach cycle s \<Longrightarrow> poll_step s s' \<Longrightarrow> jsys_reach cycle s'"
  by (erule jsys_reach.step) (erule jsys_step.by_poll)

lemma reach_main: "jsys_reach cycle s \<Longrightarrow> main_step cycle s s' \<Longrightarrow> jsys_reach cycle s'"
  by (erule jsys_reach.step) (erule jsys_step.by_main)

text \<open>A connection is accepted and the first read is about to happen.\<close>

theorem jtag_handover_is_correct_witness:
  "\<exists>s. jsys_reach echo_clock s \<and> poll s = P_Read \<and> g_read s = g_processed s \<and> g_sent s = g_owed s
    \<and> \<not> (poll_owns (poll s) \<and> main_at s = M_Process)"
proof -
  let ?s1 = "jsys_start\<lparr>poll := P_Lock\<rparr>"
  let ?s2 = "?s1\<lparr>holder := Some Poll, poll := P_Read\<rparr>"
  have "poll_step jsys_start ?s1"
    by (rule poll_step.accept_ok) (simp add: jsys_start_def jsys_init_def)
  from reach_poll [OF jsys_start_reach this] have r: "jsys_reach echo_clock ?s1" .
  have "poll_step ?s1 ?s2"
    by (rule poll_step.lock) (simp_all add: jsys_start_def jsys_init_def)
  from reach_poll [OF r this] have r2: "jsys_reach echo_clock ?s2" .
  have "poll ?s2 = P_Read" "\<not> write_failed ?s2" by (simp_all add: jsys_start_def jsys_init_def)
  with jtag_handover_is_correct [OF r2] r2 show ?thesis by (intro exI [of _ ?s2]) blast
qed

text \<open>
  C10. The server shuts down on every schedule: once the main loop has seen the connection dead and
  waits in the destructor's \<open>join\<close>, the poll thread is in no call that waits for the client, asleep
  without a notification to come or held up by a mutex, now or at any step from there; whatever
  order the steps come in, it ends and \<open>join\<close> returns.
\<close>

theorem jtag_join_returns:
  assumes "jsys_reach cycle s" "main_at s = M_Join"
  shows "join_returns cycle s"
  using assms
proof (induction "to_go (poll s)" arbitrary: s rule: less_induct)
  case less
  show ?case
  proof (cases "poll s = P_Done")
    case True
    from main_step.join [OF less.prems(2) True] show ?thesis
      by (rule join_returns.ended [OF True]) simp
  next
    case False
    from joining_poll(1) [OF less.prems False] obtain t where t: "poll_step s t" by blast
    show ?thesis
    proof (rule join_returns.goes_on [OF joining_poll(2) [OF less.prems False] t])
      fix s'
      assume "jsys_step cycle s s'"
      from joining_step [OF less.prems False this] show "join_returns cycle s'"
        by (intro less.hyps)
    qed
  qed
qed

text \<open>The connection is never accepted: the thread ends, the main loop sees it and joins.\<close>

theorem jtag_join_returns_witness:
  "\<exists>s. jsys_reach echo_clock s \<and> main_at s = M_Join \<and> join_returns echo_clock s"
proof -
  let ?x = "(pins_example\<lparr>tdo := 1\<rparr>, ())"
  let ?s1 = "jsys_start\<lparr>jt := jtag_start\<lparr>dead := True\<rparr>, poll := P_Done\<rparr>"
  let ?s2 = "?s1\<lparr>hardware := ?x, main_at := M_Alive\<rparr>"
  let ?s3 = "?s2\<lparr>main_at := M_Join\<rparr>"
  have j: "jt jsys_start = jtag_start" by (simp add: jsys_start_def jsys_init_def)
  have "poll_step jsys_start ?s1"
    unfolding j [symmetric] by (rule poll_step.accept_fails) (simp add: jsys_start_def jsys_init_def)
  from reach_poll [OF jsys_start_reach this] have r: "jsys_reach echo_clock ?s1" .
  have "main_step echo_clock ?s1 ?s2"
    by (rule main_step.idle)
      (simp_all add: jsys_start_def jsys_init_def echo_clock_def pins_example_def jtag_pending_def jtag_start_def)
  from reach_main [OF r this] have r2: "jsys_reach echo_clock ?s2" .
  have "main_step echo_clock ?s2 ?s3"
    by (rule main_step.leave) (simp_all add: jtag_alive_def)
  from reach_main [OF r2 this] have r3: "jsys_reach echo_clock ?s3" .
  have "main_at ?s3 = M_Join" by simp
  from jtag_join_returns [OF r3 this] r3 this show ?thesis by blast
qed

text \<open>
  Answers are lost on \<open>Q\<close>: a client that ends a batch of commands with \<open>Q\<close> gets none of the
  answers of that batch; once the batch has been processed the poll thread sees the connection
  dead and never writes again.
\<close>

theorem quit_discards_answers:
  assumes "poll_step\<^sup>*\<^sup>* s s'" "poll s = P_Check" "dead (jt s)"
  shows "g_sent s' = g_sent s"
proof -
  have "g_sent s' = g_sent s \<and> poll s' \<in> {P_Check, P_Close, P_Unlock, P_Done} \<and> dead (jt s')"
    using assms(1)
  proof induction
    case base
    then show ?case using assms by simp
  next
    case (step y z)
    from step(2,3) show ?case by (auto elim: poll_stepE)
  qed
  then show ?thesis by blast
qed

theorem quit_discards_answers_witness:
  "g_sent (jsys_start\<lparr>jt := jtag_start\<lparr>dead := True, read_bytes := 2, write_bytes := 1\<rparr>, poll := P_Close\<rparr>) = []"
proof -
  let ?s = "jsys_start\<lparr>jt := jtag_start\<lparr>dead := True, read_bytes := 2, write_bytes := 1\<rparr>, poll := P_Check\<rparr>"
  have "poll_step ?s (?s\<lparr>poll := P_Close\<rparr>)" by (rule poll_step.check_break) simp_all
  then have "poll_step\<^sup>*\<^sup>* ?s (?s\<lparr>poll := P_Close\<rparr>)" by (rule r_into_rtranclp)
  from quit_discards_answers [OF this] show ?thesis by (simp add: jsys_start_def jsys_init_def)
qed

end
