(* ===== verification/Text_Format.thy ===== *)
theory Text_Format
  imports Prelude "HOL-Library.Char_ord"
begin

text \<open>
  The text the simulator prints and reads: \<open>%08x\<close>, \<open>%x\<close> and \<open>%u\<close> conversions of C, in both
  directions. Scanning follows C: leading white space is skipped, a sign and (for \<open>x\<close>) a
  \<open>0x\<close> prefix are accepted, the value is reduced to 32 bits; \<open>None\<close> is a matching failure, on
  which \<open>sscanf\<close> stores nothing.
\<close>

section \<open>Printing\<close>

definition hex_digit :: "nat \<Rightarrow> char" where
  "hex_digit n = ''0123456789abcdef'' ! n"

text \<open>The \<open>n\<close> hexadecimal digits of the low \<open>4 * n\<close> bits, highest first.\<close>

fun hex_digits :: "nat \<Rightarrow> nat \<Rightarrow> string" where
  "hex_digits 0 v = []"
| "hex_digits (Suc n) v = hex_digits n (v div 16) @ [hex_digit (v mod 16)]"

definition hex8 :: "u32 \<Rightarrow> string" where
  "hex8 w = hex_digits 8 (unat w)"

section \<open>Scanning\<close>

definition is_blank :: "char \<Rightarrow> bool" where
  "is_blank c \<longleftrightarrow> c \<in> set [CHR '' '', CHR 0x09, CHR 0x0A, CHR 0x0B, CHR 0x0C, CHR 0x0D]"

definition digit_value :: "char \<Rightarrow> nat option" where
  "digit_value c =
     (let n = of_char c :: nat in
      if 48 \<le> n \<and> n \<le> 57 then Some (n - 48)
      else if 97 \<le> n \<and> n \<le> 102 then Some (n - 97 + 10)
      else if 65 \<le> n \<and> n \<le> 70 then Some (n - 65 + 10)
      else None)"

definition is_digit :: "nat \<Rightarrow> char \<Rightarrow> bool" where
  "is_digit base c = (case digit_value c of None \<Rightarrow> False | Some v \<Rightarrow> v < base)"

definition digits_value :: "nat \<Rightarrow> string \<Rightarrow> nat" where
  "digits_value base ds = foldl (\<lambda>acc c. acc * base + the (digit_value c)) 0 ds"

definition scan_digits :: "nat \<Rightarrow> string \<Rightarrow> (nat \<times> string) option" where
  "scan_digits base s =
     (let ds = takeWhile (is_digit base) s in
      if ds = [] then None else Some (digits_value base ds, dropWhile (is_digit base) s))"

definition scan_sign :: "string \<Rightarrow> bool \<times> string" where
  "scan_sign s = (case s of
       c # cs \<Rightarrow> if c = CHR ''-'' then (True, cs) else if c = CHR ''+'' then (False, cs) else (False, s)
     | [] \<Rightarrow> (False, s))"

definition scan_prefix :: "string \<Rightarrow> string" where
  "scan_prefix s = (case s of
       a # b # cs \<Rightarrow> if a = CHR ''0'' \<and> (b = CHR ''x'' \<or> b = CHR ''X'') then cs else s
     | _ \<Rightarrow> s)"

definition to_word :: "bool \<times> nat \<Rightarrow> u32" where
  "to_word x = (if fst x then - of_nat (snd x) else of_nat (snd x))"

text \<open>\<open>sscanf(s, "%08x", &w)\<close>: at most eight characters after the white space.\<close>

definition scan_08x :: "string \<Rightarrow> u32 option" where
  "scan_08x s =
     (let (neg, rest) = scan_sign (take 8 (dropWhile is_blank s))
      in map_option (\<lambda>(v, _). to_word (neg, v)) (scan_digits 16 (scan_prefix rest)))"

text \<open>\<open>sscanf(s, "%u", &w)\<close>; digits beyond 64 bits saturate as in \<open>strtoul\<close>.\<close>

definition scan_u :: "string \<Rightarrow> u32 option" where
  "scan_u s =
     (let (neg, rest) = scan_sign (dropWhile is_blank s)
      in map_option (\<lambda>(v, _). if v < 2 ^ 64 then to_word (neg, v) else -1) (scan_digits 10 rest))"

text \<open>\<open>sscanf(s, "%zu", &n)\<close> into a 64-bit \<open>size_t\<close>.\<close>

definition scan_zu :: "string \<Rightarrow> u64 option" where
  "scan_zu s =
     (let (neg, rest) = scan_sign (dropWhile is_blank s)
      in map_option (\<lambda>(v, _). if v < 2 ^ 64 then (if neg then - of_nat v else of_nat v) else -1)
           (scan_digits 10 rest))"

section \<open>The round trip\<close>

lemma hex_digit_value: "n < 16 \<Longrightarrow> digit_value (hex_digit n) = Some n"
proof -
  have "list_all (\<lambda>n. digit_value (hex_digit n) = Some n) [0..<16]" by code_simp
  then show "n < 16 \<Longrightarrow> digit_value (hex_digit n) = Some n" by (simp add: list_all_iff)
qed

lemma hex_digits_length [simp]: "length (hex_digits n v) = n"
  by (induction n arbitrary: v) simp_all

lemma hex_digits_are_digits: "c \<in> set (hex_digits n v) \<Longrightarrow> \<exists>d < 16. c = hex_digit d"
  by (induction n arbitrary: v) (auto intro: exI [of _ "v mod 16" for v])

lemma hex_digits_value: "digits_value 16 (hex_digits n v) = v mod 16 ^ n"
proof (induction n arbitrary: v)
  case (Suc n)
  have "digits_value 16 (hex_digits (Suc n) v) = digits_value 16 (hex_digits n (v div 16)) * 16 + v mod 16"
    by (simp add: digits_value_def hex_digit_value)
  also have "\<dots> = v mod 16 ^ Suc n"
    by (simp add: Suc.IH mod_mult2_eq mult.commute)
  finally show ?case .
qed (simp add: digits_value_def)

lemma hex_digit_neutral:
  "d < 16 \<Longrightarrow> \<not> is_blank (hex_digit d) \<and> hex_digit d \<noteq> CHR ''-'' \<and> hex_digit d \<noteq> CHR ''+''
     \<and> hex_digit d \<noteq> CHR ''x'' \<and> hex_digit d \<noteq> CHR ''X'' \<and> is_digit 16 (hex_digit d)"
proof -
  have "list_all (\<lambda>d. \<not> is_blank (hex_digit d) \<and> hex_digit d \<noteq> CHR ''-'' \<and> hex_digit d \<noteq> CHR ''+''
     \<and> hex_digit d \<noteq> CHR ''x'' \<and> hex_digit d \<noteq> CHR ''X'' \<and> is_digit 16 (hex_digit d)) [0..<16]"
    by code_simp
  then show "d < 16 \<Longrightarrow> ?thesis" by (simp add: list_all_iff)
qed

lemma scan_hex8: "scan_08x (hex8 w @ rest) = Some w"
proof -
  obtain a b cs where h: "hex8 w = a # b # cs"
    by (cases "hex8 w"; cases "tl (hex8 w)") (auto simp: hex8_def dest: arg_cong [where f = length])
  have d: "c \<in> set (hex8 w) \<Longrightarrow> \<exists>d < 16. c = hex_digit d" for c
    unfolding hex8_def by (rule hex_digits_are_digits)
  have n: "\<not> is_blank a" "a \<noteq> CHR ''-''" "a \<noteq> CHR ''+''" "b \<noteq> CHR ''x''" "b \<noteq> CHR ''X''"
    using d [of a] d [of b] hex_digit_neutral by (auto simp: h)
  have al: "\<forall>c \<in> set (hex8 w). is_digit 16 c" using d hex_digit_neutral by blast
  have l: "length (hex8 w) = 8" by (simp add: hex8_def)
  have t: "take 8 (dropWhile is_blank (hex8 w @ rest)) = hex8 w"
    using n(1) l by (simp add: h)
  have s: "scan_sign (hex8 w) = (False, hex8 w)" "scan_prefix (hex8 w) = hex8 w"
    using n by (simp_all add: h scan_sign_def scan_prefix_def)
  have tw: "takeWhile (is_digit 16) (hex8 w) = hex8 w" "hex8 w \<noteq> []"
    using al l by (auto simp: takeWhile_eq_all_conv)
  have "scan_digits 16 (hex8 w) = Some (digits_value 16 (hex8 w), dropWhile (is_digit 16) (hex8 w))"
    unfolding scan_digits_def Let_def tw(1) using tw(2) by simp
  moreover have "digits_value 16 (hex8 w) = unat w"
  proof -
    have "unat w < 2 ^ LENGTH(32)" by (rule unsigned_less)
    then show ?thesis by (simp add: hex8_def hex_digits_value)
  qed
  ultimately show ?thesis by (simp add: scan_08x_def t s to_word_def)
qed

section \<open>Decimal text\<close>

function decimal :: "nat \<Rightarrow> string" where
  "decimal n = (if n < 10 then [hex_digit n] else decimal (n div 10) @ [hex_digit (n mod 10)])"
  by pat_completeness auto
termination by (relation "measure id") auto

declare decimal.simps [simp del]

lemma decimal_digits: "c \<in> set (decimal n) \<Longrightarrow> \<exists>d < 10. c = hex_digit d"
proof (induction n rule: decimal.induct)
  case (1 n)
  show ?case
  proof (cases "n < 10")
    case True
    with 1(2) show ?thesis by (subst (asm) decimal.simps) auto
  next
    case False
    then have "decimal n = decimal (n div 10) @ [hex_digit (n mod 10)]" by (subst decimal.simps) simp
    with 1(2) consider "c \<in> set (decimal (n div 10))" | "c = hex_digit (n mod 10)" by auto
    then show ?thesis
    proof cases
      case 2
      moreover have "n mod 10 < 10" by simp
      ultimately show ?thesis by blast
    qed (use 1(1) False in simp)
  qed
qed

lemma decimal_value: "digits_value 10 (decimal n) = n"
proof (induction n rule: decimal.induct)
  case (1 n)
  show ?case
  proof (cases "n < 10")
    case True
    then show ?thesis by (subst decimal.simps) (simp add: digits_value_def hex_digit_value)
  next
    case False
    have "digits_value 10 (decimal n) = digits_value 10 (decimal (n div 10)) * 10 + n mod 10"
      by (subst decimal.simps) (use False in \<open>simp add: digits_value_def hex_digit_value\<close>)
    with 1 False show ?thesis by simp
  qed
qed

lemma decimal_not_Nil: "decimal n \<noteq> []"
  by (subst decimal.simps) simp

lemma decimal_digit_facts:
  "d < 10 \<Longrightarrow> is_digit 10 (hex_digit d) \<and> \<not> is_blank (hex_digit d) \<and> hex_digit d \<noteq> CHR ''-'' \<and> hex_digit d \<noteq> CHR ''+''"
proof -
  have "list_all (\<lambda>d. is_digit 10 (hex_digit d) \<and> \<not> is_blank (hex_digit d) \<and> hex_digit d \<noteq> CHR ''-''
      \<and> hex_digit d \<noteq> CHR ''+'') [0..<10]" by code_simp
  then show "d < 10 \<Longrightarrow> ?thesis" by (simp add: list_all_iff)
qed

end
