(* ===== verification/Debug_Mem.thy ===== *)
theory Debug_Mem
  imports Avalon_External Text_Format
begin

text \<open>
  The debugger's view of memory in \<open>conspiracion.cpp\<close>: \<open>dump_coherent\<close> reads a word through
  the bus and overrides it with the line a cache holds, \<open>pagewalk\<close> translates a word address
  with the first core's page tables, \<open>do_mem_dump\<close> prints regions and the command
  \<open>patch-mem\<close> writes words back. Addresses are word addresses. As \<open>bus_dump\<close>, the operations
  return \<open>None\<close> when the code does not return; they thread the interconnect, which a dump of a
  device register may change.
\<close>

section \<open>Definitions\<close>

record cache_sram =
  state_file :: "nat \<Rightarrow> u8"
  tag_file :: "nat \<Rightarrow> u32"
  data_file :: "nat \<Rightarrow> line"

text \<open>The first core's signals that the walk reads.\<close>

record mmu =
  mmu_enable :: bool
  mmu_ttbr :: u32

type_synonym 'a walk = "(interconnect \<times> 'a) res option"

definition bind_walk :: "'a walk \<Rightarrow> (interconnect \<Rightarrow> 'a \<Rightarrow> 'b walk) \<Rightarrow> 'b walk" where
  "bind_walk m f = (case m of None \<Rightarrow> None | Some (Inl e) \<Rightarrow> Some (Inl e) | Some (Inr (ic, x)) \<Rightarrow> f ic x)"

definition ret_walk :: "interconnect \<Rightarrow> 'a \<Rightarrow> 'a walk" where
  "ret_walk ic x = Some (Inr (ic, x))"

lemma bind_walk_simps [simp]:
  "bind_walk (ret_walk ic x) f = f ic x" "bind_walk None f = None"
  "bind_walk (Some (Inl e)) f = Some (Inl e)" "bind_walk (Some (Inr (ic, x))) f = f ic x"
  by (simp_all add: bind_walk_def ret_walk_def)

definition line_tag :: "u32 \<Rightarrow> u32" where
  "line_tag addr = drop_bit 14 addr AND (push_bit 13 1 - 1)"

definition line_index :: "u32 \<Rightarrow> nat" where
  "line_index addr = unat (drop_bit 2 addr AND (push_bit 12 1 - 1))"

definition cache_hit :: "u32 \<Rightarrow> cache_sram \<Rightarrow> bool" where
  "cache_hit addr c \<longleftrightarrow> state_file c (line_index addr) \<noteq> 0 \<and> tag_file c (line_index addr) = line_tag addr"

fun cached_word :: "cache_sram list \<Rightarrow> u32 \<Rightarrow> u32 \<Rightarrow> u32" where
  "cached_word [] addr data = data"
| "cached_word (c # cs) addr data =
     cached_word cs addr (if cache_hit addr c then words (data_file c (line_index addr)) (lane addr) else data)"

definition dump_coherent :: "cache_sram list \<Rightarrow> u32 \<Rightarrow> u32 \<Rightarrow> interconnect \<Rightarrow> (u32 \<times> bool) walk" where
  "dump_coherent caches addr data ic =
     bind_walk (bus_dump addr data ic) (\<lambda>ic' (word, ok).
       if \<not> ok \<or> drop_bit 29 (of_bool ok :: u32) \<noteq> 0 then ret_walk ic' (word, ok)
       else ret_walk ic' (cached_word caches addr word, True))"

text \<open>
  The result is the translated address and the success flag; \<open>junk\<close> is the indeterminate value of
  the local \<open>entry\<close> before the first read, which is never used when the read succeeds.
\<close>

definition pagewalk :: "mmu \<Rightarrow> cache_sram list \<Rightarrow> u32 \<Rightarrow> u32 \<Rightarrow> interconnect \<Rightarrow> (u32 \<times> bool) walk" where
  "pagewalk core caches junk addr ic =
     (if \<not> mmu_enable core then ret_walk ic (addr, True)
      else
        bind_walk (dump_coherent caches (push_bit 12 (mmu_ttbr core) OR drop_bit 18 addr) junk ic) (\<lambda>ic1 (entry, ok).
          if \<not> ok then ret_walk ic1 (addr, False)
          else if entry AND 0b11 = 0b10 then
            ret_walk ic1 (drop_bit 2 (entry AND NOT (push_bit 20 1 - 1)) OR (addr AND (push_bit 18 1 - 1)), True)
          else if entry AND 0b11 \<noteq> 0b01 then ret_walk ic1 (addr, False)
          else
            let entryaddr = drop_bit 2 (entry AND NOT (push_bit 10 1 - 1))
                  OR (drop_bit 10 addr AND (push_bit 8 1 - 1)) in
            bind_walk (dump_coherent caches entryaddr entry ic1) (\<lambda>ic2 (entry, ok).
              if \<not> ok then ret_walk ic2 (addr, False)
              else if entry AND 0b11 = 0b01 then
                ret_walk ic2 (drop_bit 2 (entry AND NOT (push_bit 16 1 - 1)) OR (addr AND (push_bit 14 1 - 1)), True)
              else if entry AND 0b11 = 0b10 \<or> entry AND 0b11 = 0b11 then
                ret_walk ic2 (drop_bit 2 (entry AND NOT (push_bit 12 1 - 1)) OR (addr AND (push_bit 10 1 - 1)), True)
              else ret_walk ic2 (addr, False))))"

definition byte_swap :: "u32 \<Rightarrow> u32" where
  "byte_swap word = push_bit 24 (word AND 0xff) OR push_bit 16 (drop_bit 8 word AND 0xff)
     OR push_bit 8 (drop_bit 16 word AND 0xff) OR (drop_bit 24 word AND 0xff)"

record mem_region =
  mr_start :: u64
  mr_length :: u64

text \<open>The words of one region, as text; \<open>n\<close> words from index \<open>i\<close>.\<close>

fun dump_words :: "mmu \<Rightarrow> cache_sram list \<Rightarrow> u32 \<Rightarrow> bool \<Rightarrow> u64 \<Rightarrow> nat \<Rightarrow> nat \<Rightarrow> interconnect \<Rightarrow> string walk" where
  "dump_words core caches junk map_virtual start 0 i ic = ret_walk ic []"
| "dump_words core caches junk map_virtual start (Suc n) i ic =
     (let at0 = ucast (start + of_nat i) in
      bind_walk (if map_virtual then pagewalk core caches junk at0 ic else ret_walk ic (at0, True)) (\<lambda>ic1 (pos, ok).
        if \<not> ok then ret_walk ic1 []
        else bind_walk (dump_coherent caches pos junk ic1) (\<lambda>ic2 (word, ok).
          if \<not> ok then ret_walk ic2 []
          else bind_walk (dump_words core caches junk map_virtual start n (Suc i) ic2) (\<lambda>ic3 txt.
            ret_walk ic3 (hex8 (byte_swap word) @ txt)))))"

definition newline :: string where
  "newline = [CHR 0x0A]"

fun dump_regions :: "mmu \<Rightarrow> cache_sram list \<Rightarrow> u32 \<Rightarrow> bool \<Rightarrow> mem_region list \<Rightarrow> interconnect \<Rightarrow> string walk" where
  "dump_regions core caches junk map_virtual [] ic = ret_walk ic []"
| "dump_regions core caches junk map_virtual (r # rs) ic =
     bind_walk (dump_words core caches junk map_virtual (mr_start r) (unat (mr_length r)) 0 ic) (\<lambda>ic1 txt.
       bind_walk (dump_regions core caches junk map_virtual rs ic1) (\<lambda>ic2 txts.
         ret_walk ic2 (hex8 (ucast (mr_start r)) @ '' '' @ txt @ newline @ txts)))"

definition do_mem_dump :: "mmu \<Rightarrow> cache_sram list \<Rightarrow> u32 \<Rightarrow> bool \<Rightarrow> mem_region list \<Rightarrow> interconnect \<Rightarrow> string walk" where
  "do_mem_dump core caches junk map_virtual dumps ic =
     bind_walk (dump_regions core caches junk map_virtual dumps ic) (\<lambda>ic1 txt.
       ret_walk ic1 (''=== dump-mem ==='' @ newline @ txt @ ''=== end-mem ==='' @ newline))"

text \<open>
  The loop of \<open>patch-mem\<close> over the hexadecimal text; \<open>sscanf\<close> that matches nothing leaves the
  word indeterminate, an \<open>Undefined\<close> use.
\<close>

function patch_words :: "host \<Rightarrow> mmu \<Rightarrow> cache_sram list \<Rightarrow> u32 \<Rightarrow> u32 \<Rightarrow> string \<Rightarrow> interconnect \<Rightarrow> unit walk" where
  "patch_words h core caches junk addr data ic =
     (if length data < 8 then ret_walk ic ()
      else case scan_08x data of
        None \<Rightarrow> Some (Inl Undefined)
      | Some word \<Rightarrow>
          bind_walk (pagewalk core caches junk addr ic) (\<lambda>ic1 (phys, ok).
            if \<not> ok then ret_walk ic1 ()
            else bind_walk (bus_patch h phys (byte_swap word) ic1) (\<lambda>ic2 _.
              patch_words h core caches junk (addr + 1) (drop 8 data) ic2)))"
  by pat_completeness auto
termination by (relation "measure (\<lambda>(_, _, _, _, _, data, _). length data)") auto

declare patch_words.simps [simp del]

section \<open>Fields of words\<close>

lemma or_plus_nat:
  fixes a b :: u32
  assumes "\<And>n. \<not> (bit a n \<and> bit b n)" "unat a + unat b < 2 ^ 32"
  shows "unat (a OR b) = unat a + unat b"
proof -
  have "a + b = a OR b" using assms(1) by (intro disjunctive_add) blast
  with assms(2) show ?thesis by (simp add: unat_word_ariths flip: \<open>a + b = a OR b\<close>)
qed

lemma exp_mask: "push_bit k 1 - 1 = (mask k :: u32)"
  by (simp add: mask_eq_exp_minus_1)

text \<open>\<open>(e & ~((1 << (k + 2)) - 1)) >> 2 | (a & ((1 << k) - 1))\<close> in numbers.\<close>

lemma field_or:
  fixes e a :: u32
  assumes "k + 2 \<le> 32"
  shows "unat (drop_bit 2 (e AND NOT (mask (k + 2))) OR (a AND mask k)) = unat e div 2 ^ (k + 2) * 2 ^ k + unat a mod 2 ^ k"
proof -
  let ?h = "drop_bit 2 (e AND NOT (mask (k + 2)))"
  have h: "unat ?h = unat e div 2 ^ (k + 2) * 2 ^ k"
  proof -
    have "unat (e AND NOT (mask (k + 2))) = unat e - unat e mod 2 ^ (k + 2)"
      using and_mask_plus [of e "k + 2"] by (simp add: unat_and_mask)
    also have "\<dots> = unat e div 2 ^ (k + 2) * 2 ^ (k + 2)"
      by (simp add: minus_mod_eq_div_mult)
    also have "\<dots> = (unat e div 2 ^ (k + 2) * 2 ^ k) * 4" by simp
    finally show ?thesis unfolding unat_drop_bit by simp
  qed
  have "unat ?h \<le> unat e div 4"
  proof -
    have "e AND NOT (mask (k + 2)) \<le> e" by (rule word_and_le2)
    then show ?thesis unfolding unat_drop_bit word_le_nat_alt by (simp add: div_le_mono)
  qed
  moreover have "unat e < 2 ^ LENGTH(32)" by (rule unsigned_less)
  ultimately have "unat ?h < 2 ^ 30" by simp
  moreover have "unat (a AND mask k) < 2 ^ 30"
  proof -
    have "(2::nat) ^ k \<le> 2 ^ 30" using assms by (intro power_increasing) auto
    moreover have "unat (a AND mask k) < 2 ^ k" by (simp add: unat_and_mask)
    ultimately show ?thesis by linarith
  qed
  moreover have "\<not> (bit ?h n \<and> bit (a AND mask k) n)" for n
    by (auto simp: bit_simps)
  ultimately have "unat (?h OR (a AND mask k)) = unat ?h + unat (a AND mask k)"
    by (intro or_plus_nat) auto
  then show ?thesis by (simp only: h unat_and_mask)
qed

lemma table_index:
  fixes t a :: u32
  assumes "unat t < 2 ^ 18" "unat a < 2 ^ 30"
  shows "unat (push_bit 12 t OR drop_bit 18 a) = unat t * 2 ^ 12 + unat a div 2 ^ 18"
proof -
  have p: "unat (push_bit 12 t) = unat t * 2 ^ 12"
    using assms(1) by (simp add: push_bit_eq_mult unat_word_ariths)
  have d: "unat (drop_bit 18 a) = unat a div 2 ^ 18" by (simp add: unat_drop_bit)
  have d2: "unat (drop_bit 18 a) < 2 ^ 12" using assms(2) by (simp add: d div_less_iff_less_mult)
  have "\<not> (bit (push_bit 12 t) n \<and> bit (drop_bit 18 a) n)" for n
    using bit_below [OF d2, of n] by (auto simp: bit_push_bit_iff)
  then have "unat (push_bit 12 t OR drop_bit 18 a) = unat (push_bit 12 t) + unat (drop_bit 18 a)"
    using assms(1) d2 by (intro or_plus_nat) (auto simp: p)
  then show ?thesis by (simp add: p d)
qed

lemma byte_of_swap: "j < 4 \<Longrightarrow> byte_of (byte_swap w) j = byte_of w (3 - j)"
proof -
  have ff: "(0xff :: u32) = mask 8" by (simp add: mask_eq_exp_minus_1)
  assume "j < 4"
  then consider "j = 0" | "j = 1" | "j = 2" | "j = 3" by linarith
  then show ?thesis
    by cases (rule bit_word_eqI; auto simp: byte_of_def byte_swap_def ff bit_simps)+
qed

lemma byte_swap_twice [simp]: "byte_swap (byte_swap w) = w"
  by (rule word_bytes_eqI) (simp add: byte_of_swap)

section \<open>Words of the RAM\<close>

text \<open>The word a dump of a RAM address returns.\<close>

definition ram_word :: "interconnect \<Rightarrow> u32 \<Rightarrow> u32" where
  "ram_word ic a = (case resolve_external (push_bit 2 a) ic of
       Some r \<Rightarrow> (case objs ic r of
           D_mem m \<Rightarrow> (let pos = external_pos (push_bit 2 a) (mem_slave m)
             in words (block m (unat pos div 4)) (lane pos))
         | _ \<Rightarrow> 0)
     | None \<Rightarrow> 0)"

definition in_ram :: "interconnect \<Rightarrow> u32 \<Rightarrow> bool" where
  "in_ram ic a \<longleftrightarrow> (\<exists>r m. resolve_external (push_bit 2 a) ic = Some r \<and> objs ic r = D_mem m)"

lemma ram_slot:
  assumes "bus_inv ic" "resolve_external (push_bit 2 a) ic = Some r" "objs ic r = D_mem m"
  shows "unat (external_pos (push_bit 2 a) (mem_slave m)) div 4 < mem_len m"
    and "4 * unat (external_pos (push_bit 2 a) (mem_slave m)) = unat (push_bit 2 a) - unat (sl_base (mem_slave m))"
    and "unat (sl_base (mem_slave m)) \<le> unat (push_bit 2 a)" and "mem_inv m"
proof -
  have f: "find_device (push_bit 2 a) ic = Some r" using assms(2) by (simp add: resolve_external_def)
  have m: "mem_inv m" "well_placed (mem_slave m)" "claims (mem_slave m) (push_bit 2 a)"
    using attached_inv [OF assms(1) find_attached [OF f]] find_device_claims(2) [OF assms(1) f] assms(3)
    by simp_all
  show "unat (external_pos (push_bit 2 a) (mem_slave m)) div 4 < mem_len m"
    "4 * unat (external_pos (push_bit 2 a) (mem_slave m)) = unat (push_bit 2 a) - unat (sl_base (mem_slave m))"
    by (rule external_pos_ram [OF m push_bit_2_aligned])+
  show "unat (sl_base (mem_slave m)) \<le> unat (push_bit 2 a)" using m(3) by (simp add: claims_def)
  show "mem_inv m" by (rule m(1))
qed

lemma ram_word_bytes:
  assumes "bus_inv ic" "resolve_external (push_bit 2 a) ic = Some r" "objs ic r = D_mem m" "j < 4"
  shows "byte_of (ram_word ic a) j = mem_bytes m (unat (push_bit 2 a) - unat (sl_base (mem_slave m)) + j)"
proof -
  let ?p = "external_pos (push_bit 2 a) (mem_slave m)"
  note o = ram_slot [OF assms(1-3)]
  have r: "mem_read ?p x m = Inr (m, ram_word ic a, True)" for x
    using o(1) by (simp add: mem_read_def slave_read_def mem_read_line_def ram_word_def assms(2,3) Let_def unat_drop_bit)
  from mem_read_flat [OF r assms(4)] o(2) show ?thesis by simp
qed

lemma bus_dump_ram:
  assumes "bus_inv ic" "in_ram ic a"
  shows "bus_dump a x ic = ret_walk ic (ram_word ic a, True)"
proof -
  from assms(2) obtain r m where r: "resolve_external (push_bit 2 a) ic = Some r" "objs ic r = D_mem m"
    by (auto simp: in_ram_def)
  let ?p = "external_pos (push_bit 2 a) (mem_slave m)"
  note o = ram_slot [OF assms(1) r]
  from dump_loop_ram [OF o(4,1) r(2), of x] obtain v where
    v: "dump_loop r ?p x ic = Some (Inr (ic, v))" "\<forall>j < 4. byte_of v j = mem_bytes m (4 * unat ?p + j)" by blast
  have "v = ram_word ic a"
    by (rule word_bytes_eqI) (use v(2) o(2) ram_word_bytes [OF assms(1) r] in simp)
  with v(1) r show ?thesis by (simp add: bus_dump_def ret_walk_def)
qed

lemma bus_dump_hole: "resolve_external (push_bit 2 a) ic = None \<Longrightarrow> bus_dump a x ic = ret_walk ic (x, False)"
  by (simp add: bus_dump_def ret_walk_def)

lemma dump_coherent_ram:
  "bus_inv ic \<Longrightarrow> in_ram ic a \<Longrightarrow>
     dump_coherent caches a x ic = ret_walk ic (cached_word caches a (ram_word ic a), True)"
  by (simp add: dump_coherent_def bus_dump_ram)

lemma dump_coherent_hole:
  "resolve_external (push_bit 2 a) ic = None \<Longrightarrow> dump_coherent caches a x ic = ret_walk ic (x, False)"
  by (simp add: dump_coherent_def bus_dump_hole)

text \<open>A patch of a RAM word, seen through every other word.\<close>

lemma bus_patch_ram:
  assumes "bus_inv ic" "in_ram ic a"
  obtains ic' where "bus_patch h a w ic = ret_walk ic' True" "bus_inv ic'"
    "\<And>b. resolve_external b ic' = resolve_external b ic"
    "\<And>b. in_ram ic' b = in_ram ic b"
    "\<And>b. in_ram ic b \<Longrightarrow> ram_word ic' b = (if push_bit 2 b = push_bit 2 a then w else ram_word ic b)"
proof -
  from assms(2) obtain r m where r: "resolve_external (push_bit 2 a) ic = Some r" "objs ic r = D_mem m"
    by (auto simp: in_ram_def)
  note o = ram_slot [OF assms(1) r]
  let ?p = "external_pos (push_bit 2 a) (mem_slave m)"
  from patch_loop_ram [OF o(1) r(2), of h w] obtain m' where
    m': "patch_loop h r ?p w ic = Some (Inr (ic\<lparr>objs := (objs ic)(r := D_mem m')\<rparr>))"
      "mem_len m' = mem_len m" "mem_slave m' = mem_slave m"
      "mem_bytes m' = flat_store (4 * unat ?p) 4 (\<lambda>_. True) (byte_of w) (mem_bytes m)" by blast
  let ?ic' = "ic\<lparr>objs := (objs ic)(r := D_mem m')\<rparr>"
  have inv: "bus_inv ?ic'"
  proof -
    have "mem_inv m'" using o(4) m'(2,3) by (simp add: mem_inv_def)
    then have "binding_ok (objs ic) b \<Longrightarrow> binding_ok ((objs ic)(r := D_mem m')) b" for b
      using r(2) m'(3) by (auto simp: binding_ok_def Let_def)
    with assms(1) show ?thesis by (simp add: bus_inv_def attached_def)
  qed
  have res: "resolve_external b ?ic' = resolve_external b ic" for b by (simp add: resolve_external_def)
  have ram: "in_ram ?ic' b = in_ram ic b" for b
    unfolding in_ram_def res using r(2) by (metis (no_types, lifting) fun_upd_apply interconnect.select_convs(10)
        interconnect.simps(20) interconnect.surjective interconnect.update_convs(10))
  have word: "ram_word ?ic' b = (if push_bit 2 b = push_bit 2 a then w else ram_word ic b)" if "in_ram ic b" for b
  proof (rule word_bytes_eqI)
    fix j :: nat assume j: "j < 4"
    from that obtain r' k where k: "resolve_external (push_bit 2 b) ic = Some r'" "objs ic r' = D_mem k"
      by (auto simp: in_ram_def)
    show "byte_of (ram_word ?ic' b) j = byte_of (if push_bit 2 b = push_bit 2 a then w else ram_word ic b) j"
    proof (cases "r' = r")
      case True
      with k r have k': "k = m" by simp
      note ob = ram_slot [OF assms(1) k, unfolded k']
      let ?pa = "unat ?p" and ?pb = "unat (external_pos (push_bit 2 b) (mem_slave m))"
      have "byte_of (ram_word ?ic' b) j = mem_bytes m' (unat (push_bit 2 b) - unat (sl_base (mem_slave m')) + j)"
        by (rule ram_word_bytes [OF inv _ _ j, where r = r]) (use k(1) True res in simp_all)
      then have new: "byte_of (ram_word ?ic' b) j = flat_store (4 * ?pa) 4 (\<lambda>_. True) (byte_of w) (mem_bytes m) (4 * ?pb + j)"
        by (simp only: m'(3,4) ob(2))
      have old: "byte_of (ram_word ic b) j = mem_bytes m (4 * ?pb + j)"
        using ram_word_bytes [OF assms(1) k j] by (simp only: k' ob(2))
      show ?thesis
      proof (cases "push_bit 2 b = push_bit 2 a")
        case True
        then show ?thesis using new j by (simp add: flat_store_def)
      next
        case False
        then have "unat (push_bit 2 b) \<noteq> unat (push_bit 2 a)" by (simp add: word_unat_eq_iff)
        then have "?pa \<noteq> ?pb" using ob(2,3) o(2,3) by linarith
        then have "\<not> (4 * ?pa \<le> 4 * ?pb + j \<and> 4 * ?pb + j < 4 * ?pa + 4)" using j by arith
        then show ?thesis using new old False by (simp only: flat_store_def if_False simp_thms)
      qed
    next
      case False
      then have ne: "push_bit 2 b \<noteq> push_bit 2 a" using k r by auto
      have "byte_of (ram_word ?ic' b) j = mem_bytes k (unat (push_bit 2 b) - unat (sl_base (mem_slave k)) + j)"
        by (rule ram_word_bytes [OF inv _ _ j, where r = r']) (use k False res in simp_all)
      with ne ram_word_bytes [OF assms(1) k j] show ?thesis by simp
    qed
  qed
  have "bus_patch h a w ic = ret_walk ?ic' True"
    by (simp add: bus_patch_def r m'(1) ret_walk_def)
  from that [OF this inv res ram word] show ?thesis by simp
qed

section \<open>Translation\<close>

text \<open>
  The specification: the short-descriptor walk of the ARM architecture on byte addresses, over a
  memory that answers word reads at byte addresses.
\<close>

definition arm_translate :: "(nat \<Rightarrow> u32 option) \<Rightarrow> nat \<Rightarrow> nat \<Rightarrow> nat option" where
  "arm_translate memory table va =
     (case memory (table + 4 * (va div 2 ^ 20)) of
        None \<Rightarrow> None
      | Some e1 \<Rightarrow>
          if unat e1 mod 4 = 2 then Some (unat e1 div 2 ^ 20 * 2 ^ 20 + va mod 2 ^ 20)
          else if unat e1 mod 4 = 1 then
            (case memory (unat e1 div 2 ^ 10 * 2 ^ 10 + 4 * (va div 2 ^ 12 mod 2 ^ 8)) of
               None \<Rightarrow> None
             | Some e2 \<Rightarrow>
                 if unat e2 mod 4 = 1 then Some (unat e2 div 2 ^ 16 * 2 ^ 16 + va mod 2 ^ 16)
                 else if unat e2 mod 4 = 2 \<or> unat e2 mod 4 = 3
                 then Some (unat e2 div 2 ^ 12 * 2 ^ 12 + va mod 2 ^ 12)
                 else None)
          else None)"

text \<open>The memory the debugger sees: RAM through the caches, nothing where no device answers.\<close>

definition coherent_word :: "cache_sram list \<Rightarrow> interconnect \<Rightarrow> u32 \<Rightarrow> u32 option" where
  "coherent_word caches ic a =
     (if resolve_external (push_bit 2 a) ic = None then None else Some (cached_word caches a (ram_word ic a)))"

definition plain :: "interconnect \<Rightarrow> u32 \<Rightarrow> bool" where
  "plain ic a \<longleftrightarrow> resolve_external (push_bit 2 a) ic = None \<or> in_ram ic a"

lemma dump_coherent_plain:
  assumes "bus_inv ic" "plain ic a"
  shows "dump_coherent caches a x ic =
    (case coherent_word caches ic a of None \<Rightarrow> ret_walk ic (x, False) | Some w \<Rightarrow> ret_walk ic (w, True))"
  using assms dump_coherent_ram dump_coherent_hole
  by (auto simp: plain_def coherent_word_def in_ram_def)

lemma low_two_bits: "e AND 0b11 = v \<longleftrightarrow> unat e mod 4 = unat v" if "unat v < 4" for e v :: u32
proof -
  have "unat (e AND 0b11) = unat e mod 4"
    using unat_and_mask [of e 2] by (simp add: mask_eq_exp_minus_1)
  then show ?thesis by (simp add: word_unat_eq_iff)
qed

lemma byte_field:
  fixes e a :: nat
  shows "4 * (e div 2 ^ (k + 2) * 2 ^ k + a mod 2 ^ k) = e div 2 ^ (k + 2) * 2 ^ (k + 2) + (4 * a) mod 2 ^ (k + 2)"
proof -
  have "(4 * a) mod 2 ^ (k + 2) = 4 * (a mod 2 ^ k)"
    using mod_mult_mult1 [of 4 a "2 ^ k"] by (simp add: mult.commute)
  then show ?thesis by (simp add: algebra_simps)
qed

text \<open>The four address computations of the walk.\<close>

lemma walk_field:
  fixes e a :: u32
  assumes "k + 2 \<le> 32"
  shows "4 * unat (drop_bit 2 (e AND NOT (push_bit (k + 2) 1 - 1)) OR (a AND (push_bit k 1 - 1)))
    = unat e div 2 ^ (k + 2) * 2 ^ (k + 2) + (4 * unat a) mod 2 ^ (k + 2)"
  unfolding exp_mask field_or [OF assms] by (rule byte_field)

lemma second_index: "(4 * unat (drop_bit 10 a)) mod 2 ^ 10 = 4 * (4 * unat a div 2 ^ 12 mod 2 ^ 8)" for a :: u32
proof -
  have "unat (drop_bit 10 a) = 4 * unat a div 2 ^ 12" by (simp add: unat_drop_bit)
  then show ?thesis using mod_mult_mult1 [of 4 "unat (drop_bit 10 a)" "2 ^ 8"] by simp
qed

text \<open>A walk's outcome against a translation.\<close>

definition walk_gives :: "interconnect \<Rightarrow> (u32 \<times> bool) walk \<Rightarrow> nat option \<Rightarrow> bool" where
  "walk_gives ic r t \<longleftrightarrow> (\<exists>pa ok. r = ret_walk ic (pa, ok) \<and> t = (if ok then Some (4 * unat pa) else None))"

lemma walk_hit: "4 * unat x = n \<Longrightarrow> walk_gives ic (ret_walk ic (x, True)) (Some n)"
  by (auto simp: walk_gives_def intro!: exI [of _ x] exI [of _ True])

lemma walk_miss: "walk_gives ic (ret_walk ic (x, False)) None"
  by (auto simp: walk_gives_def intro!: exI [of _ x] exI [of _ False])

section \<open>Properties\<close>

text \<open>
  C38. The page walk implements the ARM short-descriptor translation: for a word address and
  a translation table whose entries, where any device claims them, lie in RAM, \<open>pagewalk\<close>
  returns with the bus unchanged; it succeeds exactly when the architecture's walk over the
  coherent memory gives a physical address (sections, large and small pages; faults and holes
  otherwise), and then with that address.
\<close>

theorem pagewalk_translates:
  assumes "bus_inv ic" "mmu_enable core" "unat (mmu_ttbr core) < 2 ^ 18" "unat addr < 2 ^ 30"
    and l1: "plain ic (push_bit 12 (mmu_ttbr core) OR drop_bit 18 addr)"
    and l2: "\<And>e. coherent_word caches ic (push_bit 12 (mmu_ttbr core) OR drop_bit 18 addr) = Some e \<Longrightarrow>
      plain ic (drop_bit 2 (e AND NOT (push_bit 10 1 - 1)) OR (drop_bit 10 addr AND (push_bit 8 1 - 1)))"
  shows "\<exists>pa ok. pagewalk core caches junk addr ic = ret_walk ic (pa, ok)
    \<and> arm_translate (\<lambda>b. coherent_word caches ic (of_nat (b div 4))) (unat (mmu_ttbr core) * 2 ^ 14) (4 * unat addr)
      = (if ok then Some (4 * unat pa) else None)"
proof -
  let ?a1 = "push_bit 12 (mmu_ttbr core) OR drop_bit 18 addr"
  let ?a2 = "\<lambda>e. drop_bit 2 (e AND NOT (push_bit 10 1 - 1)) OR (drop_bit 10 addr AND (push_bit 8 1 - 1))"
  let ?m = "\<lambda>b. coherent_word caches ic (of_nat (b div 4))"
  have f20: "4 * unat (drop_bit 2 (e AND NOT (push_bit 20 1 - 1)) OR (addr AND (push_bit 18 1 - 1)))
      = unat e div 2 ^ 20 * 2 ^ 20 + 4 * unat addr mod 2 ^ 20" for e
    using walk_field [of 18 e addr] by simp
  have f16: "4 * unat (drop_bit 2 (e AND NOT (push_bit 16 1 - 1)) OR (addr AND (push_bit 14 1 - 1)))
      = unat e div 2 ^ 16 * 2 ^ 16 + 4 * unat addr mod 2 ^ 16" for e
    using walk_field [of 14 e addr] by simp
  have f12: "4 * unat (drop_bit 2 (e AND NOT (push_bit 12 1 - 1)) OR (addr AND (push_bit 10 1 - 1)))
      = unat e div 2 ^ 12 * 2 ^ 12 + 4 * unat addr mod 2 ^ 12" for e
    using walk_field [of 10 e addr] by simp
  have word_at: "4 * unat w = n \<Longrightarrow> of_nat (n div 4) = w" for w :: u32 and n :: nat
    by auto
  have "4 * unat ?a1 = unat (mmu_ttbr core) * 2 ^ 14 + 4 * (4 * unat addr div 2 ^ 20)"
    using table_index [OF assms(3,4)] by simp
  then have m1: "?m (unat (mmu_ttbr core) * 2 ^ 14 + 4 * (4 * unat addr div 2 ^ 20)) = coherent_word caches ic ?a1"
    by (simp only: word_at)
  have w2: "4 * unat (?a2 e) = unat e div 2 ^ 10 * 2 ^ 10 + 4 * (4 * unat addr div 2 ^ 12 mod 2 ^ 8)" for e
    using walk_field [of 8 e "drop_bit 10 addr"] second_index [of addr] by simp
  have m2: "?m (unat e div 2 ^ 10 * 2 ^ 10 + 4 * (4 * unat addr div 2 ^ 12 mod 2 ^ 8)) = coherent_word caches ic (?a2 e)" for e
    by (rule arg_cong [where f = "coherent_word caches ic", OF word_at [OF w2]])
  note d1 = dump_coherent_plain [OF assms(1) l1, of caches]
  show ?thesis
  proof (cases "coherent_word caches ic ?a1")
    case None
    have "pagewalk core caches junk addr ic = ret_walk ic (addr, False)"
      using assms(2) None by (simp add: pagewalk_def d1)
    moreover have "arm_translate ?m (unat (mmu_ttbr core) * 2 ^ 14) (4 * unat addr) = None"
      unfolding arm_translate_def m1 None by simp
    ultimately show ?thesis by auto
  next
    case (Some e)
    note d2 = dump_coherent_plain [OF assms(1) l2 [OF Some], of caches]
    have tr: "arm_translate ?m (unat (mmu_ttbr core) * 2 ^ 14) (4 * unat addr) =
        (if unat e mod 4 = 2 then Some (unat e div 2 ^ 20 * 2 ^ 20 + 4 * unat addr mod 2 ^ 20)
          else if unat e mod 4 = 1 then
            (case coherent_word caches ic (?a2 e) of
               None \<Rightarrow> None
             | Some e2 \<Rightarrow>
                 if unat e2 mod 4 = 1 then Some (unat e2 div 2 ^ 16 * 2 ^ 16 + 4 * unat addr mod 2 ^ 16)
                 else if unat e2 mod 4 = 2 \<or> unat e2 mod 4 = 3
                 then Some (unat e2 div 2 ^ 12 * 2 ^ 12 + 4 * unat addr mod 2 ^ 12)
                 else None)
          else None)"
      unfolding arm_translate_def m1 Some option.case m2 ..
    have pw: "pagewalk core caches junk addr ic =
        (if unat e mod 4 = 2 then
           ret_walk ic (drop_bit 2 (e AND NOT (push_bit 20 1 - 1)) OR (addr AND (push_bit 18 1 - 1)), True)
         else if unat e mod 4 \<noteq> 1 then ret_walk ic (addr, False)
         else case coherent_word caches ic (?a2 e) of
             None \<Rightarrow> ret_walk ic (addr, False)
           | Some e2 \<Rightarrow>
               if unat e2 mod 4 = 1 then
                 ret_walk ic (drop_bit 2 (e2 AND NOT (push_bit 16 1 - 1)) OR (addr AND (push_bit 14 1 - 1)), True)
               else if unat e2 mod 4 = 2 \<or> unat e2 mod 4 = 3 then
                 ret_walk ic (drop_bit 2 (e2 AND NOT (push_bit 12 1 - 1)) OR (addr AND (push_bit 10 1 - 1)), True)
               else ret_walk ic (addr, False))"
      unfolding pagewalk_def d1 Some option.case Let_def bind_walk_simps prod.case d2
      using assms(2) by (simp add: low_two_bits del: push_bit_of_1 split: option.splits)
    show ?thesis
      unfolding tr pw walk_gives_def [symmetric]
      by (cases "coherent_word caches ic (?a2 e)")
        (simp_all only: option.case walk_hit [OF f20] walk_hit [OF f16] walk_hit [OF f12] walk_miss
          if_True if_False simp_thms split: if_split; blast)+
  qed
qed

definition cache_example :: cache_sram where
  "cache_example = \<lparr>state_file = (\<lambda>i. if i = 0 then 1 else 0), tag_file = (\<lambda>_. 0),
     data_file = (\<lambda>_. Line 0x00000001 0x00045002 0 0)\<rparr>"

text \<open>A cached table entry at word 0 points to a cached second-level entry at word 1.\<close>

theorem pagewalk_translates_witness:
  "\<exists>pa ok. pagewalk \<lparr>mmu_enable = True, mmu_ttbr = 0\<rparr> [cache_example] 7 0x4d2 bus_example = ret_walk bus_example (pa, ok)
    \<and> arm_translate (\<lambda>b. coherent_word [cache_example] bus_example (of_nat (b div 4))) 0 0x1348
      = (if ok then Some (4 * unat pa) else None)"
proof -
  have r: "resolve_external 0 bus_example = Some 0" "resolve_external 4 bus_example = Some 0"
    "objs bus_example 0 = D_mem ram_example"
    by (simp_all add: bus_example_def interconnect_init_def resolve_external_def find_device_def
        binding_matches_def objs_example_def)
  then have ram: "in_ram bus_example 0" "in_ram bus_example 1" by (auto simp: in_ram_def)
  have e: "coherent_word [cache_example] bus_example 0 = Some 1"
    using r by (simp add: coherent_word_def cache_hit_def cache_example_def line_index_def line_tag_def lane_def words_def)
  show ?thesis
    using pagewalk_translates [OF bus_example_inv, of "\<lparr>mmu_enable = True, mmu_ttbr = 0\<rparr>" "0x4d2" "[cache_example]" 7]
      ram e by (simp add: plain_def)
qed

end
