(* ===== verification/Debug_Text.thy ===== *)
theory Debug_Text
  imports Debug_Mem
begin

text \<open>
  The text interface of the debugger: what \<open>patch-mem\<close> writes from a hexadecimal dump,
  \<open>dump-mem\<close> prints back; and what the cache override of \<open>dump_coherent\<close> does to the
  addresses that share a cache line.
\<close>

section \<open>Patching and dumping a run of words\<close>

lemma run_distinct:
  assumes "push_bit 2 (a + of_nat i) = push_bit 2 (a + of_nat j :: u32)" "i < 2 ^ 30" "j < 2 ^ 30"
  shows "i = j"
proof -
  have "of_nat (4 * i) = (of_nat (4 * j) :: u32)"
    using assms(1) by (simp add: push_bit_eq_mult algebra_simps)
  then have "(4 * i) mod 2 ^ LENGTH(32) = (4 * j) mod 2 ^ LENGTH(32)"
    unfolding word_of_nat_eq_iff take_bit_eq_mod .
  moreover have "4 * i < 2 ^ LENGTH(32)" "4 * j < 2 ^ LENGTH(32)" using assms(2,3) by simp_all
  ultimately show ?thesis by simp
qed

lemma hex8_length [simp]: "length (hex8 w) = 8"
  by (simp add: hex8_def)

lemma pagewalk_off: "\<not> mmu_enable core \<Longrightarrow> pagewalk core caches junk addr ic = ret_walk ic (addr, True)"
  by (simp add: pagewalk_def)

text \<open>The run of words at \<open>addr\<close> holds \<open>ws\<close>, the rest of the RAM is as before.\<close>

definition patched :: "interconnect \<Rightarrow> u32 \<Rightarrow> u32 list \<Rightarrow> interconnect \<Rightarrow> bool" where
  "patched ic addr ws ic' \<longleftrightarrow> bus_inv ic' \<and> in_ram ic' = in_ram ic
    \<and> (\<forall>i < length ws. ram_word ic' (addr + of_nat i) = byte_swap (ws ! i))
    \<and> (\<forall>b. in_ram ic b \<longrightarrow> (\<forall>i < length ws. push_bit 2 b \<noteq> push_bit 2 (addr + of_nat i)) \<longrightarrow>
        ram_word ic' b = ram_word ic b)"

lemma patched_inv: "patched ic addr ws ic' \<Longrightarrow> bus_inv ic'"
  by (simp add: patched_def)

lemma patched_ram: "patched ic addr ws ic' \<Longrightarrow> in_ram ic' b = in_ram ic b"
  by (simp add: patched_def)

lemma patched_word: "patched ic addr ws ic' \<Longrightarrow> i < length ws \<Longrightarrow> ram_word ic' (addr + of_nat i) = byte_swap (ws ! i)"
  by (simp add: patched_def)

lemma patched_other:
  "patched ic addr ws ic' \<Longrightarrow> in_ram ic b \<Longrightarrow>
     (\<And>i. i < length ws \<Longrightarrow> push_bit 2 b \<noteq> push_bit 2 (addr + of_nat i)) \<Longrightarrow> ram_word ic' b = ram_word ic b"
  unfolding patched_def by blast

lemma patched_Nil: "bus_inv ic \<Longrightarrow> patched ic addr [] ic"
  by (simp add: patched_def)

lemma next_word: "a + 1 + of_nat i = a + of_nat (Suc i)" for a :: u32
  by simp

lemma patched_Cons:
  assumes "in_ram ic addr" "in_ram ic1 = in_ram ic" "length (w # ws) \<le> 2 ^ 30"
    and w1: "\<And>b. in_ram ic b \<Longrightarrow> ram_word ic1 b = (if push_bit 2 b = push_bit 2 addr then byte_swap w else ram_word ic b)"
    and p: "patched ic1 (addr + 1) ws ic2"
  shows "patched ic addr (w # ws) ic2"
  unfolding patched_def
proof (intro conjI allI impI)
  show "bus_inv ic2" by (rule patched_inv [OF p])
  show "in_ram ic2 = in_ram ic" using patched_ram [OF p] assms(2) by auto
next
  fix i assume i: "i < length (w # ws)"
  show "ram_word ic2 (addr + of_nat i) = byte_swap ((w # ws) ! i)"
  proof (cases i)
    case 0
    have "push_bit 2 addr \<noteq> push_bit 2 (addr + 1 + of_nat j)" if "j < length ws" for j
    proof
      assume "push_bit 2 addr = push_bit 2 (addr + 1 + of_nat j)"
      then have "push_bit 2 (addr + of_nat 0) = push_bit 2 (addr + of_nat (Suc j))"
        unfolding next_word by simp
      from run_distinct [OF this] that assms(3) show False by simp
    qed
    then have "ram_word ic2 addr = ram_word ic1 addr"
      using patched_other [OF p] assms(1,2) by simp
    with 0 w1 [OF assms(1)] show ?thesis by simp
  next
    case (Suc j)
    with i patched_word [OF p, of j] show ?thesis by (simp only: next_word) simp
  qed
next
  fix b assume b: "in_ram ic b" "\<forall>i < length (w # ws). push_bit 2 b \<noteq> push_bit 2 (addr + of_nat i)"
  have "push_bit 2 b \<noteq> push_bit 2 (addr + of_nat 0)" using b(2) by blast
  then have "ram_word ic1 b = ram_word ic b" using w1 [OF b(1)] by simp
  moreover have "push_bit 2 b \<noteq> push_bit 2 (addr + 1 + of_nat i)" if "i < length ws" for i
  proof -
    have "Suc i < length (w # ws)" using that by simp
    with b(2) show ?thesis unfolding next_word by blast
  qed
  ultimately show "ram_word ic2 b = ram_word ic b"
    using patched_other [OF p] b(1) assms(2) by simp
qed

lemma patch_run:
  assumes "\<not> mmu_enable core" "bus_inv ic" "\<And>i. i < length ws \<Longrightarrow> in_ram ic (addr + of_nat i)" "length ws \<le> 2 ^ 30"
  shows "\<exists>ic'. patch_words h core caches junk addr (concat (map hex8 ws)) ic = ret_walk ic' () \<and> patched ic addr ws ic'"
  using assms(2-4)
proof (induction ws arbitrary: addr ic)
  case Nil
  then show ?case by (subst patch_words.simps) (auto intro: patched_Nil)
next
  case (Cons w ws)
  have a: "in_ram ic addr" using Cons.prems(2) [of 0] by simp
  from bus_patch_ram [OF Cons.prems(1) a, of h "byte_swap w"] obtain ic1 where
    p: "bus_patch h addr (byte_swap w) ic = ret_walk ic1 True" and i1: "bus_inv ic1"
    and r1: "\<And>b. in_ram ic1 b = in_ram ic b"
    and w1: "\<And>b. in_ram ic b \<Longrightarrow> ram_word ic1 b = (if push_bit 2 b = push_bit 2 addr then byte_swap w else ram_word ic b)"
    by metis
  have in1: "in_ram ic1 (addr + 1 + of_nat i)" if "i < length ws" for i
    unfolding next_word r1 using Cons.prems(2) [of "Suc i"] that by simp
  from Cons.prems(3) have "length ws \<le> 2 ^ 30" by simp
  from Cons.IH [OF i1 in1 this] obtain ic2 where
    p2: "patch_words h core caches junk (addr + 1) (concat (map hex8 ws)) ic1 = ret_walk ic2 ()"
    and f: "patched ic1 (addr + 1) ws ic2" by blast
  have "patch_words h core caches junk addr (concat (map hex8 (w # ws))) ic = ret_walk ic2 ()"
    by (subst patch_words.simps) (simp add: scan_hex8 pagewalk_off [OF assms(1)] p p2)
  moreover have "in_ram ic1 = in_ram ic" using r1 by auto
  ultimately show ?case using patched_Cons [OF a _ Cons.prems(3) w1 f] by blast
qed

lemma position_word: "ucast (ucast a + of_nat k :: u64) = (a + of_nat k :: u32)"
proof (rule word_unat_eq_iff [THEN iffD2])
  have "unat (ucast (ucast a + of_nat k :: u64) :: u32) = (unat a + k) mod 2 ^ 64 mod 2 ^ 32"
    by (simp add: unsigned_ucast_eq unat_word_ariths unat_of_nat take_bit_eq_mod mod_simps)
  also have "\<dots> = (unat a + k) mod 2 ^ 32" by (rule mod_mod_cancel) simp
  also have "\<dots> = unat (a + of_nat k)" by (simp add: unat_word_ariths unat_of_nat mod_simps)
  finally show "unat (ucast (ucast a + of_nat k :: u64) :: u32) = unat (a + of_nat k)" .
qed

lemma dump_run:
  assumes "\<not> mmu_enable core" "bus_inv ic"
    "\<forall>i < k + n. in_ram ic (addr + of_nat i) \<and> (\<forall>c \<in> set caches. \<not> cache_hit (addr + of_nat i) c)"
  shows "dump_words core caches junk mv (ucast addr) n k ic =
    ret_walk ic (concat (map (\<lambda>i. hex8 (byte_swap (ram_word ic (addr + of_nat i)))) [k..<k + n]))"
  using assms(3)
proof (induction n arbitrary: k)
  case (Suc n)
  have pos: "ucast (ucast addr + of_nat k :: u64) = addr + of_nat k"
    by (rule position_word)
  have h: "in_ram ic (addr + of_nat k)" "\<forall>c \<in> set caches. \<not> cache_hit (addr + of_nat k) c"
    using Suc.prems by auto
  have c: "cached_word caches (addr + of_nat k) d = d" for d
    using h(2) by (induction caches arbitrary: d) auto
  have "\<forall>i < Suc k + n. in_ram ic (addr + of_nat i) \<and> (\<forall>c \<in> set caches. \<not> cache_hit (addr + of_nat i) c)"
    using Suc.prems by auto
  note IH = Suc.IH [OF this]
  have walk: "(if mv then pagewalk core caches junk (addr + of_nat k) ic else ret_walk ic (addr + of_nat k, True))
      = ret_walk ic (addr + of_nat k, True)"
    by (simp add: pagewalk_off [OF assms(1)])
  have "[k..<k + Suc n] = k # [Suc k..<Suc k + n]" using upt_rec [of k "k + Suc n"] by simp
  then show ?case
    unfolding dump_words.simps Let_def pos walk bind_walk_simps prod.case
      dump_coherent_ram [OF assms(2) h(1)] c IH by simp
qed simp

section \<open>Properties\<close>

text \<open>
  C39. The text of \<open>patch-mem\<close> and \<open>dump-mem\<close> round-trips: with translation off, patching a
  run of RAM words from their hexadecimal text succeeds, and dumping the same region prints
  exactly that text, provided no cache holds a line of the region; every other RAM word is
  left as it was.
\<close>

theorem patch_text_roundtrip:
  assumes "\<not> mmu_enable core" "bus_inv ic" "length ws \<le> 2 ^ 30"
    "\<forall>i < length ws. in_ram ic (addr + of_nat i) \<and> (\<forall>c \<in> set caches. \<not> cache_hit (addr + of_nat i) c)"
  shows "\<exists>ic'. patch_words h core caches junk addr (concat (map hex8 ws)) ic = ret_walk ic' () \<and> bus_inv ic'
    \<and> dump_words core caches junk mv (ucast addr) (length ws) 0 ic' = ret_walk ic' (concat (map hex8 ws))
    \<and> (\<forall>b. in_ram ic b \<longrightarrow> (\<forall>i < length ws. push_bit 2 b \<noteq> push_bit 2 (addr + of_nat i)) \<longrightarrow>
        ram_word ic' b = ram_word ic b)"
proof -
  have "\<And>i. i < length ws \<Longrightarrow> in_ram ic (addr + of_nat i)" using assms(4) by blast
  from patch_run [OF assms(1,2) this assms(3), of h caches junk] obtain ic' where
    p: "patch_words h core caches junk addr (concat (map hex8 ws)) ic = ret_walk ic' ()"
    and f: "patched ic addr ws ic'" by blast
  have "\<forall>i < 0 + length ws. in_ram ic' (addr + of_nat i) \<and> (\<forall>c \<in> set caches. \<not> cache_hit (addr + of_nat i) c)"
    unfolding patched_ram [OF f] using assms(4) by simp
  note d = dump_run [OF assms(1) patched_inv [OF f] this, of junk mv]
  have "map (\<lambda>i. hex8 (byte_swap (ram_word ic' (addr + of_nat i)))) [0..<length ws] = map hex8 ws"
    by (rule nth_equalityI) (simp_all add: patched_word [OF f])
  with d have "dump_words core caches junk mv (ucast addr) (length ws) 0 ic' = ret_walk ic' (concat (map hex8 ws))"
    by simp
  with p f show ?thesis unfolding patched_def by blast
qed

theorem patch_text_roundtrip_witness:
  "\<exists>ic'. patch_words host_example \<lparr>mmu_enable = False, mmu_ttbr = 0\<rparr> [cache_example] 0 5
      (concat (map hex8 [0x01020304, 0xdeadbeef])) bus_example = ret_walk ic' () \<and> bus_inv ic'
    \<and> dump_words \<lparr>mmu_enable = False, mmu_ttbr = 0\<rparr> [cache_example] 0 True (ucast (5 :: u32)) 2 0 ic'
      = ret_walk ic' (concat (map hex8 [0x01020304, 0xdeadbeef]))"
proof -
  have r: "in_ram bus_example 5" "in_ram bus_example 6"
    by (auto simp: bus_example_def interconnect_init_def resolve_external_def find_device_def
        binding_matches_def objs_example_def in_ram_def)
  have c: "\<not> cache_hit 5 cache_example" "\<not> cache_hit 6 cache_example"
    by (simp_all add: cache_hit_def cache_example_def line_index_def)
  have "\<forall>i < length [0x01020304, 0xdeadbeef :: u32]. in_ram bus_example (5 + of_nat i)
      \<and> (\<forall>c \<in> set [cache_example]. \<not> cache_hit (5 + of_nat i) c)"
    using r c by (auto simp: less_Suc_eq)
  from patch_text_roundtrip [OF _ bus_example_inv _ this, of "\<lparr>mmu_enable = False, mmu_ttbr = 0\<rparr>" host_example 0 True]
  have "\<exists>ic'. patch_words host_example \<lparr>mmu_enable = False, mmu_ttbr = 0\<rparr> [cache_example] 0 5
      (concat (map hex8 [0x01020304, 0xdeadbeef])) bus_example = ret_walk ic' () \<and> bus_inv ic'
    \<and> dump_words \<lparr>mmu_enable = False, mmu_ttbr = 0\<rparr> [cache_example] 0 True (ucast (5 :: u32))
      (length [0x01020304, 0xdeadbeef :: u32]) 0 ic' = ret_walk ic' (concat (map hex8 [0x01020304, 0xdeadbeef]))"
    by (simp only: mmu.simps simp_thms) fastforce
  moreover have "length [0x01020304, 0xdeadbeef :: u32] = 2" by simp
  ultimately show ?thesis by (simp only:)
qed

text \<open>
  The cache override looks at bits 0 to 26 of the word address only, and the test that should
  keep uncached addresses out of it, \<open>(ok >> 29)\<close>, is a test of a boolean and never holds: a
  dump of an address of a device returns the word of a RAM line that a cache holds, when the
  two addresses agree on those bits.
\<close>

lemma cache_fields:
  assumes "take_bit 27 a = take_bit 27 (b :: u32)"
  shows "line_tag a = line_tag b" "line_index a = line_index b" "lane a = lane b"
proof -
  have bits: "n < 27 \<Longrightarrow> bit a n = bit b n" for n
    using arg_cong [OF assms, of "\<lambda>w. bit w n"] by (simp add: bit_take_bit_iff)
  have m: "push_bit 13 1 - 1 = (mask 13 :: u32)" "push_bit 12 1 - 1 = (mask 12 :: u32)" "(3 :: u32) = mask 2"
    by (simp_all add: mask_eq_exp_minus_1)
  show "line_tag a = line_tag b" unfolding line_tag_def m
    by (rule bit_word_eqI) (use bits in \<open>auto simp: bit_simps\<close>)
  show "line_index a = line_index b" unfolding line_index_def m
    by (rule arg_cong [where f = unat], rule bit_word_eqI) (use bits in \<open>auto simp: bit_simps\<close>)
  show "lane a = lane b" unfolding lane_def m
    by (rule arg_cong [where f = unat], rule bit_word_eqI) (use bits in \<open>auto simp: bit_simps\<close>)
qed

theorem dump_coherent_aliases:
  assumes "bus_dump a x ic = ret_walk ic' (w, True)" "cache_hit b c" "take_bit 27 a = take_bit 27 b"
  shows "dump_coherent [c] a x ic = ret_walk ic' (words (data_file c (line_index b)) (lane b), True)"
  using assms(1,2) by (simp add: dump_coherent_def cache_hit_def cache_fields [OF assms(3)])

end
