(* ===== verification/Sim_Platform.thy ===== *)
theory Sim_Platform
  imports Avalon_External
begin

text \<open>
  The system \<open>main\<close> of \<open>conspiracion.cpp\<close> puts together: the devices with their addresses, the
  order in which they are attached, the constants of the command line and the images loaded
  into the RAM before the start. The objects are numbered in the order of their declarations.
  Values that C++ leaves uninitialised (the timer's registers, the ring of the UART, the
  answer of a verilated slave) are the record \<open>junk\<close>.
\<close>

section \<open>Definitions\<close>

record sim_opts =
  headless :: bool
  accurate_video :: bool
  no_tty :: bool
  start_halted :: bool
  max_cycles :: u32
  control_fd :: int
  dump_regs :: bool
  init_regs :: "(nat \<times> u32) list"
  const_maps :: "(u32 \<times> u32) list"
  file_loads :: "(u32 \<times> string) list"
  image_file :: string

record junk =
  j_ring :: "nat \<Rightarrow> u8"
  j_count :: u32
  j_period :: u32
  j_snap :: u32
  j_latch :: "nat \<Rightarrow> bool"
  j_latch_readdata :: "nat \<Rightarrow> u32"

abbreviation (input) obj_ddr3 :: nat where "obj_ddr3 \<equiv> 0"
abbreviation (input) obj_uart :: nat where "obj_uart \<equiv> 1"
abbreviation (input) obj_timer :: nat where "obj_timer \<equiv> 2"
abbreviation (input) obj_intc :: nat where "obj_intc \<equiv> 3"
abbreviation (input) obj_vram :: nat where "obj_vram \<equiv> 4"
abbreviation (input) obj_null :: nat where "obj_null \<equiv> 5"
abbreviation (input) obj_vga :: nat where "obj_vga \<equiv> 12"

text \<open>Base and size of the verilated slaves \<open>dbg_0\<close> to \<open>dbg_3\<close>, \<open>smp_ctrl\<close>, \<open>perf_monitor\<close>.\<close>

definition sim_slave_table :: "(u32 \<times> u32) list" where
  "sim_slave_table = [(0x30100000, 32), (0x30110000, 32), (0x30120000, 32), (0x30130000, 32),
     (0x30140000, 4), (0x30150000, 256)]"

fun build_list :: "('a \<Rightarrow> device res) \<Rightarrow> 'a list \<Rightarrow> device list res" where
  "build_list f [] = Inr []"
| "build_list f (x # xs) = bind_res (f x) (\<lambda>d. bind_res (build_list f xs) (\<lambda>ds. Inr (d # ds)))"

definition build_sim_slave :: "junk \<Rightarrow> (nat \<Rightarrow> verilated_slave) \<Rightarrow> nat \<times> u32 \<times> u32 \<Rightarrow> device res" where
  "build_sim_slave j vs x = (case x of (i, bas, siz) \<Rightarrow>
     bind_res (sim_slave_init (vs i) bas siz (j_latch j i) (j_latch_readdata j i)) (\<lambda>s. Inr (D_sim s)))"

text \<open>\<open>const_map\<close> has a default size of 4.\<close>

definition build_const :: "u32 \<times> u32 \<Rightarrow> device res" where
  "build_const init = bind_res (const_init (fst init) (snd init) 4) (\<lambda>c. Inr (D_const c))"

definition build_devices :: "junk \<Rightarrow> (nat \<Rightarrow> verilated_slave) \<Rightarrow> (u32 \<times> u32) list \<Rightarrow> device list res" where
  "build_devices j vs cmaps =
     bind_res (mem_init 0x00000000 (push_bit 20 512)) (\<lambda>hps_ddr3.
     bind_res (uart_init 0x30000000 (j_ring j)) (\<lambda>ttyJ0.
     bind_res (timer_init 0x30020000 (j_count j) (j_period j) (j_snap j)) (\<lambda>timer.
     bind_res (intc_init 0x30070000) (\<lambda>intc.
     let intc = intc\<lparr>irqs := \<lparr>line_timer = Some obj_timer, line_jtaguart = Some obj_uart\<rparr>\<rparr> in
     bind_res (mem_init 0x38000000 (push_bit 20 64)) (\<lambda>vram.
     bind_res (null_init 0x38000000 (push_bit 20 64) 2) (\<lambda>vram_null.
     bind_res (window_init (mem_slave vram) 0x00000000) (\<lambda>vram_window.
     bind_res (display_init 0x38000000 25175000 50000000) (\<lambda>vga.
     bind_res (build_list (build_sim_slave j vs) (zip [0..<6] sim_slave_table)) (\<lambda>slaves.
     bind_res (build_list build_const cmaps) (\<lambda>cs.
     Inr ([D_mem hps_ddr3, D_uart ttyJ0, D_timer timer, D_intc intc, D_mem vram, D_null vram_null]
       @ slaves @ [D_vga vga] @ cs)))))))))))"

definition fast_video :: "sim_opts \<Rightarrow> bool" where
  "fast_video o1 \<longleftrightarrow> \<not> headless o1 \<and> \<not> accurate_video o1"

definition accurate_video_on :: "sim_opts \<Rightarrow> bool" where
  "accurate_video_on o1 \<longleftrightarrow> \<not> headless o1 \<and> accurate_video o1"

text \<open>The order of the calls of \<open>attach\<close>, with \<open>attach_intc\<close> in its place.\<close>

definition attach_devices :: "sim_opts \<Rightarrow> interconnect \<Rightarrow> interconnect res" where
  "attach_devices o1 ic =
     bind_res (attach_all [obj_ddr3, obj_timer, obj_uart, 6, 7, 8, 9, 10, 11] ic) (\<lambda>ic1.
     bind_res (attach_intc obj_intc ic1) (\<lambda>ic2.
     bind_res (attach_all [13..<13 + length (const_maps o1)] ic2) (\<lambda>ic3.
     attach (if fast_video o1 then obj_vga else if accurate_video_on o1 then obj_vram else obj_null) ic3)))"

definition nth_device :: "device list \<Rightarrow> nat \<Rightarrow> device" where
  "nth_device ds r = (if r < length ds then ds ! r else D_null \<lparr>nl_slave = \<lparr>sl_base = 0, sl_mask = 0, sl_word = 0\<rparr>\<rparr>)"

definition build_system :: "sim_opts \<Rightarrow> junk \<Rightarrow> (nat \<Rightarrow> verilated_slave) \<Rightarrow> platform \<Rightarrow> interconnect res" where
  "build_system o1 j vs p =
     bind_res (build_devices j vs (const_maps o1)) (\<lambda>ds.
       attach_devices o1 (interconnect_init p (nth_device ds)))"

text \<open>
  The image and the further files go to \<open>hps_ddr3\<close>. \<open>files\<close> is what \<open>fopen\<close> finds; a missing
  file ends the program with \<open>EXIT_FAILURE\<close>, here \<open>Some (Inr None)\<close>. \<open>None\<close>: a load does not
  return.
\<close>

definition load_file :: "(string \<Rightarrow> img_file option) \<Rightarrow> string \<Rightarrow> u64 \<Rightarrow> mem \<Rightarrow> mem option res option" where
  "load_file files name offset m =
     (case files name of None \<Rightarrow> Some (Inr None)
      | Some f \<Rightarrow> map_option (\<lambda>r. bind_res r (\<lambda>(m', _). Inr (Some m'))) (mem_load fread_lines offset f m))"

fun load_files :: "(string \<Rightarrow> img_file option) \<Rightarrow> (u32 \<times> string) list \<Rightarrow> mem \<Rightarrow> mem option res option" where
  "load_files files [] m = Some (Inr (Some m))"
| "load_files files ((addr, name) # ls) m =
     (case load_file files name (ucast addr) m of
        Some (Inr (Some m')) \<Rightarrow> load_files files ls m'
      | r \<Rightarrow> r)"

definition load_images :: "(string \<Rightarrow> img_file option) \<Rightarrow> sim_opts \<Rightarrow> mem \<Rightarrow> mem option res option" where
  "load_images files o1 m = load_files files ((0, image_file o1) # file_loads o1) m"

section \<open>The devices are built\<close>

lemma build_list_Inr:
  "(\<And>x. x \<in> set xs \<Longrightarrow> f x = Inr (g x)) \<Longrightarrow> build_list f xs = Inr (map g xs)"
  by (induction xs) simp_all

lemma build_list_length: "build_list f xs = Inr ds \<Longrightarrow> length ds = length xs \<and> (\<forall>i < length xs. f (xs ! i) = Inr (ds ! i))"
proof (induction xs arbitrary: ds)
  case (Cons x xs)
  then obtain d ds' where d: "f x = Inr d" "build_list f xs = Inr ds'" "ds = d # ds'"
    by (auto simp: bind_res_Inr_iff)
  with Cons.IH [OF d(2)] show ?case by (auto simp: nth_Cons split: nat.split)
qed simp

definition slave_at :: "u32 \<Rightarrow> u32 \<Rightarrow> slave" where
  "slave_at bas siz = \<lparr>sl_base = bas, sl_mask = NOT (siz - 1), sl_word = 2\<rparr>"

lemma sim_slaves_built:
  "build_list (build_sim_slave j vs) (zip [0..<6] sim_slave_table) =
     Inr (map (\<lambda>(i, bas, siz). D_sim \<lparr>ss_slave = slave_at bas siz,
       ss_dev = (vs i)\<lparr>v_read := False, v_write := False\<rparr>, latch = j_latch j i,
       latch_readdata = j_latch_readdata j i\<rparr>) (zip [0..<6] sim_slave_table))"
  by (rule build_list_Inr)
    (auto simp: sim_slave_table_def build_sim_slave_def sim_slave_init_def slave_init_def Let_def
      word_mask_def slave_at_def upt_rec)

lemma const_built:
  assumes "addr AND 3 = 0"
  shows "const_init addr value 4 = Inr \<lparr>cm_slave = slave_at addr 4, cm_value = value\<rparr>"
  using assms by (simp add: const_init_def slave_init_def Let_def word_mask_def slave_at_def)

lemma const_not_built: "addr AND 3 \<noteq> 0 \<Longrightarrow> const_init addr value 4 = Inl Assert_Failure"
  by (simp add: const_init_def slave_init_def Let_def word_mask_def)

text \<open>The slave part of every object.\<close>

definition system_slaves :: "(u32 \<times> u32) list \<Rightarrow> slave list" where
  "system_slaves cmaps =
     [slave_at 0 0x20000000, slave_at 0x30000000 8, slave_at 0x30020000 32, slave_at 0x30070000 8,
      slave_at 0x38000000 0x04000000, (slave_at 0x38000000 0x04000000)\<lparr>sl_word := 1\<rparr>]
     @ map (\<lambda>(bas, siz). slave_at bas siz) sim_slave_table
     @ [slave_at 0x38000000 0x04000000] @ map (\<lambda>(addr, _). slave_at addr 4) cmaps"

lemma log2i_2 [simp]: "log2i 2 = 1"
  by code_simp

lemma fixed_parts:
  "mem_init 0 (push_bit 20 512) = Inr \<lparr>mem_slave = slave_at 0 0x20000000, mem_len = 2 ^ 25,
     block = (\<lambda>_. line_zero), mem_count = 0\<rparr>"
  "mem_init 0x38000000 (push_bit 20 64) = Inr \<lparr>mem_slave = slave_at 0x38000000 0x04000000, mem_len = 2 ^ 22,
     block = (\<lambda>_. line_zero), mem_count = 0\<rparr>"
  "null_init 0x38000000 (push_bit 20 64) 2 = Inr \<lparr>nl_slave = (slave_at 0x38000000 0x04000000)\<lparr>sl_word := 1\<rparr>\<rparr>"
  "slave_init 0x30000000 8 4 = Inr (slave_at 0x30000000 8)"
  "slave_init 0x30020000 32 4 = Inr (slave_at 0x30020000 32)"
  "slave_init 0x30070000 8 4 = Inr (slave_at 0x30070000 8)"
  "window_init (slave_at 0x38000000 0x04000000) 0 = Inr \<lparr>wn_slave = slave_at 0 0x04000000\<rparr>"
  "slave_init 0x38000000 (push_bit 20 64) 4 = Inr (slave_at 0x38000000 0x04000000)"
  by (simp_all add: mem_init_def null_init_def slave_init_def window_init_def Let_def word_mask_def slave_at_def
      address_span_def word_size_def)

lemma display_built:
  "\<exists>d. display_init 0x38000000 25175000 50000000 = Inr d \<and> vg_slave d = slave_at 0x38000000 0x04000000"
  unfolding display_init_def fixed_parts by (simp add: Let_def)

definition const_ok :: "u32 \<times> u32 \<Rightarrow> bool" where
  "const_ok c \<longleftrightarrow> fst c AND 3 = 0"

lemma consts_built:
  "list_all const_ok cmaps \<Longrightarrow>
     build_list build_const cmaps = Inr (map (\<lambda>(addr, value). D_const \<lparr>cm_slave = slave_at addr 4, cm_value = value\<rparr>) cmaps)"
  by (rule build_list_Inr) (auto simp: list_all_iff build_const_def const_ok_def const_built)

lemma consts_not_built: "\<not> list_all const_ok cmaps \<Longrightarrow> build_list build_const cmaps = Inl Assert_Failure"
proof (induction cmaps)
  case (Cons c cs)
  show ?case
  proof (cases "const_ok c")
    case True
    with Cons const_built [of "fst c" "snd c"] show ?thesis
      by (auto simp: build_const_def const_ok_def)
  next
    case False
    then show ?thesis by (simp add: build_const_def const_ok_def const_not_built)
  qed
qed simp

lemma build_devices_ok:
  assumes "list_all const_ok cmaps"
  shows "\<exists>ds. build_devices j vs cmaps = Inr ds \<and> map dev_slave ds = system_slaves cmaps \<and> list_all dev_inv ds
    \<and> ds ! 0 = D_mem \<lparr>mem_slave = slave_at 0 0x20000000, mem_len = 2 ^ 25, block = (\<lambda>_. line_zero), mem_count = 0\<rparr>"
proof -
  obtain d where d: "display_init 0x38000000 25175000 50000000 = Inr d" "vg_slave d = slave_at 0x38000000 0x04000000"
    using display_built by blast
  have m: "mem_inv \<lparr>mem_slave = slave_at 0 0x20000000, mem_len = 2 ^ 25, block = (\<lambda>_. line_zero), mem_count = 0\<rparr>"
    "mem_inv \<lparr>mem_slave = slave_at 0x38000000 0x04000000, mem_len = 2 ^ 22, block = (\<lambda>_. line_zero), mem_count = 0\<rparr>"
    using mem_init_inv [OF fixed_parts(1)] mem_init_inv [OF fixed_parts(2)] by simp_all
  let ?ss = "map (\<lambda>(i, bas, siz). D_sim \<lparr>ss_slave = slave_at bas siz,
       ss_dev = (vs i)\<lparr>v_read := False, v_write := False\<rparr>, latch = j_latch j i,
       latch_readdata = j_latch_readdata j i\<rparr>) (zip [0..<6] sim_slave_table)"
  let ?cs = "map (\<lambda>(addr, value). D_const \<lparr>cm_slave = slave_at addr 4, cm_value = value\<rparr>) cmaps"
  have "map dev_slave ?ss = map (\<lambda>(bas, siz). slave_at bas siz) sim_slave_table"
    by (simp add: sim_slave_table_def upt_rec)
  moreover have "map dev_slave ?cs = map (\<lambda>(addr, _). slave_at addr 4) cmaps" by auto
  moreover have "list_all dev_inv ?ss" "list_all dev_inv ?cs" by (auto simp: list_all_iff)
  ultimately show ?thesis
    using d m display_init_inv [OF d(1)] consts_built [OF assms] fixed_parts sim_slaves_built [of j vs]
    by (simp add: build_devices_def uart_init_def timer_init_def intc_init_def Let_def system_slaves_def uart_inv_def)
qed

section \<open>The devices are attached\<close>

definition binding_of :: "(nat \<Rightarrow> device) \<Rightarrow> nat \<Rightarrow> binding" where
  "binding_of os r = \<lparr>b_base = sl_base (dev_slave (os r)), b_mask = sl_mask (dev_slave (os r)), b_dev = r\<rparr>"

lemma attach_ok:
  "base_aligned (dev_slave (objs ic r)) \<Longrightarrow> attach r ic = Inr (ic\<lparr>devices := devices ic @ [binding_of (objs ic) r]\<rparr>)"
  by (simp add: attach_def base_aligned_def base_address_def address_mask_def binding_of_def)

lemma attach_all_ok:
  "list_all (\<lambda>r. base_aligned (dev_slave (objs ic r))) rs \<Longrightarrow>
     attach_all rs ic = Inr (ic\<lparr>devices := devices ic @ map (binding_of (objs ic)) rs\<rparr>)"
  by (induction rs arbitrary: ic) (simp_all add: attach_ok)

definition video_object :: "sim_opts \<Rightarrow> nat" where
  "video_object o1 = (if fast_video o1 then obj_vga else if accurate_video_on o1 then obj_vram else obj_null)"

definition attach_order :: "sim_opts \<Rightarrow> nat list" where
  "attach_order o1 = [obj_ddr3, obj_timer, obj_uart, 6, 7, 8, 9, 10, 11, obj_intc] @ [13..<13 + length (const_maps o1)]
     @ [video_object o1]"

lemma attach_devices_ok:
  assumes "list_all (\<lambda>r. base_aligned (dev_slave (objs ic r))) (attach_order o1)" "root_intc ic = None"
  shows "attach_devices o1 ic = Inr (ic\<lparr>devices := devices ic @ map (binding_of (objs ic)) (attach_order o1),
    root_intc := Some obj_intc\<rparr>)"
  using assms
  by (simp add: attach_devices_def attach_order_def attach_intc_def attach_all_ok attach_ok video_object_def)

lemma find_bound:
  "map_option b_dev (find (binding_matches a) (map (binding_of os) rs)) = find (\<lambda>r. decodes (dev_slave (os r)) a) rs"
  by (induction rs) (auto simp: binding_of_def binding_matches_def decodes_def)

lemma slave_at_range:
  assumes "k \<le> 31" "bas AND mask k = 0"
  shows "base_aligned (slave_at bas (2 ^ k))" "spans (slave_at bas (2 ^ k)) k"
    "decodes (slave_at bas (2 ^ k)) a \<longleftrightarrow> unat bas \<le> unat a \<and> unat a < unat bas + 2 ^ k"
proof -
  have "\<not> (bit bas n \<and> n < k)" for n
    using arg_cong [OF assms(2), of "\<lambda>w. bit w n"] by (auto simp: bit_simps dest: bit_imp_le_length)
  then have "bas AND NOT (mask k) = bas"
    by (intro bit_word_eqI) (auto simp: bit_simps)
  then show b: "base_aligned (slave_at bas (2 ^ k))"
    by (simp add: base_aligned_def slave_at_def mask_eq_exp_minus_1)
  show s: "spans (slave_at bas (2 ^ k)) k"
    using assms(1) by (simp add: spans_def slave_at_def mask_eq_exp_minus_1)
  show "decodes (slave_at bas (2 ^ k)) a \<longleftrightarrow> unat bas \<le> unat a \<and> unat a < unat bas + 2 ^ k"
    using decodes_iff [OF s b] by (simp add: slave_at_def)
qed

text \<open>The memory map: base, size and object, in the order of the decoder.\<close>

definition memory_map :: "sim_opts \<Rightarrow> (nat \<times> nat \<times> nat) list" where
  "memory_map o1 =
     [(0, 0x20000000, obj_ddr3), (0x30020000, 32, obj_timer), (0x30000000, 8, obj_uart),
      (0x30100000, 32, 6), (0x30110000, 32, 7), (0x30120000, 32, 8), (0x30130000, 32, 9),
      (0x30140000, 4, 10), (0x30150000, 256, 11), (0x30070000, 8, obj_intc)]
     @ map (\<lambda>(r, addr, _). (unat addr, 4, r)) (zip [13..<13 + length (const_maps o1)] (const_maps o1))
     @ [(0x38000000, 0x04000000, video_object o1)]"

lemma find_map_obj: "find (P \<circ> snd \<circ> snd) (map h xs) = map_option h (find (\<lambda>x. P (snd (snd (h x)))) xs)"
  by (induction xs) auto

text \<open>An entry of the map describes the slave of its object.\<close>

definition entry_ok :: "slave list \<Rightarrow> nat \<times> nat \<times> nat \<Rightarrow> bool" where
  "entry_ok ss e \<longleftrightarrow> (case e of (lo, siz, r) \<Rightarrow> r < length ss \<and> base_aligned (ss ! r)
     \<and> (\<exists>k. spans (ss ! r) k \<and> siz = 2 ^ k) \<and> unat (sl_base (ss ! r)) = lo)"

lemma entry_okI:
  assumes "r < length ss" "ss ! r = slave_at b (2 ^ k) \<or> ss ! r = (slave_at b (2 ^ k))\<lparr>sl_word := w\<rparr>"
    "k \<le> 31" "b AND mask k = 0" "unat b = lo" "siz = 2 ^ k"
  shows "entry_ok ss (lo, siz, r)"
  using assms slave_at_range(1,2) [of k b]
  by (auto simp: entry_ok_def slave_at_def base_aligned_def spans_def)

lemma fixed_slaves:
  "system_slaves cmaps ! 0 = slave_at 0 (2 ^ 29)" "system_slaves cmaps ! 1 = slave_at 0x30000000 (2 ^ 3)"
  "system_slaves cmaps ! 2 = slave_at 0x30020000 (2 ^ 5)" "system_slaves cmaps ! 3 = slave_at 0x30070000 (2 ^ 3)"
  "system_slaves cmaps ! 4 = slave_at 0x38000000 (2 ^ 26)"
  "system_slaves cmaps ! 5 = (slave_at 0x38000000 (2 ^ 26))\<lparr>sl_word := 1\<rparr>"
  "system_slaves cmaps ! 6 = slave_at 0x30100000 (2 ^ 5)" "system_slaves cmaps ! 7 = slave_at 0x30110000 (2 ^ 5)"
  "system_slaves cmaps ! 8 = slave_at 0x30120000 (2 ^ 5)" "system_slaves cmaps ! 9 = slave_at 0x30130000 (2 ^ 5)"
  "system_slaves cmaps ! 10 = slave_at 0x30140000 (2 ^ 2)" "system_slaves cmaps ! 11 = slave_at 0x30150000 (2 ^ 8)"
  "system_slaves cmaps ! 12 = slave_at 0x38000000 (2 ^ 26)"
  by (simp_all add: system_slaves_def sim_slave_table_def)

lemma system_slaves_length: "length (system_slaves cmaps) = 13 + length cmaps"
  by (simp add: system_slaves_def sim_slave_table_def)

lemma fixed_entry:
  assumes "system_slaves cmaps ! r = slave_at b (2 ^ k) \<or> system_slaves cmaps ! r = (slave_at b (2 ^ k))\<lparr>sl_word := w\<rparr>"
    "r < 13" "k \<le> 31" "b AND mask k = 0" "unat b = lo" "siz = 2 ^ k"
  shows "entry_ok (system_slaves cmaps) (lo, siz, r)"
  using assms(2) by (intro entry_okI [OF _ assms(1) assms(3-6)]) (simp add: system_slaves_length)

lemma const_entry:
  assumes "list_all const_ok cmaps" "i < length cmaps"
  shows "entry_ok (system_slaves cmaps) (unat (fst (cmaps ! i)), 4, 13 + i)"
proof (rule entry_okI)
  show "system_slaves cmaps ! (13 + i) = slave_at (fst (cmaps ! i)) (2 ^ 2)
      \<or> system_slaves cmaps ! (13 + i) = (slave_at (fst (cmaps ! i)) (2 ^ 2))\<lparr>sl_word := 0\<rparr>"
    using assms(2) by (simp add: system_slaves_def sim_slave_table_def nth_append case_prod_beta)
  show "fst (cmaps ! i) AND mask 2 = 0"
    using assms by (simp add: list_all_length const_ok_def mask_eq_exp_minus_1)
qed (use assms(2) in \<open>simp_all add: system_slaves_length\<close>)

lemma memory_map_ok:
  assumes "list_all const_ok (const_maps o1)"
  shows "list_all (entry_ok (system_slaves (const_maps o1))) (memory_map o1)"
proof -
  let ?ss = "system_slaves (const_maps o1)"
  note f = fixed_slaves [of "const_maps o1"]
  have e: "entry_ok ?ss (0, 0x20000000, 0)" "entry_ok ?ss (0x30020000, 32, 2)" "entry_ok ?ss (0x30000000, 8, 1)"
    "entry_ok ?ss (0x30100000, 32, 6)" "entry_ok ?ss (0x30110000, 32, 7)" "entry_ok ?ss (0x30120000, 32, 8)"
    "entry_ok ?ss (0x30130000, 32, 9)" "entry_ok ?ss (0x30140000, 4, 10)" "entry_ok ?ss (0x30150000, 256, 11)"
    "entry_ok ?ss (0x30070000, 8, 3)"
    by (rule fixed_entry [OF f(1) [THEN disjI1]] fixed_entry [OF f(3) [THEN disjI1]] fixed_entry [OF f(2) [THEN disjI1]]
        fixed_entry [OF f(7) [THEN disjI1]] fixed_entry [OF f(8) [THEN disjI1]] fixed_entry [OF f(9) [THEN disjI1]]
        fixed_entry [OF f(10) [THEN disjI1]] fixed_entry [OF f(11) [THEN disjI1]] fixed_entry [OF f(12) [THEN disjI1]]
        fixed_entry [OF f(4) [THEN disjI1]]; simp add: mask_eq_exp_minus_1)+
  have v: "entry_ok ?ss (0x38000000, 0x04000000, 4)" "entry_ok ?ss (0x38000000, 0x04000000, 12)"
    by (rule fixed_entry [OF f(5) [THEN disjI1]] fixed_entry [OF f(13) [THEN disjI1]]; simp add: mask_eq_exp_minus_1)+
  have n: "entry_ok ?ss (0x38000000, 0x04000000, 5)"
    by (rule fixed_entry [OF f(6) [THEN disjI2]]; simp add: mask_eq_exp_minus_1)
  have c: "list_all (entry_ok ?ss) (map (\<lambda>(r, addr, _). (unat addr, 4, r)) (zip [13..<13 + length (const_maps o1)] (const_maps o1)))"
    using const_entry [OF assms] by (auto simp: list_all_length case_prod_beta)
  show ?thesis
    using e c v n by (simp add: memory_map_def video_object_def)
qed

lemma map_objects: "map (\<lambda>e. snd (snd e)) (memory_map o1) = attach_order o1"
proof -
  have c: "map (\<lambda>e. snd (snd e)) (map (\<lambda>(r, addr, _). (unat addr, 4, r)) (zip [13..<13 + length cs] cs)) = [13..<13 + length cs]"
    for cs :: "(u32 \<times> u32) list"
    by (rule nth_equalityI) (auto simp: case_prod_beta)
  show ?thesis unfolding memory_map_def attach_order_def map_append c by simp
qed

section \<open>The whole system\<close>

text \<open>The object that the first range holding the address belongs to.\<close>

definition covers :: "u32 \<Rightarrow> nat \<times> nat \<times> nat \<Rightarrow> bool" where
  "covers a e \<longleftrightarrow> fst e \<le> unat a \<and> unat a < fst e + fst (snd e)"

definition lookup_map :: "(nat \<times> nat \<times> nat) list \<Rightarrow> u32 \<Rightarrow> nat option" where
  "lookup_map es a = map_option (\<lambda>e. snd (snd e)) (find (covers a) es)"

lemma entry_decodes:
  assumes "entry_ok ss e" "\<And>r. r < length ss \<Longrightarrow> dev_slave (os r) = ss ! r"
  shows "decodes (dev_slave (os (snd (snd e)))) a \<longleftrightarrow> covers a e"
proof -
  obtain lo siz r where e: "e = (lo, siz, r)" by (cases e)
  with assms(1) obtain k where k: "r < length ss" "base_aligned (ss ! r)" "spans (ss ! r) k" "siz = 2 ^ k"
    "unat (sl_base (ss ! r)) = lo" unfolding entry_ok_def by blast
  show ?thesis
    unfolding e covers_def snd_conv fst_conv assms(2) [OF k(1)] decodes_iff [OF k(3,2)] k(4,5) ..
qed

lemma find_by_map:
  assumes "list_all (entry_ok ss) es" "\<And>r. r < length ss \<Longrightarrow> dev_slave (os r) = ss ! r"
  shows "find (\<lambda>r. decodes (dev_slave (os r)) a) (map (\<lambda>e. snd (snd e)) es) = lookup_map es a"
  using assms(1)
  by (induction es) (simp_all add: lookup_map_def entry_decodes [OF _ assms(2)])

definition ddr3_fresh :: mem where
  "ddr3_fresh = \<lparr>mem_slave = slave_at 0 0x20000000, mem_len = 2 ^ 25, block = (\<lambda>_. line_zero), mem_count = 0\<rparr>"

definition built :: "sim_opts \<Rightarrow> platform \<Rightarrow> (nat \<Rightarrow> device) \<Rightarrow> interconnect" where
  "built o1 p os = (interconnect_init p os)\<lparr>devices := map (binding_of os) (attach_order o1), root_intc := Some obj_intc\<rparr>"

definition objects_ok :: "sim_opts \<Rightarrow> (nat \<Rightarrow> device) \<Rightarrow> bool" where
  "objects_ok o1 os \<longleftrightarrow> (\<forall>r < length (system_slaves (const_maps o1)).
     dev_slave (os r) = system_slaves (const_maps o1) ! r \<and> dev_inv (os r))"

lemma objects_attached:
  assumes "list_all const_ok (const_maps o1)" "objects_ok o1 os" "r \<in> set (attach_order o1)"
  shows "\<exists>k. dev_inv (os r) \<and> base_aligned (dev_slave (os r)) \<and> spans (dev_slave (os r)) k"
proof -
  from assms(3) obtain e where e: "e \<in> set (memory_map o1)" "r = snd (snd e)" by (auto simp flip: map_objects)
  then have "entry_ok (system_slaves (const_maps o1)) e"
    using memory_map_ok [OF assms(1)] by (simp add: list_all_iff)
  with e(2) assms(2) show ?thesis by (auto simp: entry_ok_def objects_ok_def)
qed

lemma built_inv:
  assumes "list_all const_ok (const_maps o1)" "objects_ok o1 os"
  shows "bus_inv (built o1 p os)"
  using objects_attached [OF assms]
  by (fastforce simp: built_def bus_inv_def interconnect_init_def binding_ok_def Let_def binding_of_def well_placed_def)

lemma built_update:
  assumes "\<And>r. dev_slave (os' r) = dev_slave (os r)"
  shows "(built o1 p os)\<lparr>objs := os'\<rparr> = built o1 p os'"
proof -
  have "binding_of os' = binding_of os" using assms by (simp add: binding_of_def fun_eq_iff)
  then show ?thesis by (simp add: built_def interconnect_init_def)
qed

lemma built_find:
  assumes "list_all const_ok (const_maps o1)" "objects_ok o1 os"
  shows "find_device a (built o1 p os) = lookup_map (memory_map o1) a"
proof -
  have "find_device a (built o1 p os) = find (\<lambda>r. decodes (dev_slave (os r)) a) (attach_order o1)"
    by (simp add: built_def find_device_def find_bound)
  also have "\<dots> = lookup_map (memory_map o1) a"
    unfolding map_objects [symmetric]
    by (rule find_by_map [OF memory_map_ok [OF assms(1)]]) (use assms(2) in \<open>simp add: objects_ok_def\<close>)
  finally show ?thesis .
qed

lemma build_system_ok:
  assumes "list_all const_ok (const_maps o1)"
  shows "\<exists>os. build_system o1 j vs p = Inr (built o1 p os) \<and> objects_ok o1 os \<and> os 0 = D_mem ddr3_fresh"
proof -
  from build_devices_ok [OF assms] obtain ds where ds: "build_devices j vs (const_maps o1) = Inr ds"
    "map dev_slave ds = system_slaves (const_maps o1)" "list_all dev_inv ds" "ds ! 0 = D_mem ddr3_fresh"
    unfolding ddr3_fresh_def by blast
  let ?os = "nth_device ds"
  have len: "length ds = length (system_slaves (const_maps o1))" using ds(2) by (metis length_map)
  have ok: "objects_ok o1 ?os"
    unfolding objects_ok_def
  proof (intro allI impI)
    fix r assume "r < length (system_slaves (const_maps o1))"
    then have r: "r < length ds" "nth_device ds r = ds ! r" using len by (simp_all add: nth_device_def)
    have "dev_slave (ds ! r) = map dev_slave ds ! r" using r(1) by (rule nth_map [symmetric])
    then show "dev_slave (nth_device ds r) = system_slaves (const_maps o1) ! r \<and> dev_inv (nth_device ds r)"
      using ds(3) r unfolding ds(2) by (simp only: list_all_length simp_thms)
  qed
  have "list_all (\<lambda>r. base_aligned (dev_slave (objs (interconnect_init p ?os) r))) (attach_order o1)"
    using objects_attached [OF assms ok] by (auto simp: list_all_iff interconnect_init_def)
  then have "attach_devices o1 (interconnect_init p ?os) = Inr (built o1 p ?os)"
    by (subst attach_devices_ok) (simp_all add: interconnect_init_def built_def)
  then have "build_system o1 j vs p = Inr (built o1 p ?os)"
    unfolding build_system_def ds(1) bind_res_simps .
  moreover have "?os 0 = D_mem ddr3_fresh"
    using len ds(4) by (simp add: nth_device_def system_slaves_length)
  ultimately show ?thesis using ok by blast
qed

section \<open>Properties\<close>

text \<open>
  C3. The memory map of the simulator: with constants at word-aligned addresses the system is
  built, its bus is consistent, and every address reaches exactly the device whose range holds
  it (the first one, where a constant overlaps), and no device outside the ranges; with a
  misaligned constant an assertion of the constructor ends the program.
\<close>

theorem system_memory_map:
  "if list_all const_ok (const_maps o1)
   then \<exists>ic. build_system o1 j vs p = Inr ic \<and> bus_inv ic \<and> find_device a ic = lookup_map (memory_map o1) a
   else build_system o1 j vs p = Inl Assert_Failure"
proof (cases "list_all const_ok (const_maps o1)")
  case True
  from build_system_ok [OF True, of j vs p] built_inv [OF True] built_find [OF True] True show ?thesis by auto
next
  case False
  obtain d where d: "display_init 0x38000000 25175000 50000000 = Inr d"
    using display_built by blast
  have "build_devices j vs (const_maps o1) = Inl Assert_Failure"
    using d fixed_parts sim_slaves_built [of j vs] consts_not_built [OF False]
    by (simp add: build_devices_def uart_init_def timer_init_def intc_init_def Let_def)
  with False show ?thesis by (simp add: build_system_def)
qed

text \<open>The contents of the RAM after the loads: each file replaces the lines from its address on.\<close>

definition file_ok :: "(string \<Rightarrow> img_file option) \<Rightarrow> u32 \<times> string \<Rightarrow> bool" where
  "file_ok files l \<longleftrightarrow> files (snd l) \<noteq> None \<and> unat (fst l) mod 16 = 0"

fun with_images :: "(string \<Rightarrow> img_file option) \<Rightarrow> (u32 \<times> string) list \<Rightarrow> mem \<Rightarrow> mem" where
  "with_images files [] m = m"
| "with_images files ((addr, name) # ls) m =
     with_images files ls (case files name of None \<Rightarrow> m
       | Some f \<Rightarrow> if unat addr < 2 ^ 29 then m\<lparr>block := loaded f (unat addr div 16) m\<rparr> else m)"

definition ddr3_shaped :: "mem \<Rightarrow> bool" where
  "ddr3_shaped m \<longleftrightarrow> mem_slave m = slave_at 0 0x20000000 \<and> mem_len m = 2 ^ 25"

lemma ddr3_inv: "ddr3_shaped m \<Longrightarrow> mem_inv m"
  using mem_init_inv [OF fixed_parts(1)] by (simp add: ddr3_shaped_def mem_inv_def)

lemma load_file_ok:
  assumes "ddr3_shaped m" "file_ok files (addr, name)"
  shows "load_file files name (ucast addr) m = Some (Inr (Some (with_images files [(addr, name)] m)))"
proof -
  from assms(2) obtain f where f: "files name = Some f" "unat addr mod 16 = 0" by (auto simp: file_ok_def)
  have u: "unat (ucast addr :: u64) = unat addr"
  proof -
    have "unat addr < 2 ^ LENGTH(32)" by (rule unsigned_less)
    then show ?thesis by (simp add: unsigned_ucast_eq take_bit_eq_mod)
  qed
  show ?thesis
  proof (cases "unat addr < 2 ^ 29")
    case True
    have "unat (ucast addr :: u64) = 16 * (unat addr div 16)" "unat addr div 16 < mem_len m"
      using f(2) u True assms(1) by (auto simp: ddr3_shaped_def)
    from mem_load_image [OF ddr3_inv [OF assms(1)] this, of f] obtain f' where
      "mem_load fread_lines (ucast addr) f m = Some (Inr (m\<lparr>block := loaded f (unat addr div 16) m\<rparr>, f'))" by blast
    with f True show ?thesis by (simp add: load_file_def)
  next
    case False
    then have "\<not> (0 \<le> (ucast addr :: u64) \<and> (ucast addr :: u64) < 0 + 0x20000000)"
      by (simp add: word_less_nat_alt u)
    then have "mem_load_loop fread_lines 0 0x20000000 (ucast addr) f m = Some (Inr (m, f))"
      by (rule load_loop_done)
    then have "mem_load fread_lines (ucast addr) f m = Some (Inr (m, f))"
      using assms(1) by (simp add: mem_load_def ddr3_shaped_def base_address_def address_span_def slave_at_def)
    with f False show ?thesis by (simp add: load_file_def)
  qed
qed

lemma load_files_ok:
  "ddr3_shaped m \<Longrightarrow> list_all (file_ok files) ls \<Longrightarrow>
     load_files files ls m = Some (Inr (Some (with_images files ls m))) \<and> ddr3_shaped (with_images files ls m)"
proof (induction ls arbitrary: m)
  case (Cons l ls)
  obtain addr name where l: "l = (addr, name)" by (cases l)
  have "ddr3_shaped (with_images files [l] m)"
    using Cons.prems(1) by (auto simp: l ddr3_shaped_def split: option.split)
  from Cons.IH [OF this] Cons.prems load_file_ok [of m files addr name] show ?case by (simp add: l)
qed simp


definition opts_example :: sim_opts where
  "opts_example = \<lparr>headless = True, accurate_video = False, no_tty = True, start_halted = True,
     max_cycles = 0, control_fd = -1, dump_regs = True, init_regs = [], const_maps = [(0x30000010, 7)],
     file_loads = [(0x100, ''dtb''), (0x30000000, ''lost'')], image_file = ''a.bin''\<rparr>"

definition junk_example :: junk where
  "junk_example = \<lparr>j_ring = (\<lambda>_. 0), j_count = 1, j_period = 2, j_snap = 3, j_latch = (\<lambda>_. True),
     j_latch_readdata = (\<lambda>_. 4)\<rparr>"


end
