(* ===== verification/Sim_Loop.thy ===== *)
theory Sim_Loop
  imports Sim_Platform Debug_Text
begin

text \<open>
  The clock of the simulator: one edge (\<open>tick\<close>), a whole cycle, the two loops that run the
  machine until a core halts, and the reset sequence of \<open>main\<close> in \<open>conspiracion.cpp\<close>. The
  verilated model is generated by the build; it is the record \<open>hardware\<close> of functions, which
  read the inputs the program drives (clock, reset, forced signals, the bus) and give the
  signals the program reads. \<open>SIGUSR1\<close> arrives during an evaluation (\<open>hw_signal\<close>).
\<close>

section \<open>Definitions\<close>

text \<open>The signals of a core that the program reads.\<close>

record core_signals =
  breakpoint :: bool
  halted :: bool
  core_pc :: u32
  cpsr_word :: u32
  spsr_svc :: u32
  spsr_abt :: u32
  spsr_und :: u32
  spsr_fiq :: u32
  spsr_irq :: u32
  sysctrl :: u32
  ttbr :: u32
  far :: u32
  fsr :: u32
  dacr :: u32
  bh0 :: u32
  bh1 :: u32
  bh2 :: u32
  bh3 :: u32
  core_mmu :: mmu

text \<open>The forced signals of a core, \<open>__VforceVal\<close> and \<open>__VforceEn\<close>.\<close>

record core_force =
  branch_val :: bool
  branch_en :: bool
  halt_val :: bool
  halt_en :: bool
  step_val :: bool
  step_en :: bool
  target_val :: u32
  target_en :: u32

text \<open>The register files of the four cores are arrays that the program writes too.\<close>

record 'w top =
  file_a :: "nat \<Rightarrow> nat \<Rightarrow> u32"
  file_b :: "nat \<Rightarrow> nat \<Rightarrow> u32"
  internals :: 'w

record 'w hardware =
  hw_eval :: "bool \<Rightarrow> bool \<Rightarrow> (nat \<Rightarrow> core_force) \<Rightarrow> interconnect \<Rightarrow> 'w top \<Rightarrow> 'w top"
  hw_plat :: "'w top \<Rightarrow> platform"
  hw_slaves :: "'w top \<Rightarrow> nat \<Rightarrow> bool \<times> u32"
  hw_core :: "'w top \<Rightarrow> nat \<Rightarrow> core_signals"
  hw_caches :: "'w top \<Rightarrow> cache_sram list"
  hw_host :: "'w top \<Rightarrow> host"
  hw_crtc :: "'w top \<Rightarrow> crtc"
  hw_events :: "'w top \<Rightarrow> sdl_event list"
  hw_signal :: "'w top \<Rightarrow> bool"

record 'w machine =
  m_top :: "'w top"
  m_clk :: bool
  m_rst_n :: bool
  m_force :: "nat \<Rightarrow> core_force"
  m_bus :: interconnect
  m_failed :: bool
  m_async :: bool
  m_i :: u32
  m_out :: string
  m_lines :: "string list"

text \<open>\<open>top.eval()\<close>, with the handler \<open>async_halt_handler\<close> when the signal arrives.\<close>

definition async_halt_handler :: "'w machine \<Rightarrow> 'w machine" where
  "async_halt_handler m = m\<lparr>m_async := True\<rparr>"

definition eval_top :: "'w hardware \<Rightarrow> 'w machine \<Rightarrow> 'w machine" where
  "eval_top hw m =
     (let t = hw_eval hw (m_clk m) (m_rst_n m) (m_force m) (m_bus m) (m_top m);
          m1 = m\<lparr>m_top := t, m_bus := drive (hw_plat hw t) (hw_slaves hw t) (m_bus m)\<rparr>
      in if hw_signal hw t then async_halt_handler m1 else m1)"

definition video_tick :: "sim_opts \<Rightarrow> 'w hardware \<Rightarrow> 'w machine \<Rightarrow> 'w machine res" where
  "video_tick o1 hw m =
     (if accurate_video_on o1 then
        case objs (m_bus m) obj_vga of
          D_vga d \<Rightarrow>
            bind_res (signal_tick (h_sdl (hw_host hw (m_top m))) (hw_crtc hw (m_top m)) (hw_events hw (m_top m)) (m_clk m) d)
              (\<lambda>d'. Inr (m\<lparr>m_bus := (m_bus m)\<lparr>objs := (objs (m_bus m))(obj_vga := D_vga d')\<rparr>\<rparr>))
        | _ \<Rightarrow> Inr m
      else Inr m)"

definition top_tick :: "sim_opts \<Rightarrow> 'w hardware \<Rightarrow> 'w machine \<Rightarrow> 'w machine res" where
  "top_tick o1 hw m =
     (let m1 = eval_top hw (m\<lparr>m_clk := \<not> m_clk m\<rparr>) in
      bind_res (bus_tick (hw_host hw (m_top m1)) (m_clk m1) (m_bus m1)) (\<lambda>(ic, ok).
        video_tick o1 hw (m1\<lparr>m_bus := ic, m_failed := m_failed m1 \<or> \<not> ok\<rparr>)))"

definition top_cycle :: "sim_opts \<Rightarrow> 'w hardware \<Rightarrow> 'w machine \<Rightarrow> 'w machine res" where
  "top_cycle o1 hw m = bind_res (top_tick o1 hw m) (top_tick o1 hw)"

definition on_cores :: "(nat \<Rightarrow> core_force \<Rightarrow> core_force) \<Rightarrow> 'w machine \<Rightarrow> 'w machine" where
  "on_cores f m = m\<lparr>m_force := (\<lambda>c. if c < 4 then f c (m_force m c) else m_force m c)\<rparr>"

definition maybe_halt :: "'w hardware \<Rightarrow> 'w machine \<Rightarrow> 'w machine \<times> bool" where
  "maybe_halt hw m =
     (let m1 = on_cores (\<lambda>c f. if breakpoint (hw_core hw (m_top m) c) \<or> m_async m then f\<lparr>halt_en := True\<rparr> else f) m
      in (m1, list_ex (\<lambda>c. halt_en (m_force m1 c)) [0..<4]))"

text \<open>One iteration of \<open>loop_fast\<close>; the flag says that \<open>tick_rising\<close> threw.\<close>

definition fast_iter :: "'w hardware \<Rightarrow> 'w machine \<Rightarrow> ('w machine \<times> bool) res" where
  "fast_iter hw m =
     (let m1 = eval_top hw (m\<lparr>m_clk := False\<rparr>);
          m2 = m1\<lparr>m_bus := bus_tick_falling (m_bus m1)\<rparr>;
          m3 = eval_top hw (m2\<lparr>m_clk := True\<rparr>)
      in bind_res (bus_tick_rising (hw_host hw (m_top m3)) (m_bus m3)) (\<lambda>(ic, e).
           Inr (m3\<lparr>m_bus := ic\<rparr>, e \<noteq> None)))"

fun fast_block :: "'w hardware \<Rightarrow> nat \<Rightarrow> 'w machine \<Rightarrow> ('w machine \<times> bool) res" where
  "fast_block hw 0 m = Inr (m, False)"
| "fast_block hw (Suc n) m =
     bind_res (fast_iter hw m) (\<lambda>(m', thrown). if thrown then Inr (m', True) else fast_block hw n m')"

partial_function (option) loop_fast :: "'w hardware \<Rightarrow> 'w machine \<Rightarrow> ('w machine \<times> bool) res option" where
  "loop_fast hw m =
     (case fast_block hw 4096 m of
        Inl e \<Rightarrow> Some (Inl e)
      | Inr (m1, thrown) \<Rightarrow>
          if thrown then Some (Inr (m1, True))
          else if snd (maybe_halt hw m1) then Some (Inr (fst (maybe_halt hw m1), False))
          else loop_fast hw (fst (maybe_halt hw m1)))"

text \<open>One pass of \<open>loop_accurate\<close>: the machine and whether the loop goes on.\<close>

definition accurate_pass :: "sim_opts \<Rightarrow> 'w hardware \<Rightarrow> 'w machine \<Rightarrow> ('w machine \<times> bool) res" where
  "accurate_pass o1 hw m =
     bind_res (top_cycle o1 hw m) (\<lambda>m1.
       let (m2, h) = maybe_halt hw m1;
           exit_loop = h \<and> list_ex (\<lambda>c. halted (hw_core hw (m_top m2) c)) [0..<4]
       in if exit_loop \<or> m_failed m2 then Inr (m2, False)
          else if max_cycles o1 = 0 then Inr (m2, True)
          else let m3 = m2\<lparr>m_i := m_i m2 + 1\<rparr> in Inr (m3, m_i m3 < max_cycles o1))"

partial_function (option) loop_accurate :: "sim_opts \<Rightarrow> 'w hardware \<Rightarrow> 'w machine \<Rightarrow> 'w machine res option" where
  "loop_accurate o1 hw m =
     (case accurate_pass o1 hw m of
        Inl e \<Rightarrow> Some (Inl e)
      | Inr (m1, again) \<Rightarrow> if again then loop_accurate o1 hw m1 else Some (Inr m1))"

text \<open>The state before the first cycle and the reset.\<close>

definition set_regs :: "nat \<Rightarrow> nat \<times> u32 \<Rightarrow> 'w top \<Rightarrow> 'w top" where
  "set_regs c init t = t\<lparr>file_a := (file_a t)(c := (file_a t c)(fst init := snd init)),
     file_b := (file_b t)(c := (file_b t c)(fst init := snd init))\<rparr>"

definition machine_init :: "sim_opts \<Rightarrow> 'w top \<Rightarrow> (nat \<Rightarrow> core_force) \<Rightarrow> interconnect \<Rightarrow> string list \<Rightarrow> 'w machine" where
  "machine_init o1 t fs ic ls =
     \<lparr>m_top = fold (set_regs 0) (init_regs o1) t, m_clk = True, m_rst_n = True, m_force = fs, m_bus = ic,
      m_failed = False, m_async = False, m_i = 0, m_out = [], m_lines = ls\<rparr>"

definition reset_sequence :: "sim_opts \<Rightarrow> 'w hardware \<Rightarrow> 'w machine \<Rightarrow> 'w machine res" where
  "reset_sequence o1 hw m =
     (let m1 = on_cores (\<lambda>_ f. f\<lparr>branch_val := True, halt_val := True, step_val := True\<rparr>) m in
      bind_res (top_cycle o1 hw (m1\<lparr>m_rst_n := False\<rparr>)) (\<lambda>m2.
        Inr (m2\<lparr>m_rst_n := True,
          m_force := (m_force m2)(0 := (m_force m2 0)\<lparr>halt_en := start_halted o1\<rparr>)\<rparr>)))"

section \<open>The two loops run the same machine\<close>

text \<open>The hardware keeps the rules of the bus in both halves of a cycle, out of reset.\<close>

definition low_phase :: "'w hardware \<Rightarrow> 'w machine \<Rightarrow> 'w machine" where
  "low_phase hw m = eval_top hw (m\<lparr>m_clk := False\<rparr>)"

definition high_phase :: "'w hardware \<Rightarrow> 'w machine \<Rightarrow> 'w machine" where
  "high_phase hw m = eval_top hw ((low_phase hw m)\<lparr>m_bus := bus_tick_falling (m_bus (low_phase hw m)), m_clk := True\<rparr>)"

definition bus_ruled :: "interconnect \<Rightarrow> bool" where
  "bus_ruled ic \<longleftrightarrow> reset_reset_n (plat ic) \<and> (active ic \<noteq> None \<longrightarrow> request_held ic)"

definition well_driven :: "'w hardware \<Rightarrow> 'w machine \<Rightarrow> bool" where
  "well_driven hw m \<longleftrightarrow> bus_ruled (m_bus (low_phase hw m)) \<and> bus_ruled (m_bus (high_phase hw m))"

lemma eval_top_frame [simp]:
  "m_clk (eval_top hw m) = m_clk m" "m_rst_n (eval_top hw m) = m_rst_n m" "m_force (eval_top hw m) = m_force m"
  "m_failed (eval_top hw m) = m_failed m" "m_i (eval_top hw m) = m_i m" "m_out (eval_top hw m) = m_out m"
  "m_lines (eval_top hw m) = m_lines m" "m_async m \<Longrightarrow> m_async (eval_top hw m)"
  by (simp_all add: eval_top_def Let_def async_halt_handler_def)

lemma eval_top_bus: "\<exists>q hs. m_bus (eval_top hw m) = drive q hs (m_bus m)"
  by (auto simp: eval_top_def Let_def async_halt_handler_def)

lemma eval_top_inv: "bus_inv (m_bus m) \<Longrightarrow> bus_inv (m_bus (eval_top hw m))"
  using eval_top_bus [of hw m] by (auto simp: drive_inv)

lemma falling_inv: "bus_inv ic \<Longrightarrow> bus_inv (bus_tick_falling ic)"
  by (rule bus_tick_falling_law)

lemma top_tick_fast:
  assumes "\<not> accurate_video_on o1"
  shows "top_tick o1 hw m = bind_res (bus_tick (hw_host hw (m_top (eval_top hw (m\<lparr>m_clk := \<not> m_clk m\<rparr>)))) (\<not> m_clk m)
      (m_bus (eval_top hw (m\<lparr>m_clk := \<not> m_clk m\<rparr>))))
    (\<lambda>(ic, ok). Inr ((eval_top hw (m\<lparr>m_clk := \<not> m_clk m\<rparr>))\<lparr>m_bus := ic, m_failed := m_failed m \<or> \<not> ok\<rparr>))"
  using assms by (simp add: top_tick_def Let_def video_tick_def case_prod_beta)

lemma machine_eta:
  "m\<lparr>m_bus := ic, m_failed := m_failed m\<rparr> = m\<lparr>m_bus := ic\<rparr>"
  by (cases m) simp

lemma cycle_is_fast_iter:
  assumes "\<not> accurate_video_on o1" "m_clk m" "bus_inv (m_bus m)" "well_driven hw m"
  shows "top_cycle o1 hw m = bind_res (fast_iter hw m) (\<lambda>(m', thrown). Inr (m'\<lparr>m_failed := m_failed m \<or> thrown\<rparr>))"
proof -
  let ?l = "low_phase hw m"
  let ?f = "?l\<lparr>m_bus := bus_tick_falling (m_bus ?l)\<rparr>"
  let ?h = "high_phase hw m"
  have il: "bus_inv (m_bus ?l)" unfolding low_phase_def by (rule eval_top_inv) (use assms(3) in simp)
  have ih: "bus_inv (m_bus ?h)" unfolding high_phase_def by (rule eval_top_inv) (use falling_inv [OF il] in simp)
  have r: "bus_ruled (m_bus ?l)" "bus_ruled (m_bus ?h)" using assms(4) by (simp_all add: well_driven_def)
  have "bus_tick h False (m_bus ?l) = Inr (bus_tick_falling (m_bus ?l), True)" for h
    using r(1) by (auto simp: bus_tick_def bus_ruled_def)
  then have low: "top_tick o1 hw m = Inr ?f"
    using assms(2) machine_eta [of ?l]
    by (simp add: top_tick_fast [OF assms(1)] low_phase_def [symmetric]) (simp add: low_phase_def)
  have hi: "eval_top hw (?f\<lparr>m_clk := \<not> m_clk ?f\<rparr>) = ?h" by (simp add: high_phase_def low_phase_def)
  have nl: "\<not> m_clk ?f" by (simp add: low_phase_def)
  have "\<not> (avl_read (m_bus ?h) \<and> avl_write (m_bus ?h))" using ih by (simp add: bus_inv_def)
  then have "bus_tick h True (m_bus ?h) = bind_res (bus_tick_rising h (m_bus ?h)) (\<lambda>(ic', thrown). Inr (ic', thrown = None))" for h
    using r(2) by (auto simp: bus_tick_def bus_ruled_def)
  then have "top_tick o1 hw ?f = bind_res (bus_tick_rising (hw_host hw (m_top ?h)) (m_bus ?h))
      (\<lambda>(ic, e). Inr (?h\<lparr>m_bus := ic, m_failed := m_failed m \<or> e \<noteq> None\<rparr>))"
    unfolding top_tick_fast [OF assms(1)] hi using nl
    by (simp add: bind_res_assoc case_prod_unfold low_phase_def)
  moreover have "fast_iter hw m = bind_res (bus_tick_rising (hw_host hw (m_top ?h)) (m_bus ?h))
      (\<lambda>(ic, e). Inr (?h\<lparr>m_bus := ic\<rparr>, e \<noteq> None))"
    by (simp add: fast_iter_def Let_def high_phase_def low_phase_def)
  ultimately show ?thesis
    by (simp add: top_cycle_def low bind_res_assoc case_prod_unfold)
qed

fun cycles :: "sim_opts \<Rightarrow> 'w hardware \<Rightarrow> nat \<Rightarrow> 'w machine \<Rightarrow> 'w machine res" where
  "cycles o1 hw 0 m = Inr m"
| "cycles o1 hw (Suc n) m = bind_res (top_cycle o1 hw m) (cycles o1 hw n)"

text \<open>The hardware keeps the rules in the next \<open>n\<close> cycles.\<close>

fun driven_for :: "'w hardware \<Rightarrow> nat \<Rightarrow> 'w machine \<Rightarrow> bool" where
  "driven_for hw 0 m \<longleftrightarrow> True"
| "driven_for hw (Suc n) m \<longleftrightarrow> well_driven hw m \<and> \<not> (p_read (plat (m_bus (high_phase hw m))) \<and> p_write (plat (m_bus (high_phase hw m))))
     \<and> healthy (h_sdl (hw_host hw (m_top (high_phase hw m))))
     \<and> (case fast_iter hw m of Inl _ \<Rightarrow> True | Inr (m', _) \<Rightarrow> driven_for hw n m')"

lemma fast_iter_frame:
  assumes "m_clk m" "bus_inv (m_bus m)" "driven_for hw (Suc n) m"
  shows "\<exists>m' thrown. fast_iter hw m = Inr (m', thrown) \<and> m_clk m' \<and> bus_inv (m_bus m') \<and> m_failed m' = m_failed m
    \<and> driven_for hw n m'"
proof -
  let ?h = "high_phase hw m"
  have "bus_inv (m_bus (low_phase hw m))" unfolding low_phase_def by (rule eval_top_inv) (use assms(2) in simp)
  then have ih: "bus_inv (m_bus ?h)" unfolding high_phase_def by (intro eval_top_inv) (use falling_inv in simp)
  from bus_tick_rising_law [OF ih, of "hw_host hw (m_top ?h)"] assms(3) obtain ic e where
    t: "bus_tick_rising (hw_host hw (m_top ?h)) (m_bus ?h) = Inr (ic, e)" "bus_inv ic" by auto
  have f: "fast_iter hw m = Inr (?h\<lparr>m_bus := ic\<rparr>, e \<noteq> None)"
    using t(1) by (simp add: fast_iter_def Let_def high_phase_def low_phase_def)
  have "m_clk ?h" "m_failed ?h = m_failed m" by (simp_all add: high_phase_def low_phase_def)
  then show ?thesis using f t(2) assms(3) by simp
qed

section \<open>The loops end\<close>

lemma maybe_halt_frame [simp]:
  "m_i (fst (maybe_halt hw m)) = m_i m" "m_failed (fst (maybe_halt hw m)) = m_failed m"
  "m_async (fst (maybe_halt hw m)) = m_async m" "m_top (fst (maybe_halt hw m)) = m_top m"
  by (simp_all add: maybe_halt_def Let_def on_cores_def)

lemma video_tick_frame:
  assumes "video_tick o1 hw m = Inr m'"
  shows "m_i m' = m_i m" "m_async m' = m_async m" "m_failed m' = m_failed m"
proof -
  have "\<exists>ic. m' = m\<lparr>m_bus := ic\<rparr>"
  proof (cases "accurate_video_on o1 \<and> (\<exists>d. objs (m_bus m) obj_vga = D_vga d)")
    case True
    with assms show ?thesis by (auto simp: video_tick_def bind_res_Inr_iff)
  next
    case False
    then have "video_tick o1 hw m = Inr m" by (auto simp: video_tick_def split: device.split)
    with assms have "m' = m\<lparr>m_bus := m_bus m\<rparr>" by simp
    then show ?thesis ..
  qed
  then show "m_i m' = m_i m" "m_async m' = m_async m" "m_failed m' = m_failed m" by auto
qed

lemma top_tick_frame:
  assumes "top_tick o1 hw m = Inr m'"
  shows "m_i m' = m_i m" "m_async m \<Longrightarrow> m_async m'" "m_failed m \<Longrightarrow> m_failed m'"
proof -
  let ?m1 = "eval_top hw (m\<lparr>m_clk := \<not> m_clk m\<rparr>)"
  from assms obtain ic ok where v: "video_tick o1 hw (?m1\<lparr>m_bus := ic, m_failed := m_failed ?m1 \<or> \<not> ok\<rparr>) = Inr m'"
    by (auto simp: top_tick_def Let_def bind_res_Inr_iff)
  note f = video_tick_frame [OF v]
  show "m_i m' = m_i m" "m_async m \<Longrightarrow> m_async m'" "m_failed m \<Longrightarrow> m_failed m'"
    by (simp_all add: f)
qed

lemma top_cycle_frame:
  assumes "top_cycle o1 hw m = Inr m'"
  shows "m_i m' = m_i m" "m_async m \<Longrightarrow> m_async m'" "m_failed m \<Longrightarrow> m_failed m'"
proof -
  from assms obtain m1 where t: "top_tick o1 hw m = Inr m1" "top_tick o1 hw m1 = Inr m'"
    by (auto simp: top_cycle_def bind_res_Inr_iff)
  show "m_i m' = m_i m" "m_async m \<Longrightarrow> m_async m'" "m_failed m \<Longrightarrow> m_failed m'"
    using top_tick_frame [OF t(1)] top_tick_frame [OF t(2)] by simp_all
qed

text \<open>
  The reference for a limited run: \<open>k\<close> cycles, each followed by the look for breakpoints, none of which
  ends in a failure of the bus or with a core halted under a forced halt.
\<close>

definition look :: "'w hardware \<Rightarrow> 'w machine \<Rightarrow> 'w machine" where
  "look hw m = fst (maybe_halt hw m)"

definition at_rest :: "'w hardware \<Rightarrow> 'w machine \<Rightarrow> bool" where
  "at_rest hw m \<longleftrightarrow> m_failed m
     \<or> list_ex (\<lambda>c. halt_en (m_force m c)) [0..<4] \<and> list_ex (\<lambda>c. halted (hw_core hw (m_top m) c)) [0..<4]"

fun undisturbed :: "sim_opts \<Rightarrow> 'w hardware \<Rightarrow> nat \<Rightarrow> 'w machine \<Rightarrow> 'w machine option" where
  "undisturbed o1 hw 0 m = Some m"
| "undisturbed o1 hw (Suc k) m =
     (case top_cycle o1 hw m of
        Inl e \<Rightarrow> None
      | Inr m1 \<Rightarrow> if at_rest hw (look hw m1) then None
          else undisturbed o1 hw k ((look hw m1)\<lparr>m_i := m_i (look hw m1) + 1\<rparr>))"

lemma look_count [simp]: "m_i (look hw m) = m_i m"
  by (simp add: look_def maybe_halt_def Let_def on_cores_def)

lemma accurate_pass_limited:
  assumes "max_cycles o1 \<noteq> 0"
  shows "accurate_pass o1 hw m = bind_res (top_cycle o1 hw m) (\<lambda>m1. let m2 = look hw m1 in
    if at_rest hw m2 then Inr (m2, False) else Inr (m2\<lparr>m_i := m_i m2 + 1\<rparr>, m_i m2 + 1 < max_cycles o1))"
proof -
  have "snd (maybe_halt hw m1) \<longleftrightarrow> list_ex (\<lambda>c. halt_en (m_force (look hw m1) c)) [0..<4]" for m1
    by (simp add: look_def maybe_halt_def Let_def)
  with assms show ?thesis
    unfolding accurate_pass_def Let_def case_prod_beta look_def [symmetric] at_rest_def
    by (intro bind_res_cong refl) auto
qed

lemma count_below: "i < n \<Longrightarrow> (i + 1 < n \<or> i + 1 = n) \<and> unat (n - i) = Suc (unat (n - (i + 1)))" for i n :: u32
proof -
  assume "i < n"
  then have lt: "unat i < unat n" by (simp add: word_less_nat_alt)
  have "unat n < 2 ^ LENGTH(32)" by (rule unsigned_less)
  then have s: "unat (i + 1) = unat i + 1" using lt by (simp add: unat_word_ariths)
  then have "i + 1 \<le> n" using lt by (simp add: word_le_nat_alt)
  moreover have "unat (n - i) = unat n - unat i" using lt by (simp add: unat_sub_if')
  moreover have "unat (n - (i + 1)) = unat n - unat (i + 1)" using \<open>i + 1 \<le> n\<close> by (simp add: unat_sub_if' word_le_nat_alt)
  ultimately show ?thesis using lt s by (auto simp: order_le_less)
qed

lemma fast_iter_async: "fast_iter hw m = Inr (m', t) \<Longrightarrow> m_async m \<Longrightarrow> m_async m'"
  by (auto simp: fast_iter_def Let_def bind_res_Inr_iff)

lemma fast_block_async: "fast_block hw n m = Inr (m', t) \<Longrightarrow> m_async m \<Longrightarrow> m_async m'"
  by (induction n arbitrary: m) (auto simp: bind_res_Inr_iff dest: fast_iter_async split: if_splits)

lemma all_halted: "m_async m \<Longrightarrow> (\<forall>c < 4. halt_en (m_force (fst (maybe_halt hw m)) c)) \<and> snd (maybe_halt hw m)"
  by (simp add: maybe_halt_def Let_def on_cores_def list_ex_iff) (rule exI [of _ 0], simp)

lemma not_failed_eta: "\<not> m_failed m \<Longrightarrow> m\<lparr>m_failed := False\<rparr> = m"
  by (cases m) simp

section \<open>Properties\<close>

text \<open>
  C4. The fast loop is the accurate one: for hardware that keeps the rules of the bus out of
  reset, a block of \<open>n\<close> iterations of \<open>loop_fast\<close> in which no bus error is thrown reaches the
  very state that \<open>n\<close> calls of \<open>cycle\<close> reach, although it calls the two phases of the bus
  directly, without the checks of \<open>interconnect::tick\<close>; it fails nowhere, and an iteration
  that throws leaves the state of the cycle that reports the failure.
\<close>

theorem fast_loop_equals_cycles:
  assumes "\<not> accurate_video_on o1" "m_clk m" "bus_inv (m_bus m)" "driven_for hw n m" "\<not> m_failed m"
  shows "\<exists>m' thrown. fast_block hw n m = Inr (m', thrown)
    \<and> (\<exists>k \<le> n. cycles o1 hw k m = Inr (m'\<lparr>m_failed := thrown\<rparr>) \<and> (\<not> thrown \<longrightarrow> k = n))"
  using assms(2-5)
proof (induction n arbitrary: m)
  case 0
  show ?case
    by (intro exI [of _ m] exI [of _ False] conjI exI [of _ 0]) (simp_all add: not_failed_eta [OF 0(4)])
next
  case (Suc n)
  from fast_iter_frame [OF Suc.prems(1-3)] obtain m1 t where f: "fast_iter hw m = Inr (m1, t)" "m_clk m1"
    "bus_inv (m_bus m1)" "m_failed m1 = m_failed m" "driven_for hw n m1" by blast
  have "well_driven hw m" using Suc.prems(3) by simp
  from cycle_is_fast_iter [OF assms(1) Suc.prems(1,2) this] f(1) Suc.prems(4)
  have c: "top_cycle o1 hw m = Inr (m1\<lparr>m_failed := t\<rparr>)" by simp
  show ?case
  proof (cases t)
    case True
    then show ?thesis using f(1) c by (intro exI [of _ m1] exI [of _ True]) (auto intro!: exI [of _ "Suc 0"])
  next
    case False
    have e: "m1\<lparr>m_failed := False\<rparr> = m1" using f(4) Suc.prems(4) by (simp add: not_failed_eta)
    from Suc.IH [OF f(2,3,5)] f(4) Suc.prems(4) obtain m2 t2 k where
      g: "fast_block hw n m1 = Inr (m2, t2)" "k \<le> n" "cycles o1 hw k m1 = Inr (m2\<lparr>m_failed := t2\<rparr>)" "\<not> t2 \<longrightarrow> k = n"
      by auto
    have "fast_block hw (Suc n) m = Inr (m2, t2)" using f(1) False g(1) by simp
    moreover have "cycles o1 hw (Suc k) m = Inr (m2\<lparr>m_failed := t2\<rparr>)" using c False e g(3) by simp
    ultimately show ?thesis using g(2,4) by (intro exI [of _ m2] exI [of _ t2] conjI exI [of _ "Suc k"]) auto
  qed
qed

text \<open>
  C36. A cycle limit ends the accurate loop, whatever the hardware does: with \<open>--cycles\<close> and fewer
  cycles run so far the loop returns, after some number \<open>k\<close> of undisturbed cycles and one more, with
  what that last cycle leaves. Only a failure, a halt or the limit can end it: if the last cycle
  neither fails nor halts a core, \<open>k + 1\<close> is exactly the number of cycles that were left, and the
  counter stands at the limit; the cycle of a halt is not counted.
\<close>

theorem limited_loop_counts_cycles:
  assumes "m_i m < max_cycles o1"
  shows "\<exists>k mk. undisturbed o1 hw k m = Some mk \<and> k < unat (max_cycles o1 - m_i m)
    \<and> loop_accurate o1 hw m = Some (bind_res (top_cycle o1 hw mk) (\<lambda>m'.
        Inr (if at_rest hw (look hw m') then look hw m' else (look hw m')\<lparr>m_i := max_cycles o1\<rparr>)))
    \<and> (\<forall>m'. top_cycle o1 hw mk = Inr m' \<and> \<not> at_rest hw (look hw m') \<longrightarrow> Suc k = unat (max_cycles o1 - m_i m))"
  using assms
proof (induction "unat (max_cycles o1 - m_i m)" arbitrary: m rule: less_induct)
  case less
  have "max_cycles o1 \<noteq> 0" using less.prems by auto
  note pass = accurate_pass_limited [OF this, of hw m]
  note c = count_below [OF less.prems]
  show ?case
  proof (cases "top_cycle o1 hw m")
    case (Inl e)
    then show ?thesis using c by (intro exI [of _ 0] exI [of _ m]) (simp add: loop_accurate.simps [of o1 hw m] pass)
  next
    case (Inr m1)
    let ?n = "(look hw m1)\<lparr>m_i := m_i (look hw m1) + 1\<rparr>"
    have i: "m_i m1 = m_i m" using top_cycle_frame(1) [OF Inr] .
    consider "at_rest hw (look hw m1)" | "\<not> at_rest hw (look hw m1)" "m_i m + 1 = max_cycles o1"
      | "\<not> at_rest hw (look hw m1)" "m_i m + 1 < max_cycles o1" using c by blast
    then show ?thesis
    proof cases
      case 3
      have l: "loop_accurate o1 hw m = loop_accurate o1 hw ?n" using 3 Inr i
        by (subst loop_accurate.simps) (simp add: pass Let_def)
      have "m_i ?n < max_cycles o1" "unat (max_cycles o1 - m_i ?n) < unat (max_cycles o1 - m_i m)" using 3 i c by simp_all
      from less.hyps [OF this(2,1)] obtain k mk where
        k: "undisturbed o1 hw k ?n = Some mk" "k < unat (max_cycles o1 - m_i ?n)"
          "loop_accurate o1 hw ?n = Some (bind_res (top_cycle o1 hw mk) (\<lambda>m'.
             Inr (if at_rest hw (look hw m') then look hw m' else (look hw m')\<lparr>m_i := max_cycles o1\<rparr>)))"
          "\<forall>m'. top_cycle o1 hw mk = Inr m' \<and> \<not> at_rest hw (look hw m') \<longrightarrow> Suc k = unat (max_cycles o1 - m_i ?n)"
        by blast
      have "undisturbed o1 hw (Suc k) m = Some mk" using 3 Inr k(1) by simp
      moreover have "unat (max_cycles o1 - m_i m) = Suc (unat (max_cycles o1 - m_i ?n))" using c i by simp
      ultimately show ?thesis using k(2-4) l by (intro exI [of _ "Suc k"] exI [of _ mk]) simp
    qed (use Inr i c in \<open>intro exI [of _ 0] exI [of _ m], simp add: loop_accurate.simps [of o1 hw m] pass Let_def\<close>)+
  qed
qed

text \<open>
  \<open>SIGUSR1\<close> stops the fast loop: once the signal has been delivered, \<open>loop_fast\<close> returns
  within the current block of 4096 cycles, with a halt forced on all four cores unless a bus
  error was thrown first.
\<close>

theorem signal_stops_fast_loop:
  assumes "m_async m"
  shows "\<exists>r. loop_fast hw m = Some r \<and> (case r of Inl e \<Rightarrow> fast_block hw 4096 m = Inl e
    | Inr (m', thrown) \<Rightarrow> thrown \<or> (\<forall>c < 4. halt_en (m_force m' c)))"
proof (cases "fast_block hw 4096 m")
  case (Inl e)
  then show ?thesis by (subst loop_fast.simps) simp
next
  case (Inr x)
  obtain m1 t where x: "x = (m1, t)" by (cases x)
  have "m_async m1" using fast_block_async [OF Inr [unfolded x] assms] .
  from all_halted [OF this, of hw] Inr x show ?thesis by (subst loop_fast.simps) simp
qed

section \<open>Examples\<close>

text \<open>A machine whose processors are idle.\<close>

definition idle_plat :: platform where
  "idle_plat = plat_example\<lparr>p_write := False\<rparr>"

definition idle_core :: core_signals where
  "idle_core = \<lparr>breakpoint = False, halted = False, core_pc = 0, cpsr_word = 0, spsr_svc = 0, spsr_abt = 0,
     spsr_und = 0, spsr_fiq = 0, spsr_irq = 0, sysctrl = 0, ttbr = 0, far = 0, fsr = 0, dacr = 0,
     bh0 = 0, bh1 = 0, bh2 = 0, bh3 = 0, core_mmu = \<lparr>mmu_enable = False, mmu_ttbr = 0\<rparr>\<rparr>"

definition idle_hw :: "unit hardware" where
  "idle_hw = \<lparr>hw_eval = (\<lambda>_ _ _ _ t. t), hw_plat = (\<lambda>_. idle_plat), hw_slaves = (\<lambda>_ _. (True, 0)),
     hw_core = (\<lambda>_ _. idle_core), hw_caches = (\<lambda>_. []), hw_host = (\<lambda>_. host_example),
     hw_crtc = (\<lambda>_. \<lparr>vga_hsync = False, vga_vsync = False, vga_r = 0, vga_g = 0, vga_b = 0\<rparr>),
     hw_events = (\<lambda>_. []), hw_signal = (\<lambda>_. False)\<rparr>"

definition no_force :: core_force where
  "no_force = \<lparr>branch_val = False, branch_en = False, halt_val = False, halt_en = False, step_val = False,
     step_en = False, target_val = 0, target_en = 0\<rparr>"

definition idle_machine :: "unit machine" where
  "idle_machine = machine_init opts_example \<lparr>file_a = (\<lambda>_ _. 0), file_b = (\<lambda>_ _. 0), internals = ()\<rparr>
     (\<lambda>_. no_force) bus_example [''continue'']"

lemma idle_active:
  "m_bus m = bus_example \<Longrightarrow> active (m_bus (eval_top idle_hw m)) = None \<and> plat (m_bus (eval_top idle_hw m)) = idle_plat"
  by (simp add: eval_top_def Let_def idle_hw_def drive_def bus_example_def interconnect_init_def
      idle_plat_def plat_example_def)

lemma idle_driven: "driven_for idle_hw 1 idle_machine"
proof -
  have l: "active (m_bus (low_phase idle_hw idle_machine)) = None \<and> plat (m_bus (low_phase idle_hw idle_machine)) = idle_plat"
    unfolding low_phase_def by (rule idle_active) (simp add: idle_machine_def machine_init_def)
  have "bus_inv (m_bus (low_phase idle_hw idle_machine))"
    unfolding low_phase_def by (rule eval_top_inv) (simp add: idle_machine_def machine_init_def bus_example_inv)
  then obtain os where "bus_tick_falling (m_bus (low_phase idle_hw idle_machine)) =
      (m_bus (low_phase idle_hw idle_machine))\<lparr>objs := os, active := (if p_waitrequest (plat (m_bus (low_phase idle_hw idle_machine)))
        then active (m_bus (low_phase idle_hw idle_machine)) else None)\<rparr>"
    using bus_tick_falling_law by blast
  with l have h: "active (m_bus (high_phase idle_hw idle_machine)) = None
      \<and> plat (m_bus (high_phase idle_hw idle_machine)) = idle_plat"
    by (simp add: high_phase_def eval_top_def Let_def idle_hw_def drive_def idle_plat_def plat_example_def)
  have "hw_host idle_hw (m_top (high_phase idle_hw idle_machine)) = host_example" by (simp add: idle_hw_def)
  then show ?thesis
    using l h host_example_healthy
    by (simp add: well_driven_def bus_ruled_def idle_plat_def plat_example_def split: sum.split)
qed

theorem fast_loop_equals_cycles_witness:
  "\<exists>m' thrown. fast_block idle_hw 1 idle_machine = Inr (m', thrown)
    \<and> (\<exists>k \<le> 1. cycles opts_example idle_hw k idle_machine = Inr (m'\<lparr>m_failed := thrown\<rparr>) \<and> (\<not> thrown \<longrightarrow> k = 1))"
  by (rule fast_loop_equals_cycles [OF _ _ _ idle_driven])
    (simp_all add: idle_machine_def machine_init_def accurate_video_on_def opts_example_def bus_example_inv)

theorem limited_loop_counts_cycles_witness:
  "\<exists>k mk. undisturbed (opts_example\<lparr>max_cycles := 5\<rparr>) idle_hw k idle_machine = Some mk
    \<and> k < unat (max_cycles (opts_example\<lparr>max_cycles := 5\<rparr>) - m_i idle_machine)
    \<and> loop_accurate (opts_example\<lparr>max_cycles := 5\<rparr>) idle_hw idle_machine =
        Some (bind_res (top_cycle (opts_example\<lparr>max_cycles := 5\<rparr>) idle_hw mk) (\<lambda>m'.
          Inr (if at_rest idle_hw (look idle_hw m') then look idle_hw m'
            else (look idle_hw m')\<lparr>m_i := max_cycles (opts_example\<lparr>max_cycles := 5\<rparr>)\<rparr>)))
    \<and> (\<forall>m'. top_cycle (opts_example\<lparr>max_cycles := 5\<rparr>) idle_hw mk = Inr m' \<and> \<not> at_rest idle_hw (look idle_hw m')
        \<longrightarrow> Suc k = unat (max_cycles (opts_example\<lparr>max_cycles := 5\<rparr>) - m_i idle_machine))"
  by (rule limited_loop_counts_cycles) (simp add: idle_machine_def machine_init_def)

theorem signal_stops_fast_loop_witness:
  "\<exists>r. loop_fast idle_hw (idle_machine\<lparr>m_async := True\<rparr>) = Some r \<and> (case r of
      Inl e \<Rightarrow> fast_block idle_hw 4096 (idle_machine\<lparr>m_async := True\<rparr>) = Inl e
    | Inr (m', thrown) \<Rightarrow> thrown \<or> (\<forall>c < 4. halt_en (m_force m' c)))"
  by (rule signal_stops_fast_loop) simp

end
