(* ===== verification/Sim_Debug.thy ===== *)
theory Sim_Debug
  imports Sim_Loop
begin

text \<open>
  The debugger of \<open>conspiracion.cpp\<close> and the whole of \<open>main\<close>: the register dump, the commands
  read from the control stream while the cores are halted, resuming, the outer loop and the
  exit. A line is the string \<open>getline\<close> delivers, without its newline; after the last one
  \<open>getline\<close> reports the end of the stream or, when \<open>ctrl_error\<close> holds, an error. \<open>None\<close>: the
  code does not return. \<open>ind\<close> is the value of the locals read before they are set.
\<close>

section \<open>The register dump\<close>

definition gp_regs :: "string list" where
  "gp_regs =
     [''r0'', ''r1'', ''r2'', ''r3'', ''r4'', ''r5'', ''r6'', ''r7'',
      ''r8_usr'', ''r9_usr'', ''r10_usr'', ''r11_usr'', ''r12_usr'', ''r13_usr'', ''r14_usr'',
      ''r8_fiq'', ''r9_fiq'', ''r10_fiq'', ''r11_fiq'', ''r12_fiq'', ''r13_fiq'', ''r14_fiq'',
      ''r13_irq'', ''r14_irq'', ''r13_und'', ''r14_und'', ''r13_abt'', ''r14_abt'', ''r13_svc'', ''r14_svc'']"

definition reg_line :: "u32 \<Rightarrow> string \<Rightarrow> string" where
  "reg_line v name = hex8 v @ '' '' @ name @ newline"

fun gp_lines :: "(nat \<Rightarrow> u32) \<Rightarrow> nat \<Rightarrow> string list \<Rightarrow> string" where
  "gp_lines regfile i [] = []"
| "gp_lines regfile i (name # names) = reg_line (regfile i) name @ gp_lines regfile (Suc i) names"

definition do_reg_dump :: "'w hardware \<Rightarrow> 'w machine \<Rightarrow> 'w machine" where
  "do_reg_dump hw m =
     (let core = hw_core hw (m_top m) 0 in
      m\<lparr>m_out := m_out m @ ''=== dump-regs ==='' @ newline
        @ gp_lines (file_a (m_top m) 0) 0 gp_regs
        @ reg_line (push_bit 2 (core_pc core)) ''pc''
        @ reg_line (cpsr_word core) ''cpsr''
        @ reg_line (spsr_svc core) ''spsr_svc''
        @ reg_line (spsr_abt core) ''spsr_abt''
        @ reg_line (spsr_und core) ''spsr_und''
        @ reg_line (spsr_fiq core) ''spsr_fiq''
        @ reg_line (spsr_irq core) ''spsr_irq''
        @ reg_line (sysctrl core) ''sysctrl''
        @ reg_line (ttbr core) ''ttbr''
        @ reg_line (far core) ''far''
        @ reg_line (fsr core) ''fsr''
        @ reg_line (dacr core) ''dacr''
        @ reg_line (bh0 core) ''bh0''
        @ reg_line (bh1 core) ''bh1''
        @ reg_line (bh2 core) ''bh2''
        @ reg_line (bh3 core) ''bh3''
        @ ''=== end-regs ==='' @ newline\<rparr>)"

section \<open>Commands\<close>

text \<open>\<open>strtok(line, " ")\<close> and the calls with a null pointer after it give the tokens in turn.\<close>

fun strtok_tokens :: "string \<Rightarrow> string \<Rightarrow> string list" where
  "strtok_tokens acc [] = (if acc = [] then [] else [rev acc])"
| "strtok_tokens acc (c # cs) =
     (if c = CHR '' '' then (if acc = [] then [] else [rev acc]) @ strtok_tokens [] cs
      else strtok_tokens (c # acc) cs)"

definition tokens :: "string \<Rightarrow> string list" where
  "tokens line = strtok_tokens [] (takeWhile (\<lambda>c. c \<noteq> CHR 0x00) line)"

text \<open>\<open>dump-phys\<close> and \<open>dump-mem\<close>: a token that is no number leaves the zero of \<open>dump = {}\<close>.\<close>

definition print_walk :: "'w machine \<Rightarrow> string walk \<Rightarrow> ('w machine \<times> bool) res option" where
  "print_walk m w = (case w of
       None \<Rightarrow> None
     | Some (Inl e) \<Rightarrow> Some (Inl e)
     | Some (Inr (ic, txt)) \<Rightarrow> Some (Inr (m\<lparr>m_bus := ic, m_out := m_out m @ txt\<rparr>, False)))"

definition scan_or :: "'a \<Rightarrow> 'a option \<Rightarrow> 'a" where
  "scan_or x r = (case r of None \<Rightarrow> x | Some v \<Rightarrow> v)"

definition dump_command :: "'w hardware \<Rightarrow> u32 \<Rightarrow> bool \<Rightarrow> string list \<Rightarrow> 'w machine \<Rightarrow> ('w machine \<times> bool) res option" where
  "dump_command hw ind map_virtual args m =
     (case args of
        start # length' # _ \<Rightarrow>
          print_walk m (do_mem_dump (core_mmu (hw_core hw (m_top m) 0)) (hw_caches hw (m_top m)) ind map_virtual
            [\<lparr>mr_start = scan_or 0 (scan_zu start), mr_length = scan_or 0 (scan_zu length')\<rparr>] (m_bus m))
      | _ \<Rightarrow> Some (Inl Null_Deref))"

definition patch_mem_command :: "'w hardware \<Rightarrow> u32 \<Rightarrow> string list \<Rightarrow> 'w machine \<Rightarrow> ('w machine \<times> bool) res option" where
  "patch_mem_command hw ind args m =
     (case args of
        addr # data # _ \<Rightarrow>
          (case patch_words (hw_host hw (m_top m)) (core_mmu (hw_core hw (m_top m) 0)) (hw_caches hw (m_top m)) ind
               (scan_or ind (scan_u addr)) data (m_bus m) of
             None \<Rightarrow> None
           | Some (Inl e) \<Rightarrow> Some (Inl e)
           | Some (Inr (ic, _)) \<Rightarrow> Some (Inr (m\<lparr>m_bus := ic\<rparr>, False)))
      | _ \<Rightarrow> Some (Inl Null_Deref))"

fun reg_index :: "string \<Rightarrow> string list \<Rightarrow> nat option" where
  "reg_index name [] = None"
| "reg_index name (reg # regs) = (if name = reg then Some 0 else map_option Suc (reg_index name regs))"

definition patch_reg_command :: "u32 \<Rightarrow> string list \<Rightarrow> 'w machine \<Rightarrow> ('w machine \<times> bool) res option" where
  "patch_reg_command ind args m =
     (case args of
        val # name # _ \<Rightarrow>
          (let value = scan_or ind (scan_u val) in
           if name = ''pc'' then
             Some (Inr (m\<lparr>m_force := (m_force m)(0 := (m_force m 0)\<lparr>target_val := drop_bit 2 value\<rparr>)\<rparr>, False))
           else case reg_index name gp_regs of
               None \<Rightarrow> Some (Inr (m, False))
             | Some i \<Rightarrow> Some (Inr (m\<lparr>m_top := set_regs 0 (i, value) (m_top m)\<rparr>, False)))
      | _ \<Rightarrow> Some (Inl Null_Deref))"

text \<open>One line; the flag says that the debugger is left.\<close>

definition do_command_line :: "'w hardware \<Rightarrow> u32 \<Rightarrow> string \<Rightarrow> 'w machine \<Rightarrow> ('w machine \<times> bool) res option" where
  "do_command_line hw ind line m =
     (case tokens line of
        [] \<Rightarrow> Some (Inl Null_Deref)
      | cmd # args \<Rightarrow>
          if cmd = ''continue'' then Some (Inr (m, True))
          else if cmd = ''step'' then
            Some (Inr (m\<lparr>m_force := (m_force m)(0 := (m_force m 0)\<lparr>step_en := True\<rparr>)\<rparr>, True))
          else if cmd = ''dump-phys'' then dump_command hw ind False args m
          else if cmd = ''dump-mem'' then dump_command hw ind True args m
          else if cmd = ''patch-mem'' then patch_mem_command hw ind args m
          else if cmd = ''patch-reg'' then patch_reg_command ind args m
          else Some (Inr (m, False)))"

text \<open>The loop over the lines; at the end of the input a stream error makes the run fail.\<close>

fun command_loop :: "'w hardware \<Rightarrow> u32 \<Rightarrow> bool \<Rightarrow> string list \<Rightarrow> 'w machine \<Rightarrow> 'w machine res option" where
  "command_loop hw ind ctrl_error [] m =
     Some (Inr (m\<lparr>m_lines := [], m_failed := m_failed m \<or> ctrl_error\<rparr>))"
| "command_loop hw ind ctrl_error (line # ls) m =
     (case do_command_line hw ind line m of
        None \<Rightarrow> None
      | Some (Inl e) \<Rightarrow> Some (Inl e)
      | Some (Inr (m', leave)) \<Rightarrow>
          if leave then Some (Inr (m'\<lparr>m_lines := ls\<rparr>)) else command_loop hw ind ctrl_error ls m')"

section \<open>Halting and resuming\<close>

definition enter_halt :: "'w hardware \<Rightarrow> 'w machine \<Rightarrow> 'w machine" where
  "enter_halt hw m =
     (let m1 = on_cores (\<lambda>c f. f\<lparr>target_val := core_pc (hw_core hw (m_top m) c), step_en := False\<rparr>) m;
          m2 = do_reg_dump hw m1
      in m2\<lparr>m_out := m_out m2 @ ''=== '' @ (if m_failed m then ''fault'' else ''halted'') @ '' ==='' @ newline\<rparr>)"

definition resume :: "sim_opts \<Rightarrow> 'w hardware \<Rightarrow> 'w machine \<Rightarrow> 'w machine res" where
  "resume o1 hw m =
     bind_res (top_cycle o1 hw (on_cores (\<lambda>_ f. f\<lparr>target_en := -1, branch_en := True\<rparr>) (m\<lparr>m_async := False\<rparr>)))
       (\<lambda>m1. Inr (on_cores (\<lambda>_ f. f\<lparr>target_en := 0, branch_en := False, halt_en := False\<rparr>) m1))"

definition debug_stop :: "sim_opts \<Rightarrow> 'w hardware \<Rightarrow> u32 \<Rightarrow> bool \<Rightarrow> 'w machine \<Rightarrow> 'w machine res option" where
  "debug_stop o1 hw ind ctrl_error m =
     (let m1 = enter_halt hw m in
      case command_loop hw ind ctrl_error (m_lines m1) m1 of
        None \<Rightarrow> None
      | Some (Inl e) \<Rightarrow> Some (Inl e)
      | Some (Inr m2) \<Rightarrow> Some (resume o1 hw m2))"

definition needs_accurate :: "'w machine \<Rightarrow> bool" where
  "needs_accurate m \<longleftrightarrow> list_ex (\<lambda>c. halt_en (m_force m c) \<or> step_en (m_force m c)) [0..<4]"

text \<open>\<open>enable_trace\<close> is false in a build without tracing.\<close>

definition slow_path :: "sim_opts \<Rightarrow> bool" where
  "slow_path o1 \<longleftrightarrow> 0 < max_cycles o1 \<or> accurate_video_on o1"

text \<open>Run until a halt, and whether an \<open>avl_bus_error\<close> was caught.\<close>

definition run_loop :: "sim_opts \<Rightarrow> 'w hardware \<Rightarrow> 'w machine \<Rightarrow> ('w machine \<times> bool) res option" where
  "run_loop o1 hw m =
     (if slow_path o1 \<or> needs_accurate m
      then map_option (\<lambda>r. bind_res r (\<lambda>m'. Inr (m', False))) (loop_accurate o1 hw m)
      else loop_fast hw m)"

partial_function (option) main_loop ::
  "sim_opts \<Rightarrow> 'w hardware \<Rightarrow> u32 \<Rightarrow> bool \<Rightarrow> 'w machine \<Rightarrow> 'w machine res option" where
  "main_loop o1 hw ind ctrl_error m =
     (case run_loop o1 hw m of
        None \<Rightarrow> None
      | Some r \<Rightarrow> (case r of
          Inl e \<Rightarrow> Some (Inl e)
        | Inr (m1, thrown) \<Rightarrow>
            if thrown then Some (Inr (m1\<lparr>m_failed := True\<rparr>))
            else if m_failed m1 \<or> (0 < max_cycles o1 \<and> max_cycles o1 \<le> m_i m1) then Some (Inr m1)
            else (case debug_stop o1 hw ind ctrl_error m1 of
                None \<Rightarrow> None
              | Some r2 \<Rightarrow> (case r2 of
                  Inl e \<Rightarrow> Some (Inl e)
                | Inr m2 \<Rightarrow> main_loop o1 hw ind ctrl_error m2))))"

section \<open>The program\<close>

definition map_uart :: "(jtag_uart \<Rightarrow> jtag_uart res) \<Rightarrow> 'w machine \<Rightarrow> 'w machine res" where
  "map_uart f m =
     (case objs (m_bus m) obj_uart of
        D_uart u \<Rightarrow> bind_res (f u) (\<lambda>u'. Inr (m\<lparr>m_bus := (m_bus m)\<lparr>objs := (objs (m_bus m))(obj_uart := D_uart u')\<rparr>\<rparr>))
      | _ \<Rightarrow> Inr m)"

definition finish :: "sim_opts \<Rightarrow> mem_region list \<Rightarrow> 'w hardware \<Rightarrow> u32 \<Rightarrow> 'w machine \<Rightarrow> ('w machine \<times> bool) res option" where
  "finish o1 dumps hw ind m =
     (case (if no_tty o1 then Inr m else map_uart (\<lambda>u. Inr (uart_release u)) m) of
        Inl e \<Rightarrow> Some (Inl e)
      | Inr m1 \<Rightarrow>
          let m2 = (if dump_regs o1 then do_reg_dump hw m1 else m1) in
          if dumps = [] then Some (Inr (m2, \<not> m_failed m2))
          else map_option (\<lambda>r. bind_res r (\<lambda>(m3, _). Inr (m3, \<not> m_failed m3)))
            (print_walk m2 (do_mem_dump (core_mmu (hw_core hw (m_top m2) 0)) (hw_caches hw (m_top m2)) ind True dumps (m_bus m2))))"

text \<open>
  \<open>main\<close> after the options are parsed. The result is the machine at the exit and whether the
  status is \<open>EXIT_SUCCESS\<close>; a stream or an image that cannot be opened is \<open>None\<close> for the
  machine, with \<open>EXIT_FAILURE\<close>.
\<close>

record 'w env =
  e_junk :: junk
  e_slaves :: "nat \<Rightarrow> verilated_slave"
  e_plat :: platform
  e_top :: "'w top"
  e_force :: "nat \<Rightarrow> core_force"
  e_files :: "string \<Rightarrow> img_file option"
  e_fdopen_ok :: bool
  e_lines :: "string list"
  e_ctrl_error :: bool
  e_curses :: curses
  e_ind :: u32

definition start_machine :: "sim_opts \<Rightarrow> 'w env \<Rightarrow> 'w machine option res option" where
  "start_machine o1 e =
     (case build_system o1 (e_junk e) (e_slaves e) (e_plat e) of
        Inl f \<Rightarrow> Some (Inl f)
      | Inr ic \<Rightarrow>
          (case objs ic obj_ddr3 of
             D_mem m \<Rightarrow>
               map_option (\<lambda>r. bind_res r (\<lambda>m'. Inr (map_option (\<lambda>m''. machine_init o1 (e_top e) (e_force e)
                 (ic\<lparr>objs := (objs ic)(obj_ddr3 := D_mem m'')\<rparr>) (e_lines e)) m')))
                 (load_images (e_files e) o1 m)
           | _ \<Rightarrow> Some (Inr None)))"

definition sim_main :: "sim_opts \<Rightarrow> mem_region list \<Rightarrow> 'w hardware \<Rightarrow> 'w env \<Rightarrow> ('w machine option \<times> bool) res option" where
  "sim_main o1 dumps hw e =
     (if control_fd o1 \<noteq> -1 \<and> \<not> e_fdopen_ok e then Some (Inr (None, False))
      else case start_machine o1 e of
          None \<Rightarrow> None
        | Some (Inl f) \<Rightarrow> Some (Inl f)
        | Some (Inr None) \<Rightarrow> Some (Inr (None, False))
        | Some (Inr (Some m)) \<Rightarrow>
            (case bind_res (if no_tty o1 then Inr m else map_uart (uart_takeover (e_curses e)) m) (reset_sequence o1 hw) of
               Inl f \<Rightarrow> Some (Inl f)
             | Inr m1 \<Rightarrow>
                 (case main_loop o1 hw (e_ind e) (e_ctrl_error e) m1 of
                    None \<Rightarrow> None
                  | Some (Inl f) \<Rightarrow> Some (Inl f)
                  | Some (Inr m2) \<Rightarrow> map_option (\<lambda>r. bind_res r (\<lambda>(m3, ok). Inr (Some m3, ok)))
                      (finish o1 dumps hw (e_ind e) m2))))"

section \<open>Lemmas\<close>

lemma gp_regs_distinct: "distinct gp_regs"
  by code_simp

lemma gp_regs_not_pc: "''pc'' \<notin> set gp_regs"
  by code_simp

lemma reg_index_nth: "distinct names \<Longrightarrow> i < length names \<Longrightarrow> reg_index (names ! i) names = Some i"
  by (induction names arbitrary: i) (auto simp: nth_Cons split: nat.split)

lemma gp_lines_split:
  "i < length names \<Longrightarrow> gp_lines f k names =
     gp_lines f k (take i names) @ reg_line (f (k + i)) (names ! i) @ gp_lines f (Suc (k + i)) (drop (Suc i) names)"
proof (induction names arbitrary: i k)
  case (Cons name names)
  show ?case
  proof (cases i)
    case (Suc j)
    with Cons.IH [of j "Suc k"] Cons.prems show ?thesis by simp
  qed simp
qed simp

lemma gp_lines_cong: "(\<And>j. k \<le> j \<Longrightarrow> j < k + length names \<Longrightarrow> f j = g j) \<Longrightarrow> gp_lines f k names = gp_lines g k names"
  by (induction names arbitrary: k) auto

lemma gp_lines_update:
  assumes "i < length names"
  shows "gp_lines (f(i := v)) 0 names =
    gp_lines f 0 (take i names) @ reg_line v (names ! i) @ gp_lines f (Suc i) (drop (Suc i) names)"
proof -
  have "gp_lines (f(i := v)) 0 (take i names) = gp_lines f 0 (take i names)"
    by (rule gp_lines_cong) auto
  moreover have "gp_lines (f(i := v)) (Suc i) (drop (Suc i) names) = gp_lines f (Suc i) (drop (Suc i) names)"
    by (rule gp_lines_cong) auto
  ultimately show ?thesis using gp_lines_split [OF assms, of "f(i := v)" 0] by simp
qed

text \<open>What a dump of the general registers of core 0 prints.\<close>

definition dumped_gp :: "'w machine \<Rightarrow> string" where
  "dumped_gp m = gp_lines (file_a (m_top m) 0) 0 gp_regs"

definition gp_header :: string where
  "gp_header = ''=== dump-regs ==='' @ newline"

lemma do_reg_dump_prefix:
  "\<exists>rest. m_out (do_reg_dump hw m) = m_out m @ gp_header @ dumped_gp m @ rest"
  by (auto simp: do_reg_dump_def Let_def dumped_gp_def gp_header_def)

lemma do_reg_dump_frame [simp]:
  "m_force (do_reg_dump hw m) = m_force m" "m_lines (do_reg_dump hw m) = m_lines m"
  "m_top (do_reg_dump hw m) = m_top m" "m_failed (do_reg_dump hw m) = m_failed m"
  "m_bus (do_reg_dump hw m) = m_bus m" "m_clk (do_reg_dump hw m) = m_clk m"
  by (simp_all add: do_reg_dump_def Let_def)

lemma enter_halt_frame [simp]:
  "m_top (enter_halt hw m) = m_top m" "m_bus (enter_halt hw m) = m_bus m" "m_failed (enter_halt hw m) = m_failed m"
  "m_lines (enter_halt hw m) = m_lines m"
  by (simp_all add: enter_halt_def Let_def on_cores_def)

lemma enter_halt_force:
  "m_force (enter_halt hw m) = (\<lambda>c. if c < 4 then (m_force m c)\<lparr>target_val := core_pc (hw_core hw (m_top m) c), step_en := False\<rparr>
     else m_force m c)"
  by (simp add: enter_halt_def Let_def on_cores_def)

lemma enter_halt_out: "\<exists>rest. m_out (enter_halt hw m) = m_out m @ gp_header @ dumped_gp m @ rest"
proof -
  let ?m1 = "on_cores (\<lambda>c f. f\<lparr>target_val := core_pc (hw_core hw (m_top m) c), step_en := False\<rparr>) m"
  obtain rest where "m_out (do_reg_dump hw ?m1) = m_out ?m1 @ gp_header @ dumped_gp ?m1 @ rest"
    using do_reg_dump_prefix by blast
  moreover have "m_out ?m1 = m_out m" "dumped_gp ?m1 = dumped_gp m" by (simp_all add: on_cores_def dumped_gp_def)
  ultimately show ?thesis by (simp add: enter_halt_def Let_def)
qed

section \<open>Properties\<close>

text \<open>
  Patching a register and dumping the registers agree: the command \<open>patch-reg\<close> with a
  decimal value and the name of a general register writes that register of core 0 in both
  copies of its register file and nothing else, and a register dump then prints the same text
  as before except the line of that register, which shows the value.
\<close>

theorem patched_register_is_dumped:
  assumes "tokens line = ''patch-reg'' # val # gp_regs ! i # more_tokens" "scan_u val = Some v" "i < 30"
  shows "\<exists>m'. do_command_line hw ind line m = Some (Inr (m', False)) \<and> m' = m\<lparr>m_top := set_regs 0 (i, v) (m_top m)\<rparr>
    \<and> (\<exists>before after. dumped_gp m = before @ reg_line (file_a (m_top m) 0 i) (gp_regs ! i) @ after
        \<and> dumped_gp m' = before @ reg_line v (gp_regs ! i) @ after
        \<and> (\<exists>rest. m_out (do_reg_dump hw m') = m_out m @ gp_header @ before @ reg_line v (gp_regs ! i) @ after @ rest))"
proof -
  have i: "i < length gp_regs" using assms(3) by (simp add: gp_regs_def)
  let ?m = "m\<lparr>m_top := set_regs 0 (i, v) (m_top m)\<rparr>"
  have "gp_regs ! i \<noteq> ''pc''" using gp_regs_not_pc i by (metis nth_mem)
  then have c: "do_command_line hw ind line m = Some (Inr (?m, False))"
    using reg_index_nth [OF gp_regs_distinct i] assms(1,2)
    by (simp add: do_command_line_def patch_reg_command_def scan_or_def)
  let ?b = "gp_lines (file_a (m_top m) 0) 0 (take i gp_regs)"
  let ?a = "gp_lines (file_a (m_top m) 0) (Suc i) (drop (Suc i) gp_regs)"
  have d: "dumped_gp m = ?b @ reg_line (file_a (m_top m) 0 i) (gp_regs ! i) @ ?a"
    using gp_lines_split [OF i, of "file_a (m_top m) 0" 0] by (simp add: dumped_gp_def)
  have d': "dumped_gp ?m = ?b @ reg_line v (gp_regs ! i) @ ?a"
    using gp_lines_update [OF i, of "file_a (m_top m) 0" v] by (simp add: dumped_gp_def set_regs_def)
  obtain rest where "m_out (do_reg_dump hw ?m) = m_out m @ gp_header @ dumped_gp ?m @ rest"
    using do_reg_dump_prefix [of hw ?m] by auto
  with c d d' show ?thesis by auto
qed

theorem patched_register_is_dumped_witness:
  "\<exists>m'. do_command_line idle_hw 0 ''patch-reg 42  r13_svc'' idle_machine = Some (Inr (m', False))
    \<and> m' = idle_machine\<lparr>m_top := set_regs 0 (28, 42) (m_top idle_machine)\<rparr>
    \<and> (\<exists>before after. dumped_gp idle_machine = before @ reg_line (file_a (m_top idle_machine) 0 28) (gp_regs ! 28) @ after
        \<and> dumped_gp m' = before @ reg_line 42 (gp_regs ! 28) @ after
        \<and> (\<exists>rest. m_out (do_reg_dump idle_hw m') = m_out idle_machine @ gp_header @ before
              @ reg_line 42 (gp_regs ! 28) @ after @ rest))"
proof -
  have t: "tokens ''patch-reg 42  r13_svc'' = ''patch-reg'' # ''42'' # gp_regs ! 28 # []"
    by (simp add: tokens_def gp_regs_def)
  have s: "scan_u ''42'' = Some 42"
    by (simp add: scan_u_def is_blank_def scan_sign_def scan_digits_def is_digit_def digit_value_def
        digits_value_def to_word_def Let_def)
  have i: "(28 :: nat) < 30" by simp
  show ?thesis by (rule patched_register_is_dumped [OF t s i])
qed

text \<open>
  C37. Leaving the debugger with \<open>continue\<close> restarts every core where it stopped: the registers
  are dumped, then exactly one cycle runs in which the four cores are forced to branch to
  their own program counter with no step request and the halt signal acknowledged, and after
  it no branch, target or halt is forced any more.
\<close>

theorem continue_restarts_cores:
  assumes "m_lines m = line # ls" "tokens line = ''continue'' # more_tokens"
  shows "\<exists>mc. debug_stop o1 hw ind err m = Some (bind_res (top_cycle o1 hw mc)
      (\<lambda>m1. Inr (on_cores (\<lambda>_ f. f\<lparr>target_en := 0, branch_en := False, halt_en := False\<rparr>) m1)))
    \<and> m_top mc = m_top m \<and> m_bus mc = m_bus m \<and> m_lines mc = ls \<and> \<not> m_async mc \<and> m_failed mc = m_failed m
    \<and> (\<forall>c < 4. m_force mc c = (m_force m c)\<lparr>target_val := core_pc (hw_core hw (m_top m) c), step_en := False,
          target_en := -1, branch_en := True\<rparr>)
    \<and> (\<exists>rest. m_out mc = m_out m @ gp_header @ dumped_gp m @ rest)"
proof -
  let ?m1 = "enter_halt hw m"
  have l: "m_lines ?m1 = line # ls" using assms(1) by simp
  have d: "do_command_line hw ind line ?m1 = Some (Inr (?m1, True))"
    unfolding do_command_line_def assms(2) by simp
  have c: "command_loop hw ind err (m_lines ?m1) ?m1 = Some (Inr (?m1\<lparr>m_lines := ls\<rparr>))"
    unfolding l by (simp add: d)
  let ?mc = "on_cores (\<lambda>_ f. f\<lparr>target_en := -1, branch_en := True\<rparr>) (?m1\<lparr>m_lines := ls, m_async := False\<rparr>)"
  have "debug_stop o1 hw ind err m = Some (bind_res (top_cycle o1 hw ?mc)
      (\<lambda>m1. Inr (on_cores (\<lambda>_ f. f\<lparr>target_en := 0, branch_en := False, halt_en := False\<rparr>) m1)))"
    unfolding debug_stop_def Let_def c by (simp add: resume_def)
  moreover have "m_top ?mc = m_top m" "m_bus ?mc = m_bus m" "m_lines ?mc = ls" "\<not> m_async ?mc" "m_failed ?mc = m_failed m"
    "m_out ?mc = m_out ?m1" by (simp_all add: on_cores_def)
  moreover have "\<forall>c < 4. m_force ?mc c = (m_force m c)\<lparr>target_val := core_pc (hw_core hw (m_top m) c), step_en := False,
      target_en := -1, branch_en := True\<rparr>"
    by (simp add: on_cores_def enter_halt_force)
  moreover have "\<exists>rest. m_out ?mc = m_out m @ gp_header @ dumped_gp m @ rest"
    using enter_halt_out [of hw m] unfolding \<open>m_out ?mc = m_out ?m1\<close> .
  ultimately show ?thesis by (intro exI [of _ ?mc] conjI) (assumption | simp only: ex_simps)+
qed

theorem continue_restarts_cores_witness:
  "\<exists>mc. debug_stop opts_example idle_hw 0 True idle_machine = Some (bind_res (top_cycle opts_example idle_hw mc)
      (\<lambda>m1. Inr (on_cores (\<lambda>_ f. f\<lparr>target_en := 0, branch_en := False, halt_en := False\<rparr>) m1)))
    \<and> m_top mc = m_top idle_machine \<and> m_bus mc = m_bus idle_machine \<and> m_lines mc = [] \<and> \<not> m_async mc
    \<and> m_failed mc = m_failed idle_machine
    \<and> (\<forall>c < 4. m_force mc c = (m_force idle_machine c)\<lparr>target_val := core_pc (hw_core idle_hw (m_top idle_machine) c),
          step_en := False, target_en := -1, branch_en := True\<rparr>)
    \<and> (\<exists>rest. m_out mc = m_out idle_machine @ gp_header @ dumped_gp idle_machine @ rest)"
proof (rule continue_restarts_cores)
  show "m_lines idle_machine = ''continue'' # []" by (simp add: idle_machine_def machine_init_def)
  show "tokens ''continue'' = ''continue'' # []" by code_simp
qed

text \<open>
  The debugger dereferences a null pointer on a line without a token and on a command with
  missing operands.
\<close>

theorem short_commands_crash:
  assumes "tokens line = [] \<or> (tokens line = cmd # args \<and> length args < 2
      \<and> cmd \<in> {''dump-phys'', ''dump-mem'', ''patch-mem'', ''patch-reg''})"
  shows "do_command_line hw ind line m = Some (Inl Null_Deref)"
proof (cases "tokens line")
  case (Cons c as)
  then have c: "tokens line = cmd # args" "length args < 2" "cmd \<in> {''dump-phys'', ''dump-mem'', ''patch-mem'', ''patch-reg''}"
    using assms by auto
  from c(2) consider "args = []" | a where "args = [a]" by (cases args) auto
  then have n: "dump_command hw ind b args m = Some (Inl Null_Deref)" "patch_mem_command hw ind args m = Some (Inl Null_Deref)"
    "patch_reg_command ind args m = Some (Inl Null_Deref)" for b
    by (cases; simp add: dump_command_def patch_mem_command_def patch_reg_command_def)+
  from c(3) consider "cmd = ''dump-phys''" | "cmd = ''dump-mem''" | "cmd = ''patch-mem''" | "cmd = ''patch-reg''" by blast
  then show ?thesis
    by cases (simp_all add: do_command_line_def c(1) n)
qed (simp add: do_command_line_def)

end
