(* ===== verification/Cli.thy ===== *)
theory Cli
  imports Sim_Debug
begin

text \<open>
  The option values of the simulator: the extraction operators of \<open>conspiracion.cpp\<close> for
  memory regions, constants, files and register values, on the text of an argument, and
  \<open>ValueReader\<close> of \<open>args.hxx\<close>, which accepts a value only when the whole text is read. A
  stream is its remaining text; \<open>None\<close> is a stream with the fail bit set.
\<close>

section \<open>Definitions\<close>

text \<open>Extraction of an unsigned integer of \<open>n\<close> bits: decimal, an optional sign, no overflow.\<close>

definition read_uint :: "nat \<Rightarrow> string \<Rightarrow> (nat \<times> string) option" where
  "read_uint n s =
     (let (neg, rest) = scan_sign (dropWhile is_blank s) in
      case scan_digits 10 rest of
        None \<Rightarrow> None
      | Some (v, rest') \<Rightarrow>
          if v < 2 ^ n then Some (if neg then (2 ^ n - v) mod 2 ^ n else v, rest') else None)"

definition read_word32 :: "string \<Rightarrow> (u32 \<times> string) option" where
  "read_word32 s = map_option (\<lambda>(v, rest). (of_nat v, rest)) (read_uint 32 s)"

definition read_size :: "string \<Rightarrow> (u64 \<times> string) option" where
  "read_size s = map_option (\<lambda>(v, rest). (of_nat v, rest)) (read_uint 64 s)"

definition read_string :: "string \<Rightarrow> (string \<times> string) option" where
  "read_string s =
     (let s1 = dropWhile is_blank s; w = takeWhile (\<lambda>c. \<not> is_blank c) s1
      in if w = [] then None else Some (w, dropWhile (\<lambda>c. \<not> is_blank c) s1))"

text \<open>\<open>stream >> a; if(stream.get() == ',') stream >> b; else failbit\<close>\<close>

definition read_pair :: "(string \<Rightarrow> ('a \<times> string) option) \<Rightarrow> (string \<Rightarrow> ('b \<times> string) option) \<Rightarrow>
    string \<Rightarrow> (('a \<times> 'b) \<times> string) option" where
  "read_pair ra rb s =
     (case ra s of
        Some (a, c # rest) \<Rightarrow>
          if c = CHR '','' then map_option (\<lambda>(b, rest'). ((a, b), rest')) (rb rest) else None
      | _ \<Rightarrow> None)"

definition read_mem_region :: "string \<Rightarrow> (mem_region \<times> string) option" where
  "read_mem_region s =
     map_option (\<lambda>((a, b), rest). (\<lparr>mr_start = a, mr_length = b\<rparr>, rest)) (read_pair read_size read_size s)"

definition read_mem_init :: "string \<Rightarrow> ((u32 \<times> u32) \<times> string) option" where
  "read_mem_init = read_pair read_word32 read_word32"

definition read_file_load :: "string \<Rightarrow> ((u32 \<times> string) \<times> string) option" where
  "read_file_load = read_pair read_word32 read_string"

text \<open>\<open>getline(name, 16, '=')\<close> fails when the name does not fit; at the end of the text the eof bit is set.\<close>

definition read_reg_init :: "string \<Rightarrow> ((nat \<times> u32) \<times> string) option" where
  "read_reg_init s =
     (let name = takeWhile (\<lambda>c. c \<noteq> CHR ''='') s; rest = dropWhile (\<lambda>c. c \<noteq> CHR ''='') s in
      if 15 < length name \<or> rest = [] then None
      else case reg_index name gp_regs of
          None \<Rightarrow> None
        | Some index \<Rightarrow> map_option (\<lambda>(v, rest'). ((index, v), rest')) (read_word32 (drop 1 rest)))"

text \<open>\<open>ValueReader\<close>: the value, or \<open>None\<close> for a \<open>ParseError\<close>.\<close>

definition value_reader :: "(string \<Rightarrow> ('a \<times> string) option) \<Rightarrow> string \<Rightarrow> 'a option" where
  "value_reader rd val =
     (case rd val of
        None \<Rightarrow> None
      | Some (x, rest) \<Rightarrow> if dropWhile is_blank rest = [] then Some x else None)"

text \<open>The arguments from the first one that starts with a plus sign belong to Verilator.\<close>

definition own_arguments :: "string list \<Rightarrow> string list" where
  "own_arguments argv = takeWhile (\<lambda>arg. take 1 arg \<noteq> ''+'') argv"

section \<open>Decimal text\<close>

text \<open>A text that does not go on with a digit.\<close>

definition stops :: "string \<Rightarrow> bool" where
  "stops s \<longleftrightarrow> (case s of [] \<Rightarrow> True | c # _ \<Rightarrow> \<not> is_digit 10 c)"

lemma scan_decimal:
  assumes "stops rest"
  shows "scan_digits 10 (decimal n @ rest) = Some (n, rest)"
proof -
  have d: "\<forall>c \<in> set (decimal n). is_digit 10 c" using decimal_digits decimal_digit_facts by blast
  have "takeWhile (is_digit 10) rest = []" "dropWhile (is_digit 10) rest = rest"
    using assms by (cases rest; simp add: stops_def)+
  with d have "takeWhile (is_digit 10) (decimal n @ rest) = decimal n" "dropWhile (is_digit 10) (decimal n @ rest) = rest"
    by (simp_all add: takeWhile_append dropWhile_append)
  then show ?thesis by (simp add: scan_digits_def Let_def decimal_value decimal_not_Nil)
qed

lemma read_decimal:
  assumes "n < 2 ^ k" "stops rest"
  shows "read_uint k (decimal n @ rest) = Some (n, rest)"
proof -
  obtain c cs where c: "decimal n = c # cs" using decimal_not_Nil by (cases "decimal n") auto
  from decimal_digits [of c n] c obtain d where "d < 10" "c = hex_digit d" by auto
  with decimal_digit_facts have "\<not> is_blank c" "c \<noteq> CHR ''-''" "c \<noteq> CHR ''+''" by auto
  then have "scan_sign (dropWhile is_blank (decimal n @ rest)) = (False, decimal n @ rest)"
    by (simp add: c scan_sign_def)
  with scan_decimal [OF assms(2), of n] assms(1) show ?thesis by (simp add: read_uint_def)
qed

lemma word_text:
  "stops rest \<Longrightarrow> read_word32 (decimal (unat w) @ rest) = Some (w, rest)"
  "stops rest \<Longrightarrow> read_size (decimal (unat x) @ rest) = Some (x, rest)" for w :: u32 and x :: u64
proof -
  have "unat w < 2 ^ LENGTH(32)" "unat x < 2 ^ LENGTH(64)" by (rule unsigned_less)+
  then show "stops rest \<Longrightarrow> read_word32 (decimal (unat w) @ rest) = Some (w, rest)"
    "stops rest \<Longrightarrow> read_size (decimal (unat x) @ rest) = Some (x, rest)"
    by (simp_all add: read_word32_def read_size_def read_decimal)
qed

lemma stops_comma: "stops (CHR '','' # s)"
  by (simp add: stops_def) code_simp

lemma stops_Nil: "stops []"
  by (simp add: stops_def)

section \<open>Properties\<close>

text \<open>
  The option values read back what the decimal notation writes: \<open>start,length\<close> for
  \<open>--dump-mem\<close>, \<open>addr,value\<close> for \<open>--const\<close>, and \<open>name=value\<close> for \<open>--init-reg\<close> with each of
  the thirty register names give exactly the region, the constant, and the index of the
  register with its value, over the whole range of the integers.
\<close>

theorem option_values_roundtrip:
  "value_reader read_mem_region (decimal (unat (mr_start r)) @ '','' @ decimal (unat (mr_length r)))
     = Some \<lparr>mr_start = mr_start r, mr_length = mr_length r\<rparr>
   \<and> value_reader read_mem_init (decimal (unat addr) @ '','' @ decimal (unat v)) = Some (addr, v)
   \<and> list_all (\<lambda>i. value_reader read_reg_init (gp_regs ! i @ ''='' @ decimal (unat v)) = Some (i, v)) [0..<30]"
proof (intro conjI)
  show "value_reader read_mem_region (decimal (unat (mr_start r)) @ '','' @ decimal (unat (mr_length r)))
     = Some \<lparr>mr_start = mr_start r, mr_length = mr_length r\<rparr>"
    using word_text(2) [OF stops_comma, of "mr_start r"] word_text(2) [OF stops_Nil, of "mr_length r"]
    by (simp add: value_reader_def read_mem_region_def read_pair_def)
  show "value_reader read_mem_init (decimal (unat addr) @ '','' @ decimal (unat v)) = Some (addr, v)"
    using word_text(1) [OF stops_comma, of addr] word_text(1) [OF stops_Nil, of v]
    by (simp add: value_reader_def read_mem_init_def read_pair_def)
  have names: "list_all (\<lambda>name. length name \<le> 15 \<and> takeWhile (\<lambda>c. c \<noteq> CHR ''='') name = name) gp_regs"
    by code_simp
  have "value_reader read_reg_init (gp_regs ! i @ ''='' @ decimal (unat v)) = Some (i, v)" if "i < 30" for i
  proof -
    have i: "i < length gp_regs" using that by (simp add: gp_regs_def)
    with names have n: "length (gp_regs ! i) \<le> 15" "takeWhile (\<lambda>c. c \<noteq> CHR ''='') (gp_regs ! i) = gp_regs ! i"
      by (simp_all add: list_all_length)
    then have "\<forall>c \<in> set (gp_regs ! i). c \<noteq> CHR ''=''" by (metis set_takeWhileD)
    then have t: "takeWhile (\<lambda>c. c \<noteq> CHR ''='') (gp_regs ! i @ CHR ''='' # s) = gp_regs ! i"
      "dropWhile (\<lambda>c. c \<noteq> CHR ''='') (gp_regs ! i @ CHR ''='' # s) = CHR ''='' # s" for s
      by (simp_all add: takeWhile_append dropWhile_append)
    show ?thesis
      using n(1) reg_index_nth [OF gp_regs_distinct i] word_text(1) [OF stops_Nil, of v]
      by (simp add: value_reader_def read_reg_init_def Let_def t)
  qed
  then show "list_all (\<lambda>i. value_reader read_reg_init (gp_regs ! i @ ''='' @ decimal (unat v)) = Some (i, v)) [0..<30]"
    by (simp add: list_all_iff)
qed

end
