(* ===== verification/Args.thy ===== *)
theory Args
  imports Cli
begin

text \<open>
  The command line (\<open>args.hxx\<close>, and the options of \<open>main\<close> in \<open>conspiracion.cpp\<close>): the classes of the
  library that the simulator uses, without commands, groups and completion, of which it has none.
  A child of the parser is a record whose \<open>kind\<close> is its class; its template parameter is a type of
  values with a reader. A list of children is the group; an iterator is the list of the words
  that follow. The three exceptions that can be thrown are values of \<open>args_error\<close>.
\<close>

section \<open>Flags and positionals\<close>

datatype either_flag = Short char | Long string

datatype child_kind = Flag | Value_Flag | Value_Flag_List | Positional

datatype args_error = Parse_Error string | Extra_Error string | Required_Error string

record 'v child =
  kind :: child_kind
  name :: string
  shorts :: string
  longs :: "string list"
  single :: bool
  required :: bool
  kick_out :: bool
  matched :: bool
  is_ready :: bool
  held :: "'v list"
  default_value :: "'v list"
  reader :: "string \<Rightarrow> 'v option"

definition flag_str :: "string \<Rightarrow> string \<Rightarrow> either_flag \<Rightarrow> string" where
  "flag_str short_prefix long_prefix fl = (case fl of Short c \<Rightarrow> short_prefix @ [c] | Long s \<Rightarrow> long_prefix @ s)"

definition in_quotes :: "string \<Rightarrow> string" where
  "in_quotes s = [CHR 0x27] @ s @ [CHR 0x27]"

definition matcher_match :: "'v child \<Rightarrow> either_flag \<Rightarrow> bool" where
  "matcher_match c fl = (case fl of Short ch \<Rightarrow> ch \<in> set (shorts c) | Long s \<Rightarrow> s \<in> set (longs c))"

definition get_long_or_any :: "'v child \<Rightarrow> either_flag" where
  "get_long_or_any c = (if longs c \<noteq> [] then Long (hd (longs c)) else if shorts c \<noteq> [] then Short (hd (shorts c)) else Short CHR '' '')"

text \<open>The numbers of arguments, least and largest.\<close>

definition number_of_arguments :: "'v child \<Rightarrow> nat \<times> nat" where
  "number_of_arguments c = (if kind c = Flag then (0, 0) else (1, 1))"

definition reset_child :: "'v child \<Rightarrow> 'v child" where
  "reset_child c =
     (case kind c of
        Flag \<Rightarrow> c\<lparr>matched := False\<rparr>
      | Positional \<Rightarrow> c\<lparr>matched := False, is_ready := True, held := default_value c\<rparr>
      | _ \<Rightarrow> c\<lparr>matched := False, held := default_value c\<rparr>)"

text \<open>A match marks the child; the first match of a list drops its default values.\<close>

definition match_child :: "either_flag \<Rightarrow> 'v child \<Rightarrow> args_error + 'v child option" where
  "match_child fl c =
     (if kind c \<noteq> Positional \<and> matcher_match c fl then
        if single c \<and> matched c then
          Inl (Extra_Error (''Flag '' @ in_quotes (flag_str [] [] fl) @ '' was passed multiple times, but is only allowed to be passed once''))
        else if kind c = Value_Flag_List \<and> \<not> matched c then Inr (Some (c\<lparr>matched := True, held := []\<rparr>))
        else Inr (Some (c\<lparr>matched := True\<rparr>))
      else Inr None)"

fun match_group :: "either_flag \<Rightarrow> 'v child list \<Rightarrow> args_error + (nat \<times> 'v child list) option" where
  "match_group fl [] = Inr None"
| "match_group fl (c # cs) =
     (case match_child fl c of
        Inl e \<Rightarrow> Inl e
      | Inr (Some c') \<Rightarrow> Inr (Some (0, c' # cs))
      | Inr None \<Rightarrow>
          (case match_group fl cs of
             Inl e \<Rightarrow> Inl e
           | Inr None \<Rightarrow> Inr None
           | Inr (Some (i, cs')) \<Rightarrow> Inr (Some (Suc i, c # cs'))))"

definition invalid_value :: "string \<Rightarrow> string \<Rightarrow> args_error" where
  "invalid_value nm val = Parse_Error (''Argument '' @ in_quotes nm @ '' received invalid value type '' @ in_quotes val)"

text \<open>\<open>ParseValue\<close> of the four classes; \<open>values_.at(0)\<close> is there whenever it is called.\<close>

definition parse_value :: "string list \<Rightarrow> 'v child \<Rightarrow> args_error + 'v child" where
  "parse_value vals c =
     (case kind c of
        Flag \<Rightarrow> Inr c
      | Value_Flag \<Rightarrow> (case reader c (hd vals) of None \<Rightarrow> Inl (invalid_value (name c) (hd vals)) | Some v \<Rightarrow> Inr (c\<lparr>held := [v]\<rparr>))
      | Value_Flag_List \<Rightarrow>
          (case reader c (hd vals) of None \<Rightarrow> Inl (invalid_value (name c) (hd vals)) | Some v \<Rightarrow> Inr (c\<lparr>held := held c @ [v]\<rparr>))
      | Positional \<Rightarrow>
          (case reader c (hd vals) of None \<Rightarrow> Inl (invalid_value (name c) (hd vals))
           | Some v \<Rightarrow> Inr (c\<lparr>held := [v], is_ready := False, matched := True\<rparr>)))"

fun next_positional :: "'v child list \<Rightarrow> nat option" where
  "next_positional [] = None"
| "next_positional (c # cs) = (if kind c = Positional \<and> is_ready c then Some 0 else map_option Suc (next_positional cs))"

definition validate_child :: "string \<Rightarrow> string \<Rightarrow> 'v child \<Rightarrow> args_error option" where
  "validate_child short_prefix long_prefix c =
     (if \<not> matched c \<and> required c then
        Some (Required_Error
          (if kind c = Positional then ''Option '' @ in_quotes (name c) @ '' is required''
           else ''Flag '' @ in_quotes (flag_str short_prefix long_prefix (get_long_or_any c)) @ '' is required''))
      else None)"

fun validate_group :: "string \<Rightarrow> string \<Rightarrow> 'v child list \<Rightarrow> args_error option" where
  "validate_group sp lp [] = None"
| "validate_group sp lp (c # cs) = (case validate_child sp lp c of Some e \<Rightarrow> Some e | None \<Rightarrow> validate_group sp lp cs)"

section \<open>The parser\<close>

record parser =
  longprefix :: string
  shortprefix :: string
  longseparator :: string
  terminator :: string
  allow_joined_short :: bool
  allow_joined_long :: bool
  allow_separate_short :: bool
  allow_separate_long :: bool

definition default_parser :: parser where
  "default_parser =
     \<lparr>longprefix = ''--'', shortprefix = ''-'', longseparator = ''='', terminator = ''--'', allow_joined_short = True,
      allow_joined_long = True, allow_separate_short = True, allow_separate_long = True\<rparr>"

datatype option_type = Long_Flag | Short_Flag | Positional_Word

definition starts_with :: "string \<Rightarrow> string \<Rightarrow> bool" where
  "starts_with p s \<longleftrightarrow> take (length p) s = p"

definition parse_option :: "parser \<Rightarrow> string \<Rightarrow> option_type" where
  "parse_option p s =
     (if starts_with (longprefix p) s \<and> length (longprefix p) < length s then Long_Flag
      else if starts_with (shortprefix p) s \<and> length (shortprefix p) < length s then Short_Flag
      else Positional_Word)"

text \<open>\<open>find\<close> of a string in a string: the first position, if any.\<close>

fun find_text :: "string \<Rightarrow> string \<Rightarrow> nat option" where
  "find_text p [] = (if p = [] then Some 0 else None)"
| "find_text p (c # s) = (if starts_with p (c # s) then Some 0 else map_option Suc (find_text p s))"

text \<open>The loop over separate values, and the values of a flag or an error message.\<close>

fun separate_values :: "parser \<Rightarrow> nat \<Rightarrow> nat \<Rightarrow> string list \<Rightarrow> string list \<Rightarrow> string list \<times> string list" where
  "separate_values p lo hi vals [] = (vals, [])"
| "separate_values p lo hi vals (w # ws) =
     (if length vals < hi \<and> (length vals < lo \<or> parse_option p w = Positional_Word)
      then separate_values p lo hi (vals @ [w]) ws else (vals, w # ws))"

definition quoted_flag :: "string \<Rightarrow> string \<Rightarrow> string" where
  "quoted_flag arg t = ''Flag '' @ in_quotes arg @ t"

definition count_values :: "nat \<times> nat \<Rightarrow> string \<Rightarrow> string list \<times> string list \<Rightarrow> string + string list \<times> string list" where
  "count_values nargs arg r =
     (let (lo, hi) = nargs; n = length (fst r) in
      if hi < n then Inl (''Passed an argument into a non-argument flag: '' @ arg)
      else if n < lo then
        Inl (if lo = 1 \<and> hi = 1 then quoted_flag arg '' requires an argument but received none''
             else if lo = 1 then quoted_flag arg '' requires at least one argument but received none''
             else if lo \<noteq> hi then quoted_flag arg ('' requires at least '' @ decimal lo @ '' arguments but received '' @ decimal n)
             else quoted_flag arg ('' requires '' @ decimal lo @ '' arguments but received '' @ decimal n))
      else Inr r)"

definition parse_args_values ::
  "parser \<Rightarrow> 'v child \<Rightarrow> string \<Rightarrow> string list \<Rightarrow> bool \<Rightarrow> bool \<Rightarrow> string option \<Rightarrow> bool \<Rightarrow> string + string list \<times> string list" where
  "parse_args_values p c arg ws allow_separate allow_joined joined can_discard =
     (let nargs = number_of_arguments c; lo = fst nargs; hi = snd nargs in
      case joined of
        Some j \<Rightarrow>
          if \<not> allow_joined \<and> lo \<noteq> 0 then Inl (quoted_flag arg '' was passed a joined argument, but these are disallowed'')
          else count_values nargs arg (if \<not> can_discard \<or> hi \<noteq> 0 then [j] else [], ws)
      | None \<Rightarrow>
          if \<not> allow_separate then
            if lo \<noteq> 0 then Inl (quoted_flag arg '' was passed a separate argument, but these are disallowed'')
            else count_values nargs arg ([], ws)
          else count_values nargs arg (separate_values p lo hi [] ws))"

text \<open>
  A long flag and the short flags of a word. The result is the words that are left, the children,
  and \<open>False\<close> when a flag kicks out.
\<close>

type_synonym 'v progress = "args_error + string list \<times> 'v child list \<times> bool"

definition parse_long :: "parser \<Rightarrow> string \<Rightarrow> string list \<Rightarrow> 'v child list \<Rightarrow> 'v progress" where
  "parse_long p chunk ws cs =
     (let argchunk = drop (length (longprefix p)) chunk;
          separator = (if longseparator p = [] then None else find_text (longseparator p) argchunk);
          arg = (case separator of Some k \<Rightarrow> take k argchunk | None \<Rightarrow> argchunk);
          joined = (case separator of Some k \<Rightarrow> Some (drop (k + length (longseparator p)) argchunk) | None \<Rightarrow> None)
      in case match_group (Long arg) cs of
          Inl e \<Rightarrow> Inl e
        | Inr None \<Rightarrow> Inl (Parse_Error (''Flag could not be matched: '' @ arg))
        | Inr (Some (i, cs1)) \<Rightarrow>
            (case parse_args_values p (cs1 ! i) arg ws (allow_separate_long p) (allow_joined_long p) joined False of
               Inl msg \<Rightarrow> Inl (Parse_Error msg)
             | Inr (vals, ws1) \<Rightarrow>
                 (case parse_value vals (cs1 ! i) of
                    Inl e \<Rightarrow> Inl e
                  | Inr c \<Rightarrow> Inr (ws1, cs1[i := c], \<not> kick_out c))))"

fun parse_short :: "parser \<Rightarrow> string \<Rightarrow> string list \<Rightarrow> 'v child list \<Rightarrow> 'v progress" where
  "parse_short p [] ws cs = Inr (ws, cs, True)"
| "parse_short p (arg # others) ws cs =
     (case match_group (Short arg) cs of
        Inl e \<Rightarrow> Inl e
      | Inr None \<Rightarrow> Inl (Parse_Error (''Flag could not be matched: '' @ in_quotes [arg]))
      | Inr (Some (i, cs1)) \<Rightarrow>
          (case parse_args_values p (cs1 ! i) [arg] ws (allow_separate_short p) (allow_joined_short p)
              (if others \<noteq> [] then Some others else None) (others \<noteq> []) of
             Inl msg \<Rightarrow> Inl (Parse_Error msg)
           | Inr (vals, ws1) \<Rightarrow>
               (case parse_value vals (cs1 ! i) of
                  Inl e \<Rightarrow> Inl e
                | Inr c \<Rightarrow>
                    if kick_out c then Inr (ws1, cs1[i := c], False)
                    else if vals \<noteq> [] then Inr (ws1, cs1[i := c], True)
                    else parse_short p others ws1 (cs1[i := c]))))"

definition parse_positional :: "string \<Rightarrow> 'v child list \<Rightarrow> args_error + 'v child list \<times> bool" where
  "parse_positional chunk cs =
     (case next_positional cs of
        None \<Rightarrow> Inl (Parse_Error (''Passed in argument, but no positional arguments were ready to receive it: '' @ chunk))
      | Some i \<Rightarrow>
          (case parse_value [chunk] (cs ! i) of
             Inl e \<Rightarrow> Inl e
           | Inr c \<Rightarrow> Inr (cs[i := c], \<not> kick_out c)))"

lemma separate_values_shorter: "length (snd (separate_values p lo hi vals ws)) \<le> length ws"
  by (induction p lo hi vals ws rule: separate_values.induct) (auto simp: le_Suc_eq)

lemma parse_args_values_shorter:
  "parse_args_values p c arg ws a b joined d = Inr (vals, ws') \<Longrightarrow> length ws' \<le> length ws"
  using separate_values_shorter [of p "fst (number_of_arguments c)" "snd (number_of_arguments c)" "[]" ws]
  by (auto simp: parse_args_values_def count_values_def Let_def split: option.splits if_splits prod.splits)

lemma parse_long_shorter: "parse_long p chunk ws cs = Inr (ws', r) \<Longrightarrow> length ws' \<le> length ws"
  by (auto simp: parse_long_def Let_def split: sum.splits option.splits prod.splits dest: parse_args_values_shorter)

lemma parse_short_shorter: "parse_short p others ws cs = Inr (ws', r) \<Longrightarrow> length ws' \<le> length ws"
  by (induction p others ws cs rule: parse_short.induct)
    (fastforce split: sum.splits option.splits prod.splits if_splits dest: parse_args_values_shorter)+

text \<open>The loop over the words; the result is the words after a kick-out and the children.\<close>

function parse_words :: "parser \<Rightarrow> bool \<Rightarrow> string list \<Rightarrow> 'v child list \<Rightarrow> args_error + string list \<times> 'v child list" where
  "parse_words p terminated [] cs =
     (case validate_group (shortprefix p) (longprefix p) cs of Some e \<Rightarrow> Inl e | None \<Rightarrow> Inr ([], cs))"
| "parse_words p terminated (chunk # ws) cs =
     (if \<not> terminated \<and> chunk = terminator p then parse_words p True ws cs
      else if \<not> terminated \<and> parse_option p chunk = Long_Flag then
        (case parse_long p chunk ws cs of
           Inl e \<Rightarrow> Inl e
         | Inr (ws1, cs1, go) \<Rightarrow> if go then parse_words p terminated ws1 cs1 else Inr (ws1, cs1))
      else if \<not> terminated \<and> parse_option p chunk = Short_Flag then
        (case parse_short p (drop (length (shortprefix p)) chunk) ws cs of
           Inl e \<Rightarrow> Inl e
         | Inr (ws1, cs1, go) \<Rightarrow> if go then parse_words p terminated ws1 cs1 else Inr (ws1, cs1))
      else
        (case parse_positional chunk cs of
           Inl e \<Rightarrow> Inl e
         | Inr (cs1, go) \<Rightarrow> if go then parse_words p terminated ws cs1 else Inr (ws, cs1)))"
  by pat_completeness auto

termination
proof (relation "measure (\<lambda>(_, _, ws, _). length ws)")
qed (auto dest!: parse_long_shorter parse_short_shorter)

definition parse_args :: "parser \<Rightarrow> string list \<Rightarrow> 'v child list \<Rightarrow> args_error + string list \<times> 'v child list" where
  "parse_args p args cs = parse_words p False args (map reset_child cs)"

end
