(* ===== verification/Options.thy ===== *)
theory Options
  imports Args
begin

text \<open>
  The options of the simulator (\<open>main\<close> in \<open>conspiracion.cpp\<close>): the children it adds to the parser, what
  it takes from them after the parse, and the whole program from its words on. The reference is a
  grammar: a command line is a sequence of settings, then possibly \<open>--\<close> and the image. The options
  \<open>coverage\<close> and \<open>trace\<close> are read, but act only in builds with those features.
\<close>

section \<open>Definitions\<close>

datatype option_value =
    Reg (un_reg: "nat \<times> u32") | Unsigned (un_unsigned: u32) | Signed (un_signed: int) | Region (un_region: mem_region)
  | Constant (un_constant: "u32 \<times> u32") | Load (un_load: "u32 \<times> string") | Text (un_text: string)

definition read_int :: "string \<Rightarrow> (int \<times> string) option" where
  "read_int s =
     (let (neg, rest) = scan_sign (dropWhile is_blank s) in
      case scan_digits 10 rest of
        None \<Rightarrow> None
      | Some (v, rest') \<Rightarrow>
          (let n = (if neg then - int v else int v) in
           if - (2 ^ 31) \<le> n \<and> n < 2 ^ 31 then Some (n, rest') else None))"

definition option_child ::
  "child_kind \<Rightarrow> string \<Rightarrow> string \<Rightarrow> option_value list \<Rightarrow> (string \<Rightarrow> option_value option) \<Rightarrow> option_value child" where
  "option_child k nm lng d rd =
     \<lparr>kind = k, name = nm, shorts = [], longs = [lng], single = False, required = False, kick_out = False,
      matched = False, is_ready = True, held = d, default_value = d, reader = rd\<rparr>"

definition flag_child :: "string \<Rightarrow> option_value child" where
  "flag_child nm = option_child Flag nm nm [] (\<lambda>_. None)"

definition image_child :: "option_value child" where
  "image_child =
     \<lparr>kind = Positional, name = ''image'', shorts = [], longs = [], single = False, required = True, kick_out = False,
      matched = False, is_ready = True, held = [Text []], default_value = [Text []], reader = \<lambda>s. Some (Text s)\<rparr>"

definition main_children :: "option_value child list" where
  "main_children =
     [option_child Value_Flag_List ''reg=val'' ''init-reg'' [] (\<lambda>s. map_option Reg (value_reader read_reg_init s)),
      flag_child ''dump-regs'', flag_child ''headless'', flag_child ''accurate-video'', flag_child ''no-tty'', flag_child ''start-halted'',
      option_child Value_Flag ''cycles'' ''cycles'' [Unsigned 0] (\<lambda>s. map_option Unsigned (value_reader read_word32 s)),
      option_child Value_Flag ''fd'' ''control-fd'' [Signed (-1)] (\<lambda>s. map_option Signed (value_reader read_int s)),
      option_child Value_Flag_List ''addr,length'' ''dump-mem'' [] (\<lambda>s. map_option Region (value_reader read_mem_region s)),
      option_child Value_Flag_List ''addr,value'' ''const'' [] (\<lambda>s. map_option Constant (value_reader read_mem_init s)),
      option_child Value_Flag_List ''addr,filename'' ''load'' [] (\<lambda>s. map_option Load (value_reader read_file_load s)),
      option_child Value_Flag ''coverage'' ''coverage'' [Text []] (\<lambda>s. Some (Text s)),
      option_child Value_Flag ''trace'' ''trace'' [Text []] (\<lambda>s. Some (Text s)),
      image_child]"

record cli_opts = sim_opts +
  dump_mem :: "mem_region list"
  coverage_out :: "string option"
  trace_out :: "string option"

definition options_of :: "option_value child list \<Rightarrow> cli_opts" where
  "options_of cs =
     \<lparr>headless = matched (cs ! 2), accurate_video = matched (cs ! 3), no_tty = matched (cs ! 4), start_halted = matched (cs ! 5),
      max_cycles = un_unsigned (hd (held (cs ! 6))), control_fd = un_signed (hd (held (cs ! 7))), dump_regs = matched (cs ! 1),
      init_regs = map un_reg (held (cs ! 0)), const_maps = map un_constant (held (cs ! 9)), file_loads = map un_load (held (cs ! 10)),
      image_file = un_text (hd (held (cs ! 13))), dump_mem = map un_region (held (cs ! 8)),
      coverage_out = (if matched (cs ! 11) then Some (un_text (hd (held (cs ! 11)))) else None),
      trace_out = (if matched (cs ! 12) then Some (un_text (hd (held (cs ! 12)))) else None)\<rparr>"

text \<open>
  \<open>ParseCLI\<close> takes the first word as the name of the program; without one it makes a string of a null pointer.
\<close>

definition main_options :: "string list \<Rightarrow> (args_error + cli_opts) res" where
  "main_options argv =
     (case own_arguments argv of
        [] \<Rightarrow> Inl Null_Deref
      | prog # args \<Rightarrow>
          (case parse_args default_parser args main_children of
             Inl e \<Rightarrow> Inr (Inl e)
           | Inr (_, cs) \<Rightarrow> Inr (Inr (options_of cs))))"

text \<open>The program: a command line that is not accepted ends it with \<open>EXIT_FAILURE\<close>.\<close>

definition main_program :: "string list \<Rightarrow> 'w hardware \<Rightarrow> 'w env \<Rightarrow> ('w machine option \<times> bool) res option" where
  "main_program argv hw e =
     (case main_options argv of
        Inl f \<Rightarrow> Some (Inl f)
      | Inr (Inl _) \<Rightarrow> Some (Inr (None, False))
      | Inr (Inr opts) \<Rightarrow> sim_main (sim_opts.truncate opts) (dump_mem opts) hw e)"

section \<open>The grammar\<close>

datatype setting = Switch string | Joined string string | Separate string string | Image string

fun setting_words :: "setting \<Rightarrow> string list" where
  "setting_words (Switch n) = [''--'' @ n]"
| "setting_words (Joined n v) = [''--'' @ n @ ''='' @ v]"
| "setting_words (Separate n v) = [''--'' @ n, v]"
| "setting_words (Image w) = [w]"

definition switches :: "string list" where
  "switches = [''dump-regs'', ''headless'', ''accurate-video'', ''no-tty'', ''start-halted'']"

text \<open>What the text of an option is read as; \<open>None\<close> when there is no such option or it is no such value.\<close>

definition read_as :: "string \<Rightarrow> string \<Rightarrow> option_value option" where
  "read_as n v =
     (if n = ''init-reg'' then map_option Reg (value_reader read_reg_init v)
      else if n = ''cycles'' then map_option Unsigned (value_reader read_word32 v)
      else if n = ''control-fd'' then map_option Signed (value_reader read_int v)
      else if n = ''dump-mem'' then map_option Region (value_reader read_mem_region v)
      else if n = ''const'' then map_option Constant (value_reader read_mem_init v)
      else if n = ''load'' then map_option Load (value_reader read_file_load v)
      else if n = ''coverage'' \<or> n = ''trace'' then Some (Text v)
      else None)"

fun well_formed :: "setting \<Rightarrow> bool" where
  "well_formed (Switch n) = (n \<in> set switches)"
| "well_formed (Joined n v) = (read_as n v \<noteq> None)"
| "well_formed (Separate n v) = (read_as n v \<noteq> None)"
| "well_formed (Image w) = (take 1 w \<noteq> ''-'' \<or> w = ''-'')"

fun value_of :: "string \<Rightarrow> setting \<Rightarrow> option_value list" where
  "value_of n (Joined m v) = (if m = n then [the (read_as n v)] else [])"
| "value_of n (Separate m v) = (if m = n then [the (read_as n v)] else [])"
| "value_of n _ = []"

fun image_of :: "setting \<Rightarrow> string list" where
  "image_of (Image w) = [w]"
| "image_of _ = []"

definition given :: "string \<Rightarrow> setting list \<Rightarrow> option_value list" where
  "given n ss = concat (map (value_of n) ss)"

definition images :: "setting list \<Rightarrow> string list" where
  "images ss = concat (map image_of ss)"

definition last_given :: "option_value \<Rightarrow> string \<Rightarrow> setting list \<Rightarrow> option_value" where
  "last_given d n ss = last (d # given n ss)"

definition meaning :: "setting list \<Rightarrow> string \<Rightarrow> cli_opts" where
  "meaning ss img =
     \<lparr>headless = (Switch ''headless'' \<in> set ss), accurate_video = (Switch ''accurate-video'' \<in> set ss),
      no_tty = (Switch ''no-tty'' \<in> set ss), start_halted = (Switch ''start-halted'' \<in> set ss),
      max_cycles = un_unsigned (last_given (Unsigned 0) ''cycles'' ss), control_fd = un_signed (last_given (Signed (-1)) ''control-fd'' ss),
      dump_regs = (Switch ''dump-regs'' \<in> set ss), init_regs = map un_reg (given ''init-reg'' ss),
      const_maps = map un_constant (given ''const'' ss), file_loads = map un_load (given ''load'' ss), image_file = img,
      dump_mem = map un_region (given ''dump-mem'' ss),
      coverage_out = (if given ''coverage'' ss \<noteq> [] then Some (un_text (last (given ''coverage'' ss))) else None),
      trace_out = (if given ''trace'' ss \<noteq> [] then Some (un_text (last (given ''trace'' ss))) else None)\<rparr>"

section \<open>The children after some settings\<close>

lemma given_simps [simp]:
  "given n [] = []" "given n (ss @ ts) = given n ss @ given n ts" "given n (x # ss) = value_of n x @ given n ss"
  "images [] = []" "images (ss @ ts) = images ss @ images ts" "images (x # ss) = image_of x @ images ss"
  by (simp_all add: given_def images_def)

definition key :: "option_value child \<Rightarrow> string" where
  "key c = hd (longs c)"

definition child_after :: "setting list \<Rightarrow> option_value child \<Rightarrow> option_value child" where
  "child_after ss c =
     (case kind c of
        Flag \<Rightarrow> c\<lparr>matched := Switch (key c) \<in> set ss\<rparr>
      | Value_Flag \<Rightarrow> c\<lparr>matched := given (key c) ss \<noteq> [], held := [last (hd (default_value c) # given (key c) ss)]\<rparr>
      | Value_Flag_List \<Rightarrow> c\<lparr>matched := given (key c) ss \<noteq> [], held := given (key c) ss\<rparr>
      | Positional \<Rightarrow> c\<lparr>matched := images ss \<noteq> [], is_ready := images ss = [], held := [Text (last ([] # images ss))]\<rparr>)"

definition children_after :: "setting list \<Rightarrow> option_value child list" where
  "children_after ss = map (child_after ss) main_children"

definition regular :: "option_value child \<Rightarrow> bool" where
  "regular c \<longleftrightarrow> shorts c = [] \<and> \<not> single c \<and> \<not> kick_out c
     \<and> (if kind c = Positional then longs c = [] \<and> required c \<and> reader c = (\<lambda>s. Some (Text s))
        else longs c = [key c] \<and> CHR ''='' \<notin> set (key c) \<and> \<not> required c
          \<and> (if kind c = Flag then key c \<in> set switches else reader c = read_as (key c)))"

lemma main_regular: "list_all regular main_children"
  by (simp add: main_children_def regular_def option_child_def flag_child_def image_child_def key_def switches_def read_as_def fun_eq_iff)

lemma main_keys: "map key (take 13 main_children) =
    [''init-reg'', ''dump-regs'', ''headless'', ''accurate-video'', ''no-tty'', ''start-halted'', ''cycles'', ''control-fd'',
     ''dump-mem'', ''const'', ''load'', ''coverage'', ''trace'']"
  by (simp add: main_children_def option_child_def flag_child_def key_def)

lemma main_positional: "length main_children = 14" "\<forall>i < 13. kind (main_children ! i) \<noteq> Positional" "kind (main_children ! 13) = Positional"
  by (simp_all add: main_children_def option_child_def flag_child_def image_child_def All_less_Suc2 numeral_nat)

lemma keys_distinct:
  assumes "i < 13" "j < 13" "key (main_children ! i) = key (main_children ! j)"
  shows "i = j"
proof -
  have "distinct (map key (take 13 main_children))" unfolding main_keys by simp
  then show ?thesis using assms by (simp add: distinct_conv_nth main_positional(1)) blast
qed

lemma child_after_frame [simp]:
  "kind (child_after ss c) = kind c" "shorts (child_after ss c) = shorts c" "longs (child_after ss c) = longs c"
  "key (child_after ss c) = key c" "single (child_after ss c) = single c" "kick_out (child_after ss c) = kick_out c"
  "required (child_after ss c) = required c" "reader (child_after ss c) = reader c" "name (child_after ss c) = name c"
  by (simp_all add: child_after_def key_def split: child_kind.split)

lemma after_nth: "i < 14 \<Longrightarrow> children_after ss ! i = child_after ss (main_children ! i)" "length (children_after ss) = 14"
  by (simp_all add: children_after_def main_positional)

lemma regular_nth: "i < 14 \<Longrightarrow> regular (main_children ! i)"
  using main_regular by (simp add: list_all_length main_positional(1))

section \<open>One setting\<close>

lemma match_group_none: "list_all (\<lambda>c. match_child fl c = Inr None) cs \<Longrightarrow> match_group fl cs = Inr None"
  by (induction cs) auto

lemma match_group_first:
  "i < length cs \<Longrightarrow> (\<And>j. j < i \<Longrightarrow> match_child fl (cs ! j) = Inr None) \<Longrightarrow> match_child fl (cs ! i) = Inr (Some c')
    \<Longrightarrow> match_group fl cs = Inr (Some (i, cs[i := c']))"
proof (induction cs arbitrary: i)
  case (Cons c cs)
  show ?case
  proof (cases i)
    case 0
    then show ?thesis using Cons.prems(3) by simp
  next
    case (Suc k)
    have "match_child fl c = Inr None" using Cons.prems(2) [of 0] Suc by simp
    moreover have "match_child fl (cs ! j) = Inr None" if "j < k" for j using Cons.prems(2) [of "Suc j"] Suc that by simp
    ultimately show ?thesis using Cons.IH [of k] Cons.prems(1,3) Suc by simp
  qed
qed simp

definition marked :: "'v child \<Rightarrow> 'v child" where
  "marked c = (if kind c = Value_Flag_List \<and> \<not> matched c then c\<lparr>matched := True, held := []\<rparr> else c\<lparr>matched := True\<rparr>)"

lemma match_regular:
  assumes "regular c"
  shows "match_child (Long n) (child_after ss c) =
      (if kind c \<noteq> Positional \<and> key c = n then Inr (Some (marked (child_after ss c))) else Inr None)"
    "match_child (Short ch) (child_after ss c) = Inr None"
  using assms by (auto simp: match_child_def matcher_match_def regular_def marked_def)

lemma match_none: "(\<And>i. i < 13 \<Longrightarrow> key (main_children ! i) \<noteq> n) \<Longrightarrow> match_group (Long n) (children_after ss) = Inr None"
  "match_group (Short ch) (children_after ss) = Inr None"
proof -
  assume n: "\<And>i. i < 13 \<Longrightarrow> key (main_children ! i) \<noteq> n"
  have "match_child (Long n) (children_after ss ! i) = Inr None" if "i < 14" for i
    using that n [of i] match_regular(1) [OF regular_nth [OF that], of n ss] main_positional(3)
    by (cases "i = 13") (auto simp: after_nth)
  then show "match_group (Long n) (children_after ss) = Inr None"
    by (intro match_group_none) (simp add: list_all_length after_nth(2))
next
  have "match_child (Short ch) (children_after ss ! i) = Inr None" if "i < 14" for i
    using match_regular(2) [OF regular_nth [OF that]] that by (simp add: after_nth)
  then show "match_group (Short ch) (children_after ss) = Inr None"
    by (intro match_group_none) (simp add: list_all_length after_nth(2))
qed

lemma match_some:
  assumes "i < 13"
  shows "match_group (Long (key (main_children ! i))) (children_after ss) = Inr (Some (i, (children_after ss)[i := marked (child_after ss (main_children ! i))]))"
proof (rule match_group_first)
  show "i < length (children_after ss)" using assms by (simp add: after_nth)
  show "match_child (Long (key (main_children ! i))) (children_after ss ! j) = Inr None" if "j < i" for j
    using that assms keys_distinct [of i j] match_regular(1) [OF regular_nth, of j] by (auto simp: after_nth)
  show "match_child (Long (key (main_children ! i))) (children_after ss ! i) = Inr (Some (marked (child_after ss (main_children ! i))))"
    using assms main_positional(2) match_regular(1) [OF regular_nth, of i] by (simp add: after_nth)
qed

text \<open>A setting changes its own child only.\<close>

lemma after_update:
  assumes "i < 14" "c' = child_after (ss @ [x]) (main_children ! i)"
    "\<And>j. j < 14 \<Longrightarrow> j \<noteq> i \<Longrightarrow> child_after (ss @ [x]) (main_children ! j) = child_after ss (main_children ! j)"
  shows "(children_after ss)[i := c'] = children_after (ss @ [x])"
proof (rule nth_equalityI)
  show "(children_after ss)[i := c'] ! j = children_after (ss @ [x]) ! j" if "j < length ((children_after ss)[i := c'])" for j
    using that assms by (cases "j = i") (simp_all add: after_nth)
qed (simp add: after_nth)

text \<open>The key a setting has to do with.\<close>

fun subject :: "setting \<Rightarrow> string option" where
  "subject (Switch n) = Some n"
| "subject (Joined n v) = Some n"
| "subject (Separate n v) = Some n"
| "subject (Image w) = None"

lemma child_after_other:
  assumes "if kind c = Positional then subject x \<noteq> None else subject x \<noteq> Some (key c)"
  shows "child_after (ss @ [x]) c = child_after ss c"
  using assms by (cases x) (auto simp: child_after_def split: child_kind.split)

lemma after_option:
  assumes "i < 13" "subject x = Some (key (main_children ! i))" "c' = child_after (ss @ [x]) (main_children ! i)"
  shows "(children_after ss)[i := c'] = children_after (ss @ [x])"
proof (rule after_update)
  show "child_after (ss @ [x]) (main_children ! j) = child_after ss (main_children ! j)" if "j < 14" "j \<noteq> i" for j
    using that assms(1,2) keys_distinct [of i j] main_positional(3)
    by (intro child_after_other) (cases "j = 13", auto)
qed (use assms in simp_all)

lemma after_image: "child_after (ss @ [Image w]) (main_children ! 13) = c' \<Longrightarrow> (children_after ss)[13 := c'] = children_after (ss @ [Image w])"
proof (rule after_update)
  show "child_after (ss @ [Image w]) (main_children ! j) = child_after ss (main_children ! j)" if "j < 14" "j \<noteq> 13" for j
    using that main_positional(2) by (intro child_after_other) auto
qed simp_all

lemma find_separator: "find_text [c] s = (if c \<in> set s then Some (length (takeWhile (\<lambda>d. d \<noteq> c) s)) else None)"
  by (induction s) (auto simp: starts_with_def)

lemma take_prefix_part: "take (length (takeWhile P s)) s = takeWhile P s" "drop (length (takeWhile P s)) s = dropWhile P s"
  by (metis append_eq_conv_conj takeWhile_dropWhile_id)+

definition name_part :: "string \<Rightarrow> string" where
  "name_part t = takeWhile (\<lambda>d. d \<noteq> CHR ''='') t"

definition joined_part :: "string \<Rightarrow> string option" where
  "joined_part t = (if CHR ''='' \<in> set t then Some (tl (dropWhile (\<lambda>d. d \<noteq> CHR ''='') t)) else None)"

lemma parts_of_plain: "CHR ''='' \<notin> set t \<Longrightarrow> name_part t = t \<and> joined_part t = None"
  by (auto simp: name_part_def joined_part_def takeWhile_eq_all_conv)

lemma parts_of_joined: "CHR ''='' \<notin> set n \<Longrightarrow> name_part (n @ ''='' @ v) = n \<and> joined_part (n @ ''='' @ v) = Some v"
proof -
  assume "CHR ''='' \<notin> set n"
  then have "\<And>x. x \<in> set n \<Longrightarrow> x \<noteq> CHR ''=''" by auto
  then show ?thesis by (simp add: name_part_def joined_part_def takeWhile_append2 dropWhile_append2)
qed

lemma parts_joined: "joined_part t = Some v \<Longrightarrow> t = name_part t @ ''='' @ v"
  by (induction t) (auto simp: name_part_def joined_part_def split: if_splits)

lemma parts_none: "joined_part t = None \<Longrightarrow> t = name_part t"
  using parts_of_plain by (metis joined_part_def option.distinct(1))

lemma default_fields [simp]:
  "longprefix default_parser = ''--''" "shortprefix default_parser = ''-''" "longseparator default_parser = ''=''"
  "terminator default_parser = ''--''" "allow_joined_long default_parser" "allow_separate_long default_parser"
  by (simp_all add: default_parser_def)

text \<open>A long flag on the children after some settings.\<close>

lemma parse_long_parts:
  "parse_long default_parser (''--'' @ t) ws (children_after ss) =
     (case match_group (Long (name_part t)) (children_after ss) of
        Inl e \<Rightarrow> Inl e
      | Inr None \<Rightarrow> Inl (Parse_Error (''Flag could not be matched: '' @ name_part t))
      | Inr (Some (i, cs1)) \<Rightarrow>
          (case parse_args_values default_parser (cs1 ! i) (name_part t) ws True True (joined_part t) False of
             Inl msg \<Rightarrow> Inl (Parse_Error msg)
           | Inr (vals, ws1) \<Rightarrow>
               (case parse_value vals (cs1 ! i) of
                  Inl e \<Rightarrow> Inl e
                | Inr c \<Rightarrow> Inr (ws1, cs1[i := c], \<not> kick_out c))))"
proof (cases "CHR ''='' \<in> set t")
  case True
  then show ?thesis
    by (simp add: parse_long_def Let_def find_separator name_part_def joined_part_def take_prefix_part drop_Suc drop_tl
        cong del: option.case_cong_weak sum.case_cong_weak prod.case_cong_weak if_weak_cong)
next
  case False
  then show ?thesis using parts_of_plain [OF False] by (simp add: parse_long_def Let_def find_separator cong del: option.case_cong_weak sum.case_cong_weak prod.case_cong_weak)
qed

lemma marked_frame [simp]: "kind (marked c) = kind c" "reader (marked c) = reader c" "kick_out (marked c) = kick_out c" "name (marked c) = name c"
  by (simp_all add: marked_def)

lemma values_of_flag:
  "kind c = Flag \<Longrightarrow> parse_args_values p c arg ws True True None False = Inr ([], ws)"
  "kind c = Flag \<Longrightarrow> \<exists>msg. parse_args_values p c arg ws True True (Some j) False = Inl msg"
  by (cases ws; simp add: parse_args_values_def number_of_arguments_def count_values_def)+

lemma values_of_value:
  "kind c \<noteq> Flag \<Longrightarrow> parse_args_values p c arg ws True True (Some j) False = Inr ([j], ws)"
  "kind c \<noteq> Flag \<Longrightarrow> parse_args_values p c arg (v # ws) True True None False = Inr ([v], ws)"
  "kind c \<noteq> Flag \<Longrightarrow> \<exists>msg. parse_args_values p c arg [] True True None False = Inl msg"
  by (cases ws; simp add: parse_args_values_def number_of_arguments_def count_values_def)+

lemma flag_given:
  assumes "kind c = Flag"
  shows "parse_value [] (marked (child_after ss c)) = Inr (child_after (ss @ [Switch (key c)]) c)"
  using assms by (simp add: parse_value_def marked_def child_after_def)

lemma value_given:
  assumes "regular c" "kind c \<noteq> Flag" "kind c \<noteq> Positional" "value_of (key c) x = [the (read_as (key c) v)]"
  shows "parse_value [v] (marked (child_after ss c)) =
    (if read_as (key c) v = None then Inl (invalid_value (name c) v) else Inr (child_after (ss @ [x]) c))"
proof -
  have r: "reader c = read_as (key c)" using assms(1-3) by (auto simp: regular_def)
  show ?thesis
  proof (cases "kind c")
    case Value_Flag
    then show ?thesis using assms(4) by (auto simp: parse_value_def r child_after_def marked_def split: option.split)
  next
    case Value_Flag_List
    then show ?thesis using assms(4) by (auto simp: parse_value_def r child_after_def marked_def split: option.split)
  qed (use assms in simp_all)
qed

text \<open>What an option that exists is: a switch, or an option with a reading.\<close>

lemma option_kinds:
  assumes "i < 13"
  shows "kind (main_children ! i) = Flag \<longleftrightarrow> key (main_children ! i) \<in> set switches"
    "kind (main_children ! i) = Flag \<Longrightarrow> read_as (key (main_children ! i)) v = None"
proof -
  have "list_all (\<lambda>c. (kind c = Flag \<longleftrightarrow> key c \<in> set switches) \<and> (kind c = Flag \<longrightarrow> read_as (key c) v = None)) (take 13 main_children)"
    by (simp add: main_children_def option_child_def flag_child_def key_def switches_def read_as_def)
  then show "kind (main_children ! i) = Flag \<longleftrightarrow> key (main_children ! i) \<in> set switches"
    "kind (main_children ! i) = Flag \<Longrightarrow> read_as (key (main_children ! i)) v = None"
    using assms by (simp_all add: list_all_length main_positional(1))
qed

lemma option_index: "n \<in> set switches \<or> read_as n v \<noteq> None \<Longrightarrow> \<exists>i < 13. key (main_children ! i) = n"
proof -
  assume "n \<in> set switches \<or> read_as n v \<noteq> None"
  then have "n \<in> set (map key (take 13 main_children))"
    unfolding main_keys by (auto simp: switches_def read_as_def split: if_splits)
  then obtain i where "i < 13" "key (main_children ! i) = n" by (auto simp: in_set_conv_nth main_positional(1))
  then show ?thesis by blast
qed

text \<open>The outcome of a long flag whose key exists.\<close>

lemma parse_long_some:
  fixes ss i
  defines "c \<equiv> main_children ! i"
  assumes "i < 13" "name_part t = key c"
  shows "parse_long default_parser (''--'' @ t) ws (children_after ss) =
     (case parse_args_values default_parser (marked (child_after ss c)) (key c) ws True True (joined_part t) False of
        Inl msg \<Rightarrow> Inl (Parse_Error msg)
      | Inr (vals, ws1) \<Rightarrow>
          (case parse_value vals (marked (child_after ss c)) of
             Inl e \<Rightarrow> Inl e
           | Inr c' \<Rightarrow> Inr (ws1, (children_after ss)[i := c'], \<not> kick_out c')))"
  unfolding parse_long_parts assms(3) c_def match_some [OF assms(2)] using assms(2)
  by (simp add: after_nth cong del: option.case_cong_weak sum.case_cong_weak prod.case_cong_weak)

lemma long_switch:
  assumes "n \<in> set switches"
  shows "parse_long default_parser (''--'' @ n) ws (children_after ss) = Inr (ws, children_after (ss @ [Switch n]), True)"
proof -
  obtain i where i: "i < 13" "key (main_children ! i) = n" using option_index [of n] assms by auto
  let ?c = "main_children ! i"
  have k: "kind ?c = Flag" using option_kinds(1) [OF i(1)] i(2) assms by simp
  have r: "regular ?c" "CHR ''='' \<notin> set n" using regular_nth [of i] i k by (auto simp: regular_def)
  have "(children_after ss)[i := child_after (ss @ [Switch n]) ?c] = children_after (ss @ [Switch n])"
    using after_option [OF i(1)] i(2) by simp
  then show ?thesis
    using parse_long_some [OF i(1), of n ws ss] parts_of_plain [OF r(2)] r(1) i(2)
      values_of_flag(1) [of "marked (child_after ss ?c)"] flag_given [OF k, of ss] k
    by (simp add: regular_def)
qed

lemma long_value:
  assumes "read_as n v \<noteq> None" "x = Joined n v \<and> t = n @ ''='' @ v \<and> ws' = ws \<or> x = Separate n v \<and> t = n \<and> ws' = v # ws"
  shows "parse_long default_parser (''--'' @ t) ws' (children_after ss) = Inr (ws, children_after (ss @ [x]), True)"
proof -
  obtain i where i: "i < 13" "key (main_children ! i) = n" using option_index [of n v] assms by auto
  let ?c = "main_children ! i"
  have k: "kind ?c \<noteq> Flag" "kind ?c \<noteq> Positional" using option_kinds(2) [OF i(1)] i main_positional(2) assms(1) by auto
  have r: "regular ?c" "CHR ''='' \<notin> set n" using regular_nth [of i] i k by (auto simp: regular_def)
  have x: "value_of (key ?c) x = [the (read_as (key ?c) v)]" "subject x = Some (key ?c)" using assms(2) i(2) by auto
  have a: "(children_after ss)[i := child_after (ss @ [x]) ?c] = children_after (ss @ [x])" using after_option [OF i(1) x(2)] by simp
  have g: "parse_value [v] (marked (child_after ss ?c)) = Inr (child_after (ss @ [x]) ?c)"
    using value_given [OF r(1) k x(1)] assms(1) i(2) by simp
  have "name_part t = n" "parse_args_values default_parser (marked (child_after ss ?c)) n ws' True True (joined_part t) False = Inr ([v], ws)"
    using assms(2) parts_of_plain [OF r(2)] parts_of_joined [OF r(2), of v] values_of_value [of "marked (child_after ss ?c)"] k(1) by auto
  then show ?thesis
    using parse_long_some [OF i(1), of t ws' ss] i(2) g a r(1) by (simp add: regular_def)
qed

text \<open>Whatever a long flag is accepted with is a setting.\<close>

lemma long_inversion:
  assumes "parse_long default_parser (''--'' @ t) ws (children_after ss) = Inr (ws', cs, go)"
  shows "go \<and> (\<exists>x. well_formed x \<and> image_of x = [] \<and> (''--'' @ t) # ws = setting_words x @ ws' \<and> cs = children_after (ss @ [x]))"
proof (cases "\<exists>i < 13. key (main_children ! i) = name_part t")
  case False
  then have "match_group (Long (name_part t)) (children_after ss) = Inr None" by (intro match_none(1)) auto
  then show ?thesis using assms [unfolded parse_long_parts] by simp
next
  case True
  then obtain i where i: "i < 13" "name_part t = key (main_children ! i)" by auto
  let ?c = "main_children ! i"
  note p = assms [unfolded parse_long_some [OF i]]
  have r: "regular ?c" "\<not> kick_out ?c" "kind ?c \<noteq> Positional"
    using regular_nth [of i] main_positional(2) i by (auto simp: regular_def)
  show ?thesis
  proof (cases "kind ?c = Flag")
    case k: True
    have m: "kind (marked (child_after ss ?c)) = Flag" using k by simp
    have j: "joined_part t = None"
    proof (rule ccontr)
      assume "joined_part t \<noteq> None"
      then obtain a where "joined_part t = Some a" by auto
      then show False using p values_of_flag(2) [OF m, of default_parser "key ?c" ws a] by auto
    qed
    then have t: "t = key ?c" using parts_none i(2) by metis
    have w: "well_formed (Switch t)" using option_kinds(1) [OF i(1)] k t by simp
    then show ?thesis using assms long_switch [of t ws ss] by (intro conjI exI [of _ "Switch t"]) auto
  next
    case k: False
    have m: "kind (marked (child_after ss ?c)) \<noteq> Flag" using k by simp
    note vals = values_of_value [OF m, of default_parser "key ?c"]
    obtain v where v: "joined_part t = Some v \<and> ws' = ws \<or> joined_part t = None \<and> ws = v # ws'"
        "read_as (key ?c) v \<noteq> None"
    proof (cases "joined_part t")
      case (Some v)
      have "parse_value [v] (marked (child_after ss ?c)) \<noteq> Inl e \<and> ws' = ws" for e
        using p by (auto simp: Some vals split: sum.splits)
      then show thesis using that Some value_given [OF r(1) k r(3), of "Joined (key ?c) v" v ss] by (auto split: if_splits)
    next
      case None
      then obtain v ws1 where ws: "ws = v # ws1"
        using p vals(3) by (cases ws) auto
      have "parse_value [v] (marked (child_after ss ?c)) \<noteq> Inl e \<and> ws' = ws1" for e
        using p by (auto simp: None ws vals split: sum.splits)
      then show thesis using that None ws value_given [OF r(1) k r(3), of "Joined (key ?c) v" v ss] by (auto split: if_splits)
    qed
    define x where "x = (if joined_part t = None then Separate (key ?c) v else Joined (key ?c) v)"
    have t: "t = (if joined_part t = None then key ?c else key ?c @ ''='' @ v)"
      using v(1) parts_none [of t] parts_joined [of t v] i(2) by auto
    have "parse_long default_parser (''--'' @ t) ws (children_after ss) = Inr (ws', children_after (ss @ [x]), True)"
      using v(1) t by (intro long_value [OF v(2)]) (auto simp: x_def)
    then show ?thesis using assms v t by (intro conjI exI [of _ x]) (auto simp: x_def)
  qed
qed

section \<open>The words of a command line\<close>

text \<open>Short flags there are none, and the image can be given once.\<close>

lemma no_short_flag: "w \<noteq> [] \<Longrightarrow> \<exists>e. parse_short default_parser w ws (children_after ss) = Inl e"
  by (cases w) (simp_all add: match_none(2))

lemma next_image: "next_positional (children_after ss) = (if images ss = [] then Some 13 else None)"
  by (simp add: children_after_def main_children_def option_child_def flag_child_def image_child_def child_after_def)

lemma image_given:
  assumes "images ss = []"
  shows "parse_value [w] (children_after ss ! 13) = Inr (child_after (ss @ [Image w]) (main_children ! 13))"
    "\<not> kick_out (child_after (ss @ [Image w]) (main_children ! 13))"
proof -
  have r: "regular (main_children ! 13)" by (rule regular_nth) simp
  then show "parse_value [w] (children_after ss ! 13) = Inr (child_after (ss @ [Image w]) (main_children ! 13))"
    using assms main_positional(3) by (simp add: after_nth parse_value_def child_after_def regular_def)
  show "\<not> kick_out (child_after (ss @ [Image w]) (main_children ! 13))" using r by (simp add: regular_def)
qed

lemma validate_after: "validate_group sp lp (children_after ss) = None \<longleftrightarrow> images ss \<noteq> []"
  by (auto simp: children_after_def main_children_def option_child_def flag_child_def image_child_def child_after_def validate_child_def)

definition word_kind :: "string \<Rightarrow> option_type" where
  "word_kind w = parse_option default_parser w"

lemma word_kind_simps:
  "word_kind [] = Positional_Word" "word_kind [c] = Positional_Word"
  "word_kind (c # d # t) =
     (if c = CHR ''-'' \<and> d = CHR ''-'' \<and> t \<noteq> [] then Long_Flag else if c = CHR ''-'' then Short_Flag else Positional_Word)"
  by (simp_all add: word_kind_def parse_option_def starts_with_def)

lemma word_kind_long: "word_kind w = Long_Flag \<Longrightarrow> \<exists>t. t \<noteq> [] \<and> w = ''--'' @ t"
  by (cases w rule: remdups_adj.cases) (simp_all add: word_kind_simps split: if_splits)

lemma word_kind_image: "word_kind w = Positional_Word \<longleftrightarrow> well_formed (Image w)"
  by (cases w rule: remdups_adj.cases) (simp_all add: word_kind_simps)

lemma word_kind_short: "word_kind w = Short_Flag \<Longrightarrow> drop 1 w \<noteq> []"
  by (cases w rule: remdups_adj.cases) (simp_all add: word_kind_simps)

text \<open>The loop, one word at a time.\<close>

lemma loop_positional:
  assumes "terminated \<or> word_kind w = Positional_Word"
  shows "parse_words default_parser terminated (w # ws) cs =
     (case parse_positional w cs of
        Inl e \<Rightarrow> Inl e
      | Inr (cs1, go) \<Rightarrow> if go then parse_words default_parser terminated ws cs1 else Inr (ws, cs1))"
proof -
  have "\<not> (\<not> terminated \<and> w = terminator default_parser)"
    "\<not> (\<not> terminated \<and> parse_option default_parser w = Long_Flag)"
    "\<not> (\<not> terminated \<and> parse_option default_parser w = Short_Flag)"
    using assms by (auto simp: word_kind_def parse_option_def starts_with_def)
  note n = this [THEN if_not_P]
  show ?thesis unfolding parse_words.simps(2) n by (rule refl)
qed

lemma loop_image:
  assumes "terminated \<or> word_kind w = Positional_Word"
  shows "images ss = [] \<Longrightarrow>
      parse_words default_parser terminated (w # ws) (children_after ss) = parse_words default_parser terminated ws (children_after (ss @ [Image w]))"
    "images ss \<noteq> [] \<Longrightarrow> \<exists>e. parse_words default_parser terminated (w # ws) (children_after ss) = Inl e"
  unfolding loop_positional [OF assms] parse_positional_def next_image
  using image_given [of ss w] after_image [OF refl, of ss w] by simp_all

lemma loop_end: "parse_words default_parser terminated [] (children_after ss) = Inr r \<longleftrightarrow> images ss \<noteq> [] \<and> r = ([], children_after ss)"
  using validate_after [of "''-''" "''--''" ss] by (auto split: option.splits)

lemma loop_terminator: "parse_words default_parser False (''--'' # ws) cs = parse_words default_parser True ws cs"
  by simp

lemma loop_long:
  assumes "t \<noteq> []"
  shows "parse_words default_parser False ((''--'' @ t) # ws) (children_after ss) =
     (case parse_long default_parser (''--'' @ t) ws (children_after ss) of
        Inl e \<Rightarrow> Inl e
      | Inr (ws1, cs1, go) \<Rightarrow> if go then parse_words default_parser False ws1 cs1 else Inr (ws1, cs1))"
  using assms by (simp add: parse_option_def starts_with_def)

lemma option_names: "n \<in> set switches \<or> read_as n v \<noteq> None \<Longrightarrow> n \<noteq> []"
  by (auto simp: switches_def read_as_def split: if_splits)

lemma loop_setting:
  assumes "well_formed x" "image_of x = [] \<or> images ss = []"
  shows "parse_words default_parser False (setting_words x @ ws) (children_after ss) = parse_words default_parser False ws (children_after (ss @ [x]))"
proof (cases x)
  case (Switch n)
  then show ?thesis using assms(1) loop_long [of n ws ss] long_switch [of n ws ss] option_names [of n] by simp
next
  case (Joined n v)
  then show ?thesis
    using assms(1) loop_long [of "n @ ''='' @ v" ws ss] long_value [of n v x "n @ ''='' @ v" ws ws ss] by simp
next
  case (Separate n v)
  then show ?thesis
    using assms(1) loop_long [of n "v # ws" ss] long_value [of n v x n "v # ws" ws ss] option_names [of n v] by simp
next
  case (Image w)
  then show ?thesis
    using assms loop_image(1) [of False w ss ws] word_kind_image [of w] by (simp del: parse_words.simps)
qed

definition image_words :: "string list \<Rightarrow> setting list" where
  "image_words ws = map Image ws"

lemma image_words_simps [simp]: "images (image_words ws) = ws" "given n (image_words ws) = []" "Switch n \<notin> set (image_words ws)"
  by (induction ws) (auto simp: image_words_def)

lemma loop_terminated:
  "length (images ss) \<le> 1 \<Longrightarrow> parse_words default_parser True ws (children_after ss) = Inr r \<longleftrightarrow>
     length (images ss @ ws) = 1 \<and> r = ([], children_after (ss @ image_words ws))"
proof (induction ws arbitrary: ss)
  case Nil
  then show ?case using loop_end [of True ss r] by (auto simp: image_words_def le_Suc_eq)
next
  case (Cons w ws)
  show ?case
  proof (cases "images ss = []")
    case True
    then show ?thesis using loop_image(1) [of True w ss ws] Cons.IH [of "ss @ [Image w]"] by (simp add: image_words_def)
  next
    case False
    then show ?thesis using loop_image(2) [of True w ss ws] by (auto simp del: parse_words.simps)
  qed
qed

text \<open>The words split into settings and a tail after the terminator.\<close>

definition line_of :: "string list \<Rightarrow> setting list \<Rightarrow> string list \<Rightarrow> bool" where
  "line_of args ss tail \<longleftrightarrow>
     list_all well_formed ss \<and> args = concat (map setting_words ss) @ tail \<and> take 1 tail \<in> {[], [''--'']}"

lemma loop_complete:
  "line_of ws ts tail \<Longrightarrow> length (images ss @ images ts @ drop 1 tail) = 1 \<Longrightarrow>
     parse_words default_parser False ws (children_after ss) = Inr ([], children_after (ss @ ts @ image_words (drop 1 tail)))"
proof (induction ts arbitrary: ss ws)
  case Nil
  show ?case
  proof (cases tail)
    case Nil': Nil
    then show ?thesis using Nil loop_end [of False ss] by (auto simp: line_of_def image_words_def)
  next
    case (Cons t img)
    then show ?thesis
      using Nil loop_terminator [of img "children_after ss"] loop_terminated [of ss img] by (simp add: line_of_def del: parse_words.simps)
  qed
next
  case (Cons x ts)
  let ?ws = "concat (map setting_words ts) @ tail"
  have x: "well_formed x" "line_of ?ws ts tail" "ws = setting_words x @ ?ws" using Cons.prems(1) by (auto simp: line_of_def)
  have "image_of x = [] \<or> images ss = []" using Cons.prems(2) by (cases "images ss"; cases "image_of x") auto
  then show ?case
    using loop_setting [OF x(1), of ss ?ws] Cons.IH [OF x(2), of "ss @ [x]"] Cons.prems(2) x(3) by simp
qed

lemma loop_sound:
  "length (images ss) \<le> 1 \<Longrightarrow> parse_words default_parser False ws (children_after ss) = Inr r \<Longrightarrow>
     \<exists>ts tail. line_of ws ts tail \<and> length (images ss @ images ts @ drop 1 tail) = 1"
proof (induction "length ws" arbitrary: ws ss rule: less_induct)
  case less
  have step: ?case
    if "ws = setting_words x @ ws'" "well_formed x" "length (images (ss @ [x])) \<le> 1" "setting_words x \<noteq> []"
      "parse_words default_parser False ws' (children_after (ss @ [x])) = Inr r" for x ws'
  proof -
    have "length ws' < length ws" using that(1,4) by simp
    from less.hyps [OF this that(3,5)] obtain ts tail
      where "line_of ws' ts tail" "length (images (ss @ [x]) @ images ts @ drop 1 tail) = 1" by blast
    then show ?thesis using that(1,2) by (intro exI [of _ "x # ts"] exI [of _ tail]) (simp add: line_of_def)
  qed
  show ?case
  proof (cases ws)
    case Nil
    then have "images ss \<noteq> []" using less.prems(2) loop_end [of False ss r] by simp
    then show ?thesis using less.prems(1) Nil
      by (intro exI [of _ "[]"]) (auto simp: line_of_def le_Suc_eq)
  next
    case (Cons w rest)
    show ?thesis
    proof (cases "w = ''--''")
      case True
      then have "length (images ss @ rest) = 1"
        using less.prems Cons loop_terminator loop_terminated [of ss rest r] by simp
      then show ?thesis using True Cons by (intro exI [of _ "[]"] exI [of _ ws]) (simp add: line_of_def)
    next
      case no: False
      show ?thesis
      proof (cases "word_kind w")
        case Long_Flag
        then obtain t where t: "t \<noteq> []" "w = ''--'' @ t" using word_kind_long by blast
        note l = less.prems(2) [unfolded Cons t(2) loop_long [OF t(1)]]
        then obtain ws1 cs1 go where p: "parse_long default_parser (''--'' @ t) rest (children_after ss) = Inr (ws1, cs1, go)"
          by (cases "parse_long default_parser (''--'' @ t) rest (children_after ss)") auto
        from long_inversion [OF p] obtain x where x: "go" "well_formed x" "image_of x = []"
          "(''--'' @ t) # rest = setting_words x @ ws1" "cs1 = children_after (ss @ [x])" by blast
        show ?thesis
        proof (rule step [OF _ x(2)])
          show "ws = setting_words x @ ws1" using x(4) Cons t(2) by metis
          show "length (images (ss @ [x])) \<le> 1" using less.prems(1) x(3) by simp
          show "setting_words x \<noteq> []" by (cases x) simp_all
          show "parse_words default_parser False ws1 (children_after (ss @ [x])) = Inr r" using l p x(1,5) by simp
        qed
      next
        case Short_Flag
        then have "parse_words default_parser False (w # rest) (children_after ss) =
            (case parse_short default_parser (drop 1 w) rest (children_after ss) of
               Inl e \<Rightarrow> Inl e
             | Inr (ws1, cs1, go) \<Rightarrow> if go then parse_words default_parser False ws1 cs1 else Inr (ws1, cs1))"
          using no by (simp add: word_kind_def)
        then show ?thesis using less.prems(2) Cons no_short_flag [OF word_kind_short [OF Short_Flag], of rest ss] by auto
      next
        case Positional_Word
        note i = loop_image [of False w ss rest]
        have "images ss = []" using i(2) Positional_Word less.prems(2) Cons by auto
        then show ?thesis
          using i(1) Positional_Word word_kind_image [of w] less.prems(2) Cons
          by (intro step [of "Image w" rest]) simp_all
      qed
    qed
  qed
qed

section \<open>Properties\<close>

lemma options_after:
  assumes "images ss = [img]"
  shows "options_of (children_after ss) = meaning ss img"
  unfolding options_of_def
  by (simp add: after_nth main_children_def option_child_def flag_child_def image_child_def child_after_def key_def
      meaning_def last_given_def assms)

lemma meaning_image_words: "meaning (ss @ image_words ws) img = meaning ss img"
  by (simp add: meaning_def last_given_def)

lemma reset_main: "map reset_child main_children = children_after []"
  by (simp add: children_after_def main_children_def option_child_def flag_child_def image_child_def child_after_def reset_child_def)

text \<open>
  C11. The command line is accepted exactly when it is a sequence of switches, options with an
  acceptable value (joined by an equals sign or in the next word) and one image, of which the image can
  follow the terminator; then each switch is on when it was given, each single option has the last value given
  or its default, and each list has all its values in order.
\<close>

theorem command_line_grammar:
  "main_options argv = Inr (Inr opts) \<longleftrightarrow>
     (\<exists>prog ss tail img. own_arguments argv = prog # concat (map setting_words ss) @ tail \<and> list_all well_formed ss
        \<and> take 1 tail \<in> {[], [''--'']} \<and> images ss @ drop 1 tail = [img] \<and> opts = meaning ss img)"
proof (cases "own_arguments argv")
  case Nil
  then show ?thesis by (simp add: main_options_def)
next
  case (Cons prog args)
  have m: "main_options argv = Inr (Inr opts) \<longleftrightarrow>
      (\<exists>ws cs. parse_words default_parser False args (children_after []) = Inr (ws, cs) \<and> opts = options_of cs)"
    by (auto simp: main_options_def Cons parse_args_def reset_main split: sum.split)
  have g: "options_of (children_after (ss @ image_words (drop 1 tail))) = meaning ss img" if "images ss @ drop 1 tail = [img]" for ss tail img
    using that options_after [of "ss @ image_words (drop 1 tail)" img] by (simp add: meaning_image_words)
  show ?thesis
  proof
    assume "main_options argv = Inr (Inr opts)"
    then obtain ws cs where p: "parse_words default_parser False args (children_after []) = Inr (ws, cs)" "opts = options_of cs"
      unfolding m by blast
    from loop_sound [of "[]", OF _ p(1)] obtain ss tail
      where l: "line_of args ss tail" "length (images ss @ drop 1 tail) = 1" by auto
    then obtain img where img: "images ss @ drop 1 tail = [img]" by (metis One_nat_def length_0_conv length_Suc_conv)
    have "opts = meaning ss img" using p loop_complete [OF l(1), of "[]"] l(2) g [OF img] by simp
    then show "\<exists>prog ss tail img. own_arguments argv = prog # concat (map setting_words ss) @ tail \<and> list_all well_formed ss
        \<and> take 1 tail \<in> {[], [''--'']} \<and> images ss @ drop 1 tail = [img] \<and> opts = meaning ss img"
      using l(1) img Cons unfolding line_of_def by blast
  next
    assume "\<exists>prog ss tail img. own_arguments argv = prog # concat (map setting_words ss) @ tail \<and> list_all well_formed ss
        \<and> take 1 tail \<in> {[], [''--'']} \<and> images ss @ drop 1 tail = [img] \<and> opts = meaning ss img"
    then obtain ss tail img where l: "line_of args ss tail" and img: "images ss @ drop 1 tail = [img]" "opts = meaning ss img"
      using Cons unfolding line_of_def by auto
    have "length (images [] @ images ss @ drop 1 tail) = 1" using img(1) by simp
    from loop_complete [OF l this] show "main_options argv = Inr (Inr opts)"
      unfolding m using g [OF img(1)] img(2) by auto
  qed
qed

end
