(* ===== verification/Float16.thy ===== *)
theory Float16
  imports Prelude
begin

text \<open>
  The half-precision arithmetic of the demo programs (\<open>demo/float16.c\<close>). A \<open>short\<close> is its 16
  bits; where the code computes in the promoted type \<open>int\<close> and stores back to a 16-bit type
  the stored bits are those of the 16-bit operation. Comparisons of \<open>short\<close> variables are
  signed (\<open><s\<close>), exponents are mathematical integers (they stay within 64 in absolute value),
  products and quotients are 32-bit words. \<open>f16_add\<close> and \<open>f16_sub\<close> call each other when the
  signs differ.
\<close>

section \<open>Definitions\<close>

definition SIGN_MASK :: u16 where "SIGN_MASK = 0x8000"
definition EXP_MASK :: u16 where "EXP_MASK = 0x7C00"
definition NAN_VALUE :: u16 where "NAN_VALUE = 0x7FFF"

definition IS_ZERO :: "u16 \<Rightarrow> bool" where
  "IS_ZERO x \<longleftrightarrow> x AND 0x7FFF = 0"

definition IS_INVALID :: "u16 \<Rightarrow> bool" where
  "IS_INVALID x \<longleftrightarrow> x AND EXP_MASK = EXP_MASK"

definition IS_NAN :: "u16 \<Rightarrow> bool" where
  "IS_NAN x \<longleftrightarrow> 0x7C00 < x AND 0x7FFF"

definition IS_INF :: "u16 \<Rightarrow> bool" where
  "IS_INF x \<longleftrightarrow> x AND 0x7FFF = 0x7C00"

definition MANTISSA :: "u16 \<Rightarrow> u16" where
  "MANTISSA x = (x AND 1023) OR (if x AND 0x7C00 = 0 then 0 else 1024)"

definition EXPONENT :: "u16 \<Rightarrow> u16" where
  "EXPONENT x = drop_bit 10 (x AND 0x7C00)"

definition SIGNED_INF_VALUE :: "u16 \<Rightarrow> u16" where
  "SIGNED_INF_VALUE x = (x AND SIGN_MASK) OR 0x7C00"

text \<open>
  \<open>while(exp_part != 0 && !(new_m & 2048))\<close> of \<open>f16_sub\<close>; \<open>exp_part\<close> is \<open>0x800 * k\<close> there.
\<close>

fun sub_normalise :: "nat \<Rightarrow> u16 \<Rightarrow> nat \<times> u16" where
  "sub_normalise 0 new_m = (0, new_m)"
| "sub_normalise (Suc k) new_m =
     (if new_m AND 2048 = 0 then sub_normalise k (if k \<noteq> 0 then push_bit 1 new_m else new_m)
      else (Suc k, new_m))"

text \<open>The end of \<open>f16_sub\<close>, from \<open>r = a - b\<close> on.\<close>

definition sub_finish :: "u16 \<Rightarrow> u16 \<Rightarrow> u16 \<Rightarrow> u16 \<Rightarrow> u16" where
  "sub_finish sign a exp_part b =
     (let r = a - b in
      if r AND 0xF800 = exp_part then drop_bit 1 r OR sign
      else
        let am = (a AND 2047) OR 2048; new_m = am - b in
        if new_m = 0 then 0
        else let (k, new_m) = sub_normalise (unat (drop_bit 11 exp_part)) new_m
          in drop_bit 1 ((new_m AND 2047) OR push_bit 11 (of_nat k)) OR sign)"

definition sub_same_sign :: "u16 \<Rightarrow> u16 \<Rightarrow> u16" where
  "sub_same_sign a b =
     (let sign = a AND 0x8000; a = push_bit 1 a; b = push_bit 1 b;
          (a, b, sign) = (if a < b then (b, a, sign XOR 0x8000) else (a, b, sign));
          ax = a AND 0xF800; bx = b AND 0xF800 in
      if 0xF800 \<le> a \<or> 0xF800 \<le> b then
        if 0xF800 < a \<or> 0xF800 < b \<or> a = b then 0x7FFF
        else let res = sign OR 0x7C00 in if a = 0xF800 then res else res XOR 0x8000
      else
        let exp_diff = ax - bx in
        if exp_diff \<noteq> 0 then
          let shift = unat (drop_bit 11 exp_diff) in
          sub_finish sign a ax
            (if bx \<noteq> 0 then drop_bit shift ((b AND 2047) OR 2048) else drop_bit (shift - 1) b)
        else if bx = 0 then
          let res = drop_bit 1 (a - b) in if res = 0 then res else res OR sign
        else sub_finish sign a ax ((b AND 2047) OR 2048))"

text \<open>The end of \<open>f16_add\<close>, from \<open>r = a + b\<close> on.\<close>

definition add_finish :: "u16 \<Rightarrow> u16 \<Rightarrow> u16 \<Rightarrow> u16 \<Rightarrow> u16" where
  "add_finish sign a exp_part b =
     (let r = a + b;
          r = (if r AND 0x7C00 \<noteq> exp_part then
                 let am = (a AND 1023) OR 1024; new_m = drop_bit 1 (am + b)
                 in (exp_part + 0x400) OR (1023 AND new_m)
               else r)
      in if 0x7C00 \<le> r then sign OR 0x7C00 else r OR sign)"

definition add_same_sign :: "u16 \<Rightarrow> u16 \<Rightarrow> u16" where
  "add_same_sign a b =
     (let sign = a AND 0x8000; a = a AND 0x7FFF; b = b AND 0x7FFF;
          (a, b) = (if a <s b then (b, a) else (a, b)) in
      if 0x7C00 \<le>s a \<or> 0x7C00 \<le>s b then
        if 0x7C00 <s a \<or> 0x7C00 <s b then 0x7FFF else 0x7C00 OR sign
      else
        let ax = a AND 0x7C00; bx = b AND 0x7C00; exp_diff = ax - bx in
        if exp_diff \<noteq> 0 then
          let shift = unat (drop_bit 10 exp_diff) in
          add_finish sign a ax
            (if bx \<noteq> 0 then drop_bit shift ((b AND 1023) OR 1024) else drop_bit (shift - 1) b)
        else if bx = 0 then (a + b) OR sign
        else add_finish sign a ax ((b AND 1023) OR 1024))"

lemma sign_flips: "(a XOR b) AND 0x8000 \<noteq> 0 \<Longrightarrow> (a XOR (b XOR 0x8000)) AND 0x8000 = 0" for a b :: u16
proof -
  have m: "x AND 0x8000 = 0 \<longleftrightarrow> \<not> bit x 15" for x :: u16
    using and_exp_eq_0_iff_not_bit [of x 15] by simp
  have "bit (0x8000 :: u16) 15"
    using bit_exp_iff [of 15 15, where 'a = u16] by simp
  moreover assume "(a XOR b) AND 0x8000 \<noteq> 0"
  ultimately show ?thesis by (simp add: m bit_xor_iff)
qed

function f16_sub :: "u16 \<Rightarrow> u16 \<Rightarrow> u16"
  and f16_add :: "u16 \<Rightarrow> u16 \<Rightarrow> u16" where
  "f16_sub a b = (if (a XOR b) AND 0x8000 \<noteq> 0 then f16_add a (b XOR 0x8000) else sub_same_sign a b)"
| "f16_add a b = (if (a XOR b) AND 0x8000 \<noteq> 0 then f16_sub a (b XOR 0x8000) else add_same_sign a b)"
  by pat_completeness auto
termination
  by (relation "measure (\<lambda>x. case x of Inl (a, b) \<Rightarrow> if (a XOR b) AND 0x8000 \<noteq> (0 :: u16) then 1 else 0
      | Inr (a, b) \<Rightarrow> if (a XOR b) AND 0x8000 \<noteq> (0 :: u16) then 1 else 0)") (auto simp: sign_flips)

declare f16_sub.simps [simp del] f16_add.simps [simp del]

text \<open>\<open>while(v >= 2048) { v >>= 1; new_exp++; }\<close>\<close>

function shrink :: "u32 \<Rightarrow> int \<Rightarrow> u32 \<times> int" where
  "shrink v new_exp = (if 2048 \<le> v then shrink (drop_bit 1 v) (new_exp + 1) else (v, new_exp))"
  by pat_completeness auto
termination
  by (relation "measure (\<lambda>(v, _). unat v)") (auto simp: unat_drop_bit word_le_nat_alt)

declare shrink.simps [simp del]

text \<open>The end of \<open>f16_mul\<close> and \<open>f16_div\<close>.\<close>

definition pack :: "u16 \<Rightarrow> u32 \<Rightarrow> int \<Rightarrow> u16" where
  "pack sign v new_exp =
     (let (v, new_exp) = (if new_exp \<le> 0 then (drop_bit (nat (- new_exp + 1)) v, 0) else (v, new_exp)) in
      if 31 \<le> new_exp then SIGNED_INF_VALUE sign
      else sign OR push_bit 10 (of_int new_exp) OR (ucast v AND 1023))"

definition f16_mul :: "u16 \<Rightarrow> u16 \<Rightarrow> u16" where
  "f16_mul a b =
     (let sign = (a XOR b) AND SIGN_MASK in
      if IS_INVALID a \<or> IS_INVALID b then
        if IS_NAN a \<or> IS_NAN b \<or> IS_ZERO a \<or> IS_ZERO b then NAN_VALUE else sign OR 0x7C00
      else if IS_ZERO a \<or> IS_ZERO b then 0
      else
        let v = ucast (MANTISSA a) * ucast (MANTISSA b) :: u32;
            ax = uint (EXPONENT a); bx = uint (EXPONENT b);
            ax = ax + of_bool (ax = 0); bx = bx + of_bool (bx = 0);
            new_exp = ax + bx - 15;
            (v, new_exp) =
              (if v AND push_bit 21 1 \<noteq> 0 then (drop_bit 11 v, new_exp + 1)
               else if v AND push_bit 20 1 \<noteq> 0 then (drop_bit 10 v, new_exp)
               else shrink v (new_exp - 10))
        in pack sign v new_exp)"

text \<open>The first loop of \<open>f16_div\<close>: further quotient bits.\<close>

function div_loop :: "u16 \<Rightarrow> u32 \<Rightarrow> u16 \<Rightarrow> int \<Rightarrow> u32 \<times> int" where
  "div_loop m2 v rem new_exp =
     (if v < 1024 \<and> 0 < new_exp then
        let v = push_bit 1 v; rem = push_bit 1 rem;
            (v, rem) = (if m2 \<le> rem then (v + 1, rem - m2) else (v, rem))
        in div_loop m2 v rem (new_exp - 1)
      else (v, new_exp))"
  by pat_completeness auto
termination by (relation "measure (\<lambda>(_, _, _, e). nat e)") auto

declare div_loop.simps [simp del]

definition f16_div :: "u16 \<Rightarrow> u16 \<Rightarrow> u16" where
  "f16_div a b =
     (let sign = (a XOR b) AND SIGN_MASK in
      if IS_NAN a \<or> IS_NAN b \<or> (IS_INVALID a \<and> IS_INVALID b) \<or> (IS_ZERO a \<and> IS_ZERO b) then 0x7FFF
      else if IS_INVALID a \<or> IS_ZERO b then sign OR 0x7C00
      else if IS_INVALID b then 0
      else if IS_ZERO a then 0
      else
        let m1 = MANTISSA a; m2 = MANTISSA b;
            m1_shifted = push_bit 10 (ucast m1) :: u32;
            v = m1_shifted div ucast m2; rem = ucast (m1_shifted mod ucast m2) :: u16;
            ax = uint (EXPONENT a); bx = uint (EXPONENT b);
            ax = ax + of_bool (ax = 0); bx = bx + of_bool (bx = 0);
            new_exp = ax - bx + 15
        in if v = 0 \<and> rem = 0 then 0
           else let (v, new_exp) = div_loop m2 v rem new_exp; (v, new_exp) = shrink v new_exp
             in pack sign v new_exp)"

definition f16_neg :: "u16 \<Rightarrow> u16" where
  "f16_neg v = SIGN_MASK XOR v"

text \<open>\<open>while(v<1024) { v<<=1; e--; }\<close>; \<open>v\<close> is not zero there.\<close>

function grow :: "u32 \<Rightarrow> int \<Rightarrow> u32 \<times> int" where
  "grow v e = (if v < 1024 \<and> v \<noteq> 0 then grow (push_bit 1 v) (e - 1) else (v, e))"
  by pat_completeness auto
termination
proof (relation "measure (\<lambda>(v, _). 1024 - unat v)")
  fix v :: u32 and e :: int
  assume "v < 1024 \<and> v \<noteq> 0"
  then have "unat v < 1024" "0 < unat v" by (simp_all add: word_less_nat_alt unat_gt_0)
  then show "((push_bit 1 v, e - 1), v, e) \<in> measure (\<lambda>(v, _). 1024 - unat v)"
    by (simp add: push_bit_eq_mult unat_word_ariths)
qed simp

declare grow.simps [simp del]

text \<open>The negation of the most negative \<open>int32_t\<close> overflows.\<close>

definition f16_from_int :: "32 word \<Rightarrow> u16 res" where
  "f16_from_int sv =
     (if sint sv < 0 \<and> sv = 0x80000000 then Inl Undefined
      else
        let (v, sig) = (if sint sv < 0 then (- sv, 1) else (sv, 0)) in
        if v = 0 then Inr 0
        else
          let (v, e) = shrink v 25; (v, e) = grow v e in
          if 31 \<le> e then Inr (SIGNED_INF_VALUE (push_bit 15 sig))
          else Inr (push_bit 15 sig OR push_bit 10 (of_int e) OR (ucast v AND 1023)))"

definition f16_int :: "u16 \<Rightarrow> 32 word" where
  "f16_int a =
     (let value = MANTISSA a; shift = uint (EXPONENT a) - 25;
          value = (if 0 < shift then push_bit (nat shift) value
                   else if shift < 0 then drop_bit (nat (- shift)) value else value)
      in if a AND SIGN_MASK \<noteq> 0 then - ucast value else ucast value)"

section \<open>Comparisons\<close>

definition f16_gte :: "u16 \<Rightarrow> u16 \<Rightarrow> bool" where
  "f16_gte a b =
     (if IS_ZERO a \<and> IS_ZERO b then True
      else if IS_NAN a \<or> IS_NAN b then False
      else if a AND SIGN_MASK = 0 then
        if b AND SIGN_MASK = SIGN_MASK then True else b \<le>s a
      else if b AND SIGN_MASK = 0 then False else a AND 0x7FFF \<le> b AND 0x7FFF)"

definition f16_gt :: "u16 \<Rightarrow> u16 \<Rightarrow> bool" where
  "f16_gt a b =
     (if IS_NAN a \<or> IS_NAN b then False
      else if IS_ZERO a \<and> IS_ZERO b then False
      else if a AND SIGN_MASK = 0 then
        if b AND SIGN_MASK = SIGN_MASK then True else b <s a
      else if b AND SIGN_MASK = 0 then False else a AND 0x7FFF < b AND 0x7FFF)"

definition f16_eq :: "u16 \<Rightarrow> u16 \<Rightarrow> bool" where
  "f16_eq a b =
     (if IS_NAN a \<or> IS_NAN b then False else if IS_ZERO a \<and> IS_ZERO b then True else a = b)"

definition f16_lte :: "u16 \<Rightarrow> u16 \<Rightarrow> bool" where
  "f16_lte a b = (if IS_NAN a \<or> IS_NAN b then False else f16_gte b a)"

definition f16_lt :: "u16 \<Rightarrow> u16 \<Rightarrow> bool" where
  "f16_lt a b = (if IS_NAN a \<or> IS_NAN b then False else f16_gt b a)"

definition f16_neq :: "u16 \<Rightarrow> u16 \<Rightarrow> bool" where
  "f16_neq a b = (\<not> f16_eq a b)"

end
