(* ===== verification/Float16_Spec.thy ===== *)
theory Float16_Spec
  imports Float16
begin

text \<open>
  What the half-precision operations compute. The magnitude of a finite half is a natural
  number of units of \<open>2 ^ -24\<close> (\<open>mag\<close>), and \<open>encode\<close> is the reference rounding: the half
  whose magnitude is the largest one not above the given number of units, infinity from
  \<open>2 ^ 40\<close> on. Each operation is the exact operation on magnitudes followed by \<open>encode\<close>.
\<close>

section \<open>Fields and magnitudes\<close>

definition mant :: "u16 \<Rightarrow> nat" where
  "mant w = unat w mod 2 ^ 10"

definition expo :: "u16 \<Rightarrow> nat" where
  "expo w = unat w div 2 ^ 10 mod 2 ^ 5"

definition mag :: "u16 \<Rightarrow> nat" where
  "mag w = (if expo w = 0 then mant w else (1024 + mant w) * 2 ^ (expo w - 1))"

definition is_finite :: "u16 \<Rightarrow> bool" where
  "is_finite w \<longleftrightarrow> expo w < 31"

text \<open>The halvings that bring a number below 2048.\<close>

fun excess :: "nat \<Rightarrow> nat" where
  "excess n = (if n < 2048 then 0 else Suc (excess (n div 2)))"

declare excess.simps [simp del]

definition encode :: "nat \<Rightarrow> u16" where
  "encode n = (if 30 \<le> excess n then 0x7C00 else of_nat (excess n * 1024 + n div 2 ^ excess n))"

lemma mant_less: "mant w < 1024"
  by (simp add: mant_def)

lemma expo_less: "expo w < 32"
  by (simp add: expo_def)

lemma low15: "unat w mod 2 ^ 15 = expo w * 1024 + mant w"
proof -
  have "unat w mod (2 ^ 10 * 2 ^ 5) = 2 ^ 10 * (unat w div 2 ^ 10 mod 2 ^ 5) + unat w mod 2 ^ 10"
    by (rule mod_mult2_eq)
  then show ?thesis by (simp add: expo_def mant_def)
qed

lemma and_fields:
  "unat (w AND 1023) = mant w" "unat (w AND 0x7FFF) = expo w * 1024 + mant w"
  "unat (w AND 0x7C00) = expo w * 1024" for w :: u16
proof -
  have m: "(1023 :: u16) = mask 10" "(0x7FFF :: u16) = mask 15" by (simp_all add: mask_eq_exp_minus_1)
  show "unat (w AND 1023) = mant w" unfolding m by (simp add: unat_and_mask mant_def)
  show l: "unat (w AND 0x7FFF) = expo w * 1024 + mant w" unfolding m unat_and_mask by (rule low15)
  have "(0x7C00 :: u16) = 0x7FFF AND NOT (mask 10)" by (simp add: mask_eq_exp_minus_1)
  then have "w AND 0x7C00 = (w AND 0x7FFF) AND NOT (mask 10)" by (simp only: and.assoc)
  then show "unat (w AND 0x7C00) = expo w * 1024"
    using mant_less [of w] by (simp only: unat_and_not_mask l) simp
qed

lemma fields_of_sum:
  assumes "unat w mod 2 ^ 15 = e * 1024 + m" "e < 32" "m < 1024"
  shows "expo w = e" "mant w = m"
proof -
  have s: "expo w * 1024 + mant w = e * 1024 + m" using assms(1) low15 [of w] by simp
  have "(expo w * 1024 + mant w) div 1024 = expo w" "(e * 1024 + m) div 1024 = e"
    "(expo w * 1024 + mant w) mod 1024 = mant w" "(e * 1024 + m) mod 1024 = m"
    using mant_less [of w] assms(3) by simp_all
  then show "expo w = e" "mant w = m" using s by metis+
qed

lemma fields_masked [simp]: "expo (w AND 0x7FFF) = expo w" "mant (w AND 0x7FFF) = mant w"
proof -
  have "unat (w AND 0x7FFF) < 2 ^ 15"
    using and_fields(2) [of w] mant_less [of w] expo_less [of w] by simp
  then have "unat (w AND 0x7FFF) mod 2 ^ 15 = expo w * 1024 + mant w"
    using and_fields(2) [of w] by simp
  from fields_of_sum [OF this expo_less mant_less] show "expo (w AND 0x7FFF) = expo w" "mant (w AND 0x7FFF) = mant w" .
qed

lemma mag_masked [simp]: "mag (w AND 0x7FFF) = mag w"
  by (simp add: mag_def)

lemma or_disjoint:
  fixes a b :: u16
  assumes "unat b < 2 ^ k" "2 ^ k dvd unat a" "k \<le> 16"
  shows "unat (a OR b) = unat a + unat b"
proof -
  have a: "a = a AND NOT (mask k)"
    by (rule word_unat_eq_iff [THEN iffD2]) (use assms(2) in \<open>simp add: unat_and_not_mask\<close>)
  have b: "b = b AND mask k"
    by (rule word_unat_eq_iff [THEN iffD2]) (use assms(1) in \<open>simp add: unat_and_mask\<close>)
  have "\<not> (bit a n \<and> bit b n)" for n
  proof
    assume "bit a n \<and> bit b n"
    then have "bit (a AND NOT (mask k)) n" "bit (b AND mask k) n" using a b by (simp_all only:)
    then show False by (simp add: bit_simps)
  qed
  then have "a OR b = a + b" by (intro disjunctive_add [symmetric]) blast
  moreover have "unat a + unat b < 2 ^ LENGTH(16)"
  proof -
    obtain q where q: "unat a = 2 ^ k * q" using assms(2) by (auto elim: dvdE)
    have u: "unat a < 2 ^ LENGTH(16)" by (rule unsigned_less)
    have p: "(2::nat) ^ LENGTH(16) = 2 ^ k * 2 ^ (16 - k)" using assms(3) by (simp flip: power_add)
    from u have "q < 2 ^ (16 - k)" unfolding p q by simp
    then have "2 ^ k * (q + 1) \<le> 2 ^ k * 2 ^ (16 - k)" by (intro mult_le_mono2) simp
    then show ?thesis using assms(1) q p by simp
  qed
  ultimately show ?thesis by (simp add: unat_word_ariths)
qed

lemma or_hidden: "unat ((b AND 1023) OR 1024) = mant b + 1024" for b :: u16
proof -
  have "unat ((1024 :: u16) OR (b AND 1023)) = unat (1024 :: u16) + unat (b AND 1023)"
    by (rule or_disjoint [where k = 10]) (simp_all add: and_fields mant_less)
  then show ?thesis by (simp add: and_fields or.commute)
qed

lemma MANTISSA_value: "unat (MANTISSA w) = mant w + (if expo w = 0 then 0 else 1024)"
proof -
  have "w AND 0x7C00 = 0 \<longleftrightarrow> expo w = 0"
    by (simp add: word_unat_eq_iff and_fields)
  then show ?thesis by (simp add: MANTISSA_def or_hidden and_fields)
qed

lemma EXPONENT_value: "unat (EXPONENT w) = expo w"
  unfolding EXPONENT_def unat_drop_bit and_fields by simp

lemma kind_fields:
  "IS_INVALID w \<longleftrightarrow> expo w = 31" "IS_ZERO w \<longleftrightarrow> expo w = 0 \<and> mant w = 0"
  "IS_NAN w \<longleftrightarrow> expo w = 31 \<and> mant w \<noteq> 0"
  using expo_less [of w] mant_less [of w]
  by (auto simp: IS_INVALID_def EXP_MASK_def IS_ZERO_def IS_NAN_def word_unat_eq_iff and_fields word_less_nat_alt)

section \<open>The reference rounding\<close>

lemma excess_at: "1024 \<le> n div 2 ^ k \<Longrightarrow> n div 2 ^ k < 2048 \<Longrightarrow> excess n = k"
proof (induction k arbitrary: n)
  case 0
  then show ?case by (subst excess.simps) simp
next
  case (Suc k)
  have d: "n div 2 div 2 ^ k = n div 2 ^ Suc k" by (simp add: div_mult2_eq)
  have "excess (n div 2) = k" by (rule Suc.IH) (use Suc.prems d in simp_all)
  moreover have "\<not> n < 2048"
  proof
    assume "n < 2048"
    then have "n div 2 < 1024" by simp
    then have "n div 2 div 2 ^ k < 1024" by (meson div_le_dividend le_less_trans)
    with Suc.prems(1) d show False by simp
  qed
  ultimately show ?case by (subst excess.simps) simp
qed

lemma encode_at:
  assumes "1024 \<le> n div 2 ^ k" "n div 2 ^ k < 2048"
  shows "encode n = (if 30 \<le> k then 0x7C00 else of_nat (k * 1024 + n div 2 ^ k))"
  unfolding encode_def excess_at [OF assms] ..

lemma encode_small: "n < 2048 \<Longrightarrow> encode n = of_nat n"
  by (simp add: encode_def excess.simps)

text \<open>The magnitudes are ordered as the low fifteen bits.\<close>

lemma mag_bounds: "mag w < 1024 * 2 ^ expo w" "expo w \<noteq> 0 \<Longrightarrow> 1024 * 2 ^ (expo w - 1) \<le> mag w"
proof -
  show "expo w \<noteq> 0 \<Longrightarrow> 1024 * 2 ^ (expo w - 1) \<le> mag w" by (simp add: mag_def)
  show "mag w < 1024 * 2 ^ expo w"
  proof (cases "expo w")
    case 0
    then show ?thesis using mant_less [of w] by (simp add: mag_def)
  next
    case (Suc k)
    have "(1024 + mant w) * 2 ^ k < 2048 * 2 ^ k" using mant_less [of w] by simp
    with Suc show ?thesis by (simp add: mag_def)
  qed
qed

lemma mag_order: "mag a < mag b \<longleftrightarrow> unat (a AND 0x7FFF) < unat (b AND 0x7FFF)"
proof -
  have lt: "mag x < mag y" if "expo x < expo y" for x y
  proof -
    have "mag x < 1024 * 2 ^ expo x" by (rule mag_bounds)
    also have "\<dots> \<le> 1024 * 2 ^ (expo y - 1)" using that by (intro mult_le_mono2 power_increasing) auto
    also have "\<dots> \<le> mag y" using that by (intro mag_bounds(2)) simp
    finally show ?thesis .
  qed
  have low: "x * 1024 + m < y * 1024 + n \<longleftrightarrow> x < y \<or> x = y \<and> m < n" if "m < 1024" "n < 1024" for x y m n :: nat
    using that by arith
  consider "expo a < expo b" | "expo b < expo a" | "expo a = expo b" by linarith
  then show ?thesis
  proof cases
    case 3
    then show ?thesis unfolding and_fields low [OF mant_less mant_less] by (simp add: mag_def)
  qed (use lt [of a b] lt [of b a] in \<open>simp_all add: and_fields low [OF mant_less mant_less]\<close>)
qed

section \<open>Addition\<close>

lemma of_nat_unat_eq: "unat w = n \<Longrightarrow> w = of_nat n"
  by auto

text \<open>The sum keeps its exponent field exactly when the mantissas do not carry.\<close>

lemma sum_exponent:
  fixes w :: u16
  assumes "unat w = (k + 1) * 1024 + m + b" "m < 1024" "k < 30" "b < 2048"
  shows "expo w = k + 1 \<longleftrightarrow> m + b < 1024"
proof
  assume "m + b < 1024"
  then show "expo w = k + 1"
    by (intro fields_of_sum(1) [of _ _ "m + b"]) (use assms in simp_all)
next
  assume e: "expo w = k + 1"
  have w: "((k + 1) * 1024 + m + b) mod 32768 = (k + 1) * 1024 + mant w"
    using low15 [of w] assms(1) e by simp
  show "m + b < 1024"
  proof (cases "(k + 1) * 1024 + m + b < 32768")
    case True
    with w mant_less [of w] show ?thesis by simp
  next
    case False
    then have "((k + 1) * 1024 + m + b) mod 32768 = (k + 1) * 1024 + m + b - 32768"
      using assms(2-4) by (simp add: le_mod_geq)
    with w assms(2-4) show ?thesis by simp
  qed
qed

lemma add_finish_plain:
  assumes "unat a = (k + 1) * 1024 + m" "k < 30" "unat ax = (k + 1) * 1024"
    and S: "S div 2 ^ k = 1024 + m + unat b" and c: "m + unat b < 1024"
  shows "add_finish sign a ax b = sign OR encode S"
proof -
  have u: "unat (a + b) = (k + 1) * 1024 + (m + unat b)"
    using assms by (simp add: unat_word_ariths)
  have "expo (a + b) = k + 1"
    by (rule fields_of_sum(1) [of _ _ "m + unat b"]) (use u c assms(2) in simp_all)
  then have f: "a + b AND 0x7C00 = ax"
    unfolding word_unat_eq_iff and_fields assms(3) by simp
  have "encode S = of_nat (k * 1024 + S div 2 ^ k)"
    using encode_at [of S k] c assms(2) unfolding S by simp
  also have "\<dots> = a + b" using u by (intro of_nat_unat_eq [symmetric]) (simp add: S)
  finally have e: "encode S = a + b" .
  have "\<not> 0x7C00 \<le> a + b" using u c assms(2) by (simp add: word_le_nat_alt)
  then show ?thesis unfolding add_finish_def Let_def e by (simp add: f or.commute)
qed

lemma add_finish_carry:
  assumes "unat a = (k + 1) * 1024 + m" "m < 1024" "k < 30" "unat ax = (k + 1) * 1024" "unat b < 2048"
    and S: "S div 2 ^ k = 1024 + m + unat b" and c: "\<not> m + unat b < 1024"
  shows "add_finish sign a ax b = sign OR encode S"
proof -
  have u: "unat (a + b) = (k + 1) * 1024 + m + unat b"
    using assms(1,2,3,5) by (simp add: unat_word_ariths)
  have am: "unat ((a AND 1023) OR 1024) = m + 1024"
    using fields_of_sum(2) [of a "k + 1" m] assms(1-3) by (simp add: or_hidden)
  have "expo (a + b) \<noteq> k + 1" using sum_exponent [OF u assms(2,3,5)] c by simp
  then have f: "a + b AND 0x7C00 \<noteq> ax"
    unfolding word_unat_eq_iff and_fields assms(4) by simp
  let ?q = "(1024 + m + unat b) div 2"
  let ?new = "drop_bit 1 (((a AND 1023) OR 1024) + b)"
  let ?r = "(ax + 0x400) OR (1023 AND ?new)"
  have "unat (((a AND 1023) OR 1024) + b) = 1024 + m + unat b"
    using am assms(2,5) by (simp add: unat_word_ariths)
  then have n: "unat ?new = ?q" unfolding unat_drop_bit by simp
  have q: "1024 \<le> ?q" "?q < 2048" using c assms(2,5) by simp_all
  have "S div 2 ^ (k + 1) = S div (2 ^ k * 2)" by (simp add: mult.commute)
  also have "\<dots> = ?q" unfolding div_mult2_eq S ..
  finally have S1: "S div 2 ^ (k + 1) = ?q" .
  have ax: "unat (ax + 0x400) = (k + 2) * 1024" using assms(3,4) by (simp add: unat_word_ariths)
  have m: "unat (1023 AND ?new) = ?q - 1024"
    using q unfolding and.commute [of 1023] and_fields mant_def n by (simp add: mod_if)
  have r: "unat ?r = (k + 2) * 1024 + (?q - 1024)"
    using or_disjoint [of "1023 AND ?new" 10 "ax + 0x400"] q unfolding ax m by simp
  have g: "add_finish sign a ax b = (if 0x7C00 \<le> ?r then sign OR 0x7C00 else ?r OR sign)"
    using f by (simp only: add_finish_def Let_def if_True if_False simp_thms)
  have b: "0x7C00 \<le> ?r \<longleftrightarrow> 30 \<le> k + 1"
  proof -
    have "31744 \<le> (k + 2) * 1024 + (x - 1024) \<longleftrightarrow> 30 \<le> k + 1" if "1024 \<le> x" "x < 2048" for x
      using that by arith
    from this [OF q] show ?thesis unfolding word_le_nat_alt r by simp
  qed
  have "of_nat ((k + 1) * 1024 + ?q) = ?r"
    using r q by (intro of_nat_unat_eq [symmetric]) simp
  then have "encode S = (if 30 \<le> k + 1 then 0x7C00 else ?r)"
    using encode_at [of S "k + 1"] q unfolding S1 by simp
  then show ?thesis unfolding g b by (simp add: or.commute)
qed

lemma add_finish_value:
  assumes "unat a = (k + 1) * 1024 + m" "m < 1024" "k < 30" "unat ax = (k + 1) * 1024" "unat b < 2048"
    and "S div 2 ^ k = 1024 + m + unat b"
  shows "add_finish sign a ax b = sign OR encode S"
  using add_finish_plain [OF assms(1,3,4,6)] add_finish_carry [OF assms] by blast

text \<open>Comparisons of non-negative shorts.\<close>

lemma signed_compare:
  fixes a b :: u16
  assumes "unat a < 2 ^ 15" "unat b < 2 ^ 15"
  shows "a <s b \<longleftrightarrow> unat a < unat b" "a \<le>s b \<longleftrightarrow> unat a \<le> unat b"
proof -
  have "sint w = int (unat w)" if "unat w < 2 ^ 15" for w :: u16
  proof -
    have nb: "\<not> bit (uint w) 15"
      using bit_below [OF that, of 15] by (auto simp: bit_unsigned_iff)
    have "unat w < 32768" using that by simp
    then have "int (unat w) < 32768" by linarith
    then have "uint w < 32768" by simp
    then have "take_bit 15 (uint w) = uint w"
      by (intro take_bit_int_eq_self) simp_all
    then show ?thesis using nb by (simp add: sint_uint signed_take_bit_eq_if_positive)
  qed
  then show "a <s b \<longleftrightarrow> unat a < unat b" "a \<le>s b \<longleftrightarrow> unat a \<le> unat b"
    using assms word_less_nat_alt [of a b] word_le_nat_alt [of a b]
    by (simp_all add: word_sless_alt word_sle_eq word_less_def word_le_def)
qed

lemma shifted_mag:
  fixes x :: nat
  assumes "e \<le> k + 1" "0 < e"
  shows "x * 2 ^ (e - 1) div 2 ^ k = x div 2 ^ (k + 1 - e)"
proof -
  have "k = (e - 1) + (k + 1 - e)" using assms by simp
  then have "x * 2 ^ (e - 1) div 2 ^ k = x * 2 ^ (e - 1) div (2 ^ (e - 1) * 2 ^ (k + 1 - e))"
    by (metis power_add)
  then show ?thesis by (simp add: div_mult2_eq)
qed

lemma aligned_operand:
  fixes b :: u16
  assumes "unat b = expo b * 1024 + mant b" "expo b \<le> k + 1" "k < 30"
  shows "unat (if expo b \<noteq> k + 1 then
      if expo b \<noteq> 0 then drop_bit (k + 1 - expo b) ((b AND 1023) OR 1024) else drop_bit k b
    else (b AND 1023) OR 1024) = mag b div 2 ^ k"
proof -
  consider "expo b = k + 1" | "expo b \<noteq> k + 1" "expo b \<noteq> 0" | "expo b = 0" by blast
  then show ?thesis
  proof cases
    case 1
    then show ?thesis by (simp add: or_hidden mag_def)
  next
    case 2
    then have "mag b div 2 ^ k = (1024 + mant b) div 2 ^ (k + 1 - expo b)"
      using assms(2) by (simp only: mag_def if_False) (rule shifted_mag, simp_all)
    moreover have "unat (drop_bit (k + 1 - expo b) ((b AND 1023) OR 1024)) = (1024 + mant b) div 2 ^ (k + 1 - expo b)"
      unfolding unat_drop_bit or_hidden by (simp only: add.commute)
    ultimately show ?thesis using 2 by (simp only: if_True simp_thms)
  next
    case 3
    with assms(1) show ?thesis by (simp add: unat_drop_bit mag_def)
  qed
qed

definition add_ordered :: "u16 \<Rightarrow> u16 \<Rightarrow> u16 \<Rightarrow> u16" where
  "add_ordered sign a b =
     (let ax = a AND 0x7C00; bx = b AND 0x7C00; exp_diff = ax - bx in
        if exp_diff \<noteq> 0 then
          let shift = unat (drop_bit 10 exp_diff) in
          add_finish sign a ax
            (if bx \<noteq> 0 then drop_bit shift ((b AND 1023) OR 1024) else drop_bit (shift - 1) b)
        else if bx = 0 then (a + b) OR sign
        else add_finish sign a ax ((b AND 1023) OR 1024))"

lemma exponent_difference:
  fixes a b :: u16
  assumes "expo b \<le> expo a"
  shows "unat ((a AND 0x7C00) - (b AND 0x7C00)) = (expo a - expo b) * 1024"
    and "(a AND 0x7C00) - (b AND 0x7C00) \<noteq> 0 \<longleftrightarrow> expo a \<noteq> expo b"
    and "unat (drop_bit 10 ((a AND 0x7C00) - (b AND 0x7C00))) = expo a - expo b"
proof -
  have "b AND 0x7C00 \<le> a AND 0x7C00" using assms by (simp add: word_le_nat_alt and_fields)
  then show d: "unat ((a AND 0x7C00) - (b AND 0x7C00)) = (expo a - expo b) * 1024"
    unfolding unat_sub_if' word_le_nat_alt and_fields by (simp add: diff_mult_distrib)
  then show "(a AND 0x7C00) - (b AND 0x7C00) \<noteq> 0 \<longleftrightarrow> expo a \<noteq> expo b"
    using assms unfolding word_unat_eq_iff by simp
  show "unat (drop_bit 10 ((a AND 0x7C00) - (b AND 0x7C00))) = expo a - expo b"
    unfolding unat_drop_bit d by simp
qed

lemma add_ordered_value:
  assumes a: "unat a = expo a * 1024 + mant a" and b: "unat b = expo b * 1024 + mant b"
    and le: "unat b \<le> unat a" "expo a < 31"
  shows "add_ordered sign a b = sign OR encode (mag a + mag b)"
proof -
  have eb: "expo b \<le> expo a"
  proof (rule ccontr)
    assume "\<not> expo b \<le> expo a"
    then have "(expo a + 1) * 1024 \<le> expo b * 1024" by simp
    with a b le(1) mant_less [of a] show False by simp
  qed
  note d = exponent_difference [OF eb]
  have bx: "b AND 0x7C00 = 0 \<longleftrightarrow> expo b = 0" by (simp add: word_unat_eq_iff and_fields)
  show ?thesis
  proof (cases "expo a")
    case 0
    with eb have e: "expo a = 0" "expo b = 0" by simp_all
    then have "unat (a + b) = mant a + mant b" using a b mant_less [of a] mant_less [of b] by (simp add: unat_word_ariths)
    then have "encode (mag a + mag b) = a + b"
      using encode_small [of "mag a + mag b"] e mant_less [of a] mant_less [of b]
      by (simp add: mag_def) (metis of_nat_unat_eq of_nat_add)
    then show ?thesis using d(2) bx e by (simp add: add_ordered_def Let_def or.commute)
  next
    case (Suc k)
    then have k: "expo a = k + 1" "k < 30" using le(2) by simp_all
    let ?b = "if expo b \<noteq> k + 1 then
        if expo b \<noteq> 0 then drop_bit (k + 1 - expo b) ((b AND 1023) OR 1024) else drop_bit k b
      else (b AND 1023) OR 1024"
    have eb': "expo b \<le> k + 1" using eb k by simp
    note al = aligned_operand [OF b eb' k(2)]
    have f: "add_ordered sign a b = add_finish sign a (a AND 0x7C00) ?b"
      unfolding add_ordered_def Let_def d bx k(1) by auto
    have "mag b < 2048 * 2 ^ k"
    proof (cases "expo b = 0")
      case True
      have "2048 * 1 \<le> 2048 * (2 :: nat) ^ k" by (rule mult_le_mono2) simp
      then have "mant b < 2048 * 2 ^ k" using mant_less [of b] by linarith
      with True show ?thesis by (simp add: mag_def)
    next
      case False
      have "(1024 + mant b) * 2 ^ (expo b - 1) < 2048 * 2 ^ (expo b - 1)" using mant_less [of b] by simp
      also have "\<dots> \<le> 2048 * 2 ^ k" using eb' by (intro mult_le_mono2 power_increasing) auto
      finally show ?thesis using False by (simp add: mag_def)
    qed
    then have b2: "unat ?b < 2048" unfolding al by (simp add: div_less_iff_less_mult)
    have S: "(mag a + mag b) div 2 ^ k = 1024 + mant a + unat ?b"
      unfolding al by (simp add: mag_def k)
    show ?thesis
      unfolding f
      by (rule add_finish_value [OF _ mant_less k(2) _ b2 S]) (simp_all add: a k and_fields)
  qed
qed

lemma add_same_sign_value:
  assumes "is_finite a" "is_finite b"
  shows "add_same_sign a b = (a AND 0x8000) OR encode (mag a + mag b)"
proof -
  let ?a = "a AND 0x7FFF" and ?b = "b AND 0x7FFF"
  have f: "unat ?a = expo ?a * 1024 + mant ?a" "unat ?b = expo ?b * 1024 + mant ?b"
    by (simp_all add: and_fields)
  have l: "unat ?a < 31 * 1024" "unat ?b < 31 * 1024"
    using assms mant_less [of a] mant_less [of b] by (simp_all add: and_fields is_finite_def)
  then have l15: "unat ?a < 2 ^ 15" "unat ?b < 2 ^ 15" "unat (0x7C00 :: u16) < 2 ^ 15" by simp_all
  have inf: "\<not> 0x7C00 \<le>s ?a" "\<not> 0x7C00 \<le>s ?b"
    unfolding signed_compare [OF l15(3,1)] signed_compare [OF l15(3,2)] using l by simp_all
  have "add_same_sign a b = (if ?a <s ?b then add_ordered (a AND 0x8000) ?b ?a else add_ordered (a AND 0x8000) ?a ?b)"
    using inf by (simp add: add_same_sign_def add_ordered_def Let_def)
  also have "\<dots> = (a AND 0x8000) OR encode (mag a + mag b)"
  proof (cases "?a <s ?b")
    case True
    then have "unat ?a \<le> unat ?b" unfolding signed_compare [OF l15(1,2)] by simp
    with add_ordered_value [OF f(2,1) this, of "a AND 0x8000"] assms(2) True show ?thesis
      by (simp add: is_finite_def add.commute)
  next
    case False
    then have "unat ?b \<le> unat ?a" unfolding signed_compare [OF l15(1,2)] by simp
    with add_ordered_value [OF f this, of "a AND 0x8000"] assms(1) False show ?thesis
      by (simp add: is_finite_def)
  qed
  finally show ?thesis .
qed

section \<open>Subtraction\<close>

lemma bit_11: "unat w < 4096 \<Longrightarrow> w AND 2048 = 0 \<longleftrightarrow> unat w < 2048" for w :: u16
proof -
  assume w: "unat w < 4096"
  have "w AND 2048 = 0 \<longleftrightarrow> \<not> bit w 11" using and_exp_eq_0_iff_not_bit [of w 11] by simp
  also have "bit w 11 \<longleftrightarrow> bit (unat w) 11" by (simp add: bit_unsigned_iff)
  also have "bit (unat w) 11 \<longleftrightarrow> odd (unat w div 2 ^ 11)" by (rule bit_iff_odd)
  also have "odd (unat w div 2 ^ 11) \<longleftrightarrow> \<not> unat w < 2048"
  proof -
    have "unat w div 2048 = (if unat w < 2048 then 0 else 1)" using w by auto
    then show ?thesis by simp
  qed
  finally show ?thesis by simp
qed

lemma and_fields_11:
  "unat (w AND 2047) = unat w mod 2048" "unat (w AND 0xF800) = unat w div 2048 * 2048" for w :: u16
proof -
  have m: "(2047 :: u16) = mask 11" "(0xF800 :: u16) = NOT (mask 11)" by (simp_all add: mask_eq_exp_minus_1)
  show "unat (w AND 2047) = unat w mod 2048" unfolding m by (simp add: unat_and_mask)
  show "unat (w AND 0xF800) = unat w div 2048 * 2048" unfolding m by (simp add: unat_and_not_mask)
qed

lemma or_hidden_11: "unat ((w AND 2047) OR 2048) = unat w mod 2048 + 2048" for w :: u16
proof -
  have "unat ((2048 :: u16) OR (w AND 2047)) = unat (2048 :: u16) + unat (w AND 2047)"
    by (rule or_disjoint [where k = 11]) (simp_all add: and_fields_11)
  then show ?thesis by (simp add: and_fields_11 or.commute)
qed

text \<open>What \<open>f16_sub\<close> makes of a difference of \<open>d\<close> half units of the exponent.\<close>

definition packed_normal :: "nat \<times> u16 \<Rightarrow> u16" where
  "packed_normal x = drop_bit 1 ((snd x AND 2047) OR push_bit 11 (of_nat (fst x)))"

lemma packed_normal_value:
  assumes "k < 31"
  shows "packed_normal (k, w) = of_nat (k * 1024 + unat w mod 2048 div 2)"
proof -
  have p: "unat (push_bit 11 (of_nat k) :: u16) = k * 2048"
    using assms by (simp add: push_bit_eq_mult unat_word_ariths unat_of_nat)
  have "unat (push_bit 11 (of_nat k) OR (w AND 2047)) = k * 2048 + unat w mod 2048"
    using or_disjoint [of "w AND 2047" 11 "push_bit 11 (of_nat k)"] by (simp add: and_fields_11 p)
  then have "unat (packed_normal (k, w)) = (k * 2048 + unat w mod 2048) div 2"
    unfolding packed_normal_def unat_drop_bit by (simp add: or.commute)
  then have "unat (packed_normal (k, w)) = k * 1024 + unat w mod 2048 div 2" by simp
  then show ?thesis by (rule of_nat_unat_eq)
qed

lemma half_over: "\<not> x < 2048 \<Longrightarrow> x < 4096 \<Longrightarrow> x div 2 = 1024 + x mod 2048 div 2" for x :: nat
proof -
  assume "\<not> x < 2048" "x < 4096"
  then obtain y where y: "x = 2048 + y" "y < 2048" by (metis add_less_cancel_left le_Suc_ex not_less numeral_Bit0)
  then have "x mod 2048 = y" "x div 2 = 1024 + y div 2" by simp_all
  then show ?thesis by simp
qed

lemma sub_normalise_value:
  "unat w < 4096 \<Longrightarrow> k < 30 \<Longrightarrow> packed_normal (sub_normalise (Suc k) w) = encode (unat w * 2 ^ k div 2)"
proof (induction k arbitrary: w)
  case 0
  show ?case
  proof (cases "unat w < 2048")
    case True
    then show ?thesis
      using bit_11 [OF 0(1)] packed_normal_value [of 0 w] by (simp add: encode_small)
  next
    case False
    have d: "unat w * 2 ^ 0 div 2 = 1024 + unat w mod 2048 div 2"
      using half_over [OF False 0(1)] by simp
    have "unat w * 2 ^ 0 div 2 < 2048" using 0(1) by simp
    with d show ?thesis
      using bit_11 [OF 0(1)] False packed_normal_value [of 1 w] by (simp add: encode_small)
  qed
next
  case (Suc k)
  show ?case
  proof (cases "unat w < 2048")
    case True
    have u: "unat (push_bit 1 w) = unat w * 2"
    proof -
      have "unat (push_bit 1 w) = push_bit 1 (unat w) mod 2 ^ LENGTH(16)"
        by (simp only: unsigned_push_bit_eq take_bit_eq_mod)
      moreover have "push_bit 1 (unat w) = unat w * 2" by (simp only: push_bit_eq_mult power_one_right)
      moreover have "unat w * 2 < 2 ^ LENGTH(16)" using True by simp
      ultimately show ?thesis by (simp only: mod_less)
    qed
    have "packed_normal (sub_normalise (Suc k) (push_bit 1 w)) = encode (unat (push_bit 1 w) * 2 ^ k div 2)"
      by (rule Suc.IH) (unfold u, use True Suc.prems in simp_all)
    moreover have "sub_normalise (Suc (Suc k)) w = sub_normalise (Suc k) (push_bit 1 w)"
      using True bit_11 [OF Suc.prems(1)] by simp
    moreover have "unat (push_bit 1 w) * 2 ^ k = unat w * 2 ^ Suc k" unfolding u by simp
    ultimately show ?thesis by (simp only:)
  next
    case False
    let ?n = "unat w * 2 ^ Suc k div 2"
    have n: "?n = unat w * 2 ^ k" by simp
    have "unat w * 2 ^ k div (2 ^ k * 2) = unat w div 2" unfolding div_mult2_eq by simp
    then have q: "?n div 2 ^ Suc k = unat w div 2"
      unfolding n by (simp only: power_Suc mult.commute [of 2 "2 ^ k"])
    note m = half_over [OF False Suc.prems(1)]
    have "encode ?n = of_nat (Suc k * 1024 + unat w div 2)"
      using encode_at [of ?n "Suc k"] False Suc.prems unfolding q by simp
    moreover have "packed_normal (Suc (Suc k), w) = of_nat (Suc (Suc k) * 1024 + unat w mod 2048 div 2)"
      by (rule packed_normal_value) (use Suc.prems(2) in simp)
    moreover have "Suc (Suc k) * 1024 + unat w mod 2048 div 2 = Suc k * 1024 + unat w div 2" using m by simp
    moreover have "sub_normalise (Suc (Suc k)) w = (Suc (Suc k), w)"
      using False bit_11 [OF Suc.prems(1)] by simp
    ultimately show ?thesis by (simp only:)
  qed
qed

lemma sub_finish_value:
  assumes "unat a = (k + 1) * 2048 + x" "x < 2048" "k < 30" "unat ax = (k + 1) * 2048" "unat b \<le> 2048 + x"
    "unat b < 4096"
  shows "sub_finish sign a ax b =
    (if unat b = 2048 + x then 0 else encode ((2048 + x - unat b) * 2 ^ k div 2) OR sign)"
proof -
  have le: "b \<le> a" using assms(1,5) by (simp add: word_le_nat_alt)
  then have r: "unat (a - b) = (k + 1) * 2048 + x - unat b"
    using assms(1) by (simp add: unat_sub)
  have am: "unat (((a AND 2047) OR 2048) - b) = 2048 + x - unat b"
  proof -
    have "((k + 1) * 2048 + x) mod 2048 = x" using assms(2) by (simp only: mod_mult_self3 mod_less)
    then have m: "unat ((a AND 2047) OR 2048) = 2048 + x" unfolding or_hidden_11 assms(1) by simp
    then have "b \<le> (a AND 2047) OR 2048" unfolding word_le_nat_alt using assms(5) by simp
    then show ?thesis by (simp add: unat_sub m)
  qed
  have e: "(a - b) AND 0xF800 = ax \<longleftrightarrow> unat b \<le> x"
  proof -
    have "(a - b) AND 0xF800 = ax \<longleftrightarrow> ((k + 1) * 2048 + x - unat b) div 2048 = k + 1"
      unfolding word_unat_eq_iff and_fields_11 r assms(4) mult_cancel2 by simp
    also have "\<dots> \<longleftrightarrow> unat b \<le> x"
    proof
      assume "((k + 1) * 2048 + x - unat b) div 2048 = k + 1"
      then have "(k + 1) * 2048 \<le> (k + 1) * 2048 + x - unat b"
        by (metis div_times_less_eq_dividend)
      then show "unat b \<le> x" using assms(2,5) by simp
    next
      assume "unat b \<le> x"
      then have "(k + 1) * 2048 + x - unat b = (x - unat b) + (k + 1) * 2048" by simp
      then show "((k + 1) * 2048 + x - unat b) div 2048 = k + 1" using assms(2) by simp
    qed
    finally show ?thesis .
  qed
  show ?thesis
  proof (cases "unat b \<le> x")
    case True
    let ?d = "2048 + x - unat b"
    let ?n = "?d * 2 ^ k div 2"
    have d: "1024 \<le> ?d div 2" "?d div 2 < 2048" using True assms(2) by simp_all
    have "?n div 2 ^ k = ?d * 2 ^ k div (2 ^ k * 2)" by (metis div_mult2_eq mult.commute)
    also have "\<dots> = ?d div 2" by (simp add: div_mult2_eq)
    finally have q: "?n div 2 ^ k = ?d div 2" .
    have "encode ?n = of_nat (k * 1024 + ?d div 2)"
      using encode_at [of ?n k] d assms(3) unfolding q by simp
    also have "\<dots> = drop_bit 1 (a - b)"
      using True by (intro of_nat_unat_eq [symmetric], unfold unat_drop_bit r) simp
    finally show ?thesis using True e by (simp add: sub_finish_def Let_def)
  next
    case False
    have k: "unat (drop_bit 11 ax) = Suc k" unfolding unat_drop_bit assms(4) by simp
    have d: "2048 + x - unat b < 4096" using False by simp
    have "packed_normal (sub_normalise (Suc k) (((a AND 2047) OR 2048) - b)) = encode ((2048 + x - unat b) * 2 ^ k div 2)"
      using sub_normalise_value [of "((a AND 2047) OR 2048) - b" k] d assms(3) unfolding am by simp
    moreover have "((a AND 2047) OR 2048) - b = 0 \<longleftrightarrow> unat b = 2048 + x"
      using am assms(5) by (simp add: word_unat_eq_iff) arith
    ultimately show ?thesis
      using False e unfolding sub_finish_def Let_def k packed_normal_def by (simp add: case_prod_beta)
  qed
qed

text \<open>Exponent and mantissa of an operand shifted left by one.\<close>

lemma shifted_value: "unat (push_bit 1 a) = expo a * 2048 + 2 * mant a" for a :: u16
proof -
  have "unat (push_bit 1 a) = push_bit 1 (unat a) mod 2 ^ LENGTH(16)"
    by (simp only: unsigned_push_bit_eq take_bit_eq_mod)
  also have "\<dots> = 2 * unat a mod 2 ^ 16" by (simp add: push_bit_eq_mult mult.commute)
  also have "\<dots> = 2 * (unat a mod 2 ^ 15)"
    using mult_mod_right [of 2 "unat a" "2 ^ 15"] by simp
  also have "\<dots> = expo a * 2048 + 2 * mant a" unfolding low15 by simp
  finally show ?thesis .
qed

lemma shifted_fields:
  "unat (push_bit 1 a AND 0xF800) = expo a * 2048" "unat ((push_bit 1 a AND 2047) OR 2048) = 2048 + 2 * mant a"
  for a :: u16
proof -
  have m: "2 * mant a < 2048" using mant_less [of a] by simp
  then have "(expo a * 2048 + 2 * mant a) div 2048 = expo a" "(expo a * 2048 + 2 * mant a) mod 2048 = 2 * mant a"
    by simp_all
  then show "unat (push_bit 1 a AND 0xF800) = expo a * 2048" "unat ((push_bit 1 a AND 2047) OR 2048) = 2048 + 2 * mant a"
    unfolding and_fields_11 or_hidden_11 shifted_value by simp_all
qed

text \<open>
  The subtraction of magnitudes: the subtrahend is cut to half units of the larger operand.
\<close>

definition sub_units :: "u16 \<Rightarrow> u16 \<Rightarrow> nat" where
  "sub_units a b = (let u = 2 ^ (expo a - 1) in (2 * mag a - 2 * mag b div u * u) div 2)"

definition sub_result :: "u16 \<Rightarrow> nat \<Rightarrow> u16" where
  "sub_result sign n = (if n = 0 then 0 else encode n OR sign)"

definition sub_ordered :: "u16 \<Rightarrow> u16 \<Rightarrow> u16 \<Rightarrow> u16" where
  "sub_ordered sign a b =
     (let ax = a AND 0xF800; bx = b AND 0xF800; exp_diff = ax - bx in
        if exp_diff \<noteq> 0 then
          let shift = unat (drop_bit 11 exp_diff) in
          sub_finish sign a ax
            (if bx \<noteq> 0 then drop_bit shift ((b AND 2047) OR 2048) else drop_bit (shift - 1) b)
        else if bx = 0 then
          let res = drop_bit 1 (a - b) in if res = 0 then res else res OR sign
        else sub_finish sign a ax ((b AND 2047) OR 2048))"

lemma shifted_difference:
  assumes "expo b \<le> expo a"
  shows "(push_bit 1 a AND 0xF800) - (push_bit 1 b AND 0xF800) \<noteq> 0 \<longleftrightarrow> expo a \<noteq> expo b"
    and "unat (drop_bit 11 ((push_bit 1 a AND 0xF800) - (push_bit 1 b AND 0xF800))) = expo a - expo b"
proof -
  have "push_bit 1 b AND 0xF800 \<le> push_bit 1 a AND 0xF800"
    unfolding word_le_nat_alt shifted_fields using assms by simp
  then have d: "unat ((push_bit 1 a AND 0xF800) - (push_bit 1 b AND 0xF800)) = (expo a - expo b) * 2048"
    by (simp only: unat_sub shifted_fields diff_mult_distrib)
  show "(push_bit 1 a AND 0xF800) - (push_bit 1 b AND 0xF800) \<noteq> 0 \<longleftrightarrow> expo a \<noteq> expo b"
    unfolding word_unat_eq_iff d using assms by simp
  show "unat (drop_bit 11 ((push_bit 1 a AND 0xF800) - (push_bit 1 b AND 0xF800))) = expo a - expo b"
    unfolding unat_drop_bit d by simp
qed

lemma aligned_subtrahend:
  assumes "expo b \<le> k + 1"
  shows "unat (if expo b \<noteq> k + 1 then
      if expo b \<noteq> 0 then drop_bit (k + 1 - expo b) ((push_bit 1 b AND 2047) OR 2048) else drop_bit k (push_bit 1 b)
    else (push_bit 1 b AND 2047) OR 2048) = 2 * mag b div 2 ^ k"
proof -
  have m: "2 * mag b = (2048 + 2 * mant b) * 2 ^ (expo b - 1)" if "expo b \<noteq> 0" using that by (simp add: mag_def)
  consider "expo b = k + 1" | "expo b \<noteq> k + 1" "expo b \<noteq> 0" | "expo b = 0" by blast
  then show ?thesis
  proof cases
    case 1
    then have "2 * mag b div 2 ^ k = 2048 + 2 * mant b" using m by simp
    with 1 show ?thesis by (simp only: shifted_fields simp_thms if_False)
  next
    case 2
    have "2 * mag b div 2 ^ k = (2048 + 2 * mant b) div 2 ^ (k + 1 - expo b)"
      unfolding m [OF 2(2)] by (rule shifted_mag) (use 2 assms in simp_all)
    with 2 show ?thesis by (simp only: unat_drop_bit shifted_fields if_True simp_thms)
  next
    case 3
    then have "unat (drop_bit k (push_bit 1 b)) = 2 * mag b div 2 ^ k"
      unfolding unat_drop_bit shifted_value by (simp add: mag_def)
    with 3 show ?thesis by simp
  qed
qed

lemma sub_ordered_value:
  assumes le: "mag b \<le> mag a" and f: "is_finite a"
  shows "sub_ordered sign (push_bit 1 a) (push_bit 1 b) = sub_result sign (sub_units a b)"
proof -
  have eb: "expo b \<le> expo a"
    using le mag_order [of a b] mant_less [of a] unfolding and_fields by simp
  note d = shifted_difference [OF eb]
  have bx: "push_bit 1 b AND 0xF800 = 0 \<longleftrightarrow> expo b = 0"
    unfolding word_unat_eq_iff shifted_fields by simp
  show ?thesis
  proof (cases "expo a")
    case 0
    with eb have e: "expo a = 0" "expo b = 0" by simp_all
    then have m: "mant b \<le> mant a" using le by (simp add: mag_def)
    have s: "unat (push_bit 1 a) = 2 * mant a" "unat (push_bit 1 b) = 2 * mant b"
      unfolding shifted_value e by simp_all
    then have "push_bit 1 b \<le> push_bit 1 a" unfolding word_le_nat_alt using m by simp
    then have "unat (push_bit 1 a - push_bit 1 b) = 2 * (mant a - mant b)"
      by (simp only: unat_sub s diff_mult_distrib2)
    then have r: "unat (drop_bit 1 (push_bit 1 a - push_bit 1 b)) = mant a - mant b"
      unfolding unat_drop_bit by simp
    have u: "sub_units a b = mant a - mant b" by (simp add: sub_units_def mag_def e flip: diff_mult_distrib2)
    have "drop_bit 1 (push_bit 1 a - push_bit 1 b) = encode (mant a - mant b)"
      using of_nat_unat_eq [OF r] encode_small [of "mant a - mant b"] mant_less [of a] by simp
    moreover have "drop_bit 1 (push_bit 1 a - push_bit 1 b) = 0 \<longleftrightarrow> mant a - mant b = 0"
      unfolding word_unat_eq_iff r by simp
    moreover have "encode 0 = 0" by (simp add: encode_small)
    ultimately show ?thesis
      using d(1) bx e unfolding sub_ordered_def sub_result_def u Let_def by (simp only: simp_thms if_True if_False) simp
  next
    case (Suc k)
    then have k: "expo a = k + 1" "k < 30" using f by (simp_all add: is_finite_def)
    let ?b = "if expo b \<noteq> k + 1 then
        if expo b \<noteq> 0 then drop_bit (k + 1 - expo b) ((push_bit 1 b AND 2047) OR 2048) else drop_bit k (push_bit 1 b)
      else (push_bit 1 b AND 2047) OR 2048"
    have al: "unat ?b = 2 * mag b div 2 ^ k" by (rule aligned_subtrahend) (use eb k in simp)
    have ma: "2 * mag a = (2048 + 2 * mant a) * 2 ^ k" using k(1) by (simp add: mag_def)
    have b1: "unat ?b \<le> 2048 + 2 * mant a"
    proof -
      have "2 * mag b div 2 ^ k \<le> (2048 + 2 * mant a) * 2 ^ k div 2 ^ k"
        by (rule div_le_mono) (use le ma in simp)
      then show ?thesis unfolding al by simp
    qed
    have g: "sub_ordered sign (push_bit 1 a) (push_bit 1 b) = sub_finish sign (push_bit 1 a) (push_bit 1 a AND 0xF800) ?b"
      unfolding sub_ordered_def Let_def d bx k(1) by auto
    have n: "sub_units a b = (2048 + 2 * mant a - unat ?b) * 2 ^ k div 2"
      unfolding sub_units_def Let_def al ma k(1) by (simp add: diff_mult_distrib)
    have z: "sub_units a b = 0 \<longleftrightarrow> unat ?b = 2048 + 2 * mant a"
    proof
      assume "sub_units a b = 0"
      show "unat ?b = 2048 + 2 * mant a"
      proof (rule ccontr)
        assume ne: "unat ?b \<noteq> 2048 + 2 * mant a"
        then have p: "1 \<le> 2048 + 2 * mant a - unat ?b" using b1 by simp
        show False
        proof (cases k)
          case 0
          have "even (2 * mag b div 2 ^ k)" unfolding 0 by simp
          then have "even (2048 + 2 * mant a - unat ?b)" unfolding al by simp
          moreover have "(2048 + 2 * mant a - unat ?b) div 2 = 0"
            using \<open>sub_units a b = 0\<close> unfolding n by (simp only: 0 power_0 mult_1_right)
          moreover have "\<not> (1 \<le> x \<and> even x \<and> x div 2 = 0)" for x :: nat by presburger
          ultimately show False using p by blast
        next
          case (Suc j)
          have "(2048 + 2 * mant a - unat ?b) * 2 ^ k div 2 = (2048 + 2 * mant a - unat ?b) * 2 ^ j"
            unfolding Suc by simp
          with p \<open>sub_units a b = 0\<close> show False unfolding n by simp
        qed
      qed
    qed (simp only: n, simp)
    have "sub_finish sign (push_bit 1 a) (push_bit 1 a AND 0xF800) ?b =
      (if unat ?b = 2048 + 2 * mant a then 0 else encode ((2048 + 2 * mant a - unat ?b) * 2 ^ k div 2) OR sign)"
    proof (rule sub_finish_value [OF _ _ k(2) _ b1])
      show "unat (push_bit 1 a) = (k + 1) * 2048 + 2 * mant a" unfolding shifted_value k(1) ..
      show "unat (push_bit 1 a AND 0xF800) = (k + 1) * 2048" unfolding shifted_fields k(1) ..
      show "2 * mant a < 2048" "unat ?b < 4096" using mant_less [of a] b1 by simp_all
    qed
    then show ?thesis unfolding g sub_result_def z unfolding n .
  qed
qed

lemma sub_same_sign_value:
  assumes "is_finite a" "is_finite b"
  shows "sub_same_sign a b =
    (if mag a < mag b then sub_result (a AND 0x8000 XOR 0x8000) (sub_units b a)
     else sub_result (a AND 0x8000) (sub_units a b))"
proof -
  have ord: "push_bit 1 a < push_bit 1 b \<longleftrightarrow> mag a < mag b"
    unfolding mag_order and_fields word_less_nat_alt shifted_value by arith
  have inf: "\<not> 0xF800 \<le> push_bit 1 x" if "is_finite x" for x :: u16
    using that mant_less [of x] unfolding word_le_nat_alt shifted_value is_finite_def by simp
  have "sub_same_sign a b =
    (if push_bit 1 a < push_bit 1 b then sub_ordered (a AND 0x8000 XOR 0x8000) (push_bit 1 b) (push_bit 1 a)
     else sub_ordered (a AND 0x8000) (push_bit 1 a) (push_bit 1 b))"
    by (cases "push_bit 1 a < push_bit 1 b"; unfold sub_same_sign_def sub_ordered_def Let_def;
        simp only: if_True if_False prod.case inf [OF assms(1)] inf [OF assms(2)] simp_thms)
  also have "\<dots> = (if mag a < mag b then sub_result (a AND 0x8000 XOR 0x8000) (sub_units b a)
     else sub_result (a AND 0x8000) (sub_units a b))"
  proof (cases "mag a < mag b")
    case True
    then have "mag a \<le> mag b" by simp
    from sub_ordered_value [OF this assms(2)] True show ?thesis by (simp only: ord if_True)
  next
    case False
    then have "mag b \<le> mag a" by simp
    from sub_ordered_value [OF this assms(1)] False show ?thesis by (simp only: ord if_False)
  qed
  finally show ?thesis .
qed

end
