(* ===== verification/Float16_Arith.thy ===== *)
theory Float16_Arith
  imports Float16_Spec
begin

text \<open>
  The four operations, the conversions and the comparisons of \<open>demo/float16.c\<close> against the
  reference rounding \<open>encode\<close>: addition, multiplication and division are the exact
  operation on magnitudes rounded towards zero; subtraction of magnitudes first cuts the
  smaller operand to half units of the larger one.
\<close>

section \<open>The reference rounding rounds down\<close>

lemma excess_bound: "n div 2 ^ excess n < 2048"
proof (induction n rule: excess.induct)
  case (1 n)
  show ?case
  proof (cases "n < 2048")
    case False
    then have "excess n = Suc (excess (n div 2))" by (subst excess.simps) simp
    with 1 False show ?thesis by (simp add: div_mult2_eq)
  qed (subst excess.simps, simp)
qed

lemma excess_lower: "0 < excess n \<Longrightarrow> 1024 \<le> n div 2 ^ excess n"
proof (induction n rule: excess.induct)
  case (1 n)
  have l: "\<not> n < 2048" using 1(2) by (subst (asm) excess.simps) (auto split: if_splits)
  then have e: "excess n = Suc (excess (n div 2))" by (subst excess.simps) simp
  show ?case
  proof (cases "excess (n div 2) = 0")
    case True
    then show ?thesis using l e by simp
  next
    case False
    with 1(1) [OF l] e show ?thesis by (simp add: div_mult2_eq)
  qed
qed

lemma small_fields:
  assumes "unat w = e * 1024 + m" "e < 31" "m < 1024"
  shows "expo w = e" "mant w = m" "is_finite w"
proof -
  have "unat w mod 2 ^ 15 = e * 1024 + m" using assms by simp
  from fields_of_sum [OF this _ assms(3)] assms(2) show "expo w = e" "mant w = m" "is_finite w"
    by (simp_all add: is_finite_def)
qed

lemma encode_fields:
  assumes "n < 2 ^ 40"
  shows "excess n < 30" and "mag (encode n) = n div 2 ^ excess n * 2 ^ excess n" and "is_finite (encode n)"
proof -
  let ?k = "excess n" and ?q = "n div 2 ^ excess n"
  show k: "?k < 30"
  proof (rule ccontr)
    assume g: "\<not> ?k < 30"
    then have "1024 \<le> ?q" by (intro excess_lower) simp
    then have "1024 * 2 ^ ?k \<le> n" by (simp add: less_eq_div_iff_mult_less_eq)
    moreover have "1024 * 2 ^ 30 \<le> 1024 * (2 :: nat) ^ ?k" using g by (intro mult_le_mono2 power_increasing) auto
    ultimately show False using assms by simp
  qed
  note q = excess_bound [of n]
  have u: "unat (encode n) = ?k * 1024 + ?q"
  proof -
    have "?k * 1024 + ?q < 2 ^ LENGTH(16)" using k q by simp
    moreover have "unat (encode n) = (?k * 1024 + ?q) mod 2 ^ LENGTH(16)"
      unfolding encode_def if_not_P [OF k [unfolded not_le [symmetric]]] by (rule unat_of_nat)
    ultimately show ?thesis by (simp only: mod_less)
  qed
  have "mag (encode n) = ?q * 2 ^ ?k \<and> is_finite (encode n)"
  proof (cases "?k = 0 \<and> ?q < 1024")
    case True
    then have z: "?k = 0" by blast
    then have q: "?q = n" by simp
    have "?q < 1024" using True by blast
    then have "unat (encode n) = 0 * 1024 + n" "n < 1024" using u z unfolding q by simp_all
    from small_fields [OF this(1) _ this(2)] True show ?thesis by (simp add: mag_def)
  next
    case False
    then have l: "1024 \<le> ?q" using excess_lower [of n] by auto
    have "unat (encode n) = (?k + 1) * 1024 + (?q - 1024)" using u l by simp
    from small_fields [OF this] k q l show ?thesis by (simp add: mag_def)
  qed
  then show "mag (encode n) = ?q * 2 ^ ?k" "is_finite (encode n)" by blast+
qed

lemma mag_multiple: "k < expo w \<Longrightarrow> \<exists>c. mag w = c * 2 ^ k"
proof -
  assume "k < expo w"
  then have "2 ^ (expo w - 1) = 2 ^ (expo w - 1 - k) * (2 :: nat) ^ k" by (simp flip: power_add)
  then show ?thesis using \<open>k < expo w\<close> by (auto simp: mag_def intro!: exI [of _ "(1024 + mant w) * 2 ^ (expo w - 1 - k)"])
qed

lemma encode_greatest:
  assumes "n < 2 ^ 40" "mag w \<le> n"
  shows "mag w \<le> mag (encode n)"
proof -
  let ?k = "excess n" and ?q = "n div 2 ^ excess n"
  note e = encode_fields [OF assms(1)]
  show ?thesis
  proof (cases "?k < expo w")
    case True
    from mag_multiple [OF this] obtain c where c: "mag w = c * 2 ^ ?k" by blast
    then have "c \<le> ?q" using assms(2) by (simp add: less_eq_div_iff_mult_less_eq)
    then show ?thesis unfolding c e(2) by simp
  next
    case False
    show ?thesis
    proof (cases "?k = 0")
      case True
      then show ?thesis using assms(2) e(2) by simp
    next
      case k: False
      have "mag w < 1024 * 2 ^ expo w" by (rule mag_bounds)
      also have "\<dots> \<le> 1024 * 2 ^ ?k" using False by (intro mult_le_mono2 power_increasing) auto
      also have "\<dots> \<le> ?q * 2 ^ ?k" using excess_lower [of n] k by simp
      finally show ?thesis unfolding e(2) by simp
    qed
  qed
qed

section \<open>Scaling by powers of two\<close>

text \<open>\<open>\<lfloor>v * 2 ^ z\<rfloor>\<close> for an integer \<open>z\<close>.\<close>

definition scaled :: "nat \<Rightarrow> int \<Rightarrow> nat" where
  "scaled v z = (if 0 \<le> z then v * 2 ^ nat z else v div 2 ^ nat (- z))"

lemma scaled_div:
  assumes "z \<le> int p"
  shows "scaled v z div 2 ^ p = v div 2 ^ nat (int p - z)"
proof (cases "0 \<le> z")
  case True
  then have "(2::nat) ^ p = 2 ^ nat z * 2 ^ nat (int p - z)"
    using assms by (simp flip: power_add nat_add_distrib)
  then show ?thesis using True by (simp add: scaled_def div_mult2_eq)
next
  case False
  have "v div 2 ^ nat (- z) div 2 ^ p = v div (2 ^ nat (- z) * 2 ^ p)" by (simp only: div_mult2_eq)
  also have "2 ^ nat (- z) * (2 :: nat) ^ p = 2 ^ nat (int p - z)"
    using False by (simp flip: power_add nat_add_distrib)
  finally show ?thesis using False by (simp add: scaled_def)
qed

section \<open>Packing\<close>

lemma ucast_1023: "unat (ucast v AND 1023 :: u16) = unat v mod 1024" for v :: u32
proof -
  have "unat (ucast v :: u16) = unat v mod 2 ^ 16"
    by (simp add: unsigned_ucast_eq take_bit_eq_mod)
  then show ?thesis unfolding and_fields mant_def by (simp add: mod_mod_cancel)
qed

lemma pack_bits:
  assumes "e < 31"
  shows "(push_bit 10 (of_nat e) OR (ucast (w :: u32) AND 1023) :: u16) = of_nat (e * 1024 + unat w mod 1024)"
proof -
  have p: "unat (push_bit 10 (of_nat e) :: u16) = e * 1024"
    using assms by (simp add: push_bit_eq_mult unat_word_ariths unat_of_nat)
  have "unat (push_bit 10 (of_nat e) OR (ucast w AND 1023) :: u16) = e * 1024 + unat w mod 1024"
    using or_disjoint [of "ucast w AND 1023" 10 "push_bit 10 (of_nat e)"] by (simp add: p ucast_1023)
  then show ?thesis by (rule of_nat_unat_eq)
qed

lemma pack_value:
  assumes v: "unat v < 2048" and s: "sign AND SIGN_MASK = sign" and b: "- 200 < e"
    and pos: "0 < e \<Longrightarrow> 1024 \<le> unat v \<and> n div 2 ^ nat (e - 1) = unat v"
    and neg: "e \<le> 0 \<Longrightarrow> n = unat v div 2 ^ nat (1 - e)"
  shows "pack sign v e = sign OR encode n"
proof (cases "e \<le> 0")
  case True
  let ?w = "drop_bit (nat (- e + 1)) v"
  have w: "unat ?w = n" using neg [OF True] unfolding unat_drop_bit by (simp add: add.commute)
  have "n \<le> unat v div 2"
  proof -
    have "2 ^ 1 \<le> (2 :: nat) ^ nat (1 - e)" using True by (intro power_increasing) auto
    then have "unat v div 2 ^ nat (1 - e) \<le> unat v div 2 ^ 1" by (intro div_le_mono2) auto
    then show ?thesis using neg [OF True] by simp
  qed
  then have n: "n < 1024" using v by simp
  have "push_bit 10 (of_nat 0) OR (ucast ?w AND 1023) = (of_nat (0 * 1024 + unat ?w mod 1024) :: u16)"
    by (rule pack_bits) simp
  also have "\<dots> = encode n" unfolding w using n by (simp add: encode_small)
  finally show ?thesis using True by (simp add: pack_def or.assoc)
next
  case False
  then have p: "1024 \<le> unat v" "n div 2 ^ nat (e - 1) = unat v" using pos by simp_all
  have enc: "encode n = (if 30 \<le> nat (e - 1) then 0x7C00 else of_nat (nat (e - 1) * 1024 + unat v))"
    using encode_at [of n "nat (e - 1)"] p v by simp
  show ?thesis
  proof (cases "31 \<le> e")
    case True
    then have "30 \<le> nat (e - 1)" by simp
    with enc True False s show ?thesis by (simp add: pack_def SIGNED_INF_VALUE_def)
  next
    case lt: False
    have "pack sign v e = sign OR push_bit 10 (of_int e) OR (ucast v AND 1023)"
      using False lt by (simp add: pack_def)
    also have "of_int e = (of_nat (nat e) :: u16)" using False by simp
    finally have g: "pack sign v e = sign OR (push_bit 10 (of_nat (nat e)) OR (ucast v AND 1023))"
      by (simp only: or.assoc)
    have "push_bit 10 (of_nat (nat e)) OR (ucast v AND 1023) = (of_nat (nat e * 1024 + unat v mod 1024) :: u16)"
      by (rule pack_bits) (use lt False in simp)
    also have "nat e * 1024 + unat v mod 1024 = nat (e - 1) * 1024 + unat v"
    proof -
      have "unat v mod 1024 = unat v - 1024" using p(1) v by (simp add: mod_if)
      moreover have "nat e = nat (e - 1) + 1" using False by simp
      ultimately show ?thesis using p(1) by simp
    qed
    also have "of_nat (nat (e - 1) * 1024 + unat v) = encode n"
    proof -
      have "\<not> 30 \<le> nat (e - 1)" using lt by arith
      then show ?thesis unfolding enc by (simp only: if_False)
    qed
    finally show ?thesis unfolding g by (simp only:)
  qed
qed

lemma shrink_value:
  "shrink v e = (of_nat (unat v div 2 ^ excess (unat v)), e + int (excess (unat v)))"
proof (induction v e rule: shrink.induct)
  case (1 v e)
  show ?case
  proof (cases "2048 \<le> v")
    case True
    then have x: "excess (unat v) = Suc (excess (unat v div 2))"
      by (subst excess.simps) (simp add: word_le_nat_alt)
    have "unat (drop_bit 1 v) = unat v div 2" unfolding unat_drop_bit by simp
    with 1 [OF True] True x show ?thesis
      by (subst shrink.simps) (simp add: div_mult2_eq)
  next
    case False
    then have "excess (unat v) = 0" by (subst excess.simps) (simp add: word_le_nat_alt)
    with False show ?thesis by (subst shrink.simps) simp
  qed
qed

section \<open>Multiplication\<close>

text \<open>Operands as mantissa and adjusted exponent.\<close>

definition adj :: "u16 \<Rightarrow> nat" where
  "adj w = max 1 (expo w)"

lemma mag_adj: "mag w = unat (MANTISSA w) * 2 ^ (adj w - 1)"
  by (simp add: mag_def adj_def MANTISSA_value max_def add.commute)

lemma mantissa_bounds: "unat (MANTISSA w) < 2048" "1 < adj w \<Longrightarrow> 1024 \<le> unat (MANTISSA w)"
  "1 \<le> adj w" "is_finite w \<Longrightarrow> adj w \<le> 30"
  using mant_less [of w] by (auto simp: MANTISSA_value adj_def is_finite_def)

lemma mag_zero: "mag w = 0 \<longleftrightarrow> IS_ZERO w" "mag w = 0 \<longleftrightarrow> unat (MANTISSA w) = 0"
  by (auto simp: kind_fields mag_def MANTISSA_value)

lemma adj_code: "uint (EXPONENT w) + of_bool (uint (EXPONENT w) = 0) = int (adj w)"
proof -
  have "uint (EXPONENT w) = int (expo w)" by (simp flip: EXPONENT_value)
  then show ?thesis by (simp add: adj_def)
qed

lemma sign_masked: "(x AND SIGN_MASK) AND SIGN_MASK = x AND SIGN_MASK"
  by (simp add: and.assoc)

lemma scaled_product:
  fixes m1 m2 :: nat
  assumes "1 \<le> x" "1 \<le> y"
  shows "m1 * 2 ^ (x - 1) * (m2 * 2 ^ (y - 1)) div 2 ^ 24 = scaled (m1 * m2) (int x + int y - 26)"
proof -
  have e: "m1 * 2 ^ (x - 1) * (m2 * 2 ^ (y - 1)) = (m1 * m2) * 2 ^ (x + y - 2)"
  proof -
    have "(x - 1) + (y - 1) = x + y - 2" using assms by simp
    then have "(2::nat) ^ (x + y - 2) = 2 ^ (x - 1) * 2 ^ (y - 1)" by (metis power_add)
    then show ?thesis by (simp only: ac_simps)
  qed
  show ?thesis
  proof (cases "26 \<le> x + y")
    case True
    then have "x + y - 2 = (x + y - 26) + 24" by simp
    then have "(2::nat) ^ (x + y - 2) = 2 ^ (x + y - 26) * 2 ^ 24" by (metis power_add)
    with True show ?thesis unfolding e by (simp add: scaled_def nat_diff_distrib flip: of_nat_add)
  next
    case False
    then have "24 = (x + y - 2) + (26 - (x + y))" using assms by simp
    then have "(2::nat) ^ 24 = 2 ^ (x + y - 2) * 2 ^ (26 - (x + y))" by (metis power_add)
    then have "(m1 * m2) * 2 ^ (x + y - 2) div 2 ^ 24 = (m1 * m2) div 2 ^ (26 - (x + y))"
      by (simp only: div_mult2_eq) simp
    moreover have "nat (- (int x + int y - 26)) = 26 - (x + y)" by simp
    ultimately show ?thesis unfolding e using False by (simp add: scaled_def)
  qed
qed

text \<open>
  A quotient \<open>X div m\<close> and its power-of-two scaling, as the packing of a shrunk value needs it.
\<close>

lemma pack_scaled:
  assumes "unat w = v div 2 ^ j" "unat w < 2048" "e' = e + int j" "- 200 < e"
    "0 < e' \<Longrightarrow> 1024 \<le> unat w" "sign AND SIGN_MASK = sign"
  shows "pack sign w e' = sign OR encode (scaled v (e - 1))"
proof (rule pack_value [OF assms(2,6)])
  show "- 200 < e'" using assms(3,4) by simp
  assume p: "0 < e'"
  have "scaled v (e - 1) div 2 ^ nat (e' - 1) = v div 2 ^ nat (int (nat (e' - 1)) - (e - 1))"
    by (rule scaled_div) (use assms(3) in simp)
  also have "nat (int (nat (e' - 1)) - (e - 1)) = j" using p assms(3) by simp
  finally show "1024 \<le> unat w \<and> scaled v (e - 1) div 2 ^ nat (e' - 1) = unat w"
    using assms(1,5) p by simp
next
  assume n: "e' \<le> 0"
  then have "\<not> 0 \<le> e - 1" using assms(3) by simp
  then have "scaled v (e - 1) = v div 2 ^ nat (1 - e)" by (simp add: scaled_def)
  also have "nat (1 - e) = j + nat (1 - e')" using n assms(3) by simp
  also have "v div 2 ^ (j + nat (1 - e')) = unat w div 2 ^ nat (1 - e')"
    by (simp add: power_add div_mult2_eq assms(1))
  finally show "scaled v (e - 1) = unat w div 2 ^ nat (1 - e')" .
qed

definition finite_nonzero :: "u16 \<Rightarrow> bool" where
  "finite_nonzero w \<longleftrightarrow> is_finite w \<and> \<not> IS_ZERO w"

lemma finite_kinds: "is_finite w \<Longrightarrow> \<not> IS_INVALID w \<and> \<not> IS_NAN w"
  by (auto simp: kind_fields is_finite_def)

lemma product_value:
  "unat (ucast (MANTISSA a) * ucast (MANTISSA b) :: u32) = unat (MANTISSA a) * unat (MANTISSA b)"
proof -
  have u: "unat (ucast (w :: u16) :: u32) = unat w" for w
  proof -
    have "unat w < 2 ^ LENGTH(16)" by (rule unsigned_less)
    then show ?thesis by (simp add: unsigned_ucast_eq take_bit_eq_mod)
  qed
  have "unat (MANTISSA a) * unat (MANTISSA b) \<le> 2047 * 2047"
    using mantissa_bounds(1) [of a] mantissa_bounds(1) [of b] by (intro mult_le_mono) auto
  then show ?thesis by (simp add: unat_word_ariths u)
qed

lemma bit_test:
  fixes v :: u32
  assumes "unat v < 2 ^ Suc k" "k < 32"
  shows "v AND push_bit k 1 \<noteq> 0 \<longleftrightarrow> 2 ^ k \<le> unat v"
proof -
  have "v AND push_bit k 1 \<noteq> 0 \<longleftrightarrow> bit v k"
    using and_exp_eq_0_iff_not_bit [of v k] by (simp add: push_bit_eq_mult)
  also have "bit v k \<longleftrightarrow> bit (unat v) k" by (simp add: bit_unsigned_iff)
  also have "bit (unat v) k \<longleftrightarrow> odd (unat v div 2 ^ k)" by (rule bit_iff_odd)
  also have "\<dots> \<longleftrightarrow> 2 ^ k \<le> unat v"
  proof (cases "2 ^ k \<le> unat v")
    case True
    then have "unat v div 2 ^ k = 1" using assms(1) by (intro div_nat_eqI) auto
    with True show ?thesis by simp
  qed simp
  finally show ?thesis .
qed

lemma f16_mul_value:
  assumes "is_finite a" "is_finite b"
  shows "f16_mul a b = (if mag a = 0 \<or> mag b = 0 then 0
    else ((a XOR b) AND SIGN_MASK) OR encode (mag a * mag b div 2 ^ 24))"
proof (cases "mag a = 0 \<or> mag b = 0")
  case True
  then have "IS_ZERO a \<or> IS_ZERO b" by (simp add: mag_zero(1))
  then show ?thesis using True finite_kinds assms by (simp add: f16_mul_def)
next
  case False
  let ?v = "ucast (MANTISSA a) * ucast (MANTISSA b) :: u32"
  let ?m = "unat (MANTISSA a) * unat (MANTISSA b)"
  let ?e = "int (adj a) + int (adj b) - 15"
  let ?s = "(a XOR b) AND SIGN_MASK"
  have v: "unat ?v = ?m" by (rule product_value)
  have nz: "\<not> IS_ZERO a" "\<not> IS_ZERO b" "0 < unat (MANTISSA a)" "0 < unat (MANTISSA b)"
    using False mag_zero by auto
  note ba = mantissa_bounds [of a] and bb = mantissa_bounds [of b]
  have m: "?m < 2 ^ 22"
  proof -
    have "?m \<le> 2047 * 2047" using ba(1) bb(1) by (intro mult_le_mono) auto
    then show ?thesis by simp
  qed
  have n: "mag a * mag b div 2 ^ 24 = scaled ?m (int (adj a) + int (adj b) - 26)"
    unfolding mag_adj by (rule scaled_product [OF ba(3) bb(3)])
  have x: "adj a \<le> 30" "adj b \<le> 30" using ba(4) bb(4) assms by simp_all
  have code: "f16_mul a b =
    (let (v, new_exp) = (if ?v AND push_bit 21 1 \<noteq> 0 then (drop_bit 11 ?v, ?e + 1)
        else if ?v AND push_bit 20 1 \<noteq> 0 then (drop_bit 10 ?v, ?e)
        else shrink ?v (?e - 10)) in pack ?s v new_exp)"
    using nz finite_kinds assms adj_code by (simp add: f16_mul_def Let_def)
  have ss: "?s AND SIGN_MASK = ?s" by (rule sign_masked)
  have t21: "?v AND push_bit 21 1 \<noteq> 0 \<longleftrightarrow> 2 ^ 21 \<le> ?m"
    using bit_test [of ?v 21] m unfolding v by simp
  have t20: "?v AND push_bit 20 1 \<noteq> 0 \<longleftrightarrow> 2 ^ 20 \<le> ?m" if "?m < 2 ^ 21"
    using bit_test [of ?v 20] that unfolding v by simp
  have "f16_mul a b = ?s OR encode (scaled ?m (?e - 11))"
  proof -
    consider "2 ^ 21 \<le> ?m" | "?m < 2 ^ 21" "2 ^ 20 \<le> ?m" | "?m < 2 ^ 20" by linarith
    then show ?thesis
    proof cases
      case 1
      have "pack ?s (drop_bit 11 ?v) (?e + 1) = ?s OR encode (scaled ?m (?e - 10 - 1))"
      proof (rule pack_scaled [where j = 11, OF _ _ _ _ _ ss])
        show w: "unat (drop_bit 11 ?v) = ?m div 2 ^ 11" by (simp only: unat_drop_bit v)
        show "unat (drop_bit 11 ?v) < 2048" unfolding w using m by (simp add: div_less_iff_less_mult)
        show "1024 \<le> unat (drop_bit 11 ?v)" unfolding w using 1 by (simp add: less_eq_div_iff_mult_less_eq)
      qed (use x in simp_all)
      with 1 t21 show ?thesis unfolding code by simp
    next
      case 2
      have "pack ?s (drop_bit 10 ?v) ?e = ?s OR encode (scaled ?m (?e - 10 - 1))"
      proof (rule pack_scaled [where j = 10, OF _ _ _ _ _ ss])
        show w: "unat (drop_bit 10 ?v) = ?m div 2 ^ 10" by (simp only: unat_drop_bit v)
        show "unat (drop_bit 10 ?v) < 2048" unfolding w using 2 by (simp add: div_less_iff_less_mult)
        show "1024 \<le> unat (drop_bit 10 ?v)" unfolding w using 2 by (simp add: less_eq_div_iff_mult_less_eq)
      qed (use x in simp_all)
      with 2 t21 t20 show ?thesis unfolding code by simp
    next
      case 3
      let ?j = "excess ?m"
      let ?w = "of_nat (?m div 2 ^ ?j) :: u32"
      have w: "unat ?w = ?m div 2 ^ ?j"
        using excess_bound [of ?m] by (simp add: unat_of_nat)
      have "pack ?s ?w (?e - 10 + int ?j) = ?s OR encode (scaled ?m (?e - 10 - 1))"
      proof (rule pack_scaled [OF w _ refl _ _ ss])
        show "unat ?w < 2048" unfolding w by (rule excess_bound)
        assume pos: "0 < ?e - 10 + int ?j"
        show "1024 \<le> unat ?w"
        proof (cases "?j = 0")
          case True
          then have "1 < adj a \<or> 1 < adj b" using pos by auto
          then have "1024 \<le> ?m"
          proof
            assume "1 < adj a"
            then have "1024 * 1 \<le> ?m" using ba(2) nz(4) by (intro mult_le_mono) auto
            then show ?thesis by simp
          next
            assume "1 < adj b"
            then have "1 * 1024 \<le> ?m" using bb(2) nz(3) by (intro mult_le_mono) auto
            then show ?thesis by simp
          qed
          moreover have "unat ?w = ?m" unfolding w unfolding True by (simp only: power_0 div_by_1)
          ultimately show ?thesis by (simp only:)
        next
          case False
          then show ?thesis unfolding w by (intro excess_lower) simp
        qed
      qed (use x in simp_all)
      moreover have "\<not> 2 ^ 21 \<le> ?m" "\<not> 2 ^ 20 \<le> ?m" using 3 by simp_all
      ultimately show ?thesis
        using t21 t20 3 unfolding code shrink_value v by simp
    qed
  qed
  moreover have "?e - 11 = int (adj a) + int (adj b) - 26" by simp
  ultimately show ?thesis using False n by simp
qed

section \<open>Division\<close>

lemma cross_scaled:
  fixes m d :: nat
  assumes "p + q' = p' + q"
  shows "m * 2 ^ p div (d * 2 ^ q) = m * 2 ^ p' div (d * 2 ^ q')"
proof -
  have one: "m * 2 ^ p div (d * 2 ^ q) = m * 2 ^ (p + r) div (d * 2 ^ (q + r))" for p q r
  proof -
    have "m * 2 ^ (p + r) div (d * 2 ^ (q + r)) = m * 2 ^ p * 2 ^ r div (d * 2 ^ q * 2 ^ r)"
      by (simp only: power_add mult.assoc)
    then show ?thesis by simp
  qed
  show ?thesis
  proof (cases "p \<le> p'")
    case True
    then have "p + (p' - p) = p'" "q + (p' - p) = q'" using assms by simp_all
    with one [of p q "p' - p"] show ?thesis by (simp only:)
  next
    case False
    then have "p' + (p - p') = p" "q' + (p - p') = q" using assms by simp_all
    with one [of p' q' "p - p'"] show ?thesis by (simp only:)
  qed
qed

lemma div_loop_value:
  assumes "unat v * unat m2 + unat r = X" "unat r < unat m2" "unat m2 < 2048" "div_loop m2 v r e = (v', e')"
  shows "\<exists>i. e' = e - int i \<and> unat v' = X * 2 ^ i div unat m2 \<and> (1024 \<le> unat v' \<or> e' \<le> 0) \<and> (e' \<noteq> e \<longrightarrow> 0 \<le> e')"
  using assms
proof (induction m2 v r e arbitrary: X rule: div_loop.induct)
  case (1 m2 v r e)
  show ?case
  proof (cases "v < 1024 \<and> 0 < e")
    case False
    then have "v' = v" "e' = e" using 1(5) by (subst (asm) div_loop.simps; simp)+
    moreover have "unat v = X div unat m2"
      using 1(2,3) by (metis add.commute div_mult_self1 div_less add.right_neutral gr_implies_not0)
    moreover have "1024 \<le> unat v \<or> e \<le> 0" using False by (auto simp: word_less_nat_alt)
    ultimately show ?thesis by (intro exI [of _ 0]) simp
  next
    case True
    let ?v = "push_bit 1 v" and ?r = "push_bit 1 r"
    let ?v2 = "if m2 \<le> ?r then ?v + 1 else ?v" and ?r2 = "if m2 \<le> ?r then ?r - m2 else ?r"
    have v: "unat ?v = 2 * unat v" "unat ?r = 2 * unat r"
    proof -
      have "unat v < 1024" using True by (simp add: word_less_nat_alt)
      then have "push_bit 1 (unat v) < 2 ^ LENGTH(32)" "push_bit 1 (unat r) < 2 ^ LENGTH(16)"
        using 1(3,4) by (simp_all add: push_bit_eq_mult)
      then show "unat ?v = 2 * unat v" "unat ?r = 2 * unat r"
        by (simp_all only: unsigned_push_bit_eq take_bit_eq_mod mod_less) (simp_all add: push_bit_eq_mult)
    qed
    have c: "m2 \<le> ?r \<longleftrightarrow> unat m2 \<le> 2 * unat r" unfolding word_le_nat_alt v ..
    have v2: "unat ?v2 = 2 * unat v + (if unat m2 \<le> 2 * unat r then 1 else 0)"
    proof -
      have "unat v < 1024" using True by (simp add: word_less_nat_alt)
      then show ?thesis unfolding c by (simp add: unat_word_ariths v del: push_bit_of_1)
    qed
    have r2: "unat ?r2 = 2 * unat r - (if unat m2 \<le> 2 * unat r then unat m2 else 0)"
    proof (cases "m2 \<le> ?r")
      case True
      then have "unat (?r - m2) = unat ?r - unat m2" by (rule unat_sub)
      with True c show ?thesis by (simp only: v if_True)
    next
      case False
      with c show ?thesis by (simp only: v if_False)
    qed
    have inv: "unat ?v2 * unat m2 + unat ?r2 = X * 2" "unat ?r2 < unat m2"
      unfolding v2 r2 using 1(2,3) by (auto simp: algebra_simps)
    have "div_loop m2 ?v2 ?r2 (e - 1) = (v', e')"
      using 1(5) True by (subst (asm) div_loop.simps) (simp add: Let_def split: if_splits del: push_bit_of_1)
    moreover have pr: "(?v2, ?r2) = (if m2 \<le> ?r then (?v + 1, ?r - m2) else (?v, ?r))" by simp
    ultimately obtain i where
      "e' = e - 1 - int i" "unat v' = X * 2 * 2 ^ i div unat m2" "1024 \<le> unat v' \<or> e' \<le> 0" "e' \<noteq> e - 1 \<longrightarrow> 0 \<le> e'"
      using 1(1) [OF True refl refl pr refl inv 1(4)] by blast
    with True show ?thesis by (intro exI [of _ "Suc i"]) (auto simp: mult.assoc)
  qed
qed

lemma ucast_up: "unat (ucast (w :: u16) :: u32) = unat w"
proof -
  have "unat w < 2 ^ LENGTH(16)" by (rule unsigned_less)
  then show ?thesis by (simp add: unsigned_ucast_eq take_bit_eq_mod)
qed

lemma quotient_start:
  fixes m1 m2 :: u16
  assumes "unat m1 < 2048" "unat m2 < 2048" "0 < unat m2"
  shows "unat (push_bit 10 (ucast m1) :: u32) = unat m1 * 2 ^ 10"
    and "unat ((push_bit 10 (ucast m1) :: u32) div ucast m2) = unat m1 * 2 ^ 10 div unat m2"
    and "unat (ucast ((push_bit 10 (ucast m1) :: u32) mod ucast m2) :: u16) = unat m1 * 2 ^ 10 mod unat m2"
proof -
  show p: "unat (push_bit 10 (ucast m1) :: u32) = unat m1 * 2 ^ 10"
  proof -
    have "push_bit 10 (unat m1) < 2 ^ LENGTH(32)" using assms(1) by (simp add: push_bit_eq_mult)
    then show ?thesis
      by (simp only: unsigned_push_bit_eq ucast_up take_bit_eq_mod mod_less) (simp add: push_bit_eq_mult)
  qed
  show "unat ((push_bit 10 (ucast m1) :: u32) div ucast m2) = unat m1 * 2 ^ 10 div unat m2"
    by (simp only: unat_div p ucast_up)
  have r: "unat ((push_bit 10 (ucast m1) :: u32) mod ucast m2) = unat m1 * 2 ^ 10 mod unat m2"
    by (simp only: unat_mod p ucast_up)
  have "unat m1 * 2 ^ 10 mod unat m2 < 2 ^ 16"
  proof -
    have "unat m1 * 2 ^ 10 mod unat m2 < unat m2" using assms(3) by (rule mod_less_divisor)
    then have "unat m1 * 2 ^ 10 mod unat m2 < 2048" using assms(2) by (rule less_trans)
    then show ?thesis by simp
  qed
  then show "unat (ucast ((push_bit 10 (ucast m1) :: u32) mod ucast m2) :: u16) = unat m1 * 2 ^ 10 mod unat m2"
    unfolding unsigned_ucast_eq take_bit_eq_mod r by simp
qed

lemma f16_div_value:
  assumes "is_finite a" "is_finite b" "mag b \<noteq> 0"
  shows "f16_div a b = (if mag a = 0 then 0
    else ((a XOR b) AND SIGN_MASK) OR encode (mag a * 2 ^ 24 div mag b))"
proof (cases "mag a = 0")
  case True
  then show ?thesis using finite_kinds assms mag_zero(1) by (simp add: f16_div_def)
next
  case False
  let ?m1 = "unat (MANTISSA a)" and ?m2 = "unat (MANTISSA b)"
  let ?v0 = "(push_bit 10 (ucast (MANTISSA a)) :: u32) div ucast (MANTISSA b)"
  let ?r0 = "ucast ((push_bit 10 (ucast (MANTISSA a)) :: u32) mod ucast (MANTISSA b)) :: u16"
  let ?e = "int (adj a) - int (adj b) + 15"
  let ?s = "(a XOR b) AND SIGN_MASK"
  let ?n = "mag a * 2 ^ 24 div mag b"
  have nz: "0 < ?m1" "0 < ?m2" "\<not> IS_ZERO a" "\<not> IS_ZERO b" using False assms(3) mag_zero by auto
  note ba = mantissa_bounds [of a] and bb = mantissa_bounds [of b]
  note q = quotient_start [OF ba(1) bb(1) nz(2)]
  have not0: "\<not> (?v0 = 0 \<and> ?r0 = 0)"
  proof
    assume "?v0 = 0 \<and> ?r0 = 0"
    then have "?m1 * 2 ^ 10 div ?m2 = 0" "?m1 * 2 ^ 10 mod ?m2 = 0" using q(2,3) by simp_all
    then have "?m1 * 2 ^ 10 = 0" by (metis div_mult_mod_eq mult_zero_left add_0)
    with nz(1) show False by simp
  qed
  obtain v e where l: "div_loop (MANTISSA b) ?v0 ?r0 ?e = (v, e)" by force
  have inv: "unat ?v0 * ?m2 + unat ?r0 = ?m1 * 2 ^ 10" "unat ?r0 < ?m2"
    unfolding q using nz(2) by simp_all
  from div_loop_value [OF inv bb(1) l] obtain i where
    i: "e = ?e - int i" "unat v = ?m1 * 2 ^ 10 * 2 ^ i div ?m2" "1024 \<le> unat v \<or> e \<le> 0" "e \<noteq> ?e \<longrightarrow> 0 \<le> e" by blast
  let ?j = "excess (unat v)"
  let ?w = "of_nat (unat v div 2 ^ ?j) :: u32"
  have w: "unat ?w = unat v div 2 ^ ?j" using excess_bound [of "unat v"] by (simp add: unat_of_nat)
  have code: "f16_div a b = pack ?s ?w (e + int ?j)"
  proof -
    have "f16_div a b = (let (v, new_exp) = div_loop (MANTISSA b) ?v0 ?r0 ?e; (v, new_exp) = shrink v new_exp in pack ?s v new_exp)"
      using nz finite_kinds [OF assms(1)] finite_kinds [OF assms(2)] adj_code [of a] adj_code [of b] not0
      by (simp only: f16_div_def Let_def if_False simp_thms)
    then show ?thesis by (simp only: l Let_def prod.case shrink_value)
  qed
  have x: "adj a \<le> 30" "adj b \<le> 30" using ba(4) bb(4) assms by simp_all
  have lo: "- 15 < e" using i(4) ba(3) x(2) by (cases "e = ?e") auto
  have nval: "?n = ?m1 * 2 ^ (adj a + 23) div (?m2 * 2 ^ (adj b - 1))"
  proof -
    have "adj a - 1 + 24 = adj a + 23" using ba(3) by simp
    then have "mag a * 2 ^ 24 = ?m1 * 2 ^ (adj a + 23)" unfolding mag_adj by (simp only: mult.assoc flip: power_add)
    then show ?thesis unfolding mag_adj [of b] by (simp only:)
  qed
  have vj: "unat v div 2 ^ k = ?m1 * 2 ^ (10 + i) div (?m2 * 2 ^ k)" for k
    unfolding i(2) by (simp only: div_mult2_eq mult.assoc power_add)
  have "pack ?s ?w (e + int ?j) = ?s OR encode ?n"
  proof (rule pack_value [OF _ sign_masked])
    show "unat ?w < 2048" unfolding w by (rule excess_bound)
    show "- 200 < e + int ?j" using lo by simp
  next
    assume p: "0 < e + int ?j"
    have "1024 \<le> unat ?w"
    proof (cases "?j = 0")
      case True
      then have "1024 \<le> unat v" using i(3) p by simp
      then show ?thesis unfolding w unfolding True by simp
    next
      case False
      then show ?thesis unfolding w by (intro excess_lower) simp
    qed
    moreover have "?n div 2 ^ nat (e + int ?j - 1) = unat ?w"
    proof -
      have "?n div 2 ^ nat (e + int ?j - 1) = ?m1 * 2 ^ (adj a + 23) div (?m2 * 2 ^ (adj b - 1 + nat (e + int ?j - 1)))"
        unfolding nval by (simp only: div_mult2_eq power_add mult.assoc)
      also have "\<dots> = ?m1 * 2 ^ (10 + i) div (?m2 * 2 ^ ?j)"
      proof (rule cross_scaled)
        have "int (adj a + 23 + ?j) = int (10 + i + (adj b - 1 + nat (e + int ?j - 1)))"
          using p i(1) bb(3) by simp
        then show "adj a + 23 + ?j = 10 + i + (adj b - 1 + nat (e + int ?j - 1))" by (simp only: of_nat_eq_iff)
      qed
      finally show ?thesis unfolding w unfolding vj .
    qed
    ultimately show "1024 \<le> unat ?w \<and> ?n div 2 ^ nat (e + int ?j - 1) = unat ?w" by blast
  next
    assume n: "e + int ?j \<le> 0"
    have "unat ?w div 2 ^ nat (1 - (e + int ?j)) = ?m1 * 2 ^ (10 + i) div (?m2 * 2 ^ (?j + nat (1 - (e + int ?j))))"
      unfolding w unfolding vj by (simp only: div_mult2_eq power_add mult.assoc)
    also have "\<dots> = ?m1 * 2 ^ (adj a + 23) div (?m2 * 2 ^ (adj b - 1))"
    proof (rule cross_scaled)
      have "int (10 + i + (adj b - 1)) = int (adj a + 23 + (?j + nat (1 - (e + int ?j))))"
        using n i(1) bb(3) by simp
      then show "10 + i + (adj b - 1) = adj a + 23 + (?j + nat (1 - (e + int ?j)))" by (simp only: of_nat_eq_iff)
    qed
    finally show "?n = unat ?w div 2 ^ nat (1 - (e + int ?j))" unfolding nval by simp
  qed
  then show ?thesis unfolding code using False by simp
qed

end
