(* ===== verification/Float16_Props.thy ===== *)
theory Float16_Props
  imports Float16_Arith
begin

text \<open>
  Conversions and comparisons of the half-precision numbers, and the properties of
  \<open>demo/float16.c\<close> as a whole.
\<close>

section \<open>Integers\<close>

lemma grow_value:
  assumes "0 < unat v" "unat v < 2048"
  shows "\<exists>g. grow v e = (of_nat (unat v * 2 ^ g), e - int g) \<and> unat v * 2 ^ g < 2048 \<and> 1024 \<le> unat v * 2 ^ g
    \<and> g \<le> 10 \<and> (1024 \<le> unat v \<longrightarrow> g = 0)"
  using assms
proof (induction v e rule: grow.induct)
  case (1 v e)
  show ?case
  proof (cases "v < 1024 \<and> v \<noteq> 0")
    case False
    then have "1024 \<le> unat v" using 1(2) by (auto simp: word_less_nat_alt)
    with False 1(3) show ?thesis by (subst grow.simps) (auto intro!: exI [of _ 0])
  next
    case True
    have lt: "unat v < 1024" using True by (simp add: word_less_nat_alt)
    have u: "unat (push_bit 1 v) = unat v * 2"
    proof -
      have "push_bit 1 (unat v) < 2 ^ LENGTH(32)" using lt by (simp add: push_bit_eq_mult)
      then show ?thesis by (simp only: unsigned_push_bit_eq take_bit_eq_mod mod_less) (simp add: push_bit_eq_mult)
    qed
    have "0 < unat (push_bit 1 v)" "unat (push_bit 1 v) < 2048" unfolding u using 1(2) lt by simp_all
    from 1(1) [OF True this] obtain g where
      g: "grow (push_bit 1 v) (e - 1) = (of_nat (unat (push_bit 1 v) * 2 ^ g), e - 1 - int g)"
      "unat (push_bit 1 v) * 2 ^ g < 2048" "1024 \<le> unat (push_bit 1 v) * 2 ^ g" by blast
    have s: "unat (push_bit 1 v) * 2 ^ g = unat v * 2 ^ Suc g" unfolding u by simp
    have "Suc g \<le> 10"
    proof (rule ccontr)
      assume "\<not> Suc g \<le> 10"
      then have "1 * 2 ^ 11 \<le> unat v * 2 ^ Suc g" using 1(2) by (intro mult_le_mono power_increasing) auto
      then show False using g(2) unfolding s by simp
    qed
    moreover have "grow v e = (of_nat (unat v * 2 ^ Suc g), e - int (Suc g))"
      using g(1) True unfolding s by (subst grow.simps) (simp del: push_bit_of_1)
    ultimately show ?thesis using g(2,3) lt unfolding s by (intro exI [of _ "Suc g"]) simp
  qed
qed

lemma int_pack:
  fixes w :: u32
  assumes "1024 \<le> unat w" "unat w < 2048" "0 < e"
    and n: "n div 2 ^ nat (e - 1) = unat w" and s: "sign AND SIGN_MASK = sign"
  shows "(if 31 \<le> e then SIGNED_INF_VALUE sign else sign OR push_bit 10 (of_int e) OR (ucast w AND 1023)) = sign OR encode n"
proof (cases "200 \<le> e")
  case True
  then have "30 \<le> nat (e - 1)" by simp
  with True assms(1,2) n s encode_at [of n "nat (e - 1)"] show ?thesis by (simp add: SIGNED_INF_VALUE_def)
next
  case False
  have "pack sign w e = sign OR encode n"
    by (rule pack_value) (use assms in auto)
  with assms(3) show ?thesis by (simp add: pack_def)
qed

lemma cancel_shift: "g \<le> k \<Longrightarrow> m * 2 ^ k div 2 ^ (k - g) = m * 2 ^ g" for m :: nat
proof -
  assume "g \<le> k"
  then have "m * 2 ^ k = (m * 2 ^ g) * 2 ^ (k - g)" by (simp add: mult.assoc flip: power_add)
  then show ?thesis by (simp only: nonzero_mult_div_cancel_right power_not_zero zero_neq_numeral simp_thms)
qed

lemma f16_from_int_value:
  assumes "sv \<noteq> 0x80000000"
  shows "f16_from_int sv = Inr (if sv = 0 then 0
    else (if sint sv < 0 then 0x8000 else 0) OR encode (nat \<bar>sint sv\<bar> * 2 ^ 24))"
proof (cases "sv = 0")
  case True
  then show ?thesis by (simp add: f16_from_int_def)
next
  case False
  let ?v = "if sint sv < 0 then - sv else sv"
  let ?sig = "(if sint sv < 0 then 1 else 0) :: u16"
  let ?s = "(if sint sv < 0 then 0x8000 else 0) :: u16"
  let ?m = "unat ?v"
  have nz: "?v \<noteq> 0" using False by simp
  then have m0: "0 < ?m" by (simp add: unat_gt_0)
  have mv: "nat \<bar>sint sv\<bar> = ?m"
  proof (cases "sint sv < 0")
    case True
    have "- sv = of_int (- sint sv)" by simp
    also have "\<dots> = of_nat (nat (- sint sv))" using True by simp
    finally have m: "- sv = of_nat (nat (- sint sv))" .
    have "- (2 ^ (LENGTH(32) - Suc 0)) \<le> sint sv" by (rule sint_greater_eq)
    then have "nat (- sint sv) < 2 ^ LENGTH(32)" using True by simp
    then have "nat \<bar>sint sv\<bar> = unat (- sv)" unfolding m unat_of_nat using True by simp
    then show ?thesis using True by simp
  next
    case nn: False
    have "sv = of_int (sint sv)" by simp
    also have "\<dots> = of_nat (nat (sint sv))" using nn by simp
    finally have m: "sv = of_nat (nat (sint sv))" .
    have "sint sv < 2 ^ (LENGTH(32) - 1)" by (rule sint_lt)
    then have "nat (sint sv) < 2 ^ LENGTH(32)" by simp
    moreover have "unat sv = nat (sint sv) mod 2 ^ LENGTH(32)"
      by (subst m) (rule unat_of_nat)
    ultimately have "unat sv = nat (sint sv)" by (simp only: mod_less)
    with nn show ?thesis by simp
  qed
  let ?j = "excess ?m"
  let ?w = "of_nat (?m div 2 ^ ?j) :: u32"
  have w: "unat ?w = ?m div 2 ^ ?j" using excess_bound [of ?m] by (simp add: unat_of_nat)
  have wb: "0 < unat ?w" "unat ?w < 2048"
  proof -
    show "unat ?w < 2048" unfolding w by (rule excess_bound)
    show "0 < unat ?w" unfolding w using excess_lower [of ?m] m0 by (cases "?j = 0") auto
  qed
  from grow_value [OF wb, of "25 + int ?j"] obtain g where
    g: "grow ?w (25 + int ?j) = (of_nat (unat ?w * 2 ^ g), 25 + int ?j - int g)"
      "unat ?w * 2 ^ g < 2048" "1024 \<le> unat ?w * 2 ^ g" "g \<le> 10" "1024 \<le> unat ?w \<longrightarrow> g = 0" by blast
  let ?z = "of_nat (unat ?w * 2 ^ g) :: u32"
  let ?e = "25 + int ?j - int g"
  have z: "unat ?z = unat ?w * 2 ^ g"
  proof -
    have "unat ?w * 2 ^ g < 2 ^ LENGTH(32)" by (rule less_trans [OF g(2)]) simp
    then show ?thesis by (simp only: unat_of_nat mod_less)
  qed
  have sg: "push_bit 15 ?sig = ?s" by simp
  have one: "?j = 0 \<or> g = 0"
  proof (cases "?j = 0")
    case False
    then have "1024 \<le> unat ?w" unfolding w by (intro excess_lower) simp
    then show ?thesis using g(5) by blast
  qed simp
  have n: "?m * 2 ^ 24 div 2 ^ nat (?e - 1) = unat ?z"
  proof (cases "?j = 0")
    case True
    have e: "nat (?e - 1) = 24 - g" using True g(4) by simp
    have wm: "unat ?w = ?m" unfolding w unfolding True by simp
    show ?thesis unfolding e z unfolding wm using g(4) by (intro cancel_shift) simp
  next
    case False
    with one have "g = 0" by (simp only: simp_thms)
    moreover have "nat (?e - 1) = 24 + ?j" using \<open>g = 0\<close> by simp
    ultimately show ?thesis unfolding z unfolding w by (simp add: power_add flip: div_mult2_eq)
  qed
  have "f16_from_int sv = Inr (if 31 \<le> ?e then SIGNED_INF_VALUE ?s else ?s OR push_bit 10 (of_int ?e) OR (ucast ?z AND 1023))"
  proof -
    have "f16_from_int sv = (let (v, e) = shrink ?v 25; (v, e) = grow v e in
        if 31 \<le> e then Inr (SIGNED_INF_VALUE (push_bit 15 ?sig))
        else Inr (push_bit 15 ?sig OR push_bit 10 (of_int e) OR (ucast v AND 1023)))"
      using assms nz by (cases "sint sv < 0"; simp only: f16_from_int_def if_True if_False simp_thms Let_def prod.case)
    then show ?thesis
      unfolding shrink_value Let_def prod.case g(1) sg by (simp only: if_distrib [of Inr])
  qed
  moreover have "?s AND SIGN_MASK = ?s" by (simp add: SIGN_MASK_def)
  moreover have "0 < ?e" using g(4) by simp
  ultimately show ?thesis
    using int_pack [of ?z ?e "?m * 2 ^ 24" ?s] n g(2,3) z False mv by simp
qed

section \<open>Signs\<close>

definition low_bits :: "u16 \<Rightarrow> nat" where
  "low_bits w = unat (w AND 0x7FFF)"

definition negative :: "u16 \<Rightarrow> bool" where
  "negative w \<longleftrightarrow> w AND SIGN_MASK \<noteq> 0"

lemma negative_bit: "negative w \<longleftrightarrow> bit w 15"
  using and_exp_eq_0_iff_not_bit [of w 15] by (simp add: negative_def SIGN_MASK_def)

lemma negative_unat: "negative w \<longleftrightarrow> 2 ^ 15 \<le> unat w"
proof -
  have "bit w 15 \<longleftrightarrow> odd (unat w div 2 ^ 15)"
    using bit_iff_odd [of "unat w" 15] by (simp add: bit_unsigned_iff)
  moreover have "unat w < 2 ^ LENGTH(16)" by (rule unsigned_less)
  then have "unat w < 65536" by simp
  then have "unat w div 2 ^ 15 < 2" "32768 \<le> unat w \<longleftrightarrow> unat w div 2 ^ 15 \<noteq> 0" by auto
  ultimately show ?thesis unfolding negative_bit by (auto simp: less_2_cases_iff)
qed

lemma low_bits_mod: "low_bits w = unat w mod 2 ^ 15"
  unfolding low_bits_def and_fields low15 ..

lemma sign_and_bits: "unat w = low_bits w + (if negative w then 32768 else 0)"
proof -
  have "unat w < 2 ^ LENGTH(16)" by (rule unsigned_less)
  then have "unat w < 65536" by simp
  moreover have "unat w mod 32768 = unat w - 32768" if "32768 \<le> unat w" "unat w < 65536"
    using that by (simp add: mod_if)
  ultimately show ?thesis unfolding low_bits_mod negative_unat by auto
qed

lemma low_bits_less: "low_bits w < 32768"
  by (simp add: low_bits_mod)

lemma word_by_sign: "a = b \<longleftrightarrow> low_bits a = low_bits b \<and> (negative a \<longleftrightarrow> negative b)"
  using sign_and_bits [of a] sign_and_bits [of b] low_bits_less [of a] low_bits_less [of b]
  unfolding word_unat_eq_iff by (auto split: if_splits)

lemma sign_test: "w AND SIGN_MASK = 0 \<longleftrightarrow> \<not> negative w" "w AND SIGN_MASK = SIGN_MASK \<longleftrightarrow> negative w"
proof -
  show "w AND SIGN_MASK = 0 \<longleftrightarrow> \<not> negative w" by (simp add: negative_def)
  have "bit (SIGN_MASK) n \<longleftrightarrow> n = 15" if "n < 16" for n
    using that bit_exp_iff [of 15 n, where 'a = u16] by (auto simp: SIGN_MASK_def)
  then have "w AND SIGN_MASK = SIGN_MASK \<longleftrightarrow> bit w 15"
    by (subst bit_eq_iff) (auto simp: bit_and_iff dest: spec [of _ 15])
  then show "w AND SIGN_MASK = SIGN_MASK \<longleftrightarrow> negative w" by (simp add: negative_bit)
qed

text \<open>The value of a number in units of \<open>2^-24\<close>; the infinities are the largest of each sign.\<close>

definition signed_value :: "u16 \<Rightarrow> int" where
  "signed_value w = (if negative w then - int (mag w) else int (mag w))"

definition ordered :: "u16 \<Rightarrow> u16 \<Rightarrow> bool" where
  "ordered a b \<longleftrightarrow> \<not> IS_NAN a \<and> \<not> IS_NAN b"

lemma bits_order: "mag a < mag b \<longleftrightarrow> low_bits a < low_bits b"
  by (simp add: mag_order low_bits_def)

lemma bits_order_le: "mag a \<le> mag b \<longleftrightarrow> low_bits a \<le> low_bits b"
  using bits_order [of b a] by linarith

lemma bits_eq: "mag a = mag b \<longleftrightarrow> low_bits a = low_bits b"
  using bits_order [of a b] bits_order [of b a] by linarith

lemma bits_zero: "IS_ZERO w \<longleftrightarrow> low_bits w = 0" "mag w = 0 \<longleftrightarrow> low_bits w = 0"
proof -
  show "IS_ZERO w \<longleftrightarrow> low_bits w = 0" by (simp add: IS_ZERO_def low_bits_def unat_eq_0)
  then show "mag w = 0 \<longleftrightarrow> low_bits w = 0" by (simp add: mag_zero)
qed

section \<open>Comparisons\<close>

lemma signed_less:
  assumes "\<not> negative a" "\<not> negative b"
  shows "a <s b \<longleftrightarrow> low_bits a < low_bits b" "a \<le>s b \<longleftrightarrow> low_bits a \<le> low_bits b"
proof -
  have u: "unat a = low_bits a" "unat b = low_bits b" using assms by (simp_all add: sign_and_bits)
  then have "unat a < 2 ^ 15" "unat b < 2 ^ 15" using low_bits_less by simp_all
  from signed_compare [OF this] show "a <s b \<longleftrightarrow> low_bits a < low_bits b" "a \<le>s b \<longleftrightarrow> low_bits a \<le> low_bits b"
    by (simp_all only: u)
qed

lemma masked_less:
  "a AND 0x7FFF < b AND 0x7FFF \<longleftrightarrow> low_bits a < low_bits b"
  "a AND 0x7FFF \<le> b AND 0x7FFF \<longleftrightarrow> low_bits a \<le> low_bits b"
  by (simp_all add: low_bits_def word_less_nat_alt word_le_nat_alt)

lemma values_order:
  "signed_value a < signed_value b \<longleftrightarrow>
    (if negative a then if negative b then low_bits b < low_bits a else \<not> (low_bits a = 0 \<and> low_bits b = 0)
     else \<not> negative b \<and> low_bits a < low_bits b)"
  "signed_value a = signed_value b \<longleftrightarrow> low_bits a = low_bits b \<and> ((negative a \<longleftrightarrow> negative b) \<or> low_bits a = 0)"
  unfolding bits_zero(2) [symmetric] bits_order [symmetric] bits_eq [symmetric]
  by (cases "negative a"; cases "negative b"; simp add: signed_value_def; linarith)+

lemma zero_is_a_number: "IS_ZERO a \<Longrightarrow> \<not> IS_NAN a"
  by (simp add: kind_fields)

lemmas comparison_defs = ordered_def sign_test values_order bits_zero(1) signed_less masked_less

text \<open>
  C32. The six comparisons are the order of the values that the bits stand for: with a NaN on
  either side every comparison is false but \<open>f16_neq\<close>; otherwise the signed values (both zeros
  are 0, the infinities outside every finite value) are compared.
\<close>

theorem comparisons_are_the_order:
  "(f16_gt a b \<longleftrightarrow> ordered a b \<and> signed_value b < signed_value a)
    \<and> (f16_gte a b \<longleftrightarrow> ordered a b \<and> signed_value b \<le> signed_value a)
    \<and> (f16_lt a b \<longleftrightarrow> ordered a b \<and> signed_value a < signed_value b)
    \<and> (f16_lte a b \<longleftrightarrow> ordered a b \<and> signed_value a \<le> signed_value b)
    \<and> (f16_eq a b \<longleftrightarrow> ordered a b \<and> signed_value a = signed_value b)
    \<and> (f16_neq a b \<longleftrightarrow> \<not> (ordered a b \<and> signed_value a = signed_value b))"
proof -
  have le: "signed_value x \<le> signed_value y \<longleftrightarrow> \<not> signed_value y < signed_value x" for x y by linarith
  have gt: "f16_gt a b \<longleftrightarrow> ordered a b \<and> signed_value b < signed_value a" for a b
    unfolding f16_gt_def comparison_defs by (simp add: signed_less)
  have gte: "f16_gte a b \<longleftrightarrow> ordered a b \<and> signed_value b \<le> signed_value a" for a b
    unfolding le f16_gte_def using zero_is_a_number [of a] zero_is_a_number [of b]
    unfolding comparison_defs by (auto simp: signed_less)
  have "f16_lt a b \<longleftrightarrow> ordered a b \<and> signed_value a < signed_value b"
    unfolding f16_lt_def gt by (auto simp: ordered_def)
  moreover have "f16_lte a b \<longleftrightarrow> ordered a b \<and> signed_value a \<le> signed_value b"
    unfolding f16_lte_def gte by (auto simp: ordered_def)
  moreover have eq: "f16_eq a b \<longleftrightarrow> ordered a b \<and> signed_value a = signed_value b"
    unfolding f16_eq_def comparison_defs word_by_sign [of a b] by auto
  ultimately show ?thesis unfolding f16_neq_def using gt gte by blast
qed

section \<open>Sign and magnitude of results\<close>

lemma encode_positive: "low_bits (encode n) = unat (encode n)" "\<not> negative (encode n)"
proof -
  have "unat (encode n) < 32768"
  proof (cases "30 \<le> excess n")
    case False
    then have "excess n * 1024 + n div 2 ^ excess n < 32768" using excess_bound [of n] by simp
    moreover have "encode n = of_nat (excess n * 1024 + n div 2 ^ excess n)" using False by (simp add: encode_def)
    moreover have "unat (of_nat m :: u16) \<le> m" for m by (simp add: unat_of_nat)
    ultimately show ?thesis by (metis le_less_trans)
  qed (simp add: encode_def)
  then show "\<not> negative (encode n)" by (simp add: negative_unat)
  then show "low_bits (encode n) = unat (encode n)" by (simp add: sign_and_bits)
qed

lemma masks_apart: "bit (0x8000 :: u16) n \<Longrightarrow> \<not> bit (0x7FFF :: u16) n"
proof -
  have "(0x8000 :: u16) AND 0x7FFF = 0" by simp
  then have "bit ((0x8000 :: u16) AND 0x7FFF) n \<longleftrightarrow> bit (0 :: u16) n" by simp
  then show "bit (0x8000 :: u16) n \<Longrightarrow> \<not> bit (0x7FFF :: u16) n" by (simp only: bit_and_iff bit_0_eq bot_apply) simp
qed

lemma or_sign: "mag (0x8000 OR w) = mag w" "negative (0x8000 OR w)" "mag (w XOR 0x8000) = mag w"
proof -
  have "(0x8000 OR w) AND 0x7FFF = w AND 0x7FFF" by (simp add: word_ao_dist)
  then have "mag ((0x8000 OR w) AND 0x7FFF) = mag (w AND 0x7FFF)" by simp
  then show "mag (0x8000 OR w) = mag w" by simp
  have "(w XOR 0x8000) AND 0x7FFF = w AND 0x7FFF" by (rule bit_word_eqI) (simp only: bit_and_iff bit_xor_iff, blast dest: masks_apart)
  then have "mag ((w XOR 0x8000) AND 0x7FFF) = mag (w AND 0x7FFF)" by simp
  then show "mag (w XOR 0x8000) = mag w" by simp
  show "negative (0x8000 OR w)" using bit_exp_iff [of 15 15, where 'a = u16] by (simp add: negative_bit bit_or_iff)
qed

lemma finite_by_mag: "is_finite w \<longleftrightarrow> mag w < 2 ^ 40"
proof -
  have "(1024 :: nat) * 2 ^ 30 = 2 ^ 40" by simp
  moreover have "mag w < 1024 * 2 ^ 30" if "is_finite w"
  proof -
    have "mag w < 1024 * 2 ^ expo w" by (rule mag_bounds)
    also have "\<dots> \<le> 1024 * 2 ^ 30" using that by (intro mult_left_mono power_increasing) (auto simp: is_finite_def)
    finally show ?thesis .
  qed
  moreover have "1024 * 2 ^ 30 \<le> mag w" if "\<not> is_finite w"
  proof -
    have "expo w = 31" using that expo_less [of w] by (simp add: is_finite_def)
    with mag_bounds(2) [of w] show ?thesis by simp
  qed
  ultimately show ?thesis by (metis not_less)
qed

lemma f16_int_value:
  assumes "is_finite a"
  shows "f16_int a = (if negative a then - of_nat (mag a div 2 ^ 24) else of_nat (mag a div 2 ^ 24))"
proof -
  let ?s = "int (expo a) - 25"
  let ?v = "if 0 < ?s then push_bit (nat ?s) (MANTISSA a)
    else if ?s < 0 then drop_bit (nat (- ?s)) (MANTISSA a) else MANTISSA a"
  have e: "uint (EXPONENT a) = int (expo a)" by (simp flip: EXPONENT_value)
  have lt: "expo a < 31" using assms by (simp add: is_finite_def)
  note m = MANTISSA_value [of a] and ml = mant_less [of a]
  consider "25 < expo a" | "expo a \<le> 25" "0 < expo a" | "expo a = 0" by linarith
  then have v: "unat ?v = mag a div 2 ^ 24"
  proof cases
    case 1
    let ?g = "expo a - 25"
    have "2 ^ ?g \<le> (2 ^ 5 :: nat)" using lt by (intro power_increasing) auto
    then have "unat (MANTISSA a) * 2 ^ ?g < 2048 * 32"
      using m ml by (intro mult_less_le_imp_less) auto
    then have b: "unat (MANTISSA a) * 2 ^ ?g < 2 ^ LENGTH(16)" by simp
    have "unat (push_bit ?g (MANTISSA a)) = unat (MANTISSA a) * 2 ^ ?g"
    proof -
      have "unat (push_bit ?g (MANTISSA a)) = take_bit LENGTH(16) (push_bit ?g (unat (MANTISSA a)))"
        by (rule unsigned_push_bit_eq)
      then show ?thesis using b by (simp only: take_bit_eq_mod push_bit_eq_mult mod_less)
    qed
    moreover have "expo a - 1 = ?g + 24" using 1 by simp
    then have "(2 :: nat) ^ (expo a - 1) = 2 ^ ?g * 2 ^ 24" by (simp only: power_add)
    moreover have "nat ?s = ?g" using 1 by simp
    ultimately show ?thesis using 1 m by (simp add: mag_def)
  next
    case 2
    have "mag a = unat (MANTISSA a) * 2 ^ (expo a - 1)" using 2 m by (simp add: mag_def)
    moreover have "(2 :: nat) ^ 24 = 2 ^ (expo a - 1) * 2 ^ (25 - expo a)" using 2 by (simp flip: power_add)
    moreover have "nat (- ?s) = 25 - expo a" using 2 by simp
    moreover have "unat (MANTISSA a) * 2 ^ (expo a - 1) div (2 ^ (expo a - 1) * 2 ^ (25 - expo a))
      = unat (MANTISSA a) div 2 ^ (25 - expo a)"
      unfolding div_mult2_eq by simp
    ultimately show ?thesis using 2 by (cases "expo a = 25") (auto simp: unat_drop_bit)
  next
    case 3
    then show ?thesis using m ml by (simp add: mag_def unat_drop_bit)
  qed
  have c: "ucast w = (of_nat (unat w) :: u32)" for w :: u16 by (rule of_nat_unat [symmetric])
  show ?thesis unfolding v [symmetric] c [symmetric]
    by (simp only: f16_int_def e Let_def negative_def)
qed

lemma exact_encode:
  assumes "2 ^ j dvd n" "n < 2048 * 2 ^ j" "n < 2 ^ 40"
  shows "mag (encode n) = n"
proof -
  have "excess n \<le> j"
  proof (rule ccontr)
    assume c: "\<not> excess n \<le> j"
    then have "1024 * 2 ^ excess n \<le> n"
      using excess_lower [of n] by (simp add: less_eq_div_iff_mult_less_eq)
    moreover have "(1024 :: nat) * 2 ^ Suc j \<le> 1024 * 2 ^ excess n"
      using c by (intro mult_left_mono power_increasing) auto
    ultimately show False using assms(2) by simp
  qed
  then have "(2 :: nat) ^ excess n dvd 2 ^ j" by (rule le_imp_power_dvd)
  then have "2 ^ excess n dvd n" using assms(1) by (rule dvd_trans)
  then show ?thesis using encode_fields(2) [OF assms(3)] by simp
qed

lemma small_integer_exact:
  assumes "m \<le> 2048"
  shows "mag (encode (m * 2 ^ 24)) = m * 2 ^ 24" and "is_finite (encode (m * 2 ^ 24))"
proof -
  show "is_finite (encode (m * 2 ^ 24))" by (rule encode_fields(3)) (use assms in simp)
  show "mag (encode (m * 2 ^ 24)) = m * 2 ^ 24"
  proof (cases "m = 2048")
    case True
    show ?thesis unfolding True by (rule exact_encode [of 25]) simp_all
  next
    case False
    then show ?thesis using assms by (intro exact_encode [of 24]) simp_all
  qed
qed

text \<open>
  The integers up to 2048 in absolute value survive the conversion to half precision and
  back.
\<close>

theorem small_integers_roundtrip:
  assumes "\<bar>sint v\<bar> \<le> 2048"
  shows "\<exists>h. f16_from_int v = Inr h \<and> f16_int h = v"
proof -
  let ?m = "nat \<bar>sint v\<bar>"
  let ?e = "encode (?m * 2 ^ 24)"
  have ne: "v \<noteq> 0x80000000" using assms by auto
  note ex = small_integer_exact [of ?m]
  have m: "?m \<le> 2048" using assms by simp
  consider "v = 0" | "sint v < 0" | "v \<noteq> 0" "0 \<le> sint v" by linarith
  then show ?thesis
  proof cases
    case 1
    then show ?thesis by (simp add: f16_from_int_def f16_int_def MANTISSA_def EXPONENT_def)
  next
    case 2
    have "v \<noteq> 0" using 2 by auto
    then have h: "f16_from_int v = Inr (0x8000 OR ?e)" using f16_from_int_value [OF ne] 2 by simp
    have f: "is_finite (0x8000 OR ?e)" using ex(2) [OF m] by (simp add: finite_by_mag or_sign)
    have "f16_int (0x8000 OR ?e) = - of_nat ?m"
      using f16_int_value [OF f] ex(1) [OF m] by (simp add: or_sign)
    also have "\<dots> = of_int (sint v)" using 2 by simp
    finally show ?thesis using h by simp
  next
    case 3
    then have h: "f16_from_int v = Inr ?e" using f16_from_int_value [OF ne] by simp
    have "f16_int ?e = of_nat ?m"
      using f16_int_value [OF ex(2) [OF m]] ex(1) [OF m] by (simp add: encode_positive)
    also have "\<dots> = of_int (sint v)" using 3 by simp
    finally show ?thesis using h by simp
  qed
qed

lemma small_integers_roundtrip_witness:
  "\<exists>h. f16_from_int (- 1999) = Inr h \<and> f16_int h = - 1999"
  by (rule small_integers_roundtrip) simp

section \<open>Sums, products and quotients round toward zero\<close>

text \<open>
  \<open>rounds_down n r\<close>: among the numbers that are not NaN, \<open>r\<close> has the greatest magnitude not
  above \<open>n\<close> units of \<open>2^-24\<close>. Sums too large for the format round to infinity.
\<close>

definition rounds_down :: "nat \<Rightarrow> u16 \<Rightarrow> bool" where
  "rounds_down n r \<longleftrightarrow> mag r \<le> n \<and> (\<forall>w. \<not> IS_NAN w \<longrightarrow> mag w \<le> n \<longrightarrow> mag w \<le> mag r)"

lemma excess_large: "2 ^ 40 \<le> n \<Longrightarrow> 30 \<le> excess n"
proof (rule ccontr)
  assume n: "2 ^ 40 \<le> n" and "\<not> 30 \<le> excess n"
  then have "(2 :: nat) ^ excess n \<le> 2 ^ 29" by (intro power_increasing) auto
  then have "2048 * 2 ^ excess n \<le> (2 ^ 40 :: nat)" by simp
  moreover have "n < 2048 * 2 ^ excess n" using excess_bound [of n] by (simp add: less_mult_imp_div_less div_less_iff_less_mult)
  ultimately show False using n by simp
qed

lemma mag_number: "\<not> IS_NAN w \<Longrightarrow> mag w \<le> 2 ^ 40"
proof (cases "is_finite w")
  case False
  moreover assume "\<not> IS_NAN w"
  ultimately have "expo w = 31" "mant w = 0" using expo_less [of w] by (auto simp: kind_fields is_finite_def)
  then show ?thesis by (simp add: mag_def)
qed (simp add: finite_by_mag)

lemma encode_rounds_down: "rounds_down n (encode n)"
proof (cases "n < 2 ^ 40")
  case True
  then show ?thesis
    using encode_fields(2) [OF True] encode_greatest [OF True] by (simp add: rounds_down_def)
next
  case False
  then have "encode n = 0x7C00" using excess_large [of n] by (simp add: encode_def)
  moreover have "mag 0x7C00 = 2 ^ 40" by (simp add: mag_def expo_def mant_def)
  ultimately show ?thesis using False mag_number by (simp add: rounds_down_def)
qed

lemma rounds_down_mag: "mag r = mag s \<Longrightarrow> rounds_down n r = rounds_down n s"
  by (simp add: rounds_down_def)

lemma signed_encode:
  assumes "s = 0 \<or> s = 0x8000"
  shows "rounds_down n (s OR encode n)" "negative (s OR encode n) \<longleftrightarrow> s = 0x8000"
proof -
  have "mag (s OR encode n) = mag (encode n)" using assms by (auto simp: or_sign)
  then show "rounds_down n (s OR encode n)" using encode_rounds_down rounds_down_mag by blast
  show "negative (s OR encode n) \<longleftrightarrow> s = 0x8000" using assms by (auto simp: or_sign encode_positive)
qed

lemma zero_value: "mag 0 = 0" "\<not> negative 0"
  by (simp_all add: mag_def expo_def mant_def negative_unat)

lemma sign_part: "w AND 0x8000 = (if negative w then 0x8000 else 0)"
  using sign_test [of w] by (auto simp: SIGN_MASK_def)

lemma negative_xor: "negative (a XOR b) \<longleftrightarrow> negative a \<noteq> negative b"
  by (simp add: negative_bit bit_xor_iff)

text \<open>
  C28. Adding two finite numbers of the same sign, or subtracting numbers of opposite signs,
  gives their sum rounded toward zero, with the sign of the first; overflow gives infinity.
\<close>

theorem sum_rounds_down:
  assumes "is_finite a" "is_finite b" "negative a \<longleftrightarrow> negative b"
  shows "rounds_down (mag a + mag b) (f16_add a b) \<and> (negative (f16_add a b) \<longleftrightarrow> negative a)
    \<and> f16_sub a (b XOR 0x8000) = f16_add a b"
proof -
  have same: "(a XOR b) AND 0x8000 = 0" using assms(3) by (simp add: sign_part negative_xor)
  have "negative (0x8000 :: u16)" using bit_exp_iff [of 15 15, where 'a = u16] by (simp add: negative_bit)
  then have other: "(a XOR (b XOR 0x8000)) AND 0x8000 \<noteq> 0"
    using assms(3) by (simp only: sign_part negative_xor) simp
  have add: "f16_add a b = (a AND 0x8000) OR encode (mag a + mag b)"
    using same add_same_sign_value [OF assms(1,2)] by (simp add: f16_add.simps)
  have "f16_sub a (b XOR 0x8000) = f16_add a b"
    by (simp only: f16_sub.simps other if_True simp_thms) (simp add: xor.assoc)
  then show ?thesis
    using signed_encode [of "a AND 0x8000" "mag a + mag b"] unfolding add sign_part by simp
qed

lemma sum_rounds_down_witness:
  "rounds_down (mag 0x3C01 + mag 0x1234) (f16_add 0x3C01 0x1234)
    \<and> (negative (f16_add 0x3C01 0x1234) \<longleftrightarrow> negative 0x3C01)
    \<and> f16_sub 0x3C01 (0x1234 XOR 0x8000) = f16_add 0x3C01 0x1234"
  by (rule sum_rounds_down) (simp_all add: is_finite_def expo_def negative_unat)

text \<open>
  C29. The product of two finite numbers that are not zero is rounded toward zero, and its sign
  is negative exactly when the signs differ.
\<close>

theorem product_rounds_down:
  assumes "is_finite a" "is_finite b" "mag a \<noteq> 0" "mag b \<noteq> 0"
  shows "rounds_down (mag a * mag b div 2 ^ 24) (f16_mul a b)
    \<and> (negative (f16_mul a b) \<longleftrightarrow> negative a \<noteq> negative b)"
  using signed_encode [of "(a XOR b) AND 0x8000" "mag a * mag b div 2 ^ 24"] assms
  by (simp add: f16_mul_value SIGN_MASK_def sign_part negative_xor)

lemma product_rounds_down_witness:
  "rounds_down (mag 0x4248 * mag 0xB801 div 2 ^ 24) (f16_mul 0x4248 0xB801)
    \<and> (negative (f16_mul 0x4248 0xB801) \<longleftrightarrow> negative 0x4248 \<noteq> negative 0xB801)"
  by (rule product_rounds_down) (simp_all add: is_finite_def expo_def mag_def mant_def)

text \<open>
  C30. The quotient of two finite numbers that are not zero is rounded toward zero, and its sign
  is negative exactly when the signs differ.
\<close>

theorem quotient_rounds_down:
  assumes "is_finite a" "is_finite b" "mag a \<noteq> 0" "mag b \<noteq> 0"
  shows "rounds_down (mag a * 2 ^ 24 div mag b) (f16_div a b)
    \<and> (negative (f16_div a b) \<longleftrightarrow> negative a \<noteq> negative b)"
  using signed_encode [of "(a XOR b) AND 0x8000" "mag a * 2 ^ 24 div mag b"] assms
  by (simp add: f16_div_value SIGN_MASK_def sign_part negative_xor)

lemma quotient_rounds_down_witness:
  "rounds_down (mag 0x3C00 * 2 ^ 24 div mag 0xC200) (f16_div 0x3C00 0xC200)
    \<and> (negative (f16_div 0x3C00 0xC200) \<longleftrightarrow> negative 0x3C00 \<noteq> negative 0xC200)"
  by (rule quotient_rounds_down) (simp_all add: is_finite_def expo_def mag_def mant_def)

section \<open>Differences\<close>

lemma mag_below: "mag w < 2048 * 2 ^ (expo w - 1)" "2 ^ (expo w - 1) dvd mag w"
  using mant_less [of w] by (auto simp: mag_def)

lemma mag_exponents: "mag b \<le> mag a \<Longrightarrow> expo b \<le> expo a"
proof (rule ccontr)
  assume le: "mag b \<le> mag a" and c: "\<not> expo b \<le> expo a"
  then have "(1024 :: nat) * 2 ^ expo a \<le> 1024 * 2 ^ (expo b - 1)"
    by (intro mult_left_mono power_increasing) auto
  moreover have "1024 * 2 ^ (expo b - 1) \<le> mag b" using c by (intro mag_bounds(2)) simp
  ultimately show False using le mag_bounds(1) [of a] by linarith
qed

lemma half_units_exact:
  assumes "mag b \<le> mag a" "mag a \<le> 2 * mag b"
  shows "2 ^ (expo a - 1) dvd 2 * mag b"
proof (cases "expo a \<le> 1")
  case True
  then have "expo a - 1 = 0" by simp
  then show ?thesis by simp
next
  case False
  then have "1024 * 2 ^ (expo a - 1) \<le> 2 * mag b" using mag_bounds(2) [of a] assms(2) by linarith
  also have "\<dots> < 2 * (1024 * 2 ^ expo b)" using mag_bounds(1) [of b] by simp
  finally have "(2 :: nat) ^ (expo a - 1) < 2 ^ Suc (expo b)" by simp
  then have "expo a - 1 < Suc (expo b)" by (rule power_less_imp_less_exp [rotated]) simp
  then have e: "expo a - 1 \<le> Suc (expo b - 1)" using False by simp
  have "2 ^ Suc (expo b - 1) dvd 2 * mag b" unfolding power_Suc by (intro mult_dvd_mono mag_below) simp
  with le_imp_power_dvd [OF e] show ?thesis by (rule dvd_trans)
qed

text \<open>
  C31. The difference of two finite numbers of the same sign within a factor of two of each
  other is exact: no bit is lost although the subtrahend is cut to half units.
\<close>

theorem close_difference_exact:
  assumes "is_finite a" "is_finite b" "negative a \<longleftrightarrow> negative b" "mag b \<le> mag a" "mag a \<le> 2 * mag b"
  shows "signed_value (f16_sub a b) = signed_value a - signed_value b"
proof -
  let ?d = "mag a - mag b" and ?u = "2 ^ (expo a - 1) :: nat"
  have "(a XOR b) AND 0x8000 = 0" using assms(3) by (simp add: sign_part negative_xor)
  then have sub: "f16_sub a b = sub_result (a AND 0x8000) (sub_units a b)"
    using sub_same_sign_value [OF assms(1,2)] assms(4) by (simp add: f16_sub.simps)
  have "2 * mag b div ?u * ?u = 2 * mag b" using half_units_exact [OF assms(4,5)] by simp
  then have units: "sub_units a b = ?d" by (simp add: sub_units_def Let_def)
  have dvd: "2 ^ (expo b - 1) dvd ?d"
  proof (rule dvd_diff_nat)
    have "(2 :: nat) ^ (expo b - 1) dvd ?u" using mag_exponents [OF assms(4)] by (intro le_imp_power_dvd) simp
    then show "2 ^ (expo b - 1) dvd mag a" using mag_below(2) by (rule dvd_trans)
    show "2 ^ (expo b - 1) dvd mag b" by (rule mag_below)
  qed
  have small: "?d < 2048 * 2 ^ (expo b - 1)" using assms(5) mag_below(1) [of b] by linarith
  have "?d < 2 ^ 40" using assms(1) finite_by_mag [of a] by linarith
  from exact_encode [OF dvd small this] have "mag (encode ?d) = ?d" .
  moreover have "sub_result (a AND 0x8000) ?d = (if ?d = 0 then 0 else (a AND 0x8000) OR encode ?d)"
    by (simp only: sub_result_def or.commute)
  ultimately show ?thesis
    using assms(3,4) signed_encode(2) [of "a AND 0x8000" ?d] unfolding sub units
    by (auto simp: signed_value_def sign_part or_sign zero_value)
qed

lemma close_difference_exact_witness:
  "signed_value (f16_sub 0x4000 0x3DFF) = signed_value 0x4000 - signed_value 0x3DFF"
  by (rule close_difference_exact) (simp_all add: is_finite_def expo_def mag_def mant_def negative_unat)

end
