(* ===== verification/Sin_Cos.thy ===== *)
theory Sin_Cos
  imports Complex_Main Float16_Arith
begin

text \<open>
  The table of cosines and sines of the demo programs (\<open>demo/sin_cos.c\<close>): 256 pairs of halves, the
  entry \<open>n\<close> for the angle \<open>n pi / 128\<close>. Every entry is shown to be within half a unit of its last
  place of the real cosine or sine. The proof turns a vector by \<open>pi / 128\<close> again and again in
  44-bit fixed point, bounds the error that builds up, and compares each entry with the vector.
\<close>

section \<open>The table\<close>

text \<open>The first half turn and the second; a pair is \<open>{ cos, sin }\<close>.\<close>

definition sin_cos_low :: "(u16 \<times> u16) list" where
  "sin_cos_low =
    [(0x3c00, 0x0000), (0x3bff, 0x2648), (0x3bfe, 0x2a48), (0x3bfa, 0x2cb5), (0x3bf6, 0x2e46), (0x3bf1, 0x2fd6), (0x3bea, 0x30b2), (0x3be2, 0x3179),
     (0x3bd9, 0x323e), (0x3bce, 0x3303), (0x3bc3, 0x33c6), (0x3bb6, 0x3444), (0x3ba8, 0x34a5), (0x3b99, 0x3505), (0x3b88, 0x3564), (0x3b77, 0x35c2),
     (0x3b64, 0x361f), (0x3b50, 0x367c), (0x3b3b, 0x36d7), (0x3b25, 0x3732), (0x3b0e, 0x378b), (0x3af6, 0x37e3), (0x3add, 0x381d), (0x3ac2, 0x3848),
     (0x3aa7, 0x3872), (0x3a8a, 0x389b), (0x3a6d, 0x38c4), (0x3a4f, 0x38ec), (0x3a2f, 0x3913), (0x3a0f, 0x393a), (0x39ed, 0x395f), (0x39cb, 0x3984),
     (0x39a8, 0x39a8), (0x3984, 0x39cb), (0x395f, 0x39ed), (0x393a, 0x3a0f), (0x3913, 0x3a2f), (0x38ec, 0x3a4f), (0x38c4, 0x3a6d), (0x389b, 0x3a8a),
     (0x3872, 0x3aa7), (0x3848, 0x3ac2), (0x381d, 0x3add), (0x37e3, 0x3af6), (0x378b, 0x3b0e), (0x3732, 0x3b25), (0x36d7, 0x3b3b), (0x367c, 0x3b50),
     (0x361f, 0x3b64), (0x35c2, 0x3b77), (0x3564, 0x3b88), (0x3505, 0x3b99), (0x34a5, 0x3ba8), (0x3444, 0x3bb6), (0x33c6, 0x3bc3), (0x3303, 0x3bce),
     (0x323e, 0x3bd9), (0x3179, 0x3be2), (0x30b2, 0x3bea), (0x2fd6, 0x3bf1), (0x2e46, 0x3bf6), (0x2cb5, 0x3bfa), (0x2a48, 0x3bfe), (0x2648, 0x3bff),
     (0x0000, 0x3c00), (0xa648, 0x3bff), (0xaa48, 0x3bfe), (0xacb5, 0x3bfa), (0xae46, 0x3bf6), (0xafd6, 0x3bf1), (0xb0b2, 0x3bea), (0xb179, 0x3be2),
     (0xb23e, 0x3bd9), (0xb303, 0x3bce), (0xb3c6, 0x3bc3), (0xb444, 0x3bb6), (0xb4a5, 0x3ba8), (0xb505, 0x3b99), (0xb564, 0x3b88), (0xb5c2, 0x3b77),
     (0xb61f, 0x3b64), (0xb67c, 0x3b50), (0xb6d7, 0x3b3b), (0xb732, 0x3b25), (0xb78b, 0x3b0e), (0xb7e3, 0x3af6), (0xb81d, 0x3add), (0xb848, 0x3ac2),
     (0xb872, 0x3aa7), (0xb89b, 0x3a8a), (0xb8c4, 0x3a6d), (0xb8ec, 0x3a4f), (0xb913, 0x3a2f), (0xb93a, 0x3a0f), (0xb95f, 0x39ed), (0xb984, 0x39cb),
     (0xb9a8, 0x39a8), (0xb9cb, 0x3984), (0xb9ed, 0x395f), (0xba0f, 0x393a), (0xba2f, 0x3913), (0xba4f, 0x38ec), (0xba6d, 0x38c4), (0xba8a, 0x389b),
     (0xbaa7, 0x3872), (0xbac2, 0x3848), (0xbadd, 0x381d), (0xbaf6, 0x37e3), (0xbb0e, 0x378b), (0xbb25, 0x3732), (0xbb3b, 0x36d7), (0xbb50, 0x367c),
     (0xbb64, 0x361f), (0xbb77, 0x35c2), (0xbb88, 0x3564), (0xbb99, 0x3505), (0xbba8, 0x34a5), (0xbbb6, 0x3444), (0xbbc3, 0x33c6), (0xbbce, 0x3303),
     (0xbbd9, 0x323e), (0xbbe2, 0x3179), (0xbbea, 0x30b2), (0xbbf1, 0x2fd6), (0xbbf6, 0x2e46), (0xbbfa, 0x2cb5), (0xbbfe, 0x2a48), (0xbbff, 0x2648)]"

definition sin_cos_high :: "(u16 \<times> u16) list" where
  "sin_cos_high =
    [(0xbc00, 0x0000), (0xbbff, 0xa648), (0xbbfe, 0xaa48), (0xbbfa, 0xacb5), (0xbbf6, 0xae46), (0xbbf1, 0xafd6), (0xbbea, 0xb0b2), (0xbbe2, 0xb179),
     (0xbbd9, 0xb23e), (0xbbce, 0xb303), (0xbbc3, 0xb3c6), (0xbbb6, 0xb444), (0xbba8, 0xb4a5), (0xbb99, 0xb505), (0xbb88, 0xb564), (0xbb77, 0xb5c2),
     (0xbb64, 0xb61f), (0xbb50, 0xb67c), (0xbb3b, 0xb6d7), (0xbb25, 0xb732), (0xbb0e, 0xb78b), (0xbaf6, 0xb7e3), (0xbadd, 0xb81d), (0xbac2, 0xb848),
     (0xbaa7, 0xb872), (0xba8a, 0xb89b), (0xba6d, 0xb8c4), (0xba4f, 0xb8ec), (0xba2f, 0xb913), (0xba0f, 0xb93a), (0xb9ed, 0xb95f), (0xb9cb, 0xb984),
     (0xb9a8, 0xb9a8), (0xb984, 0xb9cb), (0xb95f, 0xb9ed), (0xb93a, 0xba0f), (0xb913, 0xba2f), (0xb8ec, 0xba4f), (0xb8c4, 0xba6d), (0xb89b, 0xba8a),
     (0xb872, 0xbaa7), (0xb848, 0xbac2), (0xb81d, 0xbadd), (0xb7e3, 0xbaf6), (0xb78b, 0xbb0e), (0xb732, 0xbb25), (0xb6d7, 0xbb3b), (0xb67c, 0xbb50),
     (0xb61f, 0xbb64), (0xb5c2, 0xbb77), (0xb564, 0xbb88), (0xb505, 0xbb99), (0xb4a5, 0xbba8), (0xb444, 0xbbb6), (0xb3c6, 0xbbc3), (0xb303, 0xbbce),
     (0xb23e, 0xbbd9), (0xb179, 0xbbe2), (0xb0b2, 0xbbea), (0xafd6, 0xbbf1), (0xae46, 0xbbf6), (0xacb5, 0xbbfa), (0xaa48, 0xbbfe), (0xa648, 0xbbff),
     (0x8000, 0xbc00), (0x2648, 0xbbff), (0x2a48, 0xbbfe), (0x2cb5, 0xbbfa), (0x2e46, 0xbbf6), (0x2fd6, 0xbbf1), (0x30b2, 0xbbea), (0x3179, 0xbbe2),
     (0x323e, 0xbbd9), (0x3303, 0xbbce), (0x33c6, 0xbbc3), (0x3444, 0xbbb6), (0x34a5, 0xbba8), (0x3505, 0xbb99), (0x3564, 0xbb88), (0x35c2, 0xbb77),
     (0x361f, 0xbb64), (0x367c, 0xbb50), (0x36d7, 0xbb3b), (0x3732, 0xbb25), (0x378b, 0xbb0e), (0x37e3, 0xbaf6), (0x381d, 0xbadd), (0x3848, 0xbac2),
     (0x3872, 0xbaa7), (0x389b, 0xba8a), (0x38c4, 0xba6d), (0x38ec, 0xba4f), (0x3913, 0xba2f), (0x393a, 0xba0f), (0x395f, 0xb9ed), (0x3984, 0xb9cb),
     (0x39a8, 0xb9a8), (0x39cb, 0xb984), (0x39ed, 0xb95f), (0x3a0f, 0xb93a), (0x3a2f, 0xb913), (0x3a4f, 0xb8ec), (0x3a6d, 0xb8c4), (0x3a8a, 0xb89b),
     (0x3aa7, 0xb872), (0x3ac2, 0xb848), (0x3add, 0xb81d), (0x3af6, 0xb7e3), (0x3b0e, 0xb78b), (0x3b25, 0xb732), (0x3b3b, 0xb6d7), (0x3b50, 0xb67c),
     (0x3b64, 0xb61f), (0x3b77, 0xb5c2), (0x3b88, 0xb564), (0x3b99, 0xb505), (0x3ba8, 0xb4a5), (0x3bb6, 0xb444), (0x3bc3, 0xb3c6), (0x3bce, 0xb303),
     (0x3bd9, 0xb23e), (0x3be2, 0xb179), (0x3bea, 0xb0b2), (0x3bf1, 0xafd6), (0x3bf6, 0xae46), (0x3bfa, 0xacb5), (0x3bfe, 0xaa48), (0x3bff, 0xa648)]"

definition f16_sin_cos :: "(u16 \<times> u16) list" where
  "f16_sin_cos = sin_cos_low @ sin_cos_high"

section \<open>The cosine and sine of the step\<close>

definition K :: real where "K = 2 ^ 52"

lemma half_cos:
  fixes l u L U x :: real
  assumes "l \<le> K * cos (2 * x)" "K * cos (2 * x) \<le> u" "0 \<le> x" "x \<le> pi / 2" "0 \<le> U"
    "2 * L\<^sup>2 \<le> K * l + K\<^sup>2" "K * u + K\<^sup>2 \<le> 2 * U\<^sup>2"
  shows "L \<le> K * cos x \<and> K * cos x \<le> U"
proof -
  have k: "0 < K" by (simp add: K_def)
  have d: "2 * (K * cos x)\<^sup>2 = K * (K * cos (2 * x)) + K\<^sup>2"
    unfolding cos_double_cos by (simp add: power2_eq_square algebra_simps)
  have c: "0 \<le> K * cos x" using assms(3,4) k by (intro mult_nonneg_nonneg cos_ge_zero) auto
  have "K * l \<le> K * (K * cos (2 * x))" "K * (K * cos (2 * x)) \<le> K * u" using assms(1,2) k by simp_all
  then have "L\<^sup>2 \<le> (K * cos x)\<^sup>2" "(K * cos x)\<^sup>2 \<le> U\<^sup>2" using assms(6,7) d by linarith+
  then show ?thesis using c assms(5) power2_le_imp_le by blast
qed

lemma cos_pi_half: "0 \<le> K * cos (pi / 2) \<and> K * cos (pi / 2) \<le> 0"
  by simp

lemma cos_pi_4: "3184525836262885 \<le> K * cos (pi / 4) \<and> K * cos (pi / 4) \<le> 3184525836262888"
  using cos_pi_half by (intro half_cos [of "0" _ "0"]) (simp_all add: K_def)

lemma cos_pi_8: "4160783518353058 \<le> K * cos (pi / 8) \<and> K * cos (pi / 8) \<le> 4160783518353061"
  using cos_pi_4 by (intro half_cos [of "3184525836262885" _ "3184525836262888"]) (simp_all add: K_def)

lemma cos_pi_16: "4417064223354455 \<le> K * cos (pi / 16) \<and> K * cos (pi / 16) \<le> 4417064223354458"
  using cos_pi_8 by (intro half_cos [of "4160783518353058" _ "4160783518353061"]) (simp_all add: K_def)

lemma cos_pi_32: "4481913564205713 \<le> K * cos (pi / 32) \<and> K * cos (pi / 32) \<le> 4481913564205716"
  using cos_pi_16 by (intro half_cos [of "4417064223354455" _ "4417064223354458"]) (simp_all add: K_def)

lemma cos_pi_64: "4498174844384957 \<le> K * cos (pi / 64) \<and> K * cos (pi / 64) \<le> 4498174844384960"
  using cos_pi_32 by (intro half_cos [of "4481913564205713" _ "4481913564205716"]) (simp_all add: K_def)

lemma cos_pi_128: "4502243227362949 \<le> K * cos (pi / 128) \<and> K * cos (pi / 128) \<le> 4502243227362952"
  using cos_pi_64 by (intro half_cos [of "4498174844384957" _ "4498174844384960"]) (simp_all add: K_def)

lemma sin_pi_128: "110523867630960 \<le> K * sin (pi / 128) \<and> K * sin (pi / 128) \<le> 110523867631043"
proof -
  have k: "0 < K" by (simp add: K_def)
  have "2 * (K * sin (pi / 128))\<^sup>2 = K\<^sup>2 - K * (K * cos (2 * (pi / 128)))"
    by (simp only: cos_double_sin) (simp add: power2_eq_square algebra_simps)
  then have d: "2 * (K * sin (pi / 128))\<^sup>2 = K\<^sup>2 - K * (K * cos (pi / 64))" by simp
  have c: "0 \<le> K * sin (pi / 128)" using k by (intro mult_nonneg_nonneg sin_ge_zero) auto
  have "K * (K * cos (pi / 64)) \<le> K * 4498174844384960" "K * 4498174844384957 \<le> K * (K * cos (pi / 64))"
    using cos_pi_64 k by simp_all
  moreover have "2 * 110523867630960\<^sup>2 \<le> K\<^sup>2 - K * 4498174844384960" "K\<^sup>2 - K * 4498174844384957 \<le> 2 * 110523867631043\<^sup>2" by (simp_all add: K_def)
  ultimately have "110523867630960\<^sup>2 \<le> (K * sin (pi / 128))\<^sup>2" "(K * sin (pi / 128))\<^sup>2 \<le> 110523867631043\<^sup>2" using d by linarith+
  note squares = this
  have "110523867630960 \<le> K * sin (pi / 128)" by (rule power2_le_imp_le [OF squares(1) c])
  moreover have "K * sin (pi / 128) \<le> 110523867631043" by (rule power2_le_imp_le [OF squares(2)]) simp
  ultimately show ?thesis ..
qed

section \<open>Turning a vector\<close>

text \<open>One turn by \<open>pi / 128\<close> of a vector in units of \<open>2 ^ -44\<close>.\<close>

definition turn :: "int \<times> int \<Rightarrow> int \<times> int" where
  "turn v = (case v of (x, y) \<Rightarrow>
     ((x * 17586887606887 - y * 431733857934) div 17592186044416, (x * 431733857934 + y * 17586887606887) div 17592186044416))"

definition S :: real where "S = 17592186044416"

lemma step_constants:
  "\<bar>17586887606887 / S - cos (pi / 128)\<bar> \<le> 1 / S" "\<bar>431733857934 / S - sin (pi / 128)\<bar> \<le> 1 / S"
  using cos_pi_128 sin_pi_128 by (simp_all add: K_def S_def abs_le_iff field_simps)

lemma div_error: "\<bar>real_of_int (n div 17592186044416) - real_of_int n / S\<bar> \<le> 1"
  using real_of_int_div2 [of n 17592186044416] real_of_int_div3 [of n 17592186044416] by (simp add: S_def)

text \<open>The error of a coordinate after a turn, from the errors before and those of the constants.\<close>

lemma product_error:
  fixes X C x c :: real
  assumes "\<bar>X - x\<bar> \<le> e" "\<bar>C - c\<bar> \<le> d" "\<bar>x\<bar> \<le> 1" "\<bar>C\<bar> \<le> b" "0 \<le> e"
  shows "\<bar>X * C - x * c\<bar> \<le> e * b + d"
proof -
  have "X * C - x * c = (X - x) * C + x * (C - c)" by (simp add: algebra_simps)
  then have "\<bar>X * C - x * c\<bar> \<le> \<bar>X - x\<bar> * \<bar>C\<bar> + \<bar>x\<bar> * \<bar>C - c\<bar>"
    by (metis abs_mult abs_triangle_ineq)
  also have "\<dots> \<le> e * b + 1 * d" using assms by (intro add_mono mult_mono) auto
  finally show ?thesis by simp
qed

lemma error_sum:
  fixes A P Q e q :: real
  assumes "\<bar>P - u\<bar> \<le> e * 1 + q" "\<bar>Q - v\<bar> \<le> e * (1 / 32) + q"
  shows "\<bar>A - (P - Q)\<bar> \<le> q \<Longrightarrow> \<bar>A - (u - v)\<bar> \<le> 33 / 32 * e + 3 * q"
    "\<bar>A - (Q + P)\<bar> \<le> q \<Longrightarrow> \<bar>A - (v + u)\<bar> \<le> 33 / 32 * e + 3 * q"
  using assms by linarith+

lemma turn_error:
  assumes "turn (x, y) = (x', y')" "0 \<le> e"
    "\<bar>x / S - cos a\<bar> \<le> e" "\<bar>y / S - sin a\<bar> \<le> e"
  shows "\<bar>x' / S - cos (a + pi / 128)\<bar> \<le> 33 / 32 * e + 3 / S" "\<bar>y' / S - sin (a + pi / 128)\<bar> \<le> 33 / 32 * e + 3 / S"
proof -
  have s: "0 < S" "S * S \<noteq> 0" by (simp_all add: S_def)
  let ?C = "17586887606887 / S" and ?D = "431733857934 / S"
  have k: "\<bar>?C\<bar> \<le> 1" "\<bar>?D\<bar> \<le> 1 / 32" by (simp_all add: S_def)
  have unit: "\<bar>cos a\<bar> \<le> 1" "\<bar>sin a\<bar> \<le> 1" by simp_all
  note xc = product_error [OF assms(3) step_constants(1) unit(1) k(1) assms(2)]
    and yd = product_error [OF assms(4) step_constants(2) unit(2) k(2) assms(2)]
    and xd = product_error [OF assms(3) step_constants(2) unit(1) k(2) assms(2)]
    and yc = product_error [OF assms(4) step_constants(1) unit(2) k(1) assms(2)]
  have over: "\<bar>(n div 17592186044416) / S - n / S / S\<bar> \<le> 1 / S" for n :: int
  proof -
    have "(n div 17592186044416) / S - n / S / S = (real_of_int (n div 17592186044416) - n / S) / S"
      by (simp add: diff_divide_distrib)
    then show ?thesis using div_error [of n] s(1) by (simp add: abs_divide divide_right_mono)
  qed
  have e: "x' = (x * 17586887606887 - y * 431733857934) div 17592186044416"
    "y' = (x * 431733857934 + y * 17586887606887) div 17592186044416"
    using assms(1) by (simp_all add: turn_def)
  have p: "real_of_int (x * 17586887606887 - y * 431733857934) / S / S = x / S * ?C - y / S * ?D"
    "real_of_int (x * 431733857934 + y * 17586887606887) / S / S = x / S * ?D + y / S * ?C"
    by (simp_all add: add_divide_distrib diff_divide_distrib)
  have t: "3 / S = 3 * (1 / S)" by simp
  show "\<bar>x' / S - cos (a + pi / 128)\<bar> \<le> 33 / 32 * e + 3 / S"
    using error_sum(1) [OF xc yd] over [of "x * 17586887606887 - y * 431733857934"] unfolding e(1) p(1) cos_add t by blast
  show "\<bar>y' / S - sin (a + pi / 128)\<bar> \<le> 33 / 32 * e + 3 / S"
    using error_sum(2) [OF yc xd] over [of "x * 431733857934 + y * 17586887606887"] unfolding e(2) p(2) sin_add t
    by (simp only: add.commute)
qed

text \<open>The vector after \<open>n\<close> turns, and the error that has built up.\<close>

fun turns :: "nat \<Rightarrow> int \<times> int" where
  "turns 0 = (17592186044416, 0)"
| "turns (Suc n) = turn (turns n)"

lemma turns_error:
  defines "err n \<equiv> 96 / S * ((33 / 32) ^ n - 1)"
  assumes "turns n = (x, y)"
  shows "\<bar>x / S - cos (n * (pi / 128))\<bar> \<le> err n" "\<bar>y / S - sin (n * (pi / 128))\<bar> \<le> err n"
  using assms(2)
proof (induction n arbitrary: x y)
  case 0
  {
    case 1
    then show ?case by (simp add: err_def S_def)
  next
    case 2
    then show ?case by (simp add: err_def S_def)
  }
next
  case (Suc n)
  obtain u v where uv: "turns n = (u, v)" by force
  have "0 \<le> err n" by (simp add: err_def S_def one_le_power)
  note t = turn_error [OF _ this Suc.IH [OF uv]]
  have e: "33 / 32 * err n + 3 / S = err (Suc n)" by (simp add: err_def S_def field_simps)
  have a: "real (Suc n) * (pi / 128) = real n * (pi / 128) + pi / 128" by (simp add: algebra_simps)
  {
    case 1
    then show ?case using t(1) [of x y] uv unfolding e a by simp
  next
    case 2
    then show ?case using t(2) [of x y] uv unfolding e a by simp
  }
qed

lemma error_small: "n \<le> 128 \<Longrightarrow> 96 / S * ((33 / 32) ^ n - 1) \<le> 8192 / S"
proof -
  assume "n \<le> 128"
  then have "(33 / 32 :: real) ^ n \<le> (33 / 32) ^ 128" by (rule power_increasing) simp
  also have "\<dots> \<le> 86" by (simp add: power_divide)
  finally show ?thesis by (simp add: S_def)
qed

section \<open>Comparison with the table\<close>

definition signed_mag :: "u16 \<Rightarrow> int" where
  "signed_mag w = (if 32768 \<le> unat w then - int (mag w) else int (mag w))"

text \<open>The real number that a finite half stands for, and half a unit of its last place.\<close>

definition half_value :: "u16 \<Rightarrow> real" where
  "half_value w = signed_mag w / 2 ^ 24"

definition half_place :: "u16 \<Rightarrow> real" where
  "half_place w = 2 ^ (adj w - 1) / 2 ^ 25"

definition near :: "u16 \<Rightarrow> int \<Rightarrow> bool" where
  "near w x \<longleftrightarrow> \<bar>signed_mag w * 1048576 - x\<bar> + 8192 \<le> 2 ^ (adj w - 1) * 524288"

text \<open>The vector behind a part of the table whose entries are all near the vectors passed.\<close>

fun near_end :: "(u16 \<times> u16) list \<Rightarrow> int \<times> int \<Rightarrow> (int \<times> int) option" where
  "near_end [] v = Some v"
| "near_end ((c, s) # t) v = (if near c (fst v) \<and> near s (snd v) then near_end t (turn v) else None)"

lemma near_end_append: "near_end (t @ u) v = Option.bind (near_end t v) (near_end u)"
  by (induction t v rule: near_end.induct) simp_all

lemma near_value:
  assumes "near w x" "\<bar>x / S - z\<bar> \<le> 8192 / S"
  shows "\<bar>half_value w - z\<bar> \<le> half_place w"
proof -
  have "real_of_int (\<bar>signed_mag w * 1048576 - x\<bar> + 8192) \<le> real_of_int (2 ^ (adj w - 1) * 524288)"
    using assms(1) unfolding near_def by (rule of_int_le_iff [THEN iffD2])
  then have "\<bar>signed_mag w * 1048576 - real_of_int x\<bar> + 8192 \<le> 2 ^ (adj w - 1) * 524288" by simp
  then have "(\<bar>signed_mag w * 1048576 - real_of_int x\<bar> + 8192) / S \<le> 2 ^ (adj w - 1) * 524288 / S"
    by (rule divide_right_mono) (simp add: S_def)
  moreover have "\<bar>signed_mag w * 1048576 - real_of_int x\<bar> / S = \<bar>half_value w - x / S\<bar>"
  proof -
    have "half_value w - x / S = (signed_mag w * 1048576 - real_of_int x) / S"
      by (simp add: half_value_def S_def diff_divide_distrib)
    then show ?thesis by (simp only: abs_divide) (simp add: S_def)
  qed
  moreover have "2 ^ (adj w - 1) * 524288 / S = half_place w" by (simp add: half_place_def S_def)
  ultimately have "\<bar>half_value w - x / S\<bar> + 8192 / S \<le> half_place w" by (simp add: add_divide_distrib)
  then show ?thesis using assms(2) by linarith
qed

lemma near_end_nth:
  "near_end t (turns k) = Some v \<Longrightarrow> n < length t \<Longrightarrow> near (fst (t ! n)) (fst (turns (k + n))) \<and> near (snd (t ! n)) (snd (turns (k + n)))"
proof (induction t arbitrary: k n)
  case (Cons p t)
  obtain c s where p: "p = (c, s)" by force
  show ?case
  proof (cases n)
    case (Suc m)
    have "near_end t (turns (Suc k)) = Some v" using Cons.prems(1) by (simp add: p split: if_splits)
    from Cons.IH [OF this, of m] show ?thesis using Cons.prems(2) Suc by simp
  qed (use Cons.prems(1) in \<open>simp add: p split: if_splits\<close>)
qed simp

lemmas table_arith = near_def turn_def signed_mag_def adj_def mag_def mant_def expo_def

text \<open>The first half turn in parts of sixteen.\<close>

definition part :: "nat \<Rightarrow> (u16 \<times> u16) list" where
  "part k = take 16 (drop k sin_cos_low)"

lemma part_0: "near_end (part 0) (17592186044416, 0) = Some (16253060618563, 6732238138283)"
  by (simp add: part_def sin_cos_low_def table_arith)

lemma part_16: "near_end (part 16) (16253060618563, 6732238138283) = Some (12439554047895, 12439554047902)"
  by (simp add: part_def sin_cos_low_def table_arith)

lemma part_32: "near_end (part 32) (12439554047895, 12439554047902) = Some (6732238138265, 16253060618565)"
  by (simp add: part_def sin_cos_low_def table_arith)

lemma part_48: "near_end (part 48) (6732238138265, 16253060618565) = Some (- 28, 17592186044406)"
  by (simp add: part_def sin_cos_low_def table_arith)

lemma part_64: "near_end (part 64) (- 28, 17592186044406) = Some (- 6732238138319, 16253060618544)"
  by (simp add: part_def sin_cos_low_def table_arith)

lemma part_80: "near_end (part 80) (- 6732238138319, 16253060618544) = Some (- 12439554047945, 12439554047862)"
  by (simp add: part_def sin_cos_low_def table_arith)

lemma part_96: "near_end (part 96) (- 12439554047945, 12439554047862) = Some (- 16253060618607, 6732238138216)"
  by (simp add: part_def sin_cos_low_def table_arith)

lemma part_112: "near_end (part 112) (- 16253060618607, 6732238138216) = Some (- 17592186044443, - 92)"
  by (simp add: part_def sin_cos_low_def table_arith)

lemma parts: "sin_cos_low = part 0 @ part 16 @ part 32 @ part 48 @ part 64 @ part 80 @ part 96 @ part 112"
  by (simp add: part_def sin_cos_low_def)

lemma low_near: "\<exists>v. near_end sin_cos_low (turns 0) = Some v"
  unfolding parts by (simp add: near_end_append part_0 part_16 part_32 part_48 part_64 part_80 part_96 part_112)

text \<open>The second half turn is the first with the signs changed.\<close>

definition mirror :: "u16 \<times> u16 \<Rightarrow> u16 \<times> u16 \<Rightarrow> bool" where
  "mirror p q \<longleftrightarrow> signed_mag (fst q) = - signed_mag (fst p) \<and> adj (fst q) = adj (fst p)
     \<and> signed_mag (snd q) = - signed_mag (snd p) \<and> adj (snd q) = adj (snd p)"

lemma high_mirrors: "list_all2 mirror sin_cos_low sin_cos_high"
  by (simp add: sin_cos_low_def sin_cos_high_def mirror_def table_arith)

lemma table_lengths: "length sin_cos_low = 128" "length sin_cos_high = 128"
  by (simp_all add: sin_cos_low_def sin_cos_high_def)

lemma low_value:
  assumes "n < 128"
  shows "\<bar>half_value (fst (sin_cos_low ! n)) - cos (n * (pi / 128))\<bar> \<le> half_place (fst (sin_cos_low ! n))
    \<and> \<bar>half_value (snd (sin_cos_low ! n)) - sin (n * (pi / 128))\<bar> \<le> half_place (snd (sin_cos_low ! n))"
proof -
  obtain x y where v: "turns n = (x, y)" by force
  have "96 / S * ((33 / 32) ^ n - 1) \<le> 8192 / S" using assms by (intro error_small) simp
  with turns_error [OF v] have "\<bar>x / S - cos (n * (pi / 128))\<bar> \<le> 8192 / S" "\<bar>y / S - sin (n * (pi / 128))\<bar> \<le> 8192 / S"
    by linarith+
  moreover have "near (fst (sin_cos_low ! n)) x \<and> near (snd (sin_cos_low ! n)) y"
    using low_near near_end_nth [of sin_cos_low 0 _ n] assms v by (auto simp: table_lengths)
  ultimately show ?thesis using near_value by blast
qed

lemma high_value:
  assumes "n < 128"
  shows "\<bar>half_value (fst (sin_cos_high ! n)) - cos ((n + 128) * (pi / 128))\<bar> \<le> half_place (fst (sin_cos_high ! n))
    \<and> \<bar>half_value (snd (sin_cos_high ! n)) - sin ((n + 128) * (pi / 128))\<bar> \<le> half_place (snd (sin_cos_high ! n))"
proof -
  have "mirror (sin_cos_low ! n) (sin_cos_high ! n)"
    using high_mirrors assms by (simp add: list_all2_conv_all_nth table_lengths)
  then have m: "half_value (fst (sin_cos_high ! n)) = - half_value (fst (sin_cos_low ! n))"
    "half_value (snd (sin_cos_high ! n)) = - half_value (snd (sin_cos_low ! n))"
    "half_place (fst (sin_cos_high ! n)) = half_place (fst (sin_cos_low ! n))"
    "half_place (snd (sin_cos_high ! n)) = half_place (snd (sin_cos_low ! n))"
    by (simp_all add: mirror_def half_value_def half_place_def)
  have a: "(real n + 128) * (pi / 128) = real n * (pi / 128) + pi" by (simp add: algebra_simps)
  show ?thesis using low_value [OF assms] unfolding m a cos_periodic_pi sin_periodic_pi
    by (simp add: abs_minus_commute)
qed

text \<open>
  C33. The table is right: for each of the 256 angles, both numbers differ from the real cosine and
  sine of the angle by at most half a unit of their last place.
\<close>

theorem sin_cos_table_is_accurate:
  assumes "n < 256"
  shows "\<bar>half_value (fst (f16_sin_cos ! n)) - cos (n * pi / 128)\<bar> \<le> half_place (fst (f16_sin_cos ! n))
    \<and> \<bar>half_value (snd (f16_sin_cos ! n)) - sin (n * pi / 128)\<bar> \<le> half_place (snd (f16_sin_cos ! n))"
proof (cases "n < 128")
  case True
  then show ?thesis using low_value [OF True] by (simp add: f16_sin_cos_def nth_append table_lengths)
next
  case False
  then obtain k where k: "n = k + 128" by (metis add.commute le_Suc_ex not_less)
  then have "k < 128" using assms by simp
  from high_value [OF this] show ?thesis
    by (simp add: f16_sin_cos_def nth_append table_lengths k)
qed

lemma sin_cos_table_is_accurate_witness:
  "\<bar>half_value (fst (f16_sin_cos ! 5)) - cos (real 5 * pi / 128)\<bar> \<le> half_place (fst (f16_sin_cos ! 5))
    \<and> \<bar>half_value (snd (f16_sin_cos ! 5)) - sin (real 5 * pi / 128)\<bar> \<le> half_place (snd (f16_sin_cos ! 5))"
  by (rule sin_cos_table_is_accurate) simp

end
