(* ===== verification/Demo_Board.thy ===== *)
theory Demo_Board
  imports Text_Format Avalon_Uart "HOL-Library.While_Combinator"
begin

text \<open>
  The ground of the demo firmware (\<open>src/demo\<close>): memory-mapped registers and the polled output of
  \<open>demo/console.c\<close>. The memory system is a parameter \<open>b :: 's mmio\<close>, three functions on its state:
  a volatile load or store of a word and a store of a half-word. A loop that polls a register is
  a \<open>while_option\<close> whose divergence is the fault \<open>Spins\<close>. The locale \<open>board\<close> states what the
  firmware relies on: polling ends, characters written to the data register appear on the
  terminal, and nothing but the UART changes. It is interpreted with the UART of the simulator
  (\<open>tb/top/conspiracion/jtag_uart.cpp\<close>).
\<close>

section \<open>Registers\<close>

record 's mmio =
  bus_read :: "'s \<Rightarrow> u32 \<Rightarrow> u32 \<times> 's"
  bus_write :: "'s \<Rightarrow> u32 \<Rightarrow> u32 \<Rightarrow> 's"
  bus_write16 :: "'s \<Rightarrow> u32 \<Rightarrow> u16 \<Rightarrow> 's"

definition JTAG_UART_BASE :: u32 where "JTAG_UART_BASE = 0x30000000"
definition JTAG_UART_DATA :: u32 where "JTAG_UART_DATA = JTAG_UART_BASE + 0"
definition JTAG_UART_DATA_RVALID :: u32 where "JTAG_UART_DATA_RVALID = push_bit 15 1"
definition JTAG_UART_DATA_RAVAIL :: u32 where "JTAG_UART_DATA_RAVAIL = 0xffff0000"
definition JTAG_UART_CONTROL :: u32 where "JTAG_UART_CONTROL = JTAG_UART_BASE + 4"
definition JTAG_UART_CONTROL_RE :: u32 where "JTAG_UART_CONTROL_RE = push_bit 0 1"
definition JTAG_UART_CONTROL_AC :: u32 where "JTAG_UART_CONTROL_AC = push_bit 10 1"
definition JTAG_UART_CONTROL_WSPACE :: u32 where "JTAG_UART_CONTROL_WSPACE = 0xffff0000"

lemmas uart_registers =
  JTAG_UART_BASE_def JTAG_UART_DATA_def JTAG_UART_DATA_RVALID_def JTAG_UART_DATA_RAVAIL_def JTAG_UART_CONTROL_def
  JTAG_UART_CONTROL_RE_def JTAG_UART_CONTROL_AC_def JTAG_UART_CONTROL_WSPACE_def

text \<open>\<open>while(!(reg & bits))\<close>, the register read anew each time.\<close>

definition poll :: "'s mmio \<Rightarrow> u32 \<Rightarrow> u32 \<Rightarrow> 's \<Rightarrow> 's res" where
  "poll b reg bits s =
     (case while_option (\<lambda>(v, s). v AND bits = 0) (\<lambda>(v, s). bus_read b s reg) (bus_read b s reg) of
        None \<Rightarrow> Inl Spins
      | Some (v, s') \<Rightarrow> Inr s')"

section \<open>Characters\<close>

definition print_char :: "'s mmio \<Rightarrow> char \<Rightarrow> 's \<Rightarrow> 's res" where
  "print_char b c s =
     bind_res (poll b JTAG_UART_CONTROL JTAG_UART_CONTROL_WSPACE s)
       (\<lambda>s. Inr (bus_write b s JTAG_UART_DATA (of_nat (of_char c))))"

fun print_str :: "'s mmio \<Rightarrow> string \<Rightarrow> 's \<Rightarrow> 's res" where
  "print_str b [] s = Inr s"
| "print_str b (c # cs) s = bind_res (print_char b c s) (print_str b cs)"

text \<open>The digits of \<open>print_hex\<close>; \<open>k\<close> is \<open>bits / 4\<close>.\<close>

fun print_hex_digits :: "'s mmio \<Rightarrow> u32 \<Rightarrow> nat \<Rightarrow> 's \<Rightarrow> 's res" where
  "print_hex_digits b val 0 s = Inr s"
| "print_hex_digits b val (Suc k) s =
     bind_res (print_char b (''0123456789abcdef'' ! unat (drop_bit (4 * k) val AND 0xf)) s)
       (print_hex_digits b val k)"

definition print_hex :: "'s mmio \<Rightarrow> u32 \<Rightarrow> u32 \<Rightarrow> 's \<Rightarrow> 's res" where
  "print_hex b val bits s =
     bind_res (print_str b ''0x'' s) (\<lambda>s.
       let bits = (if bits < 4 then 4 else bits);
           bits = (if 32 < bits then 32 else bits);
           bits = (bits + 3) AND NOT 3
       in print_hex_digits b val (unat bits div 4) s)"

text \<open>
  The digits that \<open>print_dec\<close> stores into \<open>dec\<close>, lowest first, with \<open>room\<close> bytes left.
\<close>

fun dec_digits :: "nat \<Rightarrow> u32 \<Rightarrow> string" where
  "dec_digits 0 val = []"
| "dec_digits (Suc room) val =
     char_of (48 + unat (val mod 10)) #
       (let val = val div 10 in if val \<noteq> 0 \<and> room \<noteq> 0 then dec_digits room val else [])"

definition print_dec :: "'s mmio \<Rightarrow> u32 \<Rightarrow> 's \<Rightarrow> 's res" where
  "print_dec b val s = print_str b (rev (dec_digits 11 val)) s"

section \<open>The conversions of print\<close>

text \<open>
  An argument of \<open>print\<close>: an integer or a pointer, or a string. An argument of the other kind,
  or none, is undefined behaviour.
\<close>

datatype va = Va_Int u32 | Va_Str string

fun va_int :: "va list \<Rightarrow> (u32 \<times> va list) res" where
  "va_int (Va_Int v # args) = Inr (v, args)"
| "va_int _ = Inl Undefined"

fun va_str :: "va list \<Rightarrow> (string \<times> va list) res" where
  "va_str (Va_Str t # args) = Inr (t, args)"
| "va_str _ = Inl Undefined"

definition print_arg :: "'s mmio \<Rightarrow> char \<Rightarrow> va list \<Rightarrow> 's \<Rightarrow> (va list \<times> 's) res" where
  "print_arg b c args s =
     (if c = CHR ''c'' then
        bind_res (va_int args) (\<lambda>(v, args). bind_res (print_char b (char_of (unat v)) s) (\<lambda>s. Inr (args, s)))
      else if c = CHR ''d'' \<or> c = CHR ''i'' then
        bind_res (va_int args) (\<lambda>(v, args). bind_res (print_dec b v s) (\<lambda>s. Inr (args, s)))
      else if c = CHR ''p'' then
        bind_res (va_int args) (\<lambda>(v, args). bind_res (print_hex b v 32 s) (\<lambda>s. Inr (args, s)))
      else if c = CHR ''r'' then
        bind_res (va_int args) (\<lambda>(v, args). bind_res (va_int args) (\<lambda>(bits, args).
          bind_res (print_hex b v bits s) (\<lambda>s. Inr (args, s))))
      else if c = CHR ''u'' then
        bind_res (va_int args) (\<lambda>(v, args). bind_res (print_dec b v s) (\<lambda>s. Inr (args, s)))
      else if c = CHR ''s'' then
        bind_res (va_str args) (\<lambda>(t, args). bind_res (print_str b t s) (\<lambda>s. Inr (args, s)))
      else if c = CHR ''x'' then
        bind_res (va_int args) (\<lambda>(v, args). bind_res (print_hex b v 32 s) (\<lambda>s. Inr (args, s)))
      else
        bind_res (print_char b CHR ''%'' s) (\<lambda>s. bind_res (print_char b c s) (\<lambda>s. Inr (args, s))))"

text \<open>A format that ends in a percent sign makes the loop read past the terminator.\<close>

fun print_format :: "'s mmio \<Rightarrow> string \<Rightarrow> va list \<Rightarrow> 's \<Rightarrow> 's res" where
  "print_format b [] args s = Inr s"
| "print_format b (c # fmt) args s =
     (if c \<noteq> CHR ''%'' then bind_res (print_char b c s) (print_format b fmt args)
      else case fmt of
          [] \<Rightarrow> bind_res (print_char b CHR ''%'' s) (\<lambda>_. Inl Out_Of_Bounds)
        | c # fmt \<Rightarrow> bind_res (print_arg b c args s) (\<lambda>(args, s). print_format b fmt args s))"

section \<open>The text that is printed\<close>

lemma print_str_append: "print_str b (xs @ ys) s = bind_res (print_str b xs s) (print_str b ys)"
  by (induction xs arbitrary: s) (simp_all add: bind_res_assoc cong: bind_res_cong)

lemma print_str_single: "print_char b c s = print_str b [c] s"
  by (cases "print_char b c s") simp_all

lemma hex_nibble: "unat (drop_bit (4 * k) v AND 0xf) = unat v div 16 ^ k mod 16" for v :: u32
proof -
  have "(0xf :: u32) = mask 4" by (simp add: mask_eq_exp_minus_1)
  then have "unat (drop_bit (4 * k) v AND 0xf) = unat (drop_bit (4 * k) v) mod 2 ^ 4"
    by (simp only: unat_and_mask)
  then show ?thesis unfolding unat_drop_bit by (simp add: power_mult)
qed

lemma hex_digits_Suc: "hex_digits (Suc k) v = hex_digit (v div 16 ^ k mod 16) # hex_digits k v"
  by (induction k arbitrary: v) (simp_all add: div_mult2_eq)

lemma print_hex_digits_text: "print_hex_digits b v k s = print_str b (hex_digits k (unat v)) s"
  by (induction k arbitrary: s) (simp_all add: hex_nibble hex_digits_Suc hex_digit_def del: hex_digits.simps(2) cong: bind_res_cong)

definition nibbles :: "u32 \<Rightarrow> nat" where
  "nibbles bits = (min 32 (max 4 (unat bits)) + 3) div 4"

lemma print_hex_text: "print_hex b v bits s = print_str b (''0x'' @ hex_digits (nibbles bits) (unat v)) s"
proof -
  define w where "w = (if 32 < (if bits < 4 then 4 else bits) then 32 else if bits < 4 then 4 else bits)"
  have w: "unat w = min 32 (max 4 (unat bits))"
    by (simp add: w_def word_less_nat_alt)
  have m: "(3 :: u32) = mask 2" by (simp add: mask_eq_exp_minus_1)
  have "unat ((w + 3) AND NOT 3) = unat (w + 3) div 4 * 4"
    unfolding m unat_and_not_mask by (simp add: mask_eq_exp_minus_1)
  moreover have "unat (w + 3) = unat w + 3" using w by (simp add: unat_word_ariths)
  ultimately have "unat ((w + 3) AND NOT 3) div 4 = nibbles bits"
    unfolding nibbles_def by (simp only: w) simp
  then show ?thesis
    unfolding print_hex_def print_str_append Let_def w_def [symmetric] by (simp add: print_hex_digits_text)
qed

lemma dec_digits_text:
  assumes "unat v < 10 ^ room" "0 < room"
  shows "rev (dec_digits room v) = decimal (unat v)"
  using assms
proof (induction room arbitrary: v)
  case (Suc room)
  have d: "unat (v div 10) = unat v div 10" "unat (v mod 10) = unat v mod 10"
    by (simp_all add: unat_div unat_mod)
  have digit: "char_of (48 + unat (v mod 10)) = hex_digit (unat v mod 10)"
  proof -
    have "list_all (\<lambda>d. char_of (48 + d :: nat) = hex_digit d) [0..<10]" by code_simp
    moreover have "unat v mod 10 < 10" by simp
    ultimately show ?thesis unfolding d by (simp only: list_all_iff set_upt atLeastLessThan_iff) simp
  qed
  have z: "v div 10 = 0 \<longleftrightarrow> unat v < 10" using d(1) unat_eq_0 [of "v div 10"] by auto
  show ?case
  proof (cases "unat v < 10")
    case True
    then show ?thesis using digit z by (subst decimal.simps) simp
  next
    case False
    then have "0 < room" using Suc.prems(1) by (cases room) auto
    moreover have "unat (v div 10) < 10 ^ room" using Suc.prems(1) unfolding d by (simp add: div_less_iff_less_mult)
    ultimately have "rev (dec_digits room (v div 10)) = decimal (unat v div 10)" using Suc.IH d by simp
    then show ?thesis using False digit z \<open>0 < room\<close> by (subst decimal.simps) simp
  qed
qed simp

lemma print_dec_text: "print_dec b v s = print_str b (decimal (unat v)) s"
proof -
  have "unat v < 2 ^ LENGTH(32)" by (rule unsigned_less)
  then have "unat v < 10 ^ 11" by simp
  then show ?thesis unfolding print_dec_def by (simp add: dec_digits_text del: dec_digits.simps)
qed

text \<open>The text of a format with its arguments.\<close>

definition arg_text :: "char \<Rightarrow> va list \<Rightarrow> (string \<times> va list) option" where
  "arg_text c args =
     (case args of
        Va_Str t # args \<Rightarrow> if c = CHR ''s'' then Some (t, args) else None
      | Va_Int v # args \<Rightarrow>
          if c = CHR ''c'' then Some ([char_of (unat v)], args)
          else if c \<in> set ''diu'' then Some (decimal (unat v), args)
          else if c \<in> set ''px'' then Some (''0x'' @ hex_digits 8 (unat v), args)
          else if c = CHR ''r'' then
            (case args of
               Va_Int bits # args \<Rightarrow> Some (''0x'' @ hex_digits (nibbles bits) (unat v), args)
             | _ \<Rightarrow> None)
          else None
      | [] \<Rightarrow> None)"

fun render :: "string \<Rightarrow> va list \<Rightarrow> string option" where
  "render [] args = Some []"
| "render (c # fmt) args =
     (if c \<noteq> CHR ''%'' then map_option (\<lambda>t. c # t) (render fmt args)
      else case fmt of
          [] \<Rightarrow> None
        | k # fmt \<Rightarrow>
            if k \<notin> set ''cdiprusx'' then map_option (\<lambda>t. CHR ''%'' # k # t) (render fmt args)
            else case arg_text k args of
                None \<Rightarrow> None
              | Some (t, args) \<Rightarrow> map_option (\<lambda>u. t @ u) (render fmt args))"

lemma nibbles_32: "nibbles 32 = 8"
  by (simp add: nibbles_def)

lemmas arg_defs = arg_text_def print_arg_def print_dec_text print_hex_text nibbles_32

lemma print_arg_int:
  "k \<in> set ''cdiprux'' \<Longrightarrow> arg_text k (Va_Int v # args) = Some (t, args')
    \<Longrightarrow> print_arg b k (Va_Int v # args) s = bind_res (print_str b t s) (\<lambda>s. Inr (args', s))"
  by (cases args rule: va_int.cases) (auto simp: arg_defs bind_res_assoc split: if_splits)

lemma print_arg_text:
  assumes "k \<in> set ''cdiprusx''" "arg_text k args = Some (t, args')"
  shows "print_arg b k args s = bind_res (print_str b t s) (\<lambda>s. Inr (args', s))"
proof (cases args rule: va_int.cases)
  case (1 v rest)
  then have "k \<noteq> CHR ''s''" using assms(2) by (auto simp: arg_text_def)
  then show ?thesis using assms print_arg_int unfolding 1 by simp
next
  case "2_1"
  then show ?thesis using assms(2) by (simp add: arg_text_def)
next
  case "2_2"
  then show ?thesis using assms(2) by (auto simp: arg_text_def print_arg_def split: if_splits)
qed

lemma print_arg_other:
  "k \<notin> set ''cdiprusx'' \<Longrightarrow> print_arg b k args s = bind_res (print_str b [CHR ''%'', k] s) (\<lambda>s. Inr (args, s))"
  by (auto simp: print_arg_def bind_res_assoc)

text \<open>On every board, a well-formed call prints exactly its text.\<close>

lemma print_format_text: "render fmt args = Some t \<Longrightarrow> print_format b fmt args s = print_str b t s"
proof (induction fmt args arbitrary: t s rule: render.induct)
  case (2 c fmt args)
  show ?case
  proof (cases "c = CHR ''%''")
    case False
    with 2 show ?thesis by (auto intro!: bind_res_cong)
  next
    case c: True
    with 2(4) obtain k fmt' where f: "fmt = k # fmt'" by (cases fmt) auto
    show ?thesis
    proof (cases "k \<in> set ''cdiprusx''")
      case False
      with 2(4) c f obtain u where u: "render fmt' args = Some u" "t = CHR ''%'' # k # u" by auto
      have p: "print_format b fmt' args s' = print_str b u s'" for s'
        using 2(2) c f False u(1) by blast
      have "t = [CHR ''%'', k] @ u" using u(2) by simp
      then show ?thesis
        unfolding f c print_format.simps(2)
        by (simp only: print_str_append list.case simp_thms if_False print_arg_other [OF False] bind_res_assoc
            bind_res_simps(2) prod.case p cong: bind_res_cong)
    next
      case True
      with 2(4) c f obtain u v args' where
        u: "arg_text k args = Some (v, args')" "render fmt' args' = Some u" "t = v @ u"
        by (auto split: option.splits)
      have p: "print_format b fmt' args' s' = print_str b u s'" for s'
        using 2(3) c f True u(1,2) by blast
      show ?thesis
        unfolding f c print_format.simps(2) u(3)
        by (simp only: print_str_append list.case simp_thms if_False print_arg_text [OF True u(1)] bind_res_assoc
            bind_res_simps(2) prod.case p cong: bind_res_cong)
    qed
  qed
qed simp

section \<open>What the firmware relies on\<close>

text \<open>
  \<open>shown tty rest s t s'\<close>: the step from \<open>s\<close> to \<open>s'\<close> added the text \<open>t\<close> to the terminal and
  left everything but the UART as it was.
\<close>

definition shown :: "('s \<Rightarrow> string) \<Rightarrow> ('s \<Rightarrow> 'm) \<Rightarrow> 's \<Rightarrow> string \<Rightarrow> 's \<Rightarrow> bool" where
  "shown tty rest s t s' \<longleftrightarrow> tty s' = tty s @ t \<and> rest s' = rest s"

lemma shown_trans: "shown tty rest s t s' \<Longrightarrow> shown tty rest s' u s'' \<Longrightarrow> shown tty rest s (t @ u) s''"
  by (simp add: shown_def)

locale board =
  fixes b :: "'s mmio" and good :: "'s \<Rightarrow> bool" and tty :: "'s \<Rightarrow> string" and rest :: "'s \<Rightarrow> 'm"
  assumes space_ends: "good s \<Longrightarrow> \<exists>s'. poll b JTAG_UART_CONTROL JTAG_UART_CONTROL_WSPACE s = Inr s' \<and> good s' \<and> shown tty rest s [] s'"
    and active_ends: "good s \<Longrightarrow> \<exists>s'. poll b JTAG_UART_CONTROL JTAG_UART_CONTROL_AC s = Inr s' \<and> good s' \<and> shown tty rest s [] s'"
    and data_shown: "good s \<Longrightarrow> good (bus_write b s JTAG_UART_DATA (of_nat (of_char c)))
      \<and> shown tty rest s [c] (bus_write b s JTAG_UART_DATA (of_nat (of_char c)))"
    and control_silent: "good s \<Longrightarrow> good (bus_write b s JTAG_UART_CONTROL v)
      \<and> shown tty rest s [] (bus_write b s JTAG_UART_CONTROL v)"
begin

lemma print_char_shown:
  assumes "good s"
  shows "\<exists>s'. print_char b c s = Inr s' \<and> good s' \<and> shown tty rest s [c] s'"
proof -
  obtain s1 where s1: "poll b JTAG_UART_CONTROL JTAG_UART_CONTROL_WSPACE s = Inr s1" "good s1" "shown tty rest s [] s1"
    using space_ends [OF assms] by blast
  from data_shown [OF s1(2)] shown_trans [OF s1(3)] have
    "good (bus_write b s1 JTAG_UART_DATA (of_nat (of_char c)))"
    "shown tty rest s ([] @ [c]) (bus_write b s1 JTAG_UART_DATA (of_nat (of_char c)))" by blast+
  then show ?thesis by (simp add: print_char_def s1(1))
qed

lemma print_str_shown: "good s \<Longrightarrow> \<exists>s'. print_str b t s = Inr s' \<and> good s' \<and> shown tty rest s t s'"
proof (induction t arbitrary: s)
  case (Cons c t)
  obtain s1 where s1: "print_char b c s = Inr s1" "good s1" "shown tty rest s [c] s1"
    using print_char_shown [OF Cons.prems] by blast
  from Cons.IH [OF s1(2)] obtain s2 where "print_str b t s1 = Inr s2" "good s2" "shown tty rest s1 t s2" by blast
  with s1 shown_trans [OF s1(3)] show ?case by fastforce
qed (simp add: shown_def)

end

section \<open>The simulated board\<close>

text \<open>
  The UART of the simulator, clocked once before every bus access while no key is pressed, and
  the other addresses as plain words.
\<close>

record sim_board =
  sb_uart :: jtag_uart
  sb_words :: "u32 \<Rightarrow> u32"

definition sb_tick :: "sim_board \<Rightarrow> sim_board" where
  "sb_tick s = (case uart_tick (- 1) (sb_uart s) of Inl _ \<Rightarrow> s | Inr u \<Rightarrow> s\<lparr>sb_uart := u\<rparr>)"

definition sb_read :: "sim_board \<Rightarrow> u32 \<Rightarrow> u32 \<times> sim_board" where
  "sb_read s a =
     (let s = sb_tick s in
      if a = JTAG_UART_DATA \<or> a = JTAG_UART_CONTROL then
        (case uart_read (if a = JTAG_UART_DATA then 0 else 1) 0 (sb_uart s) of
           Inl _ \<Rightarrow> (0, s)
         | Inr (u, w, _) \<Rightarrow> (w, s\<lparr>sb_uart := u\<rparr>))
      else (sb_words s a, s))"

definition sb_write :: "sim_board \<Rightarrow> u32 \<Rightarrow> u32 \<Rightarrow> sim_board" where
  "sb_write s a w =
     (let s = sb_tick s in
      if a = JTAG_UART_DATA \<or> a = JTAG_UART_CONTROL then
        (case uart_write (if a = JTAG_UART_DATA then 0 else 1) w 15 (sb_uart s) of
           Inl _ \<Rightarrow> s
         | Inr (u, _) \<Rightarrow> s\<lparr>sb_uart := u\<rparr>)
      else s\<lparr>sb_words := (sb_words s)(a := w)\<rparr>)"

definition sb_write16 :: "sim_board \<Rightarrow> u32 \<Rightarrow> u16 \<Rightarrow> sim_board" where
  "sb_write16 s a h =
     (let w = sb_words s (a AND NOT 3) in
      sb_write s (a AND NOT 3)
        (if a AND 2 = 0 then (w AND 0xffff0000) OR ucast h else (w AND 0xffff) OR push_bit 16 (ucast h)))"

definition sim_mmio :: "sim_board mmio" where
  "sim_mmio = \<lparr>bus_read = sb_read, bus_write = sb_write, bus_write16 = sb_write16\<rparr>"

definition sb_good :: "sim_board \<Rightarrow> bool" where
  "sb_good s \<longleftrightarrow> uart_inv (sb_uart s) \<and> took_over (sb_uart s) \<and> rx_avail (sb_uart s) \<noteq> 64"

definition sb_tty :: "sim_board \<Rightarrow> string" where
  "sb_tty s = map (\<lambda>c. char_of (unat c)) (tty_out (sb_uart s))"

text \<open>Everything but the UART, and the characters that wait in its receive ring.\<close>

definition sb_rest :: "sim_board \<Rightarrow> (u32 \<Rightarrow> u32) \<times> u8 list" where
  "sb_rest s = (sb_words s, uart_queue (sb_uart s))"

definition control_word :: "jtag_uart \<Rightarrow> u32" where
  "control_word u = push_bit 0 (of_bool (ctrl_re u)) OR push_bit 1 (of_bool (ctrl_we u))
     OR push_bit 8 (of_bool (ctrl_re u \<and> 0 < rx_avail u)) OR push_bit 9 (of_bool (ctrl_we u))
     OR push_bit 10 (of_bool (ctrl_ac u)) OR push_bit 12 (of_bool (0 < rx_avail u)) OR push_bit 16 63"

lemma control_word_bits:
  "control_word u AND JTAG_UART_CONTROL_WSPACE \<noteq> 0"
  "control_word u AND JTAG_UART_CONTROL_AC \<noteq> 0 \<longleftrightarrow> ctrl_ac u"
proof -
  have one: "bit (of_bool c :: u32) n \<longleftrightarrow> c \<and> n = 0" for c n
    by (cases c) (simp_all add: bit_one_iff')
  have "bit (63 :: u32) 0" by (simp add: bit_0)
  then have "bit (control_word u) 16"
    unfolding control_word_def by (simp only: bit_or_iff bit_push_bit_iff possible_bit_word one) simp
  moreover have "bit JTAG_UART_CONTROL_WSPACE 16" unfolding uart_registers by (simp add: bit_numeral_rec)
  ultimately have "bit (control_word u AND JTAG_UART_CONTROL_WSPACE) 16" by (simp add: bit_and_iff)
  then show "control_word u AND JTAG_UART_CONTROL_WSPACE \<noteq> 0" by force
  have "bit (control_word u) 10 \<longleftrightarrow> ctrl_ac u"
    unfolding control_word_def by (simp only: bit_or_iff bit_push_bit_iff possible_bit_word one) simp
  then show "control_word u AND JTAG_UART_CONTROL_AC \<noteq> 0 \<longleftrightarrow> ctrl_ac u"
    using and_exp_eq_0_iff_not_bit [of "control_word u" 10] unfolding uart_registers by (simp add: push_bit_eq_mult)
qed

definition sb_ticked :: "jtag_uart \<Rightarrow> jtag_uart" where
  "sb_ticked u = (if 0 < countdown u then u\<lparr>countdown := countdown u - 1\<rparr>
     else u\<lparr>countdown := 10000, ctrl_ac := True\<rparr>)"

lemma sb_tick_good: "sb_good s \<Longrightarrow> sb_tick s = s\<lparr>sb_uart := sb_ticked (sb_uart s)\<rparr>"
  by (simp add: sb_tick_def sb_good_def uart_tick_def sb_ticked_def Let_def)

lemma sb_ticked_frame:
  "uart_inv (sb_ticked u) = uart_inv u" "took_over (sb_ticked u) = took_over u" "rx_avail (sb_ticked u) = rx_avail u"
  "rx_next (sb_ticked u) = rx_next u" "rx (sb_ticked u) = rx u" "tty_out (sb_ticked u) = tty_out u"
  "uart_queue (sb_ticked u) = uart_queue u"
  by (auto simp: sb_ticked_def uart_inv_def uart_queue_def)

lemma sb_tick_frame:
  assumes "sb_good s"
  shows "sb_good (sb_tick s)" "shown sb_tty sb_rest s [] (sb_tick s)" "sb_words (sb_tick s) = sb_words s"
  using assms by (simp_all add: sb_tick_good) (simp_all add: sb_good_def shown_def sb_tty_def sb_rest_def sb_ticked_frame)

lemma sb_read_control: "sb_good s \<Longrightarrow> sb_read s JTAG_UART_CONTROL = (control_word (sb_uart (sb_tick s)), sb_tick s)"
  by (simp add: sb_read_def uart_read_def control_word_def Let_def uart_registers)

lemma sim_poll_space:
  assumes "sb_good s"
  shows "poll sim_mmio JTAG_UART_CONTROL JTAG_UART_CONTROL_WSPACE s = Inr (sb_tick s)"
  by (simp add: poll_def sim_mmio_def sb_read_control [OF assms] while_option_unfold control_word_bits)

lemma sim_poll_active:
  "sb_good s \<Longrightarrow> \<exists>v s'. while_option (\<lambda>(v, s). v AND JTAG_UART_CONTROL_AC = 0) (\<lambda>(v, s). sb_read s JTAG_UART_CONTROL)
      (sb_read s JTAG_UART_CONTROL) = Some (v, s') \<and> sb_good s' \<and> shown sb_tty sb_rest s [] s'"
proof (induction "unat (countdown (sb_uart s))" arbitrary: s rule: less_induct)
  case less
  let ?s = "sb_tick s"
  note f = sb_tick_frame [OF less.prems]
  show ?case
  proof (cases "ctrl_ac (sb_uart ?s)")
    case True
    then have "control_word (sb_uart ?s) AND JTAG_UART_CONTROL_AC \<noteq> 0" using control_word_bits(2) by blast
    then show ?thesis
      using f by (subst while_option_unfold) (simp add: sb_read_control less.prems)
  next
    case False
    have c: "0 < countdown (sb_uart s)"
      using False unfolding sb_tick_good [OF less.prems] by (auto simp: sb_ticked_def split: if_splits)
    then have "sb_uart ?s = sb_uart s\<lparr>countdown := countdown (sb_uart s) - 1\<rparr>"
      unfolding sb_tick_good [OF less.prems] by (simp add: sb_ticked_def)
    then have "unat (countdown (sb_uart ?s)) < unat (countdown (sb_uart s))"
      using c by (simp add: unat_minus_1 word_gt_0 unat_gt_0)
    from less.hyps [OF this f(1)] obtain v s' where
      w: "while_option (\<lambda>(v, s). v AND JTAG_UART_CONTROL_AC = 0) (\<lambda>(v, s). sb_read s JTAG_UART_CONTROL)
        (sb_read ?s JTAG_UART_CONTROL) = Some (v, s')" "sb_good s'" "shown sb_tty sb_rest ?s [] s'" by blast
    from shown_trans [OF f(2) w(3)] have "shown sb_tty sb_rest s [] s'" by simp
    moreover have "control_word (sb_uart ?s) AND JTAG_UART_CONTROL_AC = 0" using False control_word_bits(2) by blast
    then have "while_option (\<lambda>(v, s). v AND JTAG_UART_CONTROL_AC = 0) (\<lambda>(v, s). sb_read s JTAG_UART_CONTROL)
      (sb_read s JTAG_UART_CONTROL) = Some (v, s')"
      unfolding sb_read_control [OF less.prems] by (subst while_option_unfold) (simp add: w(1))
    ultimately show ?thesis using w(2) by blast
  qed
qed

lemma char_code_less: "(of_char c :: nat) < 256"
proof -
  have "of_char c mod (256 :: nat) < 256" by (rule mod_less_divisor) simp
  then show ?thesis by simp
qed

lemma sb_write_data:
  assumes "sb_good s"
  shows "sb_good (sb_write s JTAG_UART_DATA (of_nat (of_char c)))"
    "shown sb_tty sb_rest s [c] (sb_write s JTAG_UART_DATA (of_nat (of_char c)))"
proof -
  let ?u = "sb_uart (sb_tick s)"
  have "(of_char c :: nat) < 4294967296" by (rule less_trans [OF char_code_less]) simp
  then have "of_char c mod (4294967296 :: nat) = of_char c" by (rule mod_less)
  then have "unat (ucast ((of_nat (of_char c) :: u32) AND 0xff) :: u8) = of_char c"
    using unat_and_mask [of "of_nat (of_char c) :: u32" 8]
    by (simp add: mask_eq_exp_minus_1 unsigned_ucast_eq take_bit_eq_mod unat_of_nat)
  then have c: "char_of (unat (ucast ((of_nat (of_char c) :: u32) AND 0xff) :: u8)) = c" by simp
  have w: "sb_write s JTAG_UART_DATA (of_nat (of_char c)) =
      (sb_tick s)\<lparr>sb_uart := ?u\<lparr>tty_out := tty_out ?u @ [ucast ((of_nat (of_char c) :: u32) AND 0xff)], ctrl_ac := True\<rparr>\<rparr>"
    by (simp add: sb_write_def uart_write_def Let_def)
  show "sb_good (sb_write s JTAG_UART_DATA (of_nat (of_char c)))"
    using sb_tick_frame(1) [OF assms] unfolding w by (simp add: sb_good_def uart_inv_def)
  show "shown sb_tty sb_rest s [c] (sb_write s JTAG_UART_DATA (of_nat (of_char c)))"
    using sb_tick_frame(2) [OF assms] c unfolding w
    by (simp add: shown_def sb_tty_def sb_rest_def uart_queue_def)
qed

lemma sb_write_control:
  assumes "sb_good s"
  shows "sb_good (sb_write s JTAG_UART_CONTROL v)" "shown sb_tty sb_rest s [] (sb_write s JTAG_UART_CONTROL v)"
  using sb_tick_frame(1,2) [OF assms]
  by (auto simp: sb_write_def uart_write_def Let_def uart_registers sb_good_def shown_def sb_tty_def sb_rest_def
      uart_inv_def uart_queue_def)

interpretation sim: board sim_mmio sb_good sb_tty sb_rest
proof unfold_locales
  fix s c v
  assume g: "sb_good s"
  show "\<exists>s'. poll sim_mmio JTAG_UART_CONTROL JTAG_UART_CONTROL_WSPACE s = Inr s' \<and> sb_good s' \<and> shown sb_tty sb_rest s [] s'"
    using sim_poll_space [OF g] sb_tick_frame [OF g] by blast
  show "\<exists>s'. poll sim_mmio JTAG_UART_CONTROL JTAG_UART_CONTROL_AC s = Inr s' \<and> sb_good s' \<and> shown sb_tty sb_rest s [] s'"
    using sim_poll_active [OF g] by (auto simp: poll_def sim_mmio_def)
  show "sb_good (bus_write sim_mmio s JTAG_UART_DATA (of_nat (of_char c)))
      \<and> shown sb_tty sb_rest s [c] (bus_write sim_mmio s JTAG_UART_DATA (of_nat (of_char c)))"
    using sb_write_data [OF g] by (simp add: sim_mmio_def)
  show "sb_good (bus_write sim_mmio s JTAG_UART_CONTROL v) \<and> shown sb_tty sb_rest s [] (bus_write sim_mmio s JTAG_UART_CONTROL v)"
    using sb_write_control [OF g] by (simp add: sim_mmio_def)
qed

end
