(* ===== verification/Demo_Console.thy ===== *)
theory Demo_Console
  imports Demo_Board
begin

text \<open>
  The console of the demo firmware (\<open>demo/console.c\<close>): \<open>print\<close>, the line editor in the interrupt
  handler \<open>irq\<close>, and \<open>read_line\<close>. The static variables are the record \<open>console\<close>, which the other
  components of the firmware extend. \<open>console_lock\<close> makes the bodies of \<open>print\<close> and \<open>irq\<close> and the
  two critical sections of \<open>read_line\<close> atomic, so each is one function here and an execution is a
  sequence of them; \<open>read_line\<close> waits through a schedule of what the other cores, the interrupt
  and the board do meanwhile. The buffer that \<open>input_buf\<close> points to is its list of bytes, and
  every store into it is bounds-checked.
\<close>

section \<open>State\<close>

record 's console =
  hw :: 's
  input_run :: bool
  input_len :: u32
  input_max :: u32
  input_buf :: "string option"

definition INTC_BASE :: u32 where "INTC_BASE = 0x30070000"
definition INTC_MASK :: u32 where "INTC_MASK = INTC_BASE + 4"
definition INTC_MASK_UART :: u32 where "INTC_MASK_UART = push_bit 1 1"

definition NUL :: char where "NUL = CHR 0x00"
definition DEL :: char where "DEL = CHR 0x7F"
definition LF :: char where "LF = CHR 0x0A"

definition prompt :: string where
  "prompt = [CHR 0x0D, CHR 0x0A] @ ''> ''"

definition put_byte :: "string \<Rightarrow> nat \<Rightarrow> char \<Rightarrow> string res" where
  "put_byte buf i c = (if i < length buf then Inr (buf[i := c]) else Inl Out_Of_Bounds)"

text \<open>\<open>print_str\<close> of a buffer: reading stops at the terminator, or runs past the end.\<close>

definition print_buf :: "'s mmio \<Rightarrow> string \<Rightarrow> 's \<Rightarrow> 's res" where
  "print_buf b buf h =
     bind_res (print_str b (takeWhile (\<lambda>c. c \<noteq> NUL) buf) h)
       (\<lambda>h. if NUL \<in> set buf then Inr h else Inl Out_Of_Bounds)"

section \<open>Operations\<close>

definition console_init :: "'s mmio \<Rightarrow> ('s, 'x) console_scheme \<Rightarrow> ('s, 'x) console_scheme" where
  "console_init b s =
     (let h = bus_write b (hw s) JTAG_UART_CONTROL JTAG_UART_CONTROL_RE;
          h = bus_write b h INTC_MASK INTC_MASK_UART
      in s\<lparr>input_buf := None, input_max := 0, hw := h\<rparr>)"

definition print :: "'s mmio \<Rightarrow> u32 \<Rightarrow> string \<Rightarrow> va list \<Rightarrow> ('s, 'x) console_scheme \<Rightarrow> ('s, 'x) console_scheme res" where
  "print b cpu fmt args s =
     bind_res (poll b JTAG_UART_CONTROL JTAG_UART_CONTROL_AC (hw s)) (\<lambda>h.
     bind_res (print_str b (CHR 0x0D # ''  '') h) (\<lambda>h.
     bind_res (print_str b (replicate (unat (input_len s)) CHR '' '') h) (\<lambda>h.
     bind_res (print_str b (CHR 0x0D # ''cpu'') h) (\<lambda>h.
     bind_res (print_dec b cpu h) (\<lambda>h.
     bind_res (print_str b '': '' h) (\<lambda>h.
     bind_res (print_format b fmt args h) (\<lambda>h.
     bind_res (print_str b prompt h) (\<lambda>h.
     bind_res (case input_buf s of
         Some buf \<Rightarrow> if \<not> input_run s then print_buf b buf h else Inr h
       | None \<Rightarrow> Inr h) (\<lambda>h.
     Inr (s\<lparr>hw := bus_write b h JTAG_UART_CONTROL (JTAG_UART_CONTROL_RE OR JTAG_UART_CONTROL_AC)\<rparr>))))))))))"

text \<open>The \<open>switch\<close> of \<open>irq\<close>; \<open>buf\<close> is the buffer in use.\<close>

definition irq_char :: "'s mmio \<Rightarrow> char \<Rightarrow> string \<Rightarrow> ('s, 'x) console_scheme \<Rightarrow> ('s, 'x) console_scheme res" where
  "irq_char b c buf s =
     (if c = DEL then
        if 0 < input_len s then
          let len = input_len s - 1 in
          bind_res (put_byte buf (unat len) NUL) (\<lambda>buf.
          bind_res (print_str b [CHR 0x08, CHR '' '', CHR 0x08] (hw s)) (\<lambda>h.
          Inr (s\<lparr>hw := h, input_len := len, input_buf := Some buf\<rparr>)))
        else Inr s
      else if c = LF then
        bind_res (print_str b prompt (hw s)) (\<lambda>h.
        Inr (s\<lparr>hw := h, input_run := True, input_len := 0\<rparr>))
      else if input_len s < input_max s - 1 \<and> CHR '' '' \<le> c \<and> c \<le> CHR ''~'' then
        bind_res (print_char b c (hw s)) (\<lambda>h.
        bind_res (put_byte buf (unat (input_len s)) c) (\<lambda>buf.
        let len = input_len s + 1 in
        bind_res (put_byte buf (unat len) NUL) (\<lambda>buf.
        Inr (s\<lparr>hw := h, input_len := len, input_buf := Some buf\<rparr>))))
      else Inr s)"

definition irq_input :: "'s mmio \<Rightarrow> char \<Rightarrow> ('s, 'x) console_scheme \<Rightarrow> ('s, 'x) console_scheme res" where
  "irq_input b c s =
     (if input_run s then Inr s
      else case input_buf s of None \<Rightarrow> Inr s | Some buf \<Rightarrow> irq_char b c buf s)"

partial_function (option) irq_loop :: "'s mmio \<Rightarrow> ('s, 'x) console_scheme \<Rightarrow> ('s, 'x) console_scheme res option" where
  "irq_loop b s =
     (let (data, h) = bus_read b (hw s) JTAG_UART_DATA; s = s\<lparr>hw := h\<rparr> in
      if data AND JTAG_UART_DATA_RVALID = 0 then Some (Inr s)
      else case irq_input b (char_of (unat data)) s of
          Inl e \<Rightarrow> Some (Inl e)
        | Inr s \<Rightarrow> if data AND JTAG_UART_DATA_RAVAIL \<noteq> 0 then irq_loop b s else Some (Inr s))"

definition irq :: "'s mmio \<Rightarrow> ('s, 'x) console_scheme \<Rightarrow> ('s, 'x) console_scheme res" where
  "irq b s = (case irq_loop b s of None \<Rightarrow> Inl Spins | Some r \<Rightarrow> r)"

text \<open>What happens while a core waits: the interrupt, a \<open>print\<close> of a core, a change of the board.\<close>

datatype 's event = Irq | Print u32 string "va list" | Board "'s \<Rightarrow> 's"

fun event_step :: "'s mmio \<Rightarrow> 's event \<Rightarrow> ('s, 'x) console_scheme \<Rightarrow> ('s, 'x) console_scheme res" where
  "event_step b Irq s = irq b s"
| "event_step b (Print cpu fmt args) s = print b cpu fmt args s"
| "event_step b (Board f) s = Inr (s\<lparr>hw := f (hw s)\<rparr>)"

text \<open>
  The first critical section of \<open>read_line\<close>, the waiting loop, and the end. When nothing of the
  schedule is left and no line is complete, the loop spins.
\<close>

definition read_line_begin :: "string \<Rightarrow> u32 \<Rightarrow> ('s, 'x) console_scheme \<Rightarrow> ('s, 'x) console_scheme res" where
  "read_line_begin buf sz s =
     bind_res (put_byte buf 0 NUL) (\<lambda>buf. Inr (s\<lparr>input_buf := Some buf, input_max := sz, input_len := 0\<rparr>))"

fun wait_input :: "'s mmio \<Rightarrow> 's event list \<Rightarrow> ('s, 'x) console_scheme \<Rightarrow> ('s event list \<times> ('s, 'x) console_scheme) res" where
  "wait_input b env s =
     (if input_run s then Inr (env, s)
      else case env of
          [] \<Rightarrow> Inl Spins
        | e # env \<Rightarrow> bind_res (event_step b e s) (wait_input b env))"

definition read_line_end :: "string \<Rightarrow> ('s, 'x) console_scheme \<Rightarrow> string \<times> ('s, 'x) console_scheme" where
  "read_line_end buf s =
     (case input_buf s of Some buf \<Rightarrow> buf | None \<Rightarrow> buf,
      s\<lparr>input_buf := None, input_len := 0, input_max := 0, input_run := False\<rparr>)"

definition read_line :: "'s mmio \<Rightarrow> string \<Rightarrow> u32 \<Rightarrow> 's event list \<Rightarrow> ('s, 'x) console_scheme
    \<Rightarrow> (string \<times> 's event list \<times> ('s, 'x) console_scheme) res" where
  "read_line b buf sz env s =
     (if sz = 0 then Inr (buf, env, s)
      else bind_res (read_line_begin buf sz s) (\<lambda>s.
        bind_res (wait_input b env s) (\<lambda>(env, s).
        let (buf, s) = read_line_end buf s in Inr (buf, env, s))))"

section \<open>Results that can only spin\<close>

definition spins_or :: "('a \<Rightarrow> bool) \<Rightarrow> 'a res \<Rightarrow> bool" where
  "spins_or P r = (case r of Inl e \<Rightarrow> e = Spins | Inr x \<Rightarrow> P x)"

lemma spins_or_simps [simp]: "spins_or P (Inr x) = P x" "spins_or P (Inl e) \<longleftrightarrow> e = Spins"
  by (simp_all add: spins_or_def)

lemma spins_or_bind: "spins_or Q m \<Longrightarrow> (\<And>x. Q x \<Longrightarrow> spins_or P (f x)) \<Longrightarrow> spins_or P (bind_res m f)"
  by (cases m) auto

lemma spins_or_mono: "spins_or Q m \<Longrightarrow> (\<And>x. Q x \<Longrightarrow> P x) \<Longrightarrow> spins_or P m"
  by (cases m) auto

lemma spins_or_any: "spins_or (\<lambda>_. True) m \<Longrightarrow> (\<And>x. spins_or P (f x)) \<Longrightarrow> spins_or P (bind_res m f)"
  by (rule spins_or_bind) auto

lemma poll_spins: "spins_or (\<lambda>_. True) (poll b r m s)"
  by (simp add: poll_def split: option.split)

lemma print_char_spins: "spins_or (\<lambda>_. True) (print_char b c s)"
  unfolding print_char_def by (rule spins_or_any [OF poll_spins]) simp

lemma print_str_spins: "spins_or (\<lambda>_. True) (print_str b t s)"
  by (induction t arbitrary: s) (auto intro: spins_or_any [OF print_char_spins])

lemma print_dec_spins: "spins_or (\<lambda>_. True) (print_dec b v s)"
  by (simp add: print_dec_def print_str_spins)

section \<open>The line editor\<close>

definition printable :: "char \<Rightarrow> bool" where
  "printable c \<longleftrightarrow> CHR '' '' \<le> c \<and> c \<le> CHR ''~''"

lemma special_chars: "\<not> printable NUL" "\<not> printable DEL" "\<not> printable LF" "DEL \<noteq> LF" "NUL \<noteq> LF"
  by (simp_all add: printable_def NUL_def DEL_def LF_def less_eq_char_def)

text \<open>The reference editor: the line so far, at most \<open>n\<close> characters, and a key.\<close>

definition edit :: "nat \<Rightarrow> string \<Rightarrow> char \<Rightarrow> string" where
  "edit n t c = (if c = DEL then butlast t else if printable c \<and> length t < n then t @ [c] else t)"

definition c_string :: "string \<Rightarrow> string" where
  "c_string buf = takeWhile (\<lambda>c. c \<noteq> NUL) buf"

definition text_at :: "string \<Rightarrow> nat \<Rightarrow> bool" where
  "text_at buf k \<longleftrightarrow> k < length buf \<and> buf ! k = NUL \<and> (\<forall>i<k. printable (buf ! i))"

lemma text_at_string: "text_at buf k \<Longrightarrow> c_string buf = take k buf"
proof -
  assume t: "text_at buf k"
  then have "\<And>i. i < k \<Longrightarrow> buf ! i \<noteq> NUL" using special_chars(1) by (auto simp: text_at_def)
  then show ?thesis using t unfolding c_string_def text_at_def
    by (intro takeWhile_eq_take_P_nth) auto
qed

lemma text_at_NUL: "text_at buf k \<Longrightarrow> NUL \<in> set buf"
  unfolding text_at_def by (metis nth_mem)

definition console_inv :: "('s, 'x) console_scheme \<Rightarrow> bool" where
  "console_inv s =
     (case input_buf s of
        None \<Rightarrow> \<not> input_run s
      | Some buf \<Rightarrow> unat (input_max s) \<le> length buf \<and>
          (if input_run s then \<exists>k < unat (input_max s). text_at buf k
           else unat (input_len s) < unat (input_max s) \<and> text_at buf (unat (input_len s))))"

definition content :: "('s, 'x) console_scheme \<Rightarrow> string" where
  "content s = (case input_buf s of None \<Rightarrow> [] | Some buf \<Rightarrow> c_string buf)"

text \<open>The state after a key and what it shows, without the bounds checks.\<close>

definition edited :: "char \<Rightarrow> string \<Rightarrow> ('s, 'x) console_scheme \<Rightarrow> ('s, 'x) console_scheme" where
  "edited c buf s =
     (if c = DEL then
        if 0 < input_len s
        then s\<lparr>input_len := input_len s - 1, input_buf := Some (buf[unat (input_len s - 1) := NUL])\<rparr> else s
      else if c = LF then s\<lparr>input_run := True, input_len := 0\<rparr>
      else if input_len s < input_max s - 1 \<and> printable c
        then s\<lparr>input_len := input_len s + 1,
               input_buf := Some (buf[unat (input_len s) := c, unat (input_len s + 1) := NUL])\<rparr>
      else s)"

definition echo :: "char \<Rightarrow> ('s, 'x) console_scheme \<Rightarrow> string" where
  "echo c s =
     (if c = DEL then if 0 < input_len s then [CHR 0x08, CHR '' '', CHR 0x08] else []
      else if c = LF then prompt
      else if input_len s < input_max s - 1 \<and> printable c then [c] else [])"

definition editing :: "string \<Rightarrow> ('s, 'x) console_scheme \<Rightarrow> bool" where
  "editing buf s \<longleftrightarrow> console_inv s \<and> \<not> input_run s \<and> input_buf s = Some buf"

lemma editing_bounds:
  assumes "editing buf s"
  shows "unat (input_len s) < length buf" "unat (input_max s) \<le> length buf" "unat (input_len s) < unat (input_max s)"
    "text_at buf (unat (input_len s))"
    "0 < input_len s \<Longrightarrow> unat (input_len s - 1) = unat (input_len s) - 1"
    "input_len s < input_max s - 1 \<Longrightarrow> unat (input_len s + 1) = Suc (unat (input_len s)) \<and> Suc (unat (input_len s)) < unat (input_max s)"
    "input_len s < input_max s - 1 \<longleftrightarrow> unat (input_len s) < unat (input_max s) - 1"
proof -
  show i: "unat (input_len s) < unat (input_max s)" "unat (input_max s) \<le> length buf" "text_at buf (unat (input_len s))"
    using assms by (auto simp: editing_def console_inv_def)
  then show "unat (input_len s) < length buf" by simp
  show "0 < input_len s \<Longrightarrow> unat (input_len s - 1) = unat (input_len s) - 1"
    by (simp add: unat_minus_1 word_gt_0)
  have m: "unat (input_max s - 1) = unat (input_max s) - 1"
    using i(1) by (intro unat_minus_1) (simp add: word_less_nat_alt)
  then show e: "input_len s < input_max s - 1 \<longleftrightarrow> unat (input_len s) < unat (input_max s) - 1"
    by (simp add: word_less_nat_alt)
  assume "input_len s < input_max s - 1"
  then have l: "Suc (unat (input_len s)) < unat (input_max s)" using e by simp
  have "unat (input_max s) < 2 ^ LENGTH(32)" by (rule unsigned_less)
  then have "Suc (unat (input_len s)) < 2 ^ LENGTH(32)" using l by simp
  then have "unat (input_len s + 1) = Suc (unat (input_len s))"
    by (simp add: unat_word_ariths)
  then show "unat (input_len s + 1) = Suc (unat (input_len s)) \<and> Suc (unat (input_len s)) < unat (input_max s)"
    using l by simp
qed

lemma irq_char_edits:
  assumes "editing buf s"
  shows "irq_char b c buf s = bind_res (print_str b (echo c s) (hw s)) (\<lambda>h. Inr (edited c buf (s\<lparr>hw := h\<rparr>)))"
proof -
  note e = editing_bounds [OF assms]
  consider "c = DEL" "0 < input_len s" | "c = DEL" "\<not> 0 < input_len s" | "c \<noteq> DEL" "c = LF"
    | "c \<noteq> DEL" "c \<noteq> LF" "input_len s < input_max s - 1 \<and> printable c"
    | "c \<noteq> DEL" "c \<noteq> LF" "\<not> (input_len s < input_max s - 1 \<and> printable c)" by blast
  then show ?thesis
  proof cases
    case 1
    with e have "unat (input_len s - 1) < length buf" by simp
    with 1 show ?thesis by (simp add: irq_char_def echo_def edited_def put_byte_def Let_def)
  next
    case 4
    with e have "unat (input_len s) < length buf" "unat (input_len s + 1) < length buf" by simp_all
    with 4 show ?thesis
      by (simp add: irq_char_def echo_def edited_def put_byte_def Let_def print_str_single bind_res_assoc
          flip: printable_def del: print_str.simps)
  next
    case 5
    then show ?thesis by (auto simp: irq_char_def echo_def edited_def simp flip: printable_def)
  qed (simp_all add: irq_char_def echo_def edited_def)
qed

lemma text_at_cut: "text_at buf k \<Longrightarrow> j \<le> k \<Longrightarrow> text_at (buf[j := NUL]) j"
  by (auto simp: text_at_def)

lemma text_at_extend: "text_at buf k \<Longrightarrow> Suc k < length buf \<Longrightarrow> printable c \<Longrightarrow> text_at (buf[k := c, Suc k := NUL]) (Suc k)"
  by (auto simp: text_at_def nth_list_update less_Suc_eq)

text \<open>A key keeps the invariant and edits the content as the reference editor does.\<close>

lemma edited_refines:
  assumes "editing buf s"
  shows "console_inv (edited c buf s)"
    "input_run (edited c buf s) \<longleftrightarrow> c = LF" "input_max (edited c buf s) = input_max s"
    "hw (edited c buf s) = hw s"
    "\<exists>buf'. input_buf (edited c buf s) = Some buf' \<and> length buf' = length buf"
    "content (edited c buf s) = (if c = LF then content s else edit (unat (input_max s) - 1) (content s) c)"
proof -
  note e = editing_bounds [OF assms]
  have s: "\<not> input_run s" "input_buf s = Some buf" using assms by (simp_all add: editing_def)
  have cs: "c_string buf = take (unat (input_len s)) buf" using e(4) by (rule text_at_string)
  then have cont: "content s = take (unat (input_len s)) buf" using s by (simp add: content_def)
  consider (del) "c = DEL" "0 < input_len s" | (empty) "c = DEL" "\<not> 0 < input_len s" | (ret) "c \<noteq> DEL" "c = LF"
    | (add) "c \<noteq> DEL" "c \<noteq> LF" "input_len s < input_max s - 1 \<and> printable c"
    | (full) "c \<noteq> DEL" "c \<noteq> LF" "\<not> (input_len s < input_max s - 1 \<and> printable c)" by blast
  then have "console_inv (edited c buf s) \<and> (input_run (edited c buf s) \<longleftrightarrow> c = LF)
    \<and> input_max (edited c buf s) = input_max s \<and> hw (edited c buf s) = hw s
    \<and> (\<exists>buf'. input_buf (edited c buf s) = Some buf' \<and> length buf' = length buf)
    \<and> content (edited c buf s) = (if c = LF then content s else edit (unat (input_max s) - 1) (content s) c)"
  proof cases
    case del
    let ?j = "unat (input_len s) - 1"
    have t: "text_at (buf[?j := NUL]) ?j" using e(4) by (rule text_at_cut) simp
    have "butlast (take (unat (input_len s)) buf) = take ?j (buf[?j := NUL])"
      using e(1) by (simp add: butlast_take)
    moreover have "?j < unat (input_max s)" using e(3) by simp
    ultimately show ?thesis
      using del s e(2,5) t special_chars(4) text_at_string [OF t]
      by (simp add: edited_def console_inv_def content_def edit_def cs)
  next
    case empty
    then have "input_len s = 0" by (simp add: word_gt_0)
    then have "content s = []" by (simp add: cont)
    with empty show ?thesis using assms s special_chars by (simp add: edited_def editing_def edit_def)
  next
    case ret
    then show ?thesis using s e by (auto simp: edited_def console_inv_def content_def)
  next
    case add
    let ?k = "unat (input_len s)"
    have k: "unat (input_len s + 1) = Suc ?k" "Suc ?k < unat (input_max s)" using e(6) add by simp_all
    have t: "text_at (buf[?k := c, Suc ?k := NUL]) (Suc ?k)"
      using e(4) by (rule text_at_extend) (use k e add in simp_all)
    have "take (Suc ?k) (buf[?k := c, Suc ?k := NUL]) = take ?k buf @ [c]"
      using e(1) by (simp add: take_Suc_conv_app_nth)
    then show ?thesis
      using add s e(1,2) k t text_at_string [OF t]
      by (simp add: edited_def console_inv_def content_def edit_def cs)
  next
    case full
    then have "edit (unat (input_max s) - 1) (content s) c = content s"
      using e(1) by (auto simp: edit_def cont e(7))
    moreover have "edited c buf s = s" using full by (auto simp: edited_def)
    ultimately show ?thesis using assms s full(2) by (simp add: editing_def)
  qed
  then show "console_inv (edited c buf s)"
    "input_run (edited c buf s) \<longleftrightarrow> c = LF" "input_max (edited c buf s) = input_max s"
    "hw (edited c buf s) = hw s"
    "\<exists>buf'. input_buf (edited c buf s) = Some buf' \<and> length buf' = length buf"
    "content (edited c buf s) = (if c = LF then content s else edit (unat (input_max s) - 1) (content s) c)" by blast+
qed

lemma editing_hw [simp]: "editing buf (s\<lparr>hw := h\<rparr>) = editing buf s" "console_inv (s\<lparr>hw := h\<rparr>) = console_inv s"
  "content (s\<lparr>hw := h\<rparr>) = content s"
  by (simp_all add: editing_def console_inv_def content_def split: option.split)

section \<open>Bounds\<close>

definition same_buffer :: "('s, 'x) console_scheme \<Rightarrow> ('s, 'x) console_scheme \<Rightarrow> bool" where
  "same_buffer s s' \<longleftrightarrow> map_option length (input_buf s') = map_option length (input_buf s) \<and> input_max s' = input_max s"

lemma same_buffer_refl [simp]: "same_buffer s s" "same_buffer (s\<lparr>hw := h\<rparr>) s' = same_buffer s s'"
  "same_buffer s (s'\<lparr>hw := h\<rparr>) = same_buffer s s'"
  by (simp_all add: same_buffer_def)

lemma same_buffer_trans: "same_buffer s s' \<Longrightarrow> same_buffer s' s'' \<Longrightarrow> same_buffer s s''"
  by (simp add: same_buffer_def)

definition kept :: "('s, 'x) console_scheme \<Rightarrow> ('s, 'x) console_scheme \<Rightarrow> bool" where
  "kept s s' \<longleftrightarrow> console_inv s' \<and> same_buffer s s'"

lemma irq_input_kept:
  assumes "console_inv s"
  shows "spins_or (kept s) (irq_input b c s)"
proof (cases "input_run s \<or> input_buf s = None")
  case True
  then show ?thesis using assms by (auto simp: irq_input_def kept_def split: option.split)
next
  case False
  then obtain buf where "editing buf s" using assms by (auto simp: editing_def)
  then have e: "editing buf (s\<lparr>hw := h\<rparr>)" for h by simp
  have "spins_or (kept s) (irq_char b c buf s)"
    unfolding irq_char_edits [OF \<open>editing buf s\<close>]
  proof (rule spins_or_any [OF print_str_spins])
    fix h
    show "spins_or (kept s) (Inr (edited c buf (s\<lparr>hw := h\<rparr>)))"
      using edited_refines(1,3,5) [OF e, of c h] False \<open>editing buf s\<close>
      by (auto simp: kept_def same_buffer_def editing_def)
  qed
  then show ?thesis using False \<open>editing buf s\<close> by (simp add: irq_input_def editing_def)
qed

lemma irq_loop_kept:
  assumes "irq_loop b s = Some r" "console_inv s"
  shows "spins_or (kept s) r"
proof -
  have "console_inv s \<longrightarrow> spins_or (kept s) r"
  proof (rule irq_loop.raw_induct [where P = "\<lambda>b s r. console_inv s \<longrightarrow> spins_or (kept s) r", OF _ assms(1)])
    fix f and b :: "'a mmio" and s :: "('a, 'b) console_scheme" and r
    assume IH: "\<And>b s r. f b s = Some r \<Longrightarrow> console_inv s \<longrightarrow> spins_or (kept s) r"
      and step: "(let (data, h) = bus_read b (hw s) JTAG_UART_DATA; s = s\<lparr>hw := h\<rparr> in
        if data AND JTAG_UART_DATA_RVALID = 0 then Some (Inr s)
        else case irq_input b (char_of (unat data)) s of
            Inl e \<Rightarrow> Some (Inl e)
          | Inr s \<Rightarrow> if data AND JTAG_UART_DATA_RAVAIL \<noteq> 0 then f b s else Some (Inr s)) = Some r"
    obtain data h where d: "bus_read b (hw s) JTAG_UART_DATA = (data, h)" by fastforce
    show "console_inv s \<longrightarrow> spins_or (kept s) r"
    proof
      assume i: "console_inv s"
      let ?s = "s\<lparr>hw := h\<rparr>"
      have k: "spins_or (kept ?s) (irq_input b (char_of (unat data)) ?s)" by (rule irq_input_kept) (simp add: i)
      show "spins_or (kept s) r"
      proof (cases "data AND JTAG_UART_DATA_RVALID = 0")
        case True
        then have "r = Inr ?s" using step d by simp
        then show ?thesis using i by (simp add: kept_def)
      next
        case False
        show ?thesis
        proof (cases "irq_input b (char_of (unat data)) ?s")
          case (Inl e)
          then have "r = Inl e" using step d False by simp
          then show ?thesis using k Inl by simp
        next
          case (Inr s1)
          then have k1: "console_inv s1" "same_buffer s s1" using k by (simp_all add: kept_def)
          show ?thesis
          proof (cases "data AND JTAG_UART_DATA_RAVAIL \<noteq> 0")
            case True
            then have "f b s1 = Some r" using step d False Inr by simp
            then have "spins_or (kept s1) r" using IH k1 by blast
            then show ?thesis by (rule spins_or_mono) (use k1 in \<open>auto simp: kept_def intro: same_buffer_trans\<close>)
          next
            case f: False
            then have "r = Inr s1" using step d False Inr by simp
            then show ?thesis using k1 by (simp add: kept_def)
          qed
        qed
      qed
    qed
  qed
  then show ?thesis using assms(2) by blast
qed

lemma irq_kept: "console_inv s \<Longrightarrow> spins_or (kept s) (irq b s)"
  by (simp add: irq_def irq_loop_kept split: option.split)

lemma print_hw:
  assumes "render fmt args \<noteq> None" "console_inv s"
  shows "spins_or (\<lambda>s'. \<exists>h. s' = s\<lparr>hw := h\<rparr>) (print b cpu fmt args s)"
proof -
  obtain t where "render fmt args = Some t" using assms(1) by blast
  then have t: "print_format b fmt args h = print_str b t h" for h by (rule print_format_text)
  have buf: "spins_or (\<lambda>_. True) (case input_buf s of
         Some buf \<Rightarrow> if \<not> input_run s then print_buf b buf h else Inr h | None \<Rightarrow> Inr h)" for h
    using assms(2) unfolding print_buf_def console_inv_def
    by (auto split: option.split simp: text_at_NUL intro!: spins_or_any [OF print_str_spins])
  show ?thesis
    unfolding print_def t
    by (intro spins_or_any [OF poll_spins] spins_or_any [OF print_str_spins] spins_or_any [OF print_dec_spins]
        spins_or_any [OF buf]) auto
qed

fun event_ok :: "'s event \<Rightarrow> bool" where
  "event_ok (Print cpu fmt args) \<longleftrightarrow> render fmt args \<noteq> None"
| "event_ok _ \<longleftrightarrow> True"

lemma event_kept:
  assumes "event_ok e" "console_inv s"
  shows "spins_or (kept s) (event_step b e s)"
proof (cases e)
  case Irq
  then show ?thesis using assms(2) by (simp add: irq_kept)
next
  case (Print cpu fmt args)
  then have "render fmt args \<noteq> None" using assms(1) by simp
  from print_hw [OF this assms(2)] have "spins_or (\<lambda>s'. \<exists>h. s' = s\<lparr>hw := h\<rparr>) (event_step b e s)"
    using Print by simp
  then show ?thesis by (rule spins_or_mono) (use assms(2) in \<open>auto simp: kept_def\<close>)
next
  case (Board f)
  then show ?thesis using assms(2) by (simp add: kept_def)
qed

lemma wait_input_kept:
  "list_all event_ok env \<Longrightarrow> console_inv s
    \<Longrightarrow> spins_or (\<lambda>(env', s'). input_run s' \<and> kept s s') (wait_input b env s)"
proof (induction env arbitrary: s)
  case Nil
  then show ?case by (simp add: kept_def)
next
  case (Cons e env)
  show ?case
  proof (cases "input_run s")
    case False
    have "spins_or (kept s) (event_step b e s)" by (rule event_kept) (use Cons.prems in simp_all)
    then have "spins_or (\<lambda>(env', s'). input_run s' \<and> kept s s') (bind_res (event_step b e s) (wait_input b env))"
    proof (rule spins_or_bind)
      fix s1
      assume k: "kept s s1"
      then have "spins_or (\<lambda>(env', s'). input_run s' \<and> kept s1 s') (wait_input b env s1)"
        using Cons by (simp add: kept_def)
      then show "spins_or (\<lambda>(env', s'). input_run s' \<and> kept s s') (wait_input b env s1)"
        by (rule spins_or_mono) (use k in \<open>auto simp: kept_def intro: same_buffer_trans\<close>)
    qed
    then show ?thesis using False by simp
  qed (use Cons.prems in \<open>simp add: kept_def\<close>)
qed

definition idle :: "('s, 'x) console_scheme \<Rightarrow> bool" where
  "idle s \<longleftrightarrow> input_buf s = None \<and> \<not> input_run s"

definition terminated_in :: "u32 \<Rightarrow> string \<Rightarrow> bool" where
  "terminated_in sz buf \<longleftrightarrow> (\<exists>k < unat sz. text_at buf k)"

text \<open>
  C13. \<open>read_line\<close> is memory-safe whatever the memory system answers and whatever happens while it
  waits (interrupts, output of any core, changes of the board): no byte outside the buffer is
  touched, and if it returns, the buffer holds a terminated line of printable characters within
  the given size and the console is idle again. The only other outcome is to wait for ever.
\<close>

theorem read_line_is_memory_safe:
  assumes "idle s" "sz \<noteq> 0" "unat sz \<le> length buf" "list_all event_ok env"
  shows "case read_line b buf sz env s of
      Inl e \<Rightarrow> e = Spins
    | Inr (line, env', s') \<Rightarrow> length line = length buf \<and> terminated_in sz line \<and> idle s'"
proof -
  have pos: "0 < unat sz" using assms(2) by (simp add: unat_gt_0)
  let ?buf = "buf[0 := NUL]"
  let ?s = "s\<lparr>input_buf := Some ?buf, input_max := sz, input_len := 0\<rparr>"
  have "read_line_begin buf sz s = Inr ?s"
    using pos assms(3) by (auto simp: read_line_begin_def put_byte_def)
  then have r: "read_line b buf sz env s = bind_res (wait_input b env ?s) (\<lambda>(env, s).
      let (buf, s) = read_line_end buf s in Inr (buf, env, s))"
    using assms(2) by (simp add: read_line_def)
  have "text_at ?buf 0" using pos assms(3) by (cases buf) (simp_all add: text_at_def)
  then have "console_inv ?s" using assms pos by (simp add: idle_def console_inv_def)
  then have "spins_or (\<lambda>(env', s'). input_run s' \<and> kept ?s s') (wait_input b env ?s)"
    by (rule wait_input_kept [OF assms(4)])
  then have "spins_or (\<lambda>(line, env', s'). length line = length buf \<and> terminated_in sz line \<and> idle s')
    (read_line b buf sz env s)"
    unfolding r
    by (rule spins_or_bind)
      (auto simp: kept_def same_buffer_def console_inv_def read_line_end_def idle_def terminated_in_def split: option.splits)
  then show ?thesis by (cases "read_line b buf sz env s") auto
qed

end
