(* ===== verification/Demo_Terminal.thy ===== *)
theory Demo_Terminal
  imports Demo_Console
begin

text \<open>
  The console of the demo firmware on the UART of the simulator: what \<open>print\<close> shows on the
  terminal and which line \<open>read_line\<close> returns for the keys that were typed.
\<close>

section \<open>Output\<close>

definition print_text :: "u32 \<Rightarrow> string \<Rightarrow> ('s, 'x) console_scheme \<Rightarrow> string" where
  "print_text cpu t s =
     (CHR 0x0D # ''  '') @ replicate (unat (input_len s)) CHR '' '' @ (CHR 0x0D # ''cpu'')
       @ decimal (unat cpu) @ '': '' @ t @ prompt @ (if input_run s then [] else content s)"

lemma print_buf_text: "NUL \<in> set buf \<Longrightarrow> print_buf b buf h = print_str b (c_string buf) h"
  by (cases "print_str b (c_string buf) h") (simp_all add: print_buf_def c_string_def)

lemma print_is_text:
  assumes "render fmt args = Some t" "console_inv s"
  shows "print b cpu fmt args s =
    bind_res (poll b JTAG_UART_CONTROL JTAG_UART_CONTROL_AC (hw s)) (\<lambda>h.
    bind_res (print_str b (print_text cpu t s) h) (\<lambda>h.
    Inr (s\<lparr>hw := bus_write b h JTAG_UART_CONTROL (JTAG_UART_CONTROL_RE OR JTAG_UART_CONTROL_AC)\<rparr>)))"
proof -
  have p: "(case input_buf s of Some buf \<Rightarrow> if \<not> input_run s then print_buf b buf h else Inr h | None \<Rightarrow> Inr h)
    = print_str b (if input_run s then [] else content s) h" for h
  proof (cases "input_buf s")
    case (Some buf)
    with assms(2) have "\<not> input_run s \<Longrightarrow> NUL \<in> set buf" by (auto simp: console_inv_def text_at_NUL)
    then show ?thesis using Some by (simp add: print_buf_text content_def)
  qed (simp add: content_def)
  show ?thesis
    unfolding print_def print_text_def print_str_append bind_res_assoc p print_dec_text
      print_format_text [OF assms(1)] by (rule refl)
qed

context board
begin

lemma print_shown:
  assumes "good (hw s)" "render fmt args = Some t" "console_inv s"
  shows "\<exists>h. print b cpu fmt args s = Inr (s\<lparr>hw := h\<rparr>) \<and> good h \<and> shown tty rest (hw s) (print_text cpu t s) h"
proof -
  obtain h1 where h1: "poll b JTAG_UART_CONTROL JTAG_UART_CONTROL_AC (hw s) = Inr h1" "good h1" "shown tty rest (hw s) [] h1"
    using active_ends [OF assms(1)] by blast
  obtain h2 where h2: "print_str b (print_text cpu t s) h1 = Inr h2" "good h2" "shown tty rest h1 (print_text cpu t s) h2"
    using print_str_shown [OF h1(2)] by blast
  let ?h3 = "bus_write b h2 JTAG_UART_CONTROL (JTAG_UART_CONTROL_RE OR JTAG_UART_CONTROL_AC)"
  have "good ?h3" "shown tty rest h2 [] ?h3" using control_silent [OF h2(2)] by blast+
  with shown_trans [OF shown_trans [OF h1(3) h2(3)], of "[]" ?h3] show ?thesis
    unfolding print_is_text [OF assms(2,3)] h1(1) by (intro exI [of _ ?h3]) (simp add: h2(1))
qed

end

lemma print_reaches_board:
  assumes "sb_good (hw s)" "render fmt args = Some t" "console_inv s"
  shows "\<exists>h. print sim_mmio cpu fmt args s = Inr (s\<lparr>hw := h\<rparr>) \<and> sb_good h
    \<and> sb_tty h = sb_tty (hw s) @ print_text cpu t s \<and> sb_words h = sb_words (hw s)
    \<and> uart_queue (sb_uart h) = uart_queue (sb_uart (hw s))"
  using sim.print_shown [OF assms, of cpu] by (auto simp: shown_def sb_rest_def)

text \<open>
  C15. On the simulator's UART a well-formed \<open>print\<close> returns, and what it adds to the terminal is
  exactly the erased input line, the core number, the formatted text, a new prompt and the input
  typed so far; no memory word and no waiting key is touched.
\<close>

theorem print_reaches_terminal:
  assumes "sb_good (hw s)" "render fmt args = Some t" "console_inv s"
  shows "\<exists>h. print sim_mmio cpu fmt args s = Inr (s\<lparr>hw := h\<rparr>) \<and> sb_good h
    \<and> sb_tty h = sb_tty (hw s) @ print_text cpu t s \<and> sb_words h = sb_words (hw s)
    \<and> uart_queue (sb_uart h) = uart_queue (sb_uart (hw s))"
  using print_reaches_board [OF assms, of cpu] .

section \<open>Input\<close>

definition waiting_keys :: "sim_board \<Rightarrow> string" where
  "waiting_keys s = map (\<lambda>c. char_of (unat c)) (uart_queue (sb_uart s))"

lemma data_word_bits:
  fixes c :: u8 and a :: u32 and v :: bool
  defines "w \<equiv> push_bit 16 a OR push_bit 15 (of_bool v) OR (ucast c AND 0xff)"
  assumes "unat a \<le> 64"
  shows "w AND JTAG_UART_DATA_RVALID \<noteq> 0 \<longleftrightarrow> v" "w AND JTAG_UART_DATA_RAVAIL \<noteq> 0 \<longleftrightarrow> a \<noteq> 0"
    "char_of (unat w) = (char_of (unat c) :: char)"
proof -
  note d = uart_data_word [of a v c, folded w_def]
  show "w AND JTAG_UART_DATA_RVALID \<noteq> 0 \<longleftrightarrow> v"
    using and_exp_eq_0_iff_not_bit [of w 15] d(1) unfolding uart_registers by (simp add: push_bit_eq_mult)
  have "w AND 0xffff0000 = 0 \<longleftrightarrow> drop_bit 16 w = 0"
  proof -
    have m: "(0xffff0000 :: u32) = NOT (mask 16)" by (simp add: mask_eq_exp_minus_1)
    show ?thesis unfolding m and_not_mask_eq
    proof
      assume "push_bit 16 (drop_bit 16 w) = 0"
      then have "drop_bit 16 (push_bit 16 (drop_bit 16 w)) = 0" by (simp only: drop_bit_of_0)
      moreover have "drop_bit 16 (push_bit 16 (drop_bit 16 w)) = drop_bit 16 w"
        by (rule bit_word_eqI) (auto simp: bit_simps dest: bit_imp_le_length)
      ultimately show "drop_bit 16 w = 0" by simp
    qed simp
  qed
  then show "w AND JTAG_UART_DATA_RAVAIL \<noteq> 0 \<longleftrightarrow> a \<noteq> 0"
    using d(3) [OF assms(2)] by (simp add: JTAG_UART_DATA_RAVAIL_def)
  have "unat c = unat w mod 256"
    using d(2) by (simp flip: d(2) add: unsigned_ucast_eq take_bit_eq_mod)
  moreover have "(char_of (n mod 256 :: nat) :: char) = char_of n" for n by simp
  ultimately show "char_of (unat w) = (char_of (unat c) :: char)" by simp
qed

lemma sb_read_data:
  assumes "sb_good s"
  shows "case waiting_keys s of
      [] \<Rightarrow> \<exists>w s'. sb_read s JTAG_UART_DATA = (w, s') \<and> w AND JTAG_UART_DATA_RVALID = 0 \<and> sb_good s' \<and> sb_words s' = sb_words s
        \<and> waiting_keys s' = []
    | c # ks \<Rightarrow> \<exists>w s'. sb_read s JTAG_UART_DATA = (w, s') \<and> w AND JTAG_UART_DATA_RVALID \<noteq> 0
        \<and> (w AND JTAG_UART_DATA_RAVAIL \<noteq> 0 \<longleftrightarrow> ks \<noteq> []) \<and> char_of (unat w) = c
        \<and> sb_good s' \<and> sb_words s' = sb_words s \<and> waiting_keys s' = ks"
proof -
  let ?s = "sb_tick s" and ?u = "sb_uart (sb_tick s)"
  note f = sb_tick_frame [OF assms]
  have g: "uart_inv ?u" "took_over ?u" "rx_avail ?u \<noteq> 64" using f(1) by (auto simp: sb_good_def)
  have q: "uart_queue (sb_uart s) = uart_queue ?u" using f(2) by (auto simp: shown_def sb_rest_def)
  note r = uart_read_data [OF g(1), of 0]
  show ?thesis
  proof (cases "uart_queue ?u")
    case Nil
    let ?w = "push_bit 16 0 OR push_bit 15 (of_bool False) OR (ucast (rx ?u (unat (rx_next ?u))) AND 0xff) :: u32"
    have "sb_read s JTAG_UART_DATA = (?w, ?s)"
      using r unfolding Nil by (simp add: sb_read_def uart_registers Let_def)
    moreover have "?w AND JTAG_UART_DATA_RVALID = 0" using data_word_bits(1) [of 0 False] by simp
    moreover have "waiting_keys s = []" "waiting_keys ?s = []" using q Nil by (simp_all add: waiting_keys_def)
    ultimately show ?thesis using f by (simp only: list.case) blast
  next
    case (Cons c cs)
    let ?n = "if rx_next ?u + 1 < 64 then rx_next ?u + 1 else 0"
    let ?u' = "?u\<lparr>rx_avail := rx_avail ?u - 1, rx_next := ?n\<rparr>"
    let ?w = "push_bit 16 (rx_avail ?u - 1) OR push_bit 15 (of_bool True) OR (ucast c AND 0xff) :: u32"
    have l: "unat (rx_avail ?u) = Suc (length cs)" using Cons uart_queue_length [of ?u] by simp
    then have pos: "0 < rx_avail ?u" by (simp add: word_gt_0 flip: unat_gt_0)
    from uart_take [OF g(1) pos] Cons have t: "uart_inv ?u'" "uart_queue ?u' = cs" by simp_all
    have a: "unat (rx_avail ?u - 1) = length cs" using l pos by (simp add: unat_minus_1 word_gt_0)
    have "unat (rx_avail ?u) \<le> 64" using g(1) by (simp add: uart_inv_def)
    then have small: "unat (rx_avail ?u - 1) < 64" using a l by simp
    have ne: "rx_avail ?u - 1 \<noteq> 0 \<longleftrightarrow> cs \<noteq> []" using a by (metis length_0_conv unat_eq_0)
    have "sb_read s JTAG_UART_DATA = (?w, ?s\<lparr>sb_uart := ?u'\<rparr>)"
      using r unfolding Cons by (simp add: sb_read_def uart_registers Let_def)
    moreover have "sb_good (?s\<lparr>sb_uart := ?u'\<rparr>)" using t g(2) small by (auto simp: sb_good_def)
    moreover have "waiting_keys (?s\<lparr>sb_uart := ?u'\<rparr>) = map (\<lambda>c. char_of (unat c)) cs" using t by (simp add: waiting_keys_def)
    moreover have "waiting_keys s = char_of (unat c) # map (\<lambda>c. char_of (unat c)) cs" using q Cons by (simp add: waiting_keys_def)
    moreover note data_word_bits [of "rx_avail ?u - 1" True c, OF less_imp_le [OF small]]
    ultimately show ?thesis using f(3) ne by simp
  qed
qed

text \<open>One key of the reference: nothing changes once the line is complete.\<close>

fun type_key :: "nat \<Rightarrow> string \<times> bool \<Rightarrow> char \<Rightarrow> string \<times> bool" where
  "type_key n (t, over) c = (if over then (t, True) else if c = LF then (t, True) else (edit n t c, False))"

definition receiving :: "(sim_board, 'x) console_scheme \<Rightarrow> bool" where
  "receiving s \<longleftrightarrow> sb_good (hw s) \<and> console_inv s \<and> input_buf s \<noteq> None"

lemma irq_input_types:
  assumes "receiving s"
  shows "\<exists>s'. irq_input sim_mmio c s = Inr s' \<and> receiving s' \<and> kept s s' \<and> sb_rest (hw s') = sb_rest (hw s)
    \<and> (content s', input_run s') = type_key (unat (input_max s) - 1) (content s, input_run s) c"
proof (cases "input_run s")
  case True
  then show ?thesis using assms by (simp add: irq_input_def receiving_def kept_def)
next
  case False
  then obtain buf where e: "editing buf s" using assms by (auto simp: editing_def receiving_def)
  obtain h where h: "print_str sim_mmio (echo c s) (hw s) = Inr h" "sb_good h" "shown sb_tty sb_rest (hw s) (echo c s) h"
    using sim.print_str_shown assms unfolding receiving_def by blast
  let ?s = "s\<lparr>hw := h\<rparr>"
  have eh: "editing buf ?s" using e by simp
  note r = edited_refines [OF eh, of c]
  have "irq_input sim_mmio c s = Inr (edited c buf ?s)"
    using False e irq_char_edits [OF e, of sim_mmio c] h(1) by (simp add: irq_input_def editing_def)
  moreover have "receiving (edited c buf ?s)" using r(1,4,5) h(2) by (auto simp: receiving_def)
  moreover have "kept s (edited c buf ?s)" using r(1,3,5) e by (auto simp: kept_def same_buffer_def editing_def)
  moreover have "sb_rest (hw (edited c buf ?s)) = sb_rest (hw s)" using r(4) h(3) by (simp add: shown_def)
  moreover have "(content (edited c buf ?s), input_run (edited c buf ?s))
      = type_key (unat (input_max s) - 1) (content s, input_run s) c"
    using r(2,6) False by simp
  ultimately show ?thesis by blast
qed

lemma sb_rest_eq: "sb_rest h' = sb_rest h \<Longrightarrow> waiting_keys h' = waiting_keys h \<and> sb_words h' = sb_words h"
  by (simp add: sb_rest_def waiting_keys_def)

lemma irq_loop_types:
  "receiving s \<Longrightarrow> waiting_keys (hw s) = ks \<Longrightarrow>
    \<exists>s'. irq_loop sim_mmio s = Some (Inr s') \<and> receiving s' \<and> kept s s' \<and> waiting_keys (hw s') = []
      \<and> sb_words (hw s') = sb_words (hw s)
      \<and> (content s', input_run s') = foldl (type_key (unat (input_max s) - 1)) (content s, input_run s) ks"
proof (induction ks arbitrary: s)
  case Nil
  then have "sb_good (hw s)" by (simp add: receiving_def)
  from sb_read_data [OF this] Nil obtain w h where
    h: "sb_read (hw s) JTAG_UART_DATA = (w, h)" "w AND JTAG_UART_DATA_RVALID = 0" "sb_good h"
      "sb_words h = sb_words (hw s)" "waiting_keys h = []" by auto
  then have "irq_loop sim_mmio s = Some (Inr (s\<lparr>hw := h\<rparr>))" by (subst irq_loop.simps) (simp add: sim_mmio_def)
  then show ?case using Nil h by (auto simp: receiving_def kept_def)
next
  case (Cons c ks)
  then have "sb_good (hw s)" by (simp add: receiving_def)
  from sb_read_data [OF this] Cons.prems(2) obtain w h where
    h: "sb_read (hw s) JTAG_UART_DATA = (w, h)" "w AND JTAG_UART_DATA_RVALID \<noteq> 0" "w AND JTAG_UART_DATA_RAVAIL \<noteq> 0 \<longleftrightarrow> ks \<noteq> []"
      "char_of (unat w) = c" "sb_good h" "sb_words h = sb_words (hw s)" "waiting_keys h = ks" by auto
  let ?s = "s\<lparr>hw := h\<rparr>"
  have "receiving ?s" using Cons.prems(1) h(5) by (simp add: receiving_def)
  from irq_input_types [OF this, of c] obtain s1 where
    s1: "irq_input sim_mmio c ?s = Inr s1" "receiving s1" "kept ?s s1" "sb_rest (hw s1) = sb_rest h"
      "(content s1, input_run s1) = type_key (unat (input_max s) - 1) (content s, input_run s) c" by auto
  have w1: "waiting_keys (hw s1) = ks" "sb_words (hw s1) = sb_words (hw s)" using sb_rest_eq [OF s1(4)] h by simp_all
  have m1: "input_max s1 = input_max s" "kept s s1" using s1(3) by (simp_all add: kept_def same_buffer_def)
  have l: "irq_loop sim_mmio s = (if ks \<noteq> [] then irq_loop sim_mmio s1 else Some (Inr s1))"
    using h(1-4) s1(1) by (subst irq_loop.simps) (simp add: sim_mmio_def)
  show ?case
  proof (cases "ks = []")
    case True
    then show ?thesis using l s1(2,5) m1(2) w1 by simp
  next
    case False
    from Cons.IH [OF s1(2) w1(1)] obtain s' where
      s': "irq_loop sim_mmio s1 = Some (Inr s')" "receiving s'" "kept s1 s'" "waiting_keys (hw s') = []"
        "sb_words (hw s') = sb_words (hw s1)"
        "(content s', input_run s') = foldl (type_key (unat (input_max s) - 1)) (content s1, input_run s1) ks"
      unfolding m1(1) by blast
    have "kept s s'" using m1(2) s'(3) by (auto simp: kept_def intro: same_buffer_trans)
    then show ?thesis using l False s' w1(2) s1(5) by (intro exI [of _ s']) simp
  qed
qed

lemma type_key_done: "foldl (type_key n) (t, True) ks = (t, True)"
  by (induction ks) simp_all

lemma type_line: "LF \<notin> set ks \<Longrightarrow> foldl (type_key n) (t, False) (ks @ LF # later) = (foldl (edit n) t ks, True)"
  by (induction ks arbitrary: t) (auto simp: type_key_done)

lemma type_keys: "LF \<notin> set ks \<Longrightarrow> foldl (type_key n) (t, False) ks = (foldl (edit n) t ks, False)"
  by (induction ks arbitrary: t) auto

section \<open>A session at the terminal\<close>

text \<open>
  What happens while a line is read: a key is pressed, which the UART stores at its next poll of the
  terminal; the interrupt is taken; a core prints.
\<close>

datatype act = Press char | Interrupt | Output u32 string "va list"

definition key_arrives :: "char \<Rightarrow> sim_board \<Rightarrow> sim_board" where
  "key_arrives c s =
     (case uart_tick (of_char c) ((sb_uart s)\<lparr>countdown := 0\<rparr>) of Inl _ \<Rightarrow> s | Inr u \<Rightarrow> s\<lparr>sb_uart := u\<rparr>)"

fun event_of :: "act \<Rightarrow> sim_board event" where
  "event_of (Press c) = Board (key_arrives c)"
| "event_of Interrupt = Irq"
| "event_of (Output cpu fmt args) = Print cpu fmt args"

text \<open>
  The reference: the keys typed so far, and what remains to happen, at the first interrupt that comes
  after a newline was typed.
\<close>

fun session :: "string \<Rightarrow> act list \<Rightarrow> (string \<times> act list) option" where
  "session ks [] = None"
| "session ks (Press c # acts) = session (ks @ [c]) acts"
| "session ks (Output cpu fmt args # acts) = session ks acts"
| "session ks (Interrupt # acts) = (if LF \<in> set ks then Some (ks, acts) else session ks acts)"

text \<open>
  At most 63 keys wait between two interrupts (at 64 the UART stops polling the terminal), and what is
  printed is well-formed.
\<close>

fun acts_ok :: "nat \<Rightarrow> act list \<Rightarrow> bool" where
  "acts_ok k [] = True"
| "acts_ok k (Press c # acts) \<longleftrightarrow> k < 63 \<and> acts_ok (Suc k) acts"
| "acts_ok k (Output cpu fmt args # acts) \<longleftrightarrow> render fmt args \<noteq> None \<and> acts_ok k acts"
| "acts_ok k (Interrupt # acts) \<longleftrightarrow> acts_ok 0 acts"

lemma waiting_length: "length (waiting_keys s) = unat (rx_avail (sb_uart s))"
  by (simp add: waiting_keys_def)

lemma key_arrives_queue:
  assumes "sb_good s" "length (waiting_keys s) < 63"
  shows "sb_good (key_arrives c s)" "waiting_keys (key_arrives c s) = waiting_keys s @ [c]"
    "sb_words (key_arrives c s) = sb_words s"
proof -
  let ?u = "(sb_uart s)\<lparr>countdown := 0\<rparr>" and ?c = "of_char c :: int"
  have u: "uart_inv ?u" "took_over ?u" "rx_avail ?u \<noteq> 64" "uart_queue ?u = uart_queue (sb_uart s)"
    using assms(1) by (auto simp: sb_good_def uart_inv_def uart_queue_def)
  have code: "?c = int (of_char c)" by (rule of_nat_of_char [symmetric])
  then have "?c \<noteq> -1" by linarith
  with uart_tick_law [OF u(1), of ?c] u obtain u' where
    u': "uart_tick ?c ?u = Inr u'" "uart_inv u'" "uart_queue u' = uart_queue (sb_uart s) @ [of_int ?c]" by auto
  have k: "key_arrives c s = s\<lparr>sb_uart := u'\<rparr>" using u'(1) by (simp add: key_arrives_def)
  have "took_over u'" using u'(1) u(2) by (auto simp: uart_tick_def Let_def split: if_splits)
  moreover have "unat (rx_avail u') = Suc (length (waiting_keys s))"
    using arg_cong [OF u'(3), of length] by (simp add: waiting_keys_def)
  then have "rx_avail u' \<noteq> 64" using assms(2) by auto
  ultimately show "sb_good (key_arrives c s)" using u'(2) by (simp add: k sb_good_def)
  have "unat (of_int ?c :: u8) = of_char c"
    using char_code_less [of c] unfolding code by (simp add: unat_of_nat)
  then have "char_of (unat (of_int ?c :: u8)) = c" by simp
  then show "waiting_keys (key_arrives c s) = waiting_keys s @ [c]" by (simp add: k waiting_keys_def u'(3))
  show "sb_words (key_arrives c s) = sb_words s" by (simp add: k)
qed

definition session_result :: "nat \<Rightarrow> (u32 \<Rightarrow> u32) \<Rightarrow> (string \<times> act list) option
    \<Rightarrow> (sim_board event list \<times> (sim_board, 'x) console_scheme) res \<Rightarrow> bool" where
  "session_result n w x r =
     (case x of
        None \<Rightarrow> r = Inl Spins
      | Some (ks, rest) \<Rightarrow> \<exists>s'. r = Inr (map event_of rest, s')
          \<and> receiving s' \<and> input_run s' \<and> content s' = foldl (edit n) [] (takeWhile (\<lambda>c. c \<noteq> LF) ks)
          \<and> waiting_keys (hw s') = [] \<and> sb_words (hw s') = w)"

lemma session_runs:
  "receiving s \<Longrightarrow> \<not> input_run s \<Longrightarrow> LF \<notin> set old \<Longrightarrow> content s = foldl (edit (unat (input_max s) - 1)) [] old \<Longrightarrow>
     acts_ok (length (waiting_keys (hw s))) acts \<Longrightarrow>
     session_result (unat (input_max s) - 1) (sb_words (hw s)) (session (old @ waiting_keys (hw s)) acts)
       (wait_input sim_mmio (map event_of acts) s)"
proof (induction acts arbitrary: s old)
  case (Cons act acts)
  have g: "sb_good (hw s)" "console_inv s" using Cons.prems(1) by (simp_all add: receiving_def)
  show ?case
  proof (cases act)
    case (Press c)
    let ?s = "s\<lparr>hw := key_arrives c (hw s)\<rparr>"
    have "length (waiting_keys (hw s)) < 63" using Cons.prems(5) Press by simp
    note k = key_arrives_queue [OF g(1) this, of c]
    have "receiving ?s" using Cons.prems(1) k(1) by (simp add: receiving_def)
    from Cons.IH [OF this, of old] Cons.prems k Press show ?thesis by simp
  next
    case (Output cpu fmt args)
    then obtain t where "render fmt args = Some t" using Cons.prems(5) by auto
    from print_reaches_board [OF g(1) this g(2), of cpu] obtain h where
      h: "print sim_mmio cpu fmt args s = Inr (s\<lparr>hw := h\<rparr>)" "sb_good h" "sb_words h = sb_words (hw s)"
        "waiting_keys h = waiting_keys (hw s)" by (auto simp: waiting_keys_def)
    have "receiving (s\<lparr>hw := h\<rparr>)" using Cons.prems(1) h(2) by (simp add: receiving_def)
    from Cons.IH [OF this, of old] Cons.prems h Output show ?thesis by simp
  next
    case Interrupt
    from irq_loop_types [OF Cons.prems(1) refl] obtain s1 where
      s1: "irq sim_mmio s = Inr s1" "receiving s1" "kept s s1" "waiting_keys (hw s1) = []" "sb_words (hw s1) = sb_words (hw s)"
        "(content s1, input_run s1) = foldl (type_key (unat (input_max s) - 1)) (content s, False) (waiting_keys (hw s))"
      using Cons.prems(2) by (auto simp: irq_def)
    have m: "input_max s1 = input_max s" using s1(3) by (simp add: kept_def same_buffer_def)
    show ?thesis
    proof (cases "LF \<in> set (waiting_keys (hw s))")
      case True
      then obtain ks later where ks: "waiting_keys (hw s) = ks @ LF # later" "LF \<notin> set ks"
        by (meson split_list_first)
      have "takeWhile (\<lambda>c. c \<noteq> LF) (old @ waiting_keys (hw s)) = old @ ks"
      proof -
        have "\<And>c. c \<in> set (old @ ks) \<Longrightarrow> c \<noteq> LF" using ks(2) Cons.prems(3) by auto
        then have "takeWhile (\<lambda>c. c \<noteq> LF) ((old @ ks) @ LF # later) = (old @ ks) @ takeWhile (\<lambda>c. c \<noteq> LF) (LF # later)"
          by (rule takeWhile_append2)
        then show ?thesis by (simp add: ks(1))
      qed
      moreover have "content s1 = foldl (edit (unat (input_max s) - 1)) (content s) ks" "input_run s1"
        using s1(6) type_line [OF ks(2), of "unat (input_max s) - 1" "content s" later] ks(1) by simp_all
      moreover have "wait_input sim_mmio env s1 = Inr (env, s1)" for env using \<open>input_run s1\<close> by (cases env) simp_all
      ultimately show ?thesis
        using True Interrupt s1(1,2,4,5) Cons.prems(2,4) by (simp add: session_result_def)
    next
      case False
      have c: "content s1 = foldl (edit (unat (input_max s) - 1)) (content s) (waiting_keys (hw s))" "\<not> input_run s1"
        using s1(6) type_keys [OF False, of "unat (input_max s) - 1" "content s"] by simp_all
      have "content s1 = foldl (edit (unat (input_max s1) - 1)) [] (old @ waiting_keys (hw s))"
        using c(1) Cons.prems(4) by (simp add: m)
      from Cons.IH [OF s1(2) c(2) _ this] False Cons.prems Interrupt s1(1,4,5) show ?thesis
        by (simp add: m)
    qed
  qed
qed (simp add: session_result_def)

text \<open>
  C14. The interrupt handler and \<open>read_line\<close> together are a line editor, however the keys, the
  interrupts and the output of the cores interleave: \<open>read_line\<close> returns at the first interrupt
  after a newline has been typed, and the line in the buffer is what the reference editor makes of the
  keys typed before that newline, from those that were waiting when it was called on (DEL removes a
  character, unprintable ones and those beyond the size are dropped); it does not depend on where the
  interrupts and the output come. The console is idle again, keys after the newline are dropped, and
  no memory word changes. With no such interrupt in the schedule it keeps waiting.
\<close>

theorem read_line_returns_edited_line:
  assumes "sb_good (hw s)" "idle s" "sz \<noteq> 0" "unat sz \<le> length buf" "acts_ok (length (waiting_keys (hw s))) acts"
  shows "case session (waiting_keys (hw s)) acts of
      None \<Rightarrow> read_line sim_mmio buf sz (map event_of acts) s = Inl Spins
    | Some (ks, rest) \<Rightarrow> \<exists>line s'. read_line sim_mmio buf sz (map event_of acts) s = Inr (line, map event_of rest, s')
        \<and> c_string line = foldl (edit (unat sz - 1)) [] (takeWhile (\<lambda>c. c \<noteq> LF) ks)
        \<and> idle s' \<and> sb_good (hw s') \<and> waiting_keys (hw s') = [] \<and> sb_words (hw s') = sb_words (hw s)"
proof -
  have pos: "0 < unat sz" using assms(3) by (simp add: unat_gt_0)
  let ?buf = "buf[0 := NUL]"
  let ?s = "s\<lparr>input_buf := Some ?buf, input_max := sz, input_len := 0\<rparr>"
  have t: "text_at ?buf 0" using pos assms(4) by (cases buf) (simp_all add: text_at_def)
  then have i: "console_inv ?s" "\<not> input_run ?s" using assms(2,4) pos by (simp_all add: idle_def console_inv_def)
  have c: "content ?s = foldl (edit (unat (input_max ?s) - 1)) [] []" using text_at_string [OF t] by (simp add: content_def)
  have r: "receiving ?s" using assms(1) i by (simp add: receiving_def)
  have b: "read_line sim_mmio buf sz (map event_of acts) s = bind_res (wait_input sim_mmio (map event_of acts) ?s)
      (\<lambda>(env, s). let (buf, s) = read_line_end buf s in Inr (buf, env, s))"
    using assms(3,4) pos by (cases "buf = []") (simp_all add: read_line_def read_line_begin_def put_byte_def del: wait_input.simps)
  have w: "acts_ok (length (waiting_keys (hw ?s))) acts" using assms(5) by simp
  have run: "session_result (unat sz - 1) (sb_words (hw s)) (session (waiting_keys (hw s)) acts)
      (wait_input sim_mmio (map event_of acts) ?s)"
    using session_runs [OF r i(2) _ c w] by (simp del: wait_input.simps)
  show ?thesis
  proof (cases "session (waiting_keys (hw s)) acts")
    case None
    then show ?thesis using run by (simp add: b session_result_def del: wait_input.simps)
  next
    case (Some x)
    obtain ks rest where x: "x = (ks, rest)" by (cases x)
    with Some run obtain s1 where
      s1: "wait_input sim_mmio (map event_of acts) ?s = Inr (map event_of rest, s1)" "receiving s1"
        "content s1 = foldl (edit (unat sz - 1)) [] (takeWhile (\<lambda>c. c \<noteq> LF) ks)"
        "waiting_keys (hw s1) = []" "sb_words (hw s1) = sb_words (hw s)" by (auto simp: session_result_def)
    obtain line where line: "input_buf s1 = Some line" using s1(2) by (auto simp: receiving_def)
    have "read_line sim_mmio buf sz (map event_of acts) s = Inr (line, map event_of rest, snd (read_line_end buf s1))"
      using s1(1) line by (simp add: b read_line_end_def del: wait_input.simps)
    then show ?thesis
      using s1(2-5) line Some x by (auto simp: content_def read_line_end_def idle_def receiving_def)
  qed
qed

section \<open>Witnesses\<close>

definition example_board :: "string \<Rightarrow> sim_board" where
  "example_board ks =
     \<lparr>sb_uart = \<lparr>ua_slave = \<lparr>sl_base = JTAG_UART_BASE, sl_mask = NOT 7, sl_word = 2\<rparr>, countdown = 0,
        rx_avail = of_nat (length ks), rx_next = 0, ctrl_re = True, ctrl_we = False, ctrl_ac = True,
        took_over = True, rx = (\<lambda>i. of_nat (of_char (ks ! i))), tty_out = [], endwins = 0\<rparr>,
      sb_words = (\<lambda>_. 0)\<rparr>"

definition example_console :: "string \<Rightarrow> sim_board console" where
  "example_console ks =
     \<lparr>hw = example_board ks, input_run = False, input_len = 0, input_max = 0, input_buf = None\<rparr>"

lemma example_good:
  assumes "length ks < 64"
  shows "sb_good (example_board ks)" "waiting_keys (example_board ks) = ks"
proof -
  have "length ks < 2 ^ LENGTH(32)" using assms by simp
  then have n: "unat (of_nat (length ks) :: u32) = length ks" by (simp only: unat_of_nat mod_less)
  then have "(of_nat (length ks) :: u32) \<noteq> 64" using assms by auto
  then show "sb_good (example_board ks)" using n assms by (simp add: sb_good_def example_board_def uart_inv_def)
  have u: "char_of (unat (of_nat (of_char c) :: u8)) = c" for c
  proof -
    have "unat (of_nat (of_char c) :: u8) = of_char c" using char_code_less [of c] by (simp add: unat_of_nat)
    then show ?thesis by simp
  qed
  have "map (\<lambda>i. char_of (unat (rx (sb_uart (example_board ks)) ((unat (rx_next (sb_uart (example_board ks))) + i) mod 64))))
      [0..<length ks] = map (\<lambda>i. ks ! i) [0..<length ks]"
    using assms by (intro map_cong) (simp_all add: example_board_def u)
  then show "waiting_keys (example_board ks) = ks"
    unfolding waiting_keys_def uart_queue_def by (simp add: example_board_def n map_nth comp_def)
qed

lemma print_reaches_terminal_witness:
  "\<exists>h. print sim_mmio 2 ''run cpu%u'' [Va_Int 3] (example_console []) = Inr (example_console []\<lparr>hw := h\<rparr>) \<and> sb_good h
    \<and> sb_tty h = sb_tty (hw (example_console [])) @ print_text 2 (''run cpu'' @ decimal 3) (example_console [])
    \<and> sb_words h = sb_words (hw (example_console []))
    \<and> uart_queue (sb_uart h) = uart_queue (sb_uart (hw (example_console [])))"
proof (rule print_reaches_terminal)
  show "sb_good (hw (example_console []))" using example_good(1) [of "[]"] by (simp add: example_console_def)
  show "render ''run cpu%u'' [Va_Int 3] = Some (''run cpu'' @ decimal 3)" by (simp add: arg_text_def)
  show "console_inv (example_console [])" by (simp add: console_inv_def example_console_def)
qed

text \<open>Each key with its own interrupt, a core that prints in the middle of the line, and a DEL.\<close>

definition typed :: "string \<Rightarrow> act list" where
  "typed ks = concat (map (\<lambda>c. [Press c, Interrupt]) ks)"

lemma typed_simps [simp]: "typed [] = []" "typed (c # ks) = Press c # Interrupt # typed ks"
  by (simp_all add: typed_def)

lemma read_line_returns_edited_line_witness:
  "\<exists>line s'. read_line sim_mmio (replicate 64 NUL) 64
        (map event_of (typed ''um'' @ Output 2 ''run cpu%u'' [Va_Int 3] # typed (DEL # ''n'') @ [Press LF, Press CHR ''x'', Interrupt, Interrupt]))
        (example_console ''r'')
      = Inr (line, map event_of [Interrupt], s')
    \<and> c_string line = ''run'' \<and> idle s' \<and> sb_good (hw s') \<and> waiting_keys (hw s') = []
    \<and> sb_words (hw s') = sb_words (hw (example_console ''r''))"
proof -
  let ?acts = "typed ''um'' @ Output 2 ''run cpu%u'' [Va_Int 3] # typed (DEL # ''n'') @ [Press LF, Press CHR ''x'', Interrupt, Interrupt]"
  note g = example_good [of "''r''"]
  have s: "sb_good (hw (example_console ''r''))" "idle (example_console ''r'')" "(64 :: u32) \<noteq> 0"
    "unat (64 :: u32) \<le> length (replicate 64 NUL)" "waiting_keys (hw (example_console ''r'')) = ''r''"
    using g by (simp_all add: example_console_def idle_def)
  have ok: "acts_ok (length (waiting_keys (hw (example_console ''r'')))) ?acts"
    unfolding s(5) by (simp add: arg_text_def)
  have l: "session ''r'' ?acts = Some (''rum'' @ [DEL] @ ''n'' @ [LF, CHR ''x''], [Interrupt])"
    by (simp add: LF_def DEL_def)
  have e: "foldl (edit (unat (64 :: u32) - 1)) [] (takeWhile (\<lambda>c. c \<noteq> LF) (''rum'' @ [DEL] @ ''n'' @ [LF, CHR ''x''])) = ''run''"
    by (simp add: LF_def DEL_def edit_def printable_def less_eq_char_def)
  from read_line_returns_edited_line [OF s(1-4) ok] show ?thesis
    unfolding s(5) l option.case prod.case e by blast
qed

lemma read_line_is_memory_safe_witness:
  "case read_line sim_mmio (replicate 64 NUL) 64 [Print 1 ''%p'' [Va_Int 7], Irq] (example_console [LF]) of
      Inl e \<Rightarrow> e = Spins
    | Inr (line, env', s') \<Rightarrow> length line = length (replicate 64 NUL) \<and> terminated_in 64 line \<and> idle s'"
  by (rule read_line_is_memory_safe) (simp_all add: idle_def example_console_def arg_text_def)

end
