(* ===== verification/Demo_Util.thy ===== *)
theory Demo_Util
  imports Demo_Terminal Float16_Props
begin

text \<open>
  The tokens and operands of the demo shell (\<open>demo/util.c\<close>). \<open>char **tokens\<close> is the text not yet
  read; \<open>strtok_input\<close> returns the next token and the rest. A parser returns \<open>None\<close> for -1, after
  the message it has printed, or the value it stores; \<open>me\<close> is the number of the core, which
  every \<open>print\<close> shows. A character at or after the terminator of a token is \<open>NUL\<close>.
\<close>

section \<open>Definitions\<close>

definition NUM_CPUS :: nat where "NUM_CPUS = 4"

definition char_at :: "string \<Rightarrow> nat \<Rightarrow> char" where
  "char_at t i = (if i < length t then t ! i else NUL)"

definition bad_input :: "'s mmio \<Rightarrow> u32 \<Rightarrow> ('s, 'x) console_scheme \<Rightarrow> ('s, 'x) console_scheme res" where
  "bad_input b me s = print b me ''bad input'' [] s"

definition unexpected_eof :: "'s mmio \<Rightarrow> u32 \<Rightarrow> ('s, 'x) console_scheme \<Rightarrow> ('s, 'x) console_scheme res" where
  "unexpected_eof b me s = print b me ''unexpected end-of-input'' [] s"

text \<open>A message and the result -1.\<close>

definition failing :: "('s, 'x) console_scheme res \<Rightarrow> string \<Rightarrow> ('a option \<times> string \<times> ('s, 'x) console_scheme) res" where
  "failing m tokens = bind_res m (\<lambda>s. Inr (None, tokens, s))"

definition parse_cpu_token :: "'s mmio \<Rightarrow> u32 \<Rightarrow> string \<Rightarrow> string \<Rightarrow> ('s, 'x) console_scheme
    \<Rightarrow> (u32 option \<times> string \<times> ('s, 'x) console_scheme) res" where
  "parse_cpu_token b me token tokens s =
     (if char_at token 0 \<noteq> CHR ''c'' \<or> char_at token 1 \<noteq> CHR ''p'' \<or> char_at token 2 \<noteq> CHR ''u''
        \<or> \<not> (48 \<le> (of_char (char_at token 3) :: nat) \<and> of_char (char_at token 3) < 48 + NUM_CPUS) \<or> char_at token 4 \<noteq> NUL
      then failing (bad_input b me s) tokens
      else Inr (Some (of_nat (of_char (char_at token 3) - 48)), tokens, s))"

fun strcmp :: "string \<Rightarrow> string \<Rightarrow> int" where
  "strcmp [] [] = 0"
| "strcmp (c # cs) [] = of_char c"
| "strcmp [] (d # ds) = - of_char d"
| "strcmp (c # cs) (d # ds) = (if c = d then strcmp cs ds else of_char c - of_char d)"

definition strtok_input :: "string \<Rightarrow> string option \<times> string" where
  "strtok_input tokens =
     (let start = dropWhile (\<lambda>c. c = CHR '' '') tokens in
      if start = [] then (None, start)
      else let stop = dropWhile (\<lambda>c. c \<noteq> CHR '' '') (tl start);
               token = take (length start - length stop) start
        in (Some token, if stop \<noteq> [] then tl stop else stop))"

definition parse_cpu :: "'s mmio \<Rightarrow> u32 \<Rightarrow> string \<Rightarrow> ('s, 'x) console_scheme
    \<Rightarrow> (u32 option \<times> string \<times> ('s, 'x) console_scheme) res" where
  "parse_cpu b me tokens s =
     (case strtok_input tokens of
        (None, tokens) \<Rightarrow> failing (unexpected_eof b me s) tokens
      | (Some token, tokens) \<Rightarrow> parse_cpu_token b me token tokens s)"

definition parse_lane :: "'s mmio \<Rightarrow> u32 \<Rightarrow> string \<Rightarrow> ('s, 'x) console_scheme
    \<Rightarrow> (u32 option \<times> string \<times> ('s, 'x) console_scheme) res" where
  "parse_lane b me tokens s =
     (case strtok_input tokens of
        (None, tokens) \<Rightarrow> failing (unexpected_eof b me s) tokens
      | (Some token, tokens) \<Rightarrow>
          if char_at token 0 \<noteq> CHR ''l'' \<or> char_at token 1 \<noteq> CHR ''a'' \<or> char_at token 2 \<noteq> CHR ''n''
            \<or> char_at token 3 \<noteq> CHR ''e''
            \<or> \<not> (48 \<le> (of_char (char_at token 4) :: nat) \<and> of_char (char_at token 4) \<le> (51 :: nat)) \<or> char_at token 5 \<noteq> NUL
          then failing (bad_input b me s) tokens
          else Inr (Some (of_nat (of_char (char_at token 4) - 48)), tokens, s))"

lemma strtok_shorter: "strtok_input tokens = (Some token, rest) \<Longrightarrow> length rest < length tokens"
proof -
  let ?start = "dropWhile (\<lambda>c. c = CHR '' '') tokens"
  let ?stop = "dropWhile (\<lambda>c. c \<noteq> CHR '' '') (tl ?start)"
  assume "strtok_input tokens = (Some token, rest)"
  then have "?start \<noteq> []" "rest = (if ?stop \<noteq> [] then tl ?stop else ?stop)"
    by (auto simp: strtok_input_def Let_def split: if_splits)
  moreover have "length ?stop \<le> length (tl ?start)" "length ?start \<le> length tokens" by (rule length_dropWhile_le)+
  ultimately show ?thesis by (cases ?start) auto
qed

text \<open>The loop of \<open>parse_cpu_mask\<close>.\<close>

function cpu_mask_loop :: "'s mmio \<Rightarrow> u32 \<Rightarrow> string \<Rightarrow> u32 \<Rightarrow> ('s, 'x) console_scheme
    \<Rightarrow> (u32 option \<times> string \<times> ('s, 'x) console_scheme) res" where
  "cpu_mask_loop b me tokens msk s =
     (case strtok_input tokens of
        (None, tokens) \<Rightarrow> Inr (Some msk, tokens, s)
      | (Some token, rest) \<Rightarrow> bind_res (parse_cpu_token b me token rest s) (\<lambda>(cpu, _, s).
          case cpu of
            None \<Rightarrow> Inr (None, rest, s)
          | Some cpu \<Rightarrow> cpu_mask_loop b me rest (msk OR push_bit (unat cpu) 1) s))"
  by pat_completeness auto
termination
  by (relation "measure (\<lambda>(b, me, tokens, msk, s). length tokens)") (auto dest: strtok_shorter [OF sym])

declare cpu_mask_loop.simps [simp del]

definition parse_cpu_mask :: "'s mmio \<Rightarrow> u32 \<Rightarrow> string \<Rightarrow> ('s, 'x) console_scheme
    \<Rightarrow> (u32 option \<times> string \<times> ('s, 'x) console_scheme) res" where
  "parse_cpu_mask b me tokens s =
     bind_res (cpu_mask_loop b me tokens 0 s) (\<lambda>(msk, tokens, s).
       case msk of
         None \<Rightarrow> Inr (None, tokens, s)
       | Some msk \<Rightarrow>
           if msk = 0 then failing (print b me ''must specify at least one cpu'' [] s) tokens
           else Inr (Some msk, tokens, s))"

fun hex_loop :: "string \<Rightarrow> u32 \<Rightarrow> u32 \<Rightarrow> u32 \<times> u32" where
  "hex_loop [] val nibs = (val, nibs)"
| "hex_loop (c # cs) val nibs =
     (let n = of_char c :: nat; val = push_bit 4 val;
          val = (if 48 \<le> n \<and> n \<le> 57 then val OR of_nat (n - 48)
                 else if 97 \<le> n \<and> n \<le> 102 then val OR of_nat (n - 97 + 10)
                 else if 65 \<le> n \<and> n \<le> 70 then val OR of_nat (n - 65 + 10)
                 else val)
      in hex_loop cs val (nibs + 1))"

definition parse_hex :: "'s mmio \<Rightarrow> u32 \<Rightarrow> string \<Rightarrow> ('s, 'x) console_scheme
    \<Rightarrow> (u32 option \<times> string \<times> ('s, 'x) console_scheme) res" where
  "parse_hex b me tokens s =
     (case strtok_input tokens of
        (None, tokens) \<Rightarrow> failing (unexpected_eof b me s) tokens
      | (Some token, tokens) \<Rightarrow>
          if char_at token 0 \<noteq> CHR ''0'' \<or> char_at token 1 \<noteq> CHR ''x'' then failing (bad_input b me s) tokens
          else let (val, nibs) = hex_loop (drop 2 token) 0 0 in
            if nibs = 0 \<or> 8 < nibs then failing (bad_input b me s) tokens
            else Inr (Some val, tokens, s))"

text \<open>An \<open>int32_t\<close> result; overflow is undefined behaviour.\<close>

definition int32_result :: "int \<Rightarrow> int res" where
  "int32_result n = (if - (2 ^ 31) \<le> n \<and> n < 2 ^ 31 then Inr n else Inl Overflow)"

text \<open>
  The \<open>do\<close> loop of \<open>parse_fp16\<close> on the characters from \<open>token\<close> on: numerator and denominator, or
  \<open>None\<close> after which the function prints its message and fails.
\<close>

fun fp_loop :: "string \<Rightarrow> bool \<Rightarrow> int \<Rightarrow> int \<Rightarrow> (int \<times> int) option res" where
  "fp_loop [] in_denom num denom = Inr None"
| "fp_loop (c # cs) in_denom num denom =
     (if c = CHR ''.'' then
        if in_denom then Inr None
        else if cs \<noteq> [] then fp_loop cs True num denom else Inr (Some (num, denom))
      else if \<not> (48 \<le> (of_char c :: nat) \<and> of_char c \<le> (57 :: nat)) then Inr None
      else bind_res (int32_result (num * 10)) (\<lambda>num. bind_res (int32_result (num + (of_char c - 48))) (\<lambda>num.
        bind_res (if in_denom then int32_result (denom * 10) else Inr denom) (\<lambda>denom.
        if cs \<noteq> [] then fp_loop cs in_denom num denom else Inr (Some (num, denom))))))"

definition parse_fp16 :: "'s mmio \<Rightarrow> u32 \<Rightarrow> string \<Rightarrow> ('s, 'x) console_scheme
    \<Rightarrow> (u16 option \<times> string \<times> ('s, 'x) console_scheme) res" where
  "parse_fp16 b me tokens s =
     (case strtok_input tokens of
        (None, tokens) \<Rightarrow> failing (unexpected_eof b me s) tokens
      | (Some token, tokens) \<Rightarrow>
          let neg = char_at token 0 = CHR ''-''; token = (if neg then drop 1 token else token) in
          bind_res (fp_loop token False 0 1) (\<lambda>r.
          case r of
            None \<Rightarrow> failing (bad_input b me s) tokens
          | Some (num, denom) \<Rightarrow>
              bind_res (f16_from_int (of_int num)) (\<lambda>n. bind_res (f16_from_int (of_int denom)) (\<lambda>d.
              let fp = f16_div n d in Inr (Some (if neg then f16_neg fp else fp), tokens, s)))))"

definition parse_ptr :: "'s mmio \<Rightarrow> u32 \<Rightarrow> string \<Rightarrow> ('s, 'x) console_scheme
    \<Rightarrow> (u32 option \<times> string \<times> ('s, 'x) console_scheme) res" where
  "parse_ptr b me tokens s = parse_hex b me tokens s"

definition parse_aligned :: "'s mmio \<Rightarrow> u32 \<Rightarrow> string \<Rightarrow> ('s, 'x) console_scheme
    \<Rightarrow> (u32 option \<times> string \<times> ('s, 'x) console_scheme) res" where
  "parse_aligned b me tokens s =
     bind_res (parse_ptr b me tokens s) (\<lambda>(ptr, tokens, s).
       case ptr of
         None \<Rightarrow> Inr (None, tokens, s)
       | Some ptr \<Rightarrow>
           if ptr AND 0b11 \<noteq> 0 then failing (print b me ''unaligned address: %p'' [Va_Int ptr] s) tokens
           else Inr (Some ptr, tokens, s))"

definition expect_end :: "'s mmio \<Rightarrow> u32 \<Rightarrow> string \<Rightarrow> ('s, 'x) console_scheme
    \<Rightarrow> (unit option \<times> string \<times> ('s, 'x) console_scheme) res" where
  "expect_end b me tokens s =
     (case strtok_input tokens of
        (None, tokens) \<Rightarrow> Inr (Some (), tokens, s)
      | (Some token, tokens) \<Rightarrow>
          failing (print b me (''too many arguments starting from '' @ [CHR 0x27] @ ''%s'' @ [CHR 0x27]) [Va_Str token] s) tokens)"

section \<open>Tokens\<close>

lemma strtok_input_eq:
  "strtok_input tokens =
     (let start = dropWhile (\<lambda>c. c = CHR '' '') tokens in
      if start = [] then (None, [])
      else (Some (takeWhile (\<lambda>c. c \<noteq> CHR '' '') start), drop 1 (dropWhile (\<lambda>c. c \<noteq> CHR '' '') start)))"
proof (cases "dropWhile (\<lambda>c. c = CHR '' '') tokens")
  case (Cons c cs)
  let ?P = "\<lambda>c. c \<noteq> CHR '' ''"
  have c: "?P c" using hd_dropWhile [of "\<lambda>c. c = CHR '' ''" tokens] Cons by simp
  have "length (c # cs) = length (takeWhile ?P (c # cs)) + length (dropWhile ?P (c # cs))"
    by (metis length_append takeWhile_dropWhile_id)
  then have l: "length (c # cs) - length (dropWhile ?P (c # cs)) = length (takeWhile ?P (c # cs))" by arith
  have tk: "take (length (c # cs) - length (dropWhile ?P (c # cs))) (c # cs) = takeWhile ?P (c # cs)"
    unfolding l by (rule takeWhile_eq_take [symmetric])
  have dw: "dropWhile ?P (tl (c # cs)) = dropWhile ?P (c # cs)" using c by simp
  have tl: "(if xs \<noteq> [] then tl xs else xs) = drop 1 xs" for xs :: string by (cases xs) simp_all
  show ?thesis
    unfolding strtok_input_def Cons Let_def by (simp only: dw tk tl) simp
qed (simp add: strtok_input_def)

text \<open>Calling \<open>strtok_input\<close> until it returns a null pointer.\<close>

function all_tokens :: "string \<Rightarrow> string list" where
  "all_tokens tokens =
     (case strtok_input tokens of
        (None, _) \<Rightarrow> []
      | (Some token, rest) \<Rightarrow> token # all_tokens rest)"
  by pat_completeness auto
termination
  by (relation "measure length") (auto dest: strtok_shorter [OF sym])

declare all_tokens.simps [simp del]

text \<open>The fields between single spaces, and those that are not empty.\<close>

fun fields :: "string \<Rightarrow> string list" where
  "fields [] = [[]]"
| "fields (c # cs) =
     (if c = CHR '' '' then [] # fields cs
      else case fields cs of [] \<Rightarrow> [[c]] | f # fs \<Rightarrow> (c # f) # fs)"

definition words_of :: "string \<Rightarrow> string list" where
  "words_of t = filter (\<lambda>w. w \<noteq> []) (fields t)"

lemma fields_first:
  "fields t = takeWhile (\<lambda>c. c \<noteq> CHR '' '') t # (case dropWhile (\<lambda>c. c \<noteq> CHR '' '') t of [] \<Rightarrow> [] | c # r \<Rightarrow> fields r)"
  by (induction t) simp_all

lemma words_of_blanks: "words_of (dropWhile (\<lambda>c. c = CHR '' '') t) = words_of t"
  by (induction t) (simp_all add: words_of_def)

lemma words_of_first:
  assumes "t \<noteq> []" "hd t \<noteq> CHR '' ''"
  shows "words_of t = takeWhile (\<lambda>c. c \<noteq> CHR '' '') t # words_of (drop 1 (dropWhile (\<lambda>c. c \<noteq> CHR '' '') t))"
proof -
  have "takeWhile (\<lambda>c. c \<noteq> CHR '' '') t \<noteq> []" using assms by (cases t) simp_all
  then have "words_of t = takeWhile (\<lambda>c. c \<noteq> CHR '' '') t
      # filter (\<lambda>w. w \<noteq> []) (case dropWhile (\<lambda>c. c \<noteq> CHR '' '') t of [] \<Rightarrow> [] | c # r \<Rightarrow> fields r)"
    unfolding words_of_def fields_first [of t] by (simp only: filter.simps if_True not_False_eq_True)
  moreover have "filter (\<lambda>w. w \<noteq> []) (case d of [] \<Rightarrow> [] | c # r \<Rightarrow> fields r) = words_of (drop 1 d)" for d
    by (cases d) (simp_all add: words_of_def)
  ultimately show ?thesis by simp
qed

text \<open>
  The tokens that successive calls of \<open>strtok_input\<close> return are exactly the non-empty fields
  between spaces, in order, for every text.
\<close>

theorem tokens_are_words: "all_tokens t = words_of t"
proof (induction t rule: measure_induct_rule [of length])
  case (less t)
  let ?start = "dropWhile (\<lambda>c. c = CHR '' '') t"
  show ?case
  proof (cases "?start = []")
    case True
    have "words_of t = words_of []" using words_of_blanks [of t] unfolding True by (rule sym)
    then have "words_of t = []" by (simp add: words_of_def)
    moreover have "strtok_input t = (None, [])" using True by (simp add: strtok_input_eq)
    ultimately show ?thesis by (simp add: all_tokens.simps [of t])
  next
    case False
    let ?token = "takeWhile (\<lambda>c. c \<noteq> CHR '' '') ?start" and ?rest = "drop 1 (dropWhile (\<lambda>c. c \<noteq> CHR '' '') ?start)"
    have s: "strtok_input t = (Some ?token, ?rest)" using False by (simp add: strtok_input_eq Let_def)
    have "hd ?start \<noteq> CHR '' ''" using False by (rule hd_dropWhile)
    with False have "words_of ?start = ?token # words_of ?rest" by (rule words_of_first)
    moreover have "all_tokens ?rest = words_of ?rest" using strtok_shorter [OF s] by (rule less)
    ultimately show ?thesis
      unfolding words_of_blanks by (simp only: all_tokens.simps [of t] s prod.case option.case)
  qed
qed

lemma token_before_space:
  assumes "CHR '' '' \<notin> set w" "w \<noteq> []"
  shows "strtok_input (w @ CHR '' '' # rest) = (Some w, rest)" "strtok_input w = (Some w, [])"
proof -
  have n: "\<And>c. c \<in> set w \<Longrightarrow> c \<noteq> CHR '' ''" using assms(1) by auto
  have e: "takeWhile (\<lambda>c. c \<noteq> CHR '' '') w = w" "dropWhile (\<lambda>c. c \<noteq> CHR '' '') w = []"
    "dropWhile (\<lambda>c. c = CHR '' '') w = w" "dropWhile (\<lambda>c. c = CHR '' '') (w @ CHR '' '' # rest) = w @ CHR '' '' # rest"
    "takeWhile (\<lambda>c. c \<noteq> CHR '' '') (w @ CHR '' '' # rest) = w"
    "dropWhile (\<lambda>c. c \<noteq> CHR '' '') (w @ CHR '' '' # rest) = CHR '' '' # rest"
    using n assms by (cases w; auto simp: takeWhile_eq_all_conv takeWhile_append2 dropWhile_append2)+
  show "strtok_input w = (Some w, [])"
    by (simp only: strtok_input_eq Let_def e drop_Nil assms(2) if_False)
  show "strtok_input (w @ CHR '' '' # rest) = (Some w, rest)"
    by (simp add: strtok_input_eq Let_def e)
qed

lemma strcmp_equal: "NUL \<notin> set s \<Longrightarrow> NUL \<notin> set t \<Longrightarrow> strcmp s t = 0 \<longleftrightarrow> s = t"
proof (induction s t rule: strcmp.induct)
  case (2 c cs)
  then show ?case using of_char_eq_iff [of c NUL] by (auto simp: NUL_def)
next
  case (3 d ds)
  then show ?case using of_char_eq_iff [of d NUL] by (auto simp: NUL_def)
qed auto

section \<open>Hexadecimal operands\<close>

lemma push_or: "unat d < 16 \<Longrightarrow> unat v < 16 ^ 7 \<Longrightarrow> unat (push_bit 4 v OR d) = unat v * 16 + unat d" for v d :: u32
proof -
  assume d: "unat d < 16" and v: "unat v < 16 ^ 7"
  have z: "push_bit 4 v AND d = 0"
  proof (rule bit_word_eqI)
    fix n assume "n < LENGTH(32)"
    have "\<not> bit d n" if "4 \<le> n" using bit_below [of d 4 n] d that by auto
    then show "bit (push_bit 4 v AND d) n \<longleftrightarrow> bit 0 n" by (auto simp: bit_simps)
  qed
  have "unat v * 16 + 15 < 2 ^ LENGTH(32)" using v by simp
  have "unat v * 2 ^ 4 < 2 ^ LENGTH(32)" using v by simp
  moreover have "unat (push_bit 4 v) = take_bit LENGTH(32) (push_bit 4 (unat v))" by (rule unsigned_push_bit_eq)
  ultimately have p: "unat (push_bit 4 v) = unat v * 16"
    by (simp only: take_bit_eq_mod push_bit_eq_mult mod_less) simp
  have "unat (push_bit 4 v OR d) = unat (push_bit 4 v + d)"
    using z by (simp add: disjunctive_add_eq_or)
  also have "\<dots> = unat v * 16 + unat d"
    using p d \<open>unat v * 16 + 15 < 2 ^ LENGTH(32)\<close> by (simp add: unat_word_ariths)
  finally show ?thesis .
qed

lemma hex_loop_Cons:
  "hex_loop (c # cs) val nibs = hex_loop cs
     (case digit_value c of None \<Rightarrow> push_bit 4 val | Some d \<Rightarrow> push_bit 4 val OR of_nat d) (nibs + 1)"
  by (simp only: hex_loop.simps digit_value_def Let_def if_distrib [of "\<lambda>r. case r of None \<Rightarrow> _ | Some d \<Rightarrow> _ d"]
      option.case)

lemma hex_step: "d < 16 \<Longrightarrow> hex_loop (hex_digit d # cs) val nibs = hex_loop cs (push_bit 4 val OR of_nat d) (nibs + 1)"
  by (simp only: hex_loop_Cons hex_digit_value option.case)

lemma hex_loop_digits:
  "k \<le> 8 \<Longrightarrow> unat val < 16 ^ (8 - k) \<Longrightarrow>
    \<exists>w. hex_loop (hex_digits k v) val nibs = (w, nibs + of_nat k) \<and> unat w = unat val * 16 ^ k + v mod 16 ^ k"
proof (induction k arbitrary: val nibs)
  case 0
  then show ?case by simp
next
  case (Suc k)
  let ?d = "v div 16 ^ k mod 16"
  let ?val = "push_bit 4 val OR of_nat ?d :: u32"
  have d: "unat (of_nat ?d :: u32) = ?d" by (simp add: unat_of_nat)
  have "(16 :: nat) ^ (8 - Suc k) \<le> 16 ^ 7" by (intro power_increasing) auto
  then have v: "unat ?val = unat val * 16 + ?d" using Suc.prems(2) push_or [of "of_nat ?d" val] d by simp
  have "16 ^ (8 - k) = (16 :: nat) * 16 ^ (8 - Suc k)"
    using Suc.prems(1) by (simp add: Suc_diff_Suc flip: power_Suc)
  then have "unat ?val < 16 ^ (8 - k)" using Suc.prems(2) v by simp
  from Suc.IH [OF _ this, of "nibs + 1"] Suc.prems(1) obtain w where
    w: "hex_loop (hex_digits k v) ?val (nibs + 1) = (w, nibs + 1 + of_nat k)" "unat w = unat ?val * 16 ^ k + v mod 16 ^ k"
    by auto
  have "v mod 16 ^ Suc k = ?d * 16 ^ k + v mod 16 ^ k"
    by (simp add: mod_mult2_eq mult.commute [of 16])
  then have "unat w = unat val * 16 ^ Suc k + v mod 16 ^ Suc k"
    using w(2) v by (simp add: algebra_simps)
  moreover have "hex_loop (hex_digits (Suc k) v) val nibs = (w, nibs + of_nat (Suc k))"
    using w(1) by (simp add: hex_digits_Suc hex_step add.assoc del: hex_digits.simps hex_loop.simps)
  ultimately show ?case by blast
qed

lemma hex_digit_not_space: "c \<in> set (hex_digits n v) \<Longrightarrow> c \<noteq> CHR '' ''"
proof -
  have "list_all (\<lambda>d. hex_digit d \<noteq> CHR '' '') [0..<16]" by code_simp
  then show "c \<in> set (hex_digits n v) \<Longrightarrow> c \<noteq> CHR '' ''"
    using hex_digits_are_digits [of c n v] by (auto simp: list_all_iff)
qed

lemma printed_word:
  "render ''%x'' [Va_Int v] = Some (''0x'' @ hex_digits 8 (unat v))" "render ''%p'' [Va_Int v] = Some (''0x'' @ hex_digits 8 (unat v))"
  by (simp_all add: arg_text_def del: hex_digits.simps)

lemma parsed_word:
  assumes "strtok_input tokens = (Some (''0x'' @ hex_digits 8 (unat v)), rest)"
  shows "parse_hex b me tokens s = Inr (Some v, rest, s)"
proof -
  have "unat (0 :: u32) < 16 ^ (8 - 8)" by simp
  from hex_loop_digits [OF order_refl this, of "unat v" 0] obtain w where
    w: "hex_loop (hex_digits 8 (unat v)) 0 0 = (w, 0 + of_nat 8)" "unat w = unat (0 :: u32) * 16 ^ 8 + unat v mod 16 ^ 8"
    by blast
  have "unat v < 2 ^ LENGTH(32)" by (rule unsigned_less)
  then have "w = v" using w(2) by (simp add: word_unat_eq_iff)
  then show ?thesis
    unfolding parse_hex_def assms using w(1) by (simp add: char_at_def Let_def del: hex_digits.simps)
qed

text \<open>
  What \<open>print\<close> shows on the terminal for \<open>%x\<close> and \<open>%p\<close> is an operand that \<open>parse_hex\<close> reads
  back: on the simulator's UART the call returns, and the text between the prefix with the core's
  number and the new prompt, given to \<open>parse_hex\<close> as the last or as any other operand of a line,
  yields the same word, leaves the rest of the line to parse and prints nothing.
\<close>

theorem printed_words_parse_back:
  assumes "sb_good (hw s)" "console_inv s" "fmt = ''%x'' \<or> fmt = ''%p''"
  shows "\<exists>h t. print sim_mmio cpu fmt [Va_Int v] s = Inr (s\<lparr>hw := h\<rparr>)
    \<and> sb_tty h = sb_tty (hw s) @ print_text cpu t s
    \<and> parse_hex b me t s' = Inr (Some v, [], s')
    \<and> parse_hex b me (t @ CHR '' '' # rest) s' = Inr (Some v, rest, s')"
proof -
  let ?t = "''0x'' @ hex_digits 8 (unat v)"
  have r: "render fmt [Va_Int v] = Some ?t" using assms(3) printed_word by auto
  have ns: "CHR '' '' \<notin> set ?t" using hex_digit_not_space [of "CHR '' ''" 8 "unat v"] by auto
  have "parse_hex b me ?t s' = Inr (Some v, [], s')" "parse_hex b me (?t @ CHR '' '' # rest) s' = Inr (Some v, rest, s')"
    by (rule parsed_word, rule token_before_space [OF ns], simp)+
  with print_reaches_board [OF assms(1) r assms(2), of cpu] show ?thesis by blast
qed

lemma printed_words_parse_back_witness:
  "\<exists>h t. print sim_mmio 1 ''%x'' [Va_Int 0xdeadbeef] (example_console []) = Inr (example_console []\<lparr>hw := h\<rparr>)
    \<and> sb_tty h = sb_tty (hw (example_console [])) @ print_text 1 t (example_console [])
    \<and> parse_hex sim_mmio 0 t (example_console []) = Inr (Some 0xdeadbeef, [], example_console [])
    \<and> parse_hex sim_mmio 0 (t @ CHR '' '' # ''0x1'') (example_console []) = Inr (Some 0xdeadbeef, ''0x1'', example_console [])"
proof (rule printed_words_parse_back)
  show "sb_good (hw (example_console []))" using example_good(1) [of "[]"] by (simp add: example_console_def)
  show "console_inv (example_console [])" by (simp add: console_inv_def example_console_def)
qed simp

section \<open>Decimal fractions\<close>

definition is_dec :: "char \<Rightarrow> bool" where
  "is_dec c \<longleftrightarrow> 48 \<le> (of_char c :: nat) \<and> of_char c \<le> (57 :: nat)"

definition dec_value :: "string \<Rightarrow> nat" where
  "dec_value ds = foldl (\<lambda>n c. n * 10 + (of_char c - 48)) 0 ds"

lemma dec_value_snoc: "dec_value (ds @ [c]) = dec_value ds * 10 + (of_char c - 48)"
  by (simp add: dec_value_def)

lemma foldl_dec: "foldl (\<lambda>n c. n * 10 + (of_char c - 48)) a ds = a * 10 ^ length ds + dec_value ds" for a :: nat
proof (induction ds rule: rev_induct)
  case (snoc c ds)
  then show ?case by (simp add: dec_value_snoc algebra_simps)
qed (simp add: dec_value_def)

lemma dec_value_append: "dec_value (xs @ ys) = dec_value xs * 10 ^ length ys + dec_value ys"
proof -
  have "dec_value (xs @ ys) = foldl (\<lambda>n c. n * 10 + (of_char c - 48)) (dec_value xs) ys" by (simp add: dec_value_def)
  then show ?thesis unfolding foldl_dec .
qed

lemma dec_value_Cons: "dec_value (c # ys) = (of_char c - 48) * 10 ^ length ys + dec_value ys"
  using dec_value_append [of "[c]" ys] by (simp add: dec_value_def)

lemma fp_digit:
  assumes "is_dec c" "num * 10 + int (of_char c - 48) < 2 ^ 31" "0 \<le> num" "0 < den" "in_denom \<Longrightarrow> den * 10 < 2 ^ 31"
  shows "fp_loop (c # cs) in_denom num den =
    (let num = num * 10 + int (of_char c - 48); den = (if in_denom then den * 10 else den)
     in if cs \<noteq> [] then fp_loop cs in_denom num den else Inr (Some (num, den)))"
proof -
  have dot: "c \<noteq> CHR ''.''" using assms(1) by (auto simp: is_dec_def)
  have d: "48 \<le> (of_char c :: nat)" "of_char c \<le> (57 :: nat)" using assms(1) by (simp_all add: is_dec_def)
  have z: "of_char c - (48 :: int) = int (of_char c - 48)" using d(1) by (simp add: of_nat_diff of_nat_of_char)
  have "0 \<le> int (of_char c - 48)" by simp
  then have "num * 10 < 2 ^ 31" using assms(2) by linarith
  then have "int32_result (num * 10) = Inr (num * 10)"
    "int32_result (num * 10 + int (of_char c - 48)) = Inr (num * 10 + int (of_char c - 48))"
    using assms(2,3) by (simp_all add: int32_result_def)
  moreover have "(if in_denom then int32_result (den * 10) else Inr den) = Inr (if in_denom then den * 10 else den)"
    using assms(4,5) by (simp add: int32_result_def)
  ultimately show ?thesis using dot d unfolding fp_loop.simps(2) z by (simp add: Let_def)
qed

lemma fp_fraction:
  "list_all is_dec fs \<Longrightarrow> fs \<noteq> [] \<Longrightarrow> length fs \<le> 3 - k \<Longrightarrow> k \<le> 3 \<Longrightarrow> n * 10 ^ length fs + dec_value fs \<le> 2048
    \<Longrightarrow> fp_loop fs True (int n) (10 ^ k) = Inr (Some (int (n * 10 ^ length fs + dec_value fs), 10 ^ (k + length fs)))"
proof (induction fs arbitrary: n k)
  case (Cons c fs)
  let ?d = "of_char c - 48 :: nat"
  let ?n = "n * 10 + ?d"
  have v: "n * 10 ^ length (c # fs) + dec_value (c # fs) = ?n * 10 ^ length fs + dec_value fs"
    by (simp add: dec_value_Cons algebra_simps)
  have "?n * 10 ^ length fs \<le> 2048" using Cons.prems(5) unfolding v by (rule add_leD1)
  then have n: "?n \<le> 2048" by (rule order_trans [rotated]) simp
  then have "int (n * 10 + ?d) \<le> int 2048" by (rule of_nat_mono)
  then have b: "int n * 10 + int ?d < 2 ^ 31" unfolding of_nat_add of_nat_mult by simp
  have "k < 3" using Cons.prems(3) by simp
  then have "(10 :: int) ^ k \<le> 10 ^ 2" by (intro power_increasing) auto
  then have den: "(10 :: int) ^ k * 10 < 2 ^ 31" by simp
  have step: "fp_loop (c # fs) True (int n) (10 ^ k) =
      (if fs \<noteq> [] then fp_loop fs True (int ?n) (10 ^ Suc k) else Inr (Some (int ?n, 10 ^ Suc k)))"
    using fp_digit [of c "int n" "10 ^ k" True fs] Cons.prems(1) b den by (simp add: Let_def mult.commute)
  show ?case
  proof (cases "fs = []")
    case True
    then show ?thesis unfolding step v by (simp add: dec_value_def)
  next
    case False
    then have "fp_loop fs True (int ?n) (10 ^ Suc k) =
        Inr (Some (int (?n * 10 ^ length fs + dec_value fs), 10 ^ (Suc k + length fs)))"
      using Cons.prems unfolding v by (intro Cons.IH) auto
    then show ?thesis unfolding step v using False by simp
  qed
qed simp

text \<open>The digits of a number and its fraction; the fraction may be missing with its point.\<close>

definition decimal_text :: "string \<Rightarrow> string \<Rightarrow> bool \<Rightarrow> string" where
  "decimal_text ds fs dot = ds @ (if dot then CHR ''.'' # fs else [])"

lemma fp_point: "fs \<noteq> [] \<Longrightarrow> fp_loop (CHR ''.'' # fs) False num den = fp_loop fs True num den"
  "fp_loop [CHR ''.''] False num den = Inr (Some (num, den))"
  by simp_all

lemma fp_whole:
  "list_all is_dec ds \<Longrightarrow> ds @ rest \<noteq> [] \<Longrightarrow> n * 10 ^ length ds + dec_value ds \<le> 2048
    \<Longrightarrow> fp_loop (ds @ rest) False (int n) 1 =
      (if rest \<noteq> [] then fp_loop rest False (int (n * 10 ^ length ds + dec_value ds)) 1
       else Inr (Some (int (n * 10 ^ length ds + dec_value ds), 1)))"
proof (induction ds arbitrary: n)
  case Nil
  then show ?case by (simp add: dec_value_def)
next
  case (Cons c ds)
  let ?d = "of_char c - 48 :: nat"
  let ?n = "n * 10 + ?d"
  have v: "n * 10 ^ length (c # ds) + dec_value (c # ds) = ?n * 10 ^ length ds + dec_value ds"
    by (simp add: dec_value_Cons algebra_simps)
  have "?n * 10 ^ length ds \<le> 2048" using Cons.prems(3) unfolding v by (rule add_leD1)
  then have n: "?n \<le> 2048" by (rule order_trans [rotated]) simp
  then have "int (n * 10 + ?d) \<le> int 2048" by (rule of_nat_mono)
  then have b: "int n * 10 + int ?d < 2 ^ 31" unfolding of_nat_add of_nat_mult by simp
  have step: "fp_loop (c # ds @ rest) False (int n) 1 =
      (if ds @ rest \<noteq> [] then fp_loop (ds @ rest) False (int ?n) 1 else Inr (Some (int ?n, 1)))"
    using fp_digit [of c "int n" 1 False "ds @ rest"] Cons.prems(1) b by (simp add: Let_def)
  show ?case
  proof (cases "ds @ rest = []")
    case True
    then show ?thesis unfolding append_Cons step v by (simp add: dec_value_def)
  next
    case False
    have "list_all is_dec ds" "?n * 10 ^ length ds + dec_value ds \<le> 2048"
      using Cons.prems(1,3) unfolding v by simp_all
    note ih = Cons.IH [OF this(1) False this(2)]
    show ?thesis unfolding append_Cons step v ih using False by (simp only: if_True not_False_eq_True)
  qed
qed

lemma fp_decimal:
  assumes "list_all is_dec (ds @ fs)" "length fs \<le> 3" "dec_value (ds @ fs) \<le> 2048" "ds \<noteq> [] \<or> fs \<noteq> []"
  shows "fp_loop (ds @ CHR ''.'' # fs) False 0 1 = Inr (Some (int (dec_value (ds @ fs)), 10 ^ length fs))"
proof -
  have v: "dec_value (ds @ fs) = dec_value ds * 10 ^ length fs + dec_value fs" by (rule dec_value_append)
  have "dec_value ds * 1 \<le> dec_value ds * 10 ^ length fs" by (intro mult_left_mono) simp_all
  then have d: "dec_value ds \<le> 2048" using assms(3) unfolding v by linarith
  have w: "fp_loop (ds @ CHR ''.'' # fs) False 0 1 = fp_loop (CHR ''.'' # fs) False (int (dec_value ds)) 1"
    using fp_whole [of ds "CHR ''.'' # fs" 0] assms(1) d by (simp del: fp_loop.simps)
  show ?thesis
  proof (cases "fs = []")
    case True
    then show ?thesis unfolding w by (simp add: v dec_value_def)
  next
    case False
    then have "fp_loop fs True (int (dec_value ds)) (10 ^ 0) =
        Inr (Some (int (dec_value ds * 10 ^ length fs + dec_value fs), 10 ^ (0 + length fs)))"
      using assms v by (intro fp_fraction) simp_all
    then show ?thesis unfolding w fp_point(1) [OF False] v by simp
  qed
qed

lemma flip_sign: "mag (0x8000 XOR r) = mag r" "negative (0x8000 XOR r) \<longleftrightarrow> \<not> negative r"
proof -
  show "mag (0x8000 XOR r) = mag r" using or_sign(3) [of r] by (simp add: xor.commute)
  have "bit (0x8000 :: u16) 15" using bit_exp_iff [of 15 15, where 'a = u16] by simp
  then show "negative (0x8000 XOR r) \<longleftrightarrow> \<not> negative r" by (simp add: negative_bit bit_xor_iff)
qed

lemma small_from_int:
  assumes "0 < m" "m \<le> 2048"
  shows "f16_from_int (of_int (int m)) = Inr (encode (m * 2 ^ 24))"
proof -
  have "unat (of_nat m :: 32 word) = m"
  proof -
    have "m < 2 ^ LENGTH(32)" by (rule le_less_trans [OF assms(2)]) simp
    then show ?thesis by (simp only: unat_of_nat mod_less)
  qed
  moreover have "sint (of_nat m :: 32 word) = int m"
  proof -
    have "- (2 ^ (LENGTH(32) - Suc 0)) \<le> int m" "int m < 2 ^ (LENGTH(32) - Suc 0)" using assms(2) by simp_all
    then have "sint (word_of_int (int m) :: 32 word) = int m"
      unfolding sint_sbintrunc' by (intro signed_take_bit_int_eq_self) simp_all
    then show ?thesis by simp
  qed
  moreover from this have "(of_nat m :: 32 word) \<noteq> 0" "(of_nat m :: 32 word) \<noteq> 0x80000000" using assms by auto
  ultimately show ?thesis using f16_from_int_value [of "of_nat m"] by simp
qed

text \<open>
  C22. A decimal fraction with at most three digits after the point and at most 2048 units of its
  last digit is parsed to its value rounded toward zero, with its sign: nothing is lost in the
  two conversions, only in the division.
\<close>

theorem decimals_are_quotients:
  assumes "list_all is_dec (ds @ fs)" "length fs \<le> 3" "dec_value (ds @ fs) \<le> 2048" "0 < dec_value (ds @ fs)"
  shows "\<exists>r. parse_fp16 b me ((if neg then ''-'' else []) @ ds @ CHR ''.'' # fs) s = Inr (Some r, [], s)
    \<and> rounds_down (dec_value (ds @ fs) * 2 ^ 24 div 10 ^ length fs) r \<and> (negative r \<longleftrightarrow> neg)"
proof -
  let ?N = "dec_value (ds @ fs)" and ?D = "10 ^ length fs :: nat"
  let ?t = "(if neg then ''-'' else []) @ ds @ CHR ''.'' # fs"
  let ?r = "f16_div (encode (?N * 2 ^ 24)) (encode (?D * 2 ^ 24))"
  have "(10 :: nat) ^ length fs \<le> 10 ^ 3" using assms(2) by (intro power_increasing) auto
  then have D: "0 < ?D" "?D \<le> 2048" by simp_all
  have ne: "ds \<noteq> [] \<or> fs \<noteq> []" using assms(4) by (auto simp: dec_value_def)
  note enc = small_integer_exact [OF assms(3)] small_integer_exact [OF D(2)]
  have q: "rounds_down (?N * 2 ^ 24 div ?D) ?r" "\<not> negative ?r"
  proof -
    have z: "mag (encode (?N * 2 ^ 24)) \<noteq> 0" "mag (encode (?D * 2 ^ 24)) \<noteq> 0" using enc(1,3) assms(4) D(1) by simp_all
    have "?r = (encode (?N * 2 ^ 24) XOR encode (?D * 2 ^ 24)) AND SIGN_MASK OR encode (?N * 2 ^ 24 div ?D)"
    proof -
      have "?N * 2 ^ 24 * 2 ^ 24 div (?D * 2 ^ 24) = ?N * 2 ^ 24 div ?D" by (rule div_mult_mult2) simp
      then show ?thesis using f16_div_value [OF enc(2,4) z(2)] z(1) unfolding enc(1,3) by (simp only: if_False)
    qed
    moreover have "(encode (?N * 2 ^ 24) XOR encode (?D * 2 ^ 24)) AND SIGN_MASK = 0"
      by (simp add: SIGN_MASK_def sign_part negative_xor encode_positive)
    ultimately have r: "?r = encode (?N * 2 ^ 24 div ?D)" by simp
    show "rounds_down (?N * 2 ^ 24 div ?D) ?r" "\<not> negative ?r"
      unfolding r by (rule encode_rounds_down, rule encode_positive)
  qed
  have sp: "c \<noteq> CHR '' ''" "c \<noteq> CHR ''-''" if "c \<in> set (ds @ CHR ''.'' # fs)" for c
  proof -
    have "is_dec c \<or> c = CHR ''.''" using that assms(1) by (auto simp: list_all_iff)
    then show "c \<noteq> CHR '' ''" "c \<noteq> CHR ''-''" by (auto simp: is_dec_def)
  qed
  have "CHR '' '' \<notin> set ?t" using sp by auto
  then have tok: "strtok_input ?t = (Some ?t, [])" by (rule token_before_space(2)) simp
  have "char_at (ds @ CHR ''.'' # fs) 0 \<noteq> CHR ''-''" using sp(2) by (cases ds) (auto simp: char_at_def)
  then have neg: "(char_at ?t 0 = CHR ''-'') = neg" "(if neg then drop 1 ?t else ?t) = ds @ CHR ''.'' # fs"
    by (simp_all add: char_at_def)
  have conv: "f16_from_int (of_int (int ?N)) = Inr (encode (?N * 2 ^ 24))"
    "f16_from_int (of_int (10 ^ length fs)) = Inr (encode (?D * 2 ^ 24))"
    using small_from_int [OF assms(4,3)] small_from_int [OF D] by simp_all
  have "parse_fp16 b me ?t s = Inr (Some (if neg then f16_neg ?r else ?r), [], s)"
    unfolding parse_fp16_def tok prod.case option.case neg Let_def fp_decimal [OF assms(1-3) ne] bind_res_simps conv ..
  moreover have "rounds_down (?N * 2 ^ 24 div ?D) (if neg then f16_neg ?r else ?r)"
    using q(1) rounds_down_mag [OF flip_sign(1)] by (simp add: f16_neg_def SIGN_MASK_def)
  moreover have "negative (if neg then f16_neg ?r else ?r) \<longleftrightarrow> neg"
    using q(2) by (simp add: f16_neg_def SIGN_MASK_def flip_sign)
  ultimately show ?thesis by blast
qed

lemma decimals_are_quotients_witness:
  "\<exists>r. parse_fp16 sim_mmio 0 ((if True then ''-'' else []) @ ''1'' @ CHR ''.'' # ''25'') (example_console []) = Inr (Some r, [], example_console [])
    \<and> rounds_down (dec_value (''1'' @ ''25'') * 2 ^ 24 div 10 ^ length ''25'') r \<and> (negative r \<longleftrightarrow> True)"
  by (rule decimals_are_quotients) (simp_all add: is_dec_def dec_value_def)

text \<open>
  With five digits after the point the denominator 100000 becomes infinity, and the value is
  lost: \<open>0.10000\<close> is parsed as zero and \<open>1.00000\<close> as a NaN.
\<close>

theorem five_decimals_lose_the_value:
  "parse_fp16 b me ''0.10000'' s = Inr (Some 0, [], s) \<and> parse_fp16 b me ''1.00000'' s = Inr (Some NAN_VALUE, [], s)"
proof -
  have c: "f16_from_int 10000 = Inr 0x70E2" "f16_from_int 100000 = Inr 0x7C00" by code_simp+
  have d: "f16_div 0x70E2 0x7C00 = 0" "f16_div 0x7C00 0x7C00 = NAN_VALUE" by code_simp+
  have "strtok_input ''0.10000'' = (Some ''0.10000'', [])" "strtok_input ''1.00000'' = (Some ''1.00000'', [])"
    by (simp_all add: strtok_input_eq)
  then show ?thesis
    by (simp add: parse_fp16_def char_at_def int32_result_def c d)
qed

text \<open>A character that is no hexadecimal digit counts as the digit 0.\<close>

lemma parse_hex_accepts_garbage: "parse_hex b me ''0xz1'' s = Inr (Some 1, [], s)"
  by (simp add: parse_hex_def strtok_input_eq char_at_def Let_def)

end
