(* ===== verification/Demo_Atomic.thy ===== *)
theory Demo_Atomic
  imports Avalon_Line
begin

text \<open>
  The 64-bit compare-and-exchange of the demo firmware (\<open>demo/atomic.S\<close>) instruction by instruction,
  on the exclusive monitor of the cache (\<open>rtl/cache/cache_monitor.sv\<close>) and the load/store unit's
  \<open>block_strex\<close> (\<open>rtl/core/core_control_ldst.sv\<close>). A \<open>struct cpu\<close> is one 16-byte line, whose words 2
  and 3 are the mailbox; the state is that line, the monitor of the executing core and \<open>block_strex\<close>.
  Between two instructions the other cores may store anything into the line, and the core may take an
  exception. The monitor only takes effect at the exclusive store that clears its last word, so a
  first exclusive store whose word is not the last one reports failure and stores nothing.
\<close>

section \<open>The exclusive monitor\<close>

text \<open>
  \<open>m_here\<close>: the monitor's tag and index are those of the line (\<open>hit\<close>). \<open>m_mask\<close>: the words of
  \<open>mask\<close>. \<open>m_rd\<close> and \<open>m_wr\<close>: the line as it was read, and with the stores made so far.
\<close>

record monitor =
  m_here :: bool
  m_mask :: "nat set"
  m_dirty :: bool
  m_rd :: line
  m_wr :: line

record exclusive =
  x_line :: line
  x_mon :: monitor
  x_block :: bool

text \<open>\<open>monitor_acquire\<close>: an exclusive load of word \<open>k\<close>, with \<open>data\<close> in the cache.\<close>

definition acquire :: "nat \<Rightarrow> line \<Rightarrow> monitor \<Rightarrow> monitor" where
  "acquire k data m =
     (let hit = m_here m; known = k \<in> m_mask m;
          relatch = (\<not> hit \<or> known \<or> m_dirty m \<or> m_mask m = {})
      in \<lparr>m_here = True,
          m_mask = (if hit \<and> \<not> known \<and> \<not> m_dirty m then insert k (m_mask m) else {k}),
          m_dirty = False,
          m_rd = (if relatch then data else m_rd m),
          m_wr = (if relatch then data else m_wr m)\<rparr>)"

text \<open>\<open>monitor_release\<close>: an exclusive store; the results are \<open>monitor_commit\<close>, the data and the monitor.\<close>

definition release :: "nat \<Rightarrow> u32 \<Rightarrow> line \<Rightarrow> monitor \<Rightarrow> bool \<times> line \<times> monitor" where
  "release k v data m =
     (let update = set_word k v (m_wr m); mask_clear = m_mask m - {k};
          kept = (m_here m \<and> k \<in> m_mask m);
          commit = (kept \<and> m_rd m = data \<and> mask_clear = {})
      in (commit, if commit then update else data,
          m\<lparr>m_wr := update, m_mask := (if kept then mask_clear else {}), m_dirty := kept\<rparr>))"

definition ldrex :: "nat \<Rightarrow> exclusive \<Rightarrow> u32 \<times> exclusive" where
  "ldrex k x = (words (x_line x) k, x\<lparr>x_mon := acquire k (x_line x) (x_mon x), x_block := False\<rparr>)"

text \<open>The status is 0 when the store took effect; a blocked store does not reach the cache.\<close>

definition strex :: "nat \<Rightarrow> u32 \<Rightarrow> exclusive \<Rightarrow> u32 \<times> exclusive" where
  "strex k v x =
     (if x_block x then (1, x)
      else let (commit, data, m) = release k v (x_line x) (x_mon x)
        in (if commit then 0 else 1, x\<lparr>x_line := data, x_mon := m\<rparr>))"

section \<open>What happens between two instructions\<close>

text \<open>
  An exception sets \<open>block_strex\<close>; a handler that takes a lock moves the monitor to the line of that
  lock and may leave \<open>block_strex\<close> cleared.
\<close>

datatype trap = No_Trap | Trap | Locking_Trap monitor bool

type_synonym gap = "(line \<Rightarrow> line) \<times> trap"

fun pass :: "gap \<Rightarrow> exclusive \<Rightarrow> exclusive" where
  "pass (others, No_Trap) x = x\<lparr>x_line := others (x_line x)\<rparr>"
| "pass (others, Trap) x = x\<lparr>x_line := others (x_line x), x_block := True\<rparr>"
| "pass (others, Locking_Trap m b) x =
     x\<lparr>x_line := others (x_line x), x_mon := m\<lparr>m_here := False\<rparr>, x_block := b\<rparr>"

section \<open>The exchange\<close>

definition pair :: "u32 \<Rightarrow> u32 \<Rightarrow> u64" where
  "pair lo hi = word_cat hi lo"

definition lower :: "u64 \<Rightarrow> u32" where
  "lower w = ucast w"

definition upper :: "u64 \<Rightarrow> u32" where
  "upper w = ucast (drop_bit 32 w)"

definition mailbox :: "line \<Rightarrow> u64" where
  "mailbox l = pair (word2 l) (word3 l)"

definition put_mailbox :: "u64 \<Rightarrow> line \<Rightarrow> line" where
  "put_mailbox w l = Line (word0 l) (word1 l) (lower w) (upper w)"

text \<open>
  \<open>compare_exchange_64(&mailbox, &old, val)\<close>: the result is the returned flag, \<open>*old\<close> and the state.
  The gaps are those before the two exclusive loads and before the two exclusive stores.
\<close>

type_synonym attempt = "gap \<times> gap \<times> gap \<times> gap"

fun compare_exchange_64 :: "attempt \<Rightarrow> u64 \<Rightarrow> u64 \<Rightarrow> exclusive \<Rightarrow> bool \<times> u64 \<times> exclusive" where
  "compare_exchange_64 (g1, g2, g3, g4) old val x =
     (let r4 = lower old; r5 = upper old;
          (r6, x) = ldrex 2 (pass g1 x);
          (r7, x) = ldrex 3 (pass g2 x);
          eq = (r4 = r6 \<and> r5 = r7);
          x = pass g3 x;
          (r4, x) = (if eq then strex 2 (lower val) x else (r4, x));
          x = pass g4 x;
          (r4, x) = (if eq then strex 3 (upper val) x else (r4, x));
          eq = (eq \<and> r4 = 0)
      in (eq, if eq then old else pair r6 r7, x))"

section \<open>Lemmas\<close>

lemma lower_upper [simp]: "lower (pair lo hi) = lo" "upper (pair lo hi) = hi" "pair (lower w) (upper w) = w"
proof -
  show "lower (pair lo hi) = lo" unfolding lower_def pair_def
    by (rule bit_word_eqI) (simp add: bit_ucast_iff bit_word_cat_iff)
  show "upper (pair lo hi) = hi" unfolding upper_def pair_def
    by (rule bit_word_eqI) (simp add: bit_ucast_iff bit_word_cat_iff bit_drop_bit_eq)
  show "pair (lower w) (upper w) = w" unfolding lower_def upper_def pair_def
    by (rule bit_word_eqI) (auto simp: bit_ucast_iff bit_word_cat_iff bit_drop_bit_eq)
qed

lemma pair_eq_iff: "w = pair lo hi \<longleftrightarrow> lower w = lo \<and> upper w = hi"
  by (metis lower_upper)

lemma mailbox_put [simp]: "mailbox (put_mailbox w l) = w" "put_mailbox v (put_mailbox w l) = put_mailbox v l"
  by (simp_all add: mailbox_def put_mailbox_def)

lemma two_stores: "set_word 3 (upper w) (set_word 2 (lower w) l) = put_mailbox w l"
  by (simp add: set_word_def put_mailbox_def)

lemma pass_line [simp]: "x_line (pass g x) = fst g (x_line x)"
  by (cases g; cases "snd g") auto

lemma pass_kept:
  "\<not> x_block (pass g x) \<Longrightarrow> m_here (x_mon (pass g x)) \<Longrightarrow> x_mon (pass g x) = x_mon x \<and> \<not> x_block x"
  by (cases "(g, x)" rule: pass.cases) simp_all

lemma ldrex_line [simp]: "x_line (snd (ldrex k x)) = x_line x" "fst (ldrex k x) = words (x_line x) k"
  by (simp_all add: ldrex_def)

lemma strex_result:
  "strex k v x = (r, y) \<Longrightarrow> (r = 0 \<and> x_line y = set_word k v (m_wr (x_mon x)) \<and> \<not> x_block x
       \<and> m_here (x_mon x) \<and> m_mask (x_mon x) = {k} \<and> m_rd (x_mon x) = x_line x)
     \<or> (r = 1 \<and> x_line y = x_line x)"
  by (auto simp: strex_def release_def Let_def split: if_splits)

lemma strex_monitor:
  "strex k v x = (r, y) \<Longrightarrow> \<not> x_block y \<Longrightarrow>
     \<not> x_block x \<and> x_mon y = snd (snd (release k v (x_line x) (x_mon x)))"
  by (cases "release k v (x_line x) (x_mon x)") (auto simp: strex_def split: if_splits)

lemma release_monitor:
  "snd (snd (release k v data m)) = m\<lparr>m_wr := set_word k v (m_wr m),
     m_mask := (if m_here m \<and> k \<in> m_mask m then m_mask m - {k} else {}), m_dirty := m_here m \<and> k \<in> m_mask m\<rparr>"
  by (simp add: release_def Let_def)

lemma release_keeps:
  assumes "m_here (snd (snd (release k v data m)))" "m_mask (snd (snd (release k v data m))) = s" "s \<noteq> {}"
  shows "m_here m" "m_mask m = insert k s" "m_wr (snd (snd (release k v data m))) = set_word k v (m_wr m)"
    "m_rd (snd (snd (release k v data m))) = m_rd m"
proof -
  show "m_here m" using assms(1) by (simp add: release_monitor)
  have "k \<in> m_mask m" using assms(2,3) by (simp add: release_monitor split: if_splits)
  then show "m_mask m = insert k s" using assms(1,2) by (auto simp: release_monitor)
qed (simp_all add: release_monitor)

text \<open>The words 2 and 3 after the two exclusive loads.\<close>

definition loaded :: "gap \<Rightarrow> gap \<Rightarrow> exclusive \<Rightarrow> exclusive" where
  "loaded g1 g2 x = snd (ldrex 3 (pass g2 (snd (ldrex 2 (pass g1 x)))))"

lemma loaded_line [simp]: "x_line (loaded g1 g2 x) = fst g2 (fst g1 (x_line x))"
  by (simp add: loaded_def)

lemma loaded_mask: "3 \<in> m_mask (x_mon (loaded g1 g2 x))"
  by (simp add: loaded_def ldrex_def acquire_def Let_def)

lemma acquire_more:
  "m_mask (acquire k d m) \<noteq> {k} \<Longrightarrow>
     m_here m \<and> k \<notin> m_mask m \<and> \<not> m_dirty m \<and> m_mask (acquire k d m) = insert k (m_mask m)"
  by (simp add: acquire_def Let_def split: if_splits)

lemma acquire_latched:
  "m_here m \<Longrightarrow> k \<notin> m_mask m \<Longrightarrow> \<not> m_dirty m \<Longrightarrow> m_mask m \<noteq> {} \<Longrightarrow>
     m_rd (acquire k d m) = m_rd m \<and> m_wr (acquire k d m) = m_wr m"
  by (simp add: acquire_def Let_def)

lemma acquire_first:
  assumes "m_mask (acquire k d m) = {k}"
  shows "m_rd (acquire k d m) = d \<and> m_wr (acquire k d m) = d"
proof (cases "m_here m \<and> k \<notin> m_mask m \<and> \<not> m_dirty m \<and> m_mask m \<noteq> {}")
  case True
  then have "insert k (m_mask m) = {k}" using assms by (simp add: acquire_def Let_def)
  then show ?thesis using True by blast
qed (auto simp: acquire_def Let_def)

text \<open>If just the two words are monitored, the monitor holds the line as the first load found it.\<close>

lemma loaded_latch:
  assumes "m_mask (x_mon (loaded g1 g2 x)) = {2, 3}"
  shows "m_rd (x_mon (loaded g1 g2 x)) = fst g1 (x_line x)" "m_wr (x_mon (loaded g1 g2 x)) = fst g1 (x_line x)"
proof -
  let ?m1 = "acquire 2 (fst g1 (x_line x)) (x_mon (pass g1 x))"
  let ?m2 = "x_mon (pass g2 (snd (ldrex 2 (pass g1 x))))"
  have l: "x_mon (loaded g1 g2 x) = acquire 3 (fst g2 (fst g1 (x_line x))) ?m2"
    by (simp add: loaded_def ldrex_def)
  have "({2, 3} :: nat set) \<noteq> {3}" by auto
  with acquire_more [of 3 "fst g2 (fst g1 (x_line x))" ?m2] have
    h: "m_here ?m2" "3 \<notin> m_mask ?m2" "\<not> m_dirty ?m2" "{2, 3} = insert 3 (m_mask ?m2)"
    using assms unfolding l by simp_all
  have two: "m_mask ?m2 = {2}"
  proof -
    have "m_mask ?m2 = insert 3 (m_mask ?m2) - {3}" using h(2) by simp
    also have "\<dots> = {2, 3} - {3}" unfolding h(4) [symmetric] ..
    also have "\<dots> = {2}" by auto
    finally show ?thesis .
  qed
  have e: "?m2 = ?m1"
    using h(1) by (cases "(g2, snd (ldrex 2 (pass g1 x)))" rule: pass.cases) (simp_all add: ldrex_def)
  have "m_rd ?m1 = fst g1 (x_line x) \<and> m_wr ?m1 = fst g1 (x_line x)"
    using two unfolding e by (rule acquire_first)
  moreover have "m_mask ?m2 \<noteq> {}" using two by simp
  note acquire_latched [OF h(1-3) this]
  ultimately show "m_rd (x_mon (loaded g1 g2 x)) = fst g1 (x_line x)" "m_wr (x_mon (loaded g1 g2 x)) = fst g1 (x_line x)"
    unfolding l e by simp_all
qed

text \<open>The two exclusive stores: both take effect in the second, or nothing is stored.\<close>

lemma first_store:
  assumes "3 \<in> m_mask (x_mon x)" "strex 2 lo (pass g x) = (r, y)"
  shows "x_line y = fst g (x_line x)"
    and "\<not> x_block y \<Longrightarrow> m_here (x_mon y) \<Longrightarrow> m_mask (x_mon y) = {3} \<Longrightarrow>
      m_mask (x_mon x) = {2, 3} \<and> m_wr (x_mon y) = set_word 2 lo (m_wr (x_mon x)) \<and> m_rd (x_mon y) = m_rd (x_mon x)"
proof -
  let ?p = "pass g x"
  have n: "\<not> (\<not> x_block ?p \<and> m_here (x_mon ?p) \<and> m_mask (x_mon ?p) = {2})"
    using pass_kept [of g x] assms(1) by auto
  from strex_result [OF assms(2)] show "x_line y = fst g (x_line x)"
  proof
    assume "r = 1 \<and> x_line y = x_line ?p"
    then show ?thesis by simp
  qed (use n in blast)
  assume y: "\<not> x_block y" "m_here (x_mon y)" "m_mask (x_mon y) = {3}"
  from strex_monitor [OF assms(2) y(1)] have nb: "\<not> x_block ?p"
    and yx: "x_mon y = snd (snd (release 2 lo (x_line ?p) (x_mon ?p)))" by blast+
  note k = release_keeps [of 2 lo "x_line ?p" "x_mon ?p", folded yx, OF y(2,3) insert_not_empty]
  from pass_kept [OF nb k(1)] have p: "x_mon ?p = x_mon x" ..
  show "m_mask (x_mon x) = {2, 3} \<and> m_wr (x_mon y) = set_word 2 lo (m_wr (x_mon x)) \<and> m_rd (x_mon y) = m_rd (x_mon x)"
    using k(2-4) by (simp add: p)
qed

lemma stores_once:
  assumes m: "3 \<in> m_mask (x_mon x)"
    and s1: "strex 2 lo (pass g3 x) = (r, y)" and s2: "strex 3 hi (pass g4 y) = (r', z)"
  shows "r' = 1 \<and> x_line z = fst g4 (fst g3 (x_line x))
      \<or> r' = 0 \<and> x_line z = set_word 3 hi (set_word 2 lo (m_wr (x_mon x)))
        \<and> m_rd (x_mon x) = fst g4 (fst g3 (x_line x)) \<and> m_mask (x_mon x) = {2, 3}"
  using strex_result [OF s2]
proof
  assume a: "r' = 0 \<and> x_line z = set_word 3 hi (m_wr (x_mon (pass g4 y))) \<and> \<not> x_block (pass g4 y)
     \<and> m_here (x_mon (pass g4 y)) \<and> m_mask (x_mon (pass g4 y)) = {3} \<and> m_rd (x_mon (pass g4 y)) = x_line (pass g4 y)"
  then have g4: "x_mon (pass g4 y) = x_mon y \<and> \<not> x_block y" by (intro pass_kept) blast+
  have k: "m_mask (x_mon x) = {2, 3} \<and> m_wr (x_mon y) = set_word 2 lo (m_wr (x_mon x)) \<and> m_rd (x_mon y) = m_rd (x_mon x)"
    using a g4 by (intro first_store(2) [OF m s1]) simp_all
  have "x_line z = set_word 3 hi (m_wr (x_mon y))" "m_rd (x_mon y) = fst g4 (x_line y)" "r' = 0"
    using a g4 by simp_all
  then show ?thesis unfolding first_store(1) [OF m s1] using k by (intro disjI2) simp
qed (simp add: first_store(1) [OF m s1])

lemma exchange_result:
  assumes "compare_exchange_64 (g1, g2, g3, g4) old val x = (success, old', x')"
    "l1 = fst g1 (x_line x)" "l2 = fst g2 l1" "l4 = fst g4 (fst g3 l2)"
  shows "if success then old' = old \<and> l4 = l1 \<and> lower old = word2 l1 \<and> upper old = word3 l2
      \<and> x_line x' = put_mailbox val l1
    else x_line x' = l4 \<and> old' = pair (word2 l1) (word3 l2)"
proof -
  let ?x = "loaded g1 g2 x"
  have r: "fst (ldrex 2 (pass g1 x)) = word2 l1" "x_line ?x = l2"
      "fst (ldrex 3 (pass g2 (snd (ldrex 2 (pass g1 x))))) = word3 l2"
    by (simp_all add: assms(2,3) words_def)
  obtain r2 y where s1: "strex 2 (lower val) (pass g3 ?x) = (r2, y)" by fastforce
  obtain r3 z where s2: "strex 3 (upper val) (pass g4 y) = (r3, z)" by fastforce
  have c: "compare_exchange_64 (g1, g2, g3, g4) old val x =
     (let eq = (lower old = word2 l1 \<and> upper old = word3 l2) in
      if eq then (r3 = 0, if r3 = 0 then old else pair (word2 l1) (word3 l2), z)
      else (False, pair (word2 l1) (word3 l2), pass g4 (pass g3 ?x)))"
    using s1 s2 r by (auto simp: Let_def loaded_def case_prod_beta)
  note st = stores_once [OF loaded_mask s1 s2]
  show ?thesis
  proof (cases "lower old = word2 l1 \<and> upper old = word3 l2")
    case eq: True
    from c have "(success, old', x') = (r3 = 0, if r3 = 0 then old else pair (word2 l1) (word3 l2), z)"
      unfolding assms(1) Let_def if_P [OF eq] .
    then have s: "success = (r3 = 0)" "x' = z"
        "old' = (if r3 = 0 then old else pair (word2 l1) (word3 l2))" by blast+
    from st show ?thesis
    proof
      assume "r3 = 1 \<and> x_line z = fst g4 (fst g3 (x_line ?x))"
      then show ?thesis using s r(2) assms(4) by simp
    next
      assume a: "r3 = 0 \<and> x_line z = set_word 3 (upper val) (set_word 2 (lower val) (m_wr (x_mon ?x)))
        \<and> m_rd (x_mon ?x) = fst g4 (fst g3 (x_line ?x)) \<and> m_mask (x_mon ?x) = {2, 3}"
      with loaded_latch [of g1 g2 x] s r(2) assms(2,4) eq show ?thesis by (simp add: two_stores)
    qed
  next
    case False
    from c have "(success, old', x') = (False, pair (word2 l1) (word3 l2), pass g4 (pass g3 ?x))"
      unfolding assms(1) Let_def if_not_P [OF False] .
    then have "\<not> success" "x' = pass g4 (pass g3 ?x)" "old' = pair (word2 l1) (word3 l2)"
      by blast+
    then show ?thesis using r(2) assms(4) by simp
  qed
qed

text \<open>
  C26. The exchange is all or nothing, whatever the other cores store into the line between its
  instructions and whatever exceptions interrupt it: when it returns 1, the line is at that moment
  as the first exclusive load found it, its low word and the high word that the second load found
  are those of \<open>*old\<close>, and both words of the mailbox are replaced by \<open>val\<close> in one store; when it
  returns 0, the core has stored nothing and \<open>*old\<close> holds the two words it loaded. No schedule
  stores one word alone.
\<close>

theorem exchange_is_all_or_nothing:
  assumes "compare_exchange_64 (g1, g2, g3, g4) old val x = (success, old', x')"
  shows "let l1 = fst g1 (x_line x); l2 = fst g2 l1; l4 = fst g4 (fst g3 l2) in
    if success then l4 = l1 \<and> lower old = word2 l1 \<and> upper old = word3 l2 \<and> old' = old
      \<and> x_line x' = put_mailbox val l4
    else x_line x' = l4 \<and> old' = pair (word2 l1) (word3 l2)"
  using exchange_result [OF assms refl refl refl] by (simp add: Let_def split: if_splits)

text \<open>An interrupt between the two exclusive stores, after the first has been tried.\<close>

lemma exchange_is_all_or_nothing_witness:
  "\<exists>old' x'. compare_exchange_64 ((id, No_Trap), (id, No_Trap), (id, No_Trap), (id, Trap)) (pair 7 8) (pair 1 2)
      \<lparr>x_line = Line 0 0 7 8, x_mon = \<lparr>m_here = False, m_mask = {}, m_dirty = False, m_rd = line_zero, m_wr = line_zero\<rparr>,
        x_block = True\<rparr> = (False, old', x')
    \<and> x_line x' = Line 0 0 7 8 \<and> old' = pair 7 8"
proof -
  let ?x = "\<lparr>x_line = Line 0 0 7 8, x_mon = \<lparr>m_here = False, m_mask = {}, m_dirty = False, m_rd = line_zero, m_wr = line_zero\<rparr>,
        x_block = True\<rparr>"
  obtain old' x' where c: "compare_exchange_64 ((id, No_Trap), (id, No_Trap), (id, No_Trap), (id, Trap)) (pair 7 8) (pair 1 2) ?x
      = (False, old', x')"
    by (simp add: ldrex_def strex_def acquire_def release_def words_def)
  from exchange_is_all_or_nothing [OF c] c show ?thesis by simp
qed

section \<open>A quiet line\<close>

text \<open>An attempt during which no other core stores into the line; exceptions may still come.\<close>

fun line_quiet :: "attempt \<Rightarrow> bool" where
  "line_quiet (g1, g2, g3, g4) \<longleftrightarrow>
     fst g1 = (\<lambda>l. l) \<and> fst g2 = (\<lambda>l. l) \<and> fst g3 = (\<lambda>l. l) \<and> fst g4 = (\<lambda>l. l)"

definition calm :: attempt where
  "calm = (((\<lambda>l. l), No_Trap), ((\<lambda>l. l), No_Trap), ((\<lambda>l. l), No_Trap), ((\<lambda>l. l), No_Trap))"

lemma quiet_exchange:
  assumes "line_quiet a" "compare_exchange_64 a old val x = (success, old', x')"
  shows "if success then old' = old \<and> old = mailbox (x_line x) \<and> x_line x' = put_mailbox val (x_line x)
    else old' = mailbox (x_line x) \<and> x_line x' = x_line x"
proof -
  obtain g1 g2 g3 g4 where a: "a = (g1, g2, g3, g4)" by (cases a)
  from exchange_result [OF assms(2) [unfolded a] refl refl refl] assms(1)
  show ?thesis by (auto simp: a mailbox_def pair_eq_iff split: if_splits)
qed

text \<open>An attempt nothing disturbs succeeds unless the monitor still held other words of the line.\<close>

definition clean :: "monitor \<Rightarrow> bool" where
  "clean m \<longleftrightarrow> (m_here m \<longrightarrow> 2 \<in> m_mask m \<or> m_dirty m \<or> m_mask m = {})"

lemma calm_exchange:
  assumes "clean (x_mon x)"
  shows "\<exists>x'. compare_exchange_64 calm (mailbox (x_line x)) val x = (True, mailbox (x_line x), x')"
proof -
  have "acquire 2 (x_line x) (x_mon x) = \<lparr>m_here = True, m_mask = {2}, m_dirty = False, m_rd = x_line x, m_wr = x_line x\<rparr>"
    using assms by (auto simp: clean_def acquire_def Let_def)
  then show ?thesis
    by (auto simp: calm_def mailbox_def ldrex_def strex_def release_def acquire_def Let_def words_def)
qed

lemma calm_cleans:
  assumes "compare_exchange_64 calm (mailbox (x_line x)) val x = (False, old', x')"
  shows "clean (x_mon x')"
  using assms
  by (auto simp: calm_def mailbox_def ldrex_def strex_def release_def acquire_def Let_def words_def clean_def
      split: if_splits)

declare compare_exchange_64.simps [simp del]

end
