(* ===== verification/Demo_Devices.thy ===== *)
theory Demo_Devices
  imports Demo_Util Demo_Atomic
begin

text \<open>
  The devices of the demo firmware: the multiprocessor control (\<open>demo/smp.c\<close>), the performance
  counters (\<open>demo/perf.c\<close>), memory accesses and the mailboxes between cores (\<open>demo/mem.c\<close>), the
  cache debugger (\<open>demo/cache.c\<close>) and the graphics unit (\<open>demo/gfx.c\<close>). The record \<open>demo\<close> adds the
  static variables of these files and of \<open>main.c\<close> to the console; \<open>all_cpus\<close> is the array of \<open>struct cpu\<close>,
  one cache line each, on which \<open>Demo_Atomic\<close> runs the exchange of a mailbox.
\<close>

record 's demo = "'s console" +
  all_cpus :: "line list"
  boot_done :: bool
  boot_num :: u32
  swap_buffers :: bool
  clear_color :: u32
  data_size :: u32

definition load :: "'s mmio \<Rightarrow> u32 \<Rightarrow> ('s, 'x) console_scheme \<Rightarrow> u32 \<times> ('s, 'x) console_scheme" where
  "load b a s = (let (v, h) = bus_read b (hw s) a in (v, s\<lparr>hw := h\<rparr>))"

definition store :: "'s mmio \<Rightarrow> u32 \<Rightarrow> u32 \<Rightarrow> ('s, 'x) console_scheme \<Rightarrow> ('s, 'x) console_scheme" where
  "store b a v s = s\<lparr>hw := bus_write b (hw s) a v\<rparr>"

section \<open>Multiprocessor control\<close>

definition SMP_CTRL :: u32 where "SMP_CTRL = 0x30140000"

definition cpu_is_alive :: "'s mmio \<Rightarrow> nat \<Rightarrow> ('s, 'x) console_scheme \<Rightarrow> bool \<times> ('s, 'x) console_scheme" where
  "cpu_is_alive b num s = (let (v, s) = load b SMP_CTRL s in (v AND push_bit (num * 8) 0b100 \<noteq> 0, s))"

text \<open>The loops of \<open>run_cpus\<close> and \<open>halt_cpus\<close> over the cores of a list.\<close>

fun run_cpus_loop :: "'s mmio \<Rightarrow> u32 \<Rightarrow> u32 \<Rightarrow> u32 \<Rightarrow> nat list \<Rightarrow> u32 \<Rightarrow> ('s, 'x) console_scheme
    \<Rightarrow> (u32 \<times> ('s, 'x) console_scheme) res" where
  "run_cpus_loop b me msk ctrl_read [] ctrl_word s = Inr (ctrl_word, s)"
| "run_cpus_loop b me msk ctrl_read (cpu # cpus) ctrl_word s =
     (if msk AND push_bit cpu 1 = 0 then run_cpus_loop b me msk ctrl_read cpus ctrl_word s
      else if ctrl_read AND push_bit (cpu * 8) 0b001 \<noteq> 0 then
        bind_res (print b me ''run cpu%u'' [Va_Int (of_nat cpu)] s)
          (run_cpus_loop b me msk ctrl_read cpus (ctrl_word OR push_bit (cpu * 8) 0b001))
      else
        bind_res (print b me ''cpu%u already running'' [Va_Int (of_nat cpu)] s)
          (run_cpus_loop b me msk ctrl_read cpus ctrl_word))"

definition run_cpus :: "'s mmio \<Rightarrow> u32 \<Rightarrow> u32 \<Rightarrow> ('s, 'x) console_scheme \<Rightarrow> ('s, 'x) console_scheme res" where
  "run_cpus b me msk s =
     (let (ctrl_read, s) = load b SMP_CTRL s in
      bind_res (run_cpus_loop b me msk ctrl_read [0..<NUM_CPUS] 0 s) (\<lambda>(ctrl_word, s).
        Inr (store b SMP_CTRL ctrl_word s)))"

definition run_cpu :: "'s mmio \<Rightarrow> u32 \<Rightarrow> nat \<Rightarrow> ('s, 'x) console_scheme \<Rightarrow> ('s, 'x) console_scheme res" where
  "run_cpu b me num s = run_cpus b me (push_bit num 1) s"

fun halt_cpus_loop :: "'s mmio \<Rightarrow> u32 \<Rightarrow> u32 \<Rightarrow> u32 \<Rightarrow> nat list \<Rightarrow> u32 \<Rightarrow> ('s, 'x) console_scheme
    \<Rightarrow> (u32 \<times> ('s, 'x) console_scheme) res" where
  "halt_cpus_loop b me msk ctrl_read [] ctrl_word s = Inr (ctrl_word, s)"
| "halt_cpus_loop b me msk ctrl_read (cpu # cpus) ctrl_word s =
     (if msk AND push_bit cpu 1 = 0 then halt_cpus_loop b me msk ctrl_read cpus ctrl_word s
      else if ctrl_read AND push_bit (cpu * 8) 0b001 = 0 then
        bind_res (print b me ''halt cpu%u%s'' [Va_Int (of_nat cpu), Va_Str (if of_nat cpu = me then '' (myself)'' else [])] s)
          (halt_cpus_loop b me msk ctrl_read cpus (ctrl_word OR push_bit (cpu * 8) 0b010))
      else
        bind_res (print b me ''cpu%u already halted'' [Va_Int (of_nat cpu)] s)
          (halt_cpus_loop b me msk ctrl_read cpus ctrl_word))"

definition halt_cpus :: "'s mmio \<Rightarrow> u32 \<Rightarrow> u32 \<Rightarrow> ('s, 'x) console_scheme \<Rightarrow> ('s, 'x) console_scheme res" where
  "halt_cpus b me msk s =
     (let (ctrl_read, s) = load b SMP_CTRL s in
      bind_res (halt_cpus_loop b me msk ctrl_read [0..<NUM_CPUS] 0 s) (\<lambda>(ctrl_word, s).
        Inr (store b SMP_CTRL ctrl_word s)))"

definition halt_cpu :: "'s mmio \<Rightarrow> u32 \<Rightarrow> nat \<Rightarrow> ('s, 'x) console_scheme \<Rightarrow> ('s, 'x) console_scheme res" where
  "halt_cpu b me num s = halt_cpus b me (push_bit num 1) s"

section \<open>Performance counters\<close>

definition PERF_BASE :: "u32 \<Rightarrow> u32" where "PERF_BASE n = 0x30150000 OR (0x40 * n)"
definition PERF_MIN_MASK :: u32 where "PERF_MIN_MASK = 0x0000ffff"
definition PERF_MAX_MASK :: u32 where "PERF_MAX_MASK = 0xffff0000"
definition PERF_MAX_SHIFT :: nat where "PERF_MAX_SHIFT = 16"

definition perf_min :: "u32 \<Rightarrow> u32" where "perf_min cycles = cycles AND PERF_MIN_MASK"
definition perf_max :: "u32 \<Rightarrow> u32" where "perf_max cycles = drop_bit PERF_MAX_SHIFT (cycles AND PERF_MAX_MASK)"

definition perf_show :: "'s mmio \<Rightarrow> u32 \<Rightarrow> u32 \<Rightarrow> ('s, 'x) console_scheme \<Rightarrow> ('s, 'x) console_scheme res" where
  "perf_show b me cpu s =
     bind_res (print b me ''dumping performance counters for cpu%u'' [Va_Int cpu] s) (\<lambda>s.
     let (mem_reads, s) = load b (PERF_BASE cpu) s;
         (mem_writes, s) = load b (PERF_BASE cpu + 4) s;
         (read_cycles, s) = load b (PERF_BASE cpu + 8) s;
         (write_cycles, s) = load b (PERF_BASE cpu + 12) s;
         (ring_reads, s) = load b (PERF_BASE cpu + 16) s;
         (ring_invals, s) = load b (PERF_BASE cpu + 20) s;
         (ring_read_invals, s) = load b (PERF_BASE cpu + 24) s;
         (ring_replies, s) = load b (PERF_BASE cpu + 28) s;
         (ring_forwards, s) = load b (PERF_BASE cpu + 32) s;
         (ring_cycles, s) = load b (PERF_BASE cpu + 36) s;
         (io_reads, s) = load b (PERF_BASE cpu + 40) s;
         (io_writes, s) = load b (PERF_BASE cpu + 44) s;
         ring_sends = ring_reads + ring_invals + ring_read_invals
     in
     bind_res (print b me ''requests:         sends=%u forwards=%u replies=%u''
       [Va_Int ring_sends, Va_Int ring_forwards, Va_Int ring_replies] s) (\<lambda>s.
     bind_res (print b me ''requests sent:    read=%u inval=%u read_inval=%u''
       [Va_Int ring_reads, Va_Int ring_invals, Va_Int ring_read_invals] s) (\<lambda>s.
     bind_res (print b me ''memory:           misses=%u writebacks=%u'' [Va_Int mem_reads, Va_Int mem_writes] s) (\<lambda>s.
     bind_res (print b me ''uncached i/o:     reads=%u writes=%u'' [Va_Int io_reads, Va_Int io_writes] s) (\<lambda>s.
     bind_res (print b me ''ring cycles:      min=%u max=%u''
       [Va_Int (perf_min ring_cycles), Va_Int (perf_max ring_cycles)] s) (\<lambda>s.
     bind_res (print b me ''mem read cycles:  min=%u max=%u''
       [Va_Int (perf_min read_cycles), Va_Int (perf_max read_cycles)] s) (\<lambda>s.
     print b me ''mem write cycles: min=%u max=%u''
       [Va_Int (perf_min write_cycles), Va_Int (perf_max write_cycles)] s)))))))"

definition perf_clear :: "'s mmio \<Rightarrow> u32 \<Rightarrow> u32 \<Rightarrow> ('s, 'x) console_scheme \<Rightarrow> ('s, 'x) console_scheme res" where
  "perf_clear b me cpu s =
     print b me ''cleared performance counters for cpu%u'' [Va_Int cpu] (store b (PERF_BASE cpu) 0 s)"

section \<open>Memory and mailboxes\<close>

definition do_read :: "'s mmio \<Rightarrow> u32 \<Rightarrow> u32 \<Rightarrow> ('s, 'x) console_scheme \<Rightarrow> ('s, 'x) console_scheme res" where
  "do_read b me ptr s = (let (v, s) = load b ptr s in print b me ''%p -> %x'' [Va_Int ptr, Va_Int v] s)"

definition do_write :: "'s mmio \<Rightarrow> u32 \<Rightarrow> u32 \<Rightarrow> u32 \<Rightarrow> ('s, 'x) console_scheme \<Rightarrow> ('s, 'x) console_scheme res" where
  "do_write b me ptr val s = print b me ''%p <- %x'' [Va_Int ptr, Va_Int val] (store b ptr val s)"

text \<open>
  What the rest of the system does during an exchange with a mailbox: to the line between the two
  loads of the first read of the mailbox, and during each attempt (\<open>Demo_Atomic\<close>); and how the
  monitor and \<open>block_strex\<close> are when the function is called. When no attempt is left the loop spins.
\<close>

record contention =
  c_between :: "line \<Rightarrow> line"
  c_mon :: monitor
  c_block :: bool
  c_tries :: "attempt list"

definition first_read :: "contention \<Rightarrow> line \<Rightarrow> u64" where
  "first_read c l = pair (word2 l) (word3 (c_between c l))"

definition enter :: "contention \<Rightarrow> line \<Rightarrow> exclusive" where
  "enter c l = \<lparr>x_line = c_between c l, x_mon = c_mon c, x_block = c_block c\<rparr>"

fun send_loop :: "attempt list \<Rightarrow> u64 \<Rightarrow> u64 \<Rightarrow> exclusive \<Rightarrow> exclusive res" where
  "send_loop [] send_word current x = Inl Spins"
| "send_loop (a # attempts) send_word current x =
     (let (success, current, x) = compare_exchange_64 a current send_word x in
      if success then Inr x else send_loop attempts send_word current x)"

definition send_word :: "u32 \<Rightarrow> u32 \<Rightarrow> u32 \<Rightarrow> u64" where
  "send_word ptr wr val =
     (let ptr_val = ptr AND NOT 0b11 in
      push_bit 32 (ucast ptr_val OR push_bit 1 (ucast (wr AND 1)) OR 1) OR ucast val)"

definition remote_send :: "contention \<Rightarrow> u32 \<Rightarrow> u32 \<Rightarrow> u32 \<Rightarrow> u32 \<Rightarrow> ('s, 'x) demo_scheme \<Rightarrow> ('s, 'x) demo_scheme res" where
  "remote_send c cpu ptr wr val s =
     (if length (all_cpus s) \<le> unat cpu then Inl Out_Of_Bounds
      else let l = all_cpus s ! unat cpu in
        bind_res (send_loop (c_tries c) (send_word ptr wr val) (first_read c l) (enter c l)) (\<lambda>x.
          Inr (s\<lparr>all_cpus := (all_cpus s)[unat cpu := x_line x]\<rparr>)))"

fun recv_loop :: "attempt list \<Rightarrow> u64 \<Rightarrow> exclusive \<Rightarrow> (u64 \<times> exclusive) res" where
  "recv_loop [] current x = Inl Spins"
| "recv_loop (a # attempts) current x =
     (let (success, current, x) = compare_exchange_64 a current 0 x in
      if success \<and> current \<noteq> 0 then Inr (current, x) else recv_loop attempts current x)"

definition remote_recv :: "contention \<Rightarrow> u32 \<Rightarrow> ('s, 'x) demo_scheme \<Rightarrow> ((u32 \<times> u32 \<times> u32) \<times> ('s, 'x) demo_scheme) res" where
  "remote_recv c me s =
     (if length (all_cpus s) \<le> unat me then Inl Out_Of_Bounds
      else let l = all_cpus s ! unat me in
        bind_res (recv_loop (c_tries c) (first_read c l) (enter c l)) (\<lambda>(current, x).
          Inr ((ucast (drop_bit 32 current AND NOT 0b11), ucast (drop_bit 33 current AND 1), ucast current),
               s\<lparr>all_cpus := (all_cpus s)[unat me := x_line x]\<rparr>)))"

section \<open>The cache debugger\<close>

definition CACHE_DEBUG_BASE :: "u32 \<Rightarrow> u32" where "CACHE_DEBUG_BASE n = 0x30100000 OR (0x10000 * n)"
definition CACHE_DEBUG_WORD :: "u32 \<Rightarrow> u32 \<Rightarrow> u32" where "CACHE_DEBUG_WORD n i = CACHE_DEBUG_BASE n + 16 + 4 * i"
definition CACHE_STATUS_CACHED :: u32 where "CACHE_STATUS_CACHED = push_bit 1 1"
definition CACHE_STATUS_STATE_MASK :: u32 where "CACHE_STATUS_STATE_MASK = 0x0000000c"
definition CACHE_STATUS_STATE_SHIFT :: nat where "CACHE_STATUS_STATE_SHIFT = 2"
definition CACHE_STATUS_INDEX_MASK :: u32 where "CACHE_STATUS_INDEX_MASK = 0x0000fff0"
definition CACHE_STATUS_INDEX_SHIFT :: nat where "CACHE_STATUS_INDEX_SHIFT = 4"
definition CACHE_STATUS_INDEX_BITS :: u32 where "CACHE_STATUS_INDEX_BITS = 12"
definition CACHE_STATUS_TAG_MASK :: u32 where "CACHE_STATUS_TAG_MASK = 0x1fff0000"
definition CACHE_STATUS_TAG_SHIFT :: nat where "CACHE_STATUS_TAG_SHIFT = 16"
definition CACHE_STATUS_TAG_BITS :: u32 where "CACHE_STATUS_TAG_BITS = 13"

lemmas cache_registers =
  CACHE_STATUS_CACHED_def CACHE_STATUS_STATE_MASK_def CACHE_STATUS_STATE_SHIFT_def CACHE_STATUS_INDEX_MASK_def
  CACHE_STATUS_INDEX_SHIFT_def CACHE_STATUS_INDEX_BITS_def CACHE_STATUS_TAG_MASK_def CACHE_STATUS_TAG_SHIFT_def
  CACHE_STATUS_TAG_BITS_def

text \<open>The states of a cache line, \<open>CACHE_STATUS_STATE_I\<close> to \<open>CACHE_STATUS_STATE_M\<close>.\<close>

datatype line_state = Line_I | Line_S | Line_E | Line_M

definition state_of_status :: "u32 \<Rightarrow> line_state" where
  "state_of_status status =
     (let n = drop_bit CACHE_STATUS_STATE_SHIFT (status AND CACHE_STATUS_STATE_MASK) in
      if n = 0b00 then Line_I else if n = 0b01 then Line_S else if n = 0b10 then Line_E else Line_M)"

text \<open>\<open>valid\<close>, \<open>dirty\<close> and \<open>state\<close> of the \<open>switch\<close>.\<close>

fun line_flags :: "line_state \<Rightarrow> u32 \<times> u32 \<times> string" where
  "line_flags Line_I = (0, 0, ''INVALID'')"
| "line_flags Line_S = (1, 0, ''SHARED'')"
| "line_flags Line_E = (1, 0, ''EXCLUSIVE'')"
| "line_flags Line_M = (1, 1, ''MODIFIED'')"

text \<open>
  The states in the order of their numbers: a line is valid from \<open>Line_S\<close> on, and dirty in
  \<open>Line_M\<close>, the largest.
\<close>

fun state_number :: "line_state \<Rightarrow> nat" where
  "state_number Line_I = 0"
| "state_number Line_S = 1"
| "state_number Line_E = 2"
| "state_number Line_M = 3"

lemma state_number_inject: "state_number s = state_number t \<longleftrightarrow> s = t"
  by (cases s; cases t) simp_all

instantiation line_state :: linorder
begin

definition less_eq_line_state where
  "s \<le> t \<longleftrightarrow> state_number s \<le> state_number t" for s t :: line_state

definition less_line_state where
  "s < t \<longleftrightarrow> state_number s < state_number t" for s t :: line_state

instance
  by standard (auto simp: less_eq_line_state_def less_line_state_def simp flip: state_number_inject)

end

lemma line_flags_ordered: "line_flags st = (of_bool (Line_S \<le> st), of_bool (Line_M \<le> st), snd (snd (line_flags st)))"
  by (cases st) (simp_all add: less_eq_line_state_def)

lemma state_of_number: "state_of_status (push_bit CACHE_STATUS_STATE_SHIFT (of_nat (state_number st))) = st"
  by (cases st) (simp_all add: state_of_status_def cache_registers)

fun cache_words :: "'s mmio \<Rightarrow> u32 \<Rightarrow> u32 \<Rightarrow> u32 \<Rightarrow> nat list \<Rightarrow> ('s, 'x) console_scheme \<Rightarrow> ('s, 'x) console_scheme res" where
  "cache_words b me cpu line_addr [] s = Inr s"
| "cache_words b me cpu line_addr (i # is) s =
     (let (w, s) = load b (CACHE_DEBUG_WORD cpu (of_nat i)) s in
      bind_res (print b me ''%p: %x'' [Va_Int (line_addr OR push_bit CACHE_STATUS_STATE_SHIFT (of_nat i)), Va_Int w] s)
        (cache_words b me cpu line_addr is))"

definition cache_debug :: "'s mmio \<Rightarrow> u32 \<Rightarrow> u32 \<Rightarrow> u32 \<Rightarrow> ('s, 'x) console_scheme \<Rightarrow> ('s, 'x) console_scheme res" where
  "cache_debug b me cpu ptr s =
     (let s = store b (CACHE_DEBUG_BASE cpu) ptr s;
          (status, s) = load b (CACHE_DEBUG_BASE cpu) s;
          cached = status AND CACHE_STATUS_CACHED
      in
      bind_res (print b me ''req_addr:     %p'' [Va_Int ptr] s) (\<lambda>s.
      bind_res (print b me ''cacheability: %s'' [Va_Str (if cached \<noteq> 0 then ''write-back'' else ''uncached (I/O)'')] s) (\<lambda>s.
      if cached = 0 then Inr s
      else
        let index = drop_bit CACHE_STATUS_INDEX_SHIFT (status AND CACHE_STATUS_INDEX_MASK);
            addr_tag = drop_bit CACHE_STATUS_TAG_SHIFT (ptr AND CACHE_STATUS_TAG_MASK);
            cache_tag = drop_bit CACHE_STATUS_TAG_SHIFT (status AND CACHE_STATUS_TAG_MASK);
            line_addr = status AND (CACHE_STATUS_TAG_MASK OR CACHE_STATUS_INDEX_MASK)
        in
        bind_res (print b me ''index:        %r'' [Va_Int index, Va_Int CACHE_STATUS_INDEX_BITS] s) (\<lambda>s.
        bind_res (print b me ''req_tag:      %r'' [Va_Int addr_tag, Va_Int CACHE_STATUS_TAG_BITS] s) (\<lambda>s.
        bind_res (print b me ''cache_tag:    %r'' [Va_Int cache_tag, Va_Int CACHE_STATUS_TAG_BITS] s) (\<lambda>s.
        bind_res (print b me ''req_line:     %p''
          [Va_Int (ptr AND (CACHE_STATUS_TAG_MASK OR CACHE_STATUS_INDEX_MASK))] s) (\<lambda>s.
        bind_res (print b me ''cache_line:   %p'' [Va_Int line_addr] s) (\<lambda>s.
        let (valid, dirty, state) = line_flags (state_of_status status) in
        bind_res (print b me ''valid=%d dirty=%d state=%s'' [Va_Int valid, Va_Int dirty, Va_Str state] s) (\<lambda>s.
        bind_res (print b me ''access is a %s on cpu%u''
          [Va_Str (if valid \<noteq> 0 \<and> addr_tag = cache_tag then ''hit'' else ''miss''), Va_Int cpu] s) (\<lambda>s.
        cache_words b me cpu line_addr [0..<4] s))))))))))"

section \<open>Graphics\<close>

definition GFX_VRAM_BASE :: u32 where "GFX_VRAM_BASE = 0x38000000"
definition GFX_CMD_BASE :: u32 where "GFX_CMD_BASE = 0x3c000000"
definition GFX_CMD_SCAN :: u32 where "GFX_CMD_SCAN = GFX_CMD_BASE + 4"
definition GFX_CMD_HEADER_BASE :: u32 where "GFX_CMD_HEADER_BASE = GFX_CMD_BASE + 8"
definition GFX_CMD_HEADER_SIZE :: u32 where "GFX_CMD_HEADER_SIZE = GFX_CMD_BASE + 12"
definition GFX_CMD_FB_BASE_A :: u32 where "GFX_CMD_FB_BASE_A = GFX_CMD_BASE + 16"
definition GFX_CMD_FB_BASE_B :: u32 where "GFX_CMD_FB_BASE_B = GFX_CMD_BASE + 20"
definition FB_BASE_A :: u32 where "FB_BASE_A = 0x000000"
definition FB_BASE_B :: u32 where "FB_BASE_B = 0x200000"
definition HEADER_BASE :: u32 where "HEADER_BASE = 0x400000"
definition HEADER_SIZE :: u32 where "HEADER_SIZE = 1 - 1"
definition CODE_BASE :: u32 where "CODE_BASE = 0x500000"
definition DATA_BASE :: u32 where "DATA_BASE = 0x600000"
definition VRAM_HEADER_CODE_BASE :: u32 where "VRAM_HEADER_CODE_BASE = GFX_VRAM_BASE + HEADER_BASE + 0"
definition VRAM_HEADER_CODE_SIZE :: u32 where "VRAM_HEADER_CODE_SIZE = GFX_VRAM_BASE + HEADER_BASE + 4"
definition VRAM_HEADER_DATA_BASE :: u32 where "VRAM_HEADER_DATA_BASE = GFX_VRAM_BASE + HEADER_BASE + 8"
definition VRAM_HEADER_DATA_SIZE :: u32 where "VRAM_HEADER_DATA_SIZE = GFX_VRAM_BASE + HEADER_BASE + 12"
definition VRAM_CODE :: u32 where "VRAM_CODE = GFX_VRAM_BASE + CODE_BASE"
definition VRAM_DATA :: u32 where "VRAM_DATA = GFX_VRAM_BASE + DATA_BASE"

lemmas gfx_registers =
  GFX_VRAM_BASE_def GFX_CMD_BASE_def GFX_CMD_SCAN_def GFX_CMD_HEADER_BASE_def GFX_CMD_HEADER_SIZE_def
  GFX_CMD_FB_BASE_A_def GFX_CMD_FB_BASE_B_def FB_BASE_A_def FB_BASE_B_def HEADER_BASE_def HEADER_SIZE_def
  CODE_BASE_def DATA_BASE_def VRAM_HEADER_CODE_BASE_def VRAM_HEADER_CODE_SIZE_def VRAM_HEADER_DATA_BASE_def
  VRAM_HEADER_DATA_SIZE_def VRAM_CODE_def VRAM_DATA_def

definition scan_word :: "u32 \<Rightarrow> bool \<Rightarrow> bool \<Rightarrow> u32" where
  "scan_word color swapped do_clear =
     0x02000000 OR color OR (if swapped then 0x01000000 else 0) OR (if do_clear then 0x04000000 else 0)"

definition gfx_write_scan :: "'s mmio \<Rightarrow> bool \<Rightarrow> ('s, 'x) demo_scheme \<Rightarrow> ('s, 'x) demo_scheme" where
  "gfx_write_scan b do_clear s = store b GFX_CMD_SCAN (scan_word (clear_color s) (swap_buffers s) do_clear) s"

text \<open>The word \<open>i\<close> of the program, least significant byte first.\<close>

definition rom_word :: "u8 list \<Rightarrow> nat \<Rightarrow> u32" where
  "rom_word rom i =
     ucast (rom ! (4 * i)) OR push_bit 8 (ucast (rom ! (4 * i + 1)))
       OR push_bit 16 (ucast (rom ! (4 * i + 2))) OR push_bit 24 (ucast (rom ! (4 * i + 3)))"

text \<open>
  \<open>rom\<close> is the program linked into the firmware and \<open>start\<close> its address; a read behind its end
  is out of bounds.
\<close>

fun gfx_load_code :: "'s mmio \<Rightarrow> u8 list \<Rightarrow> nat list \<Rightarrow> ('s, 'x) demo_scheme \<Rightarrow> ('s, 'x) demo_scheme res" where
  "gfx_load_code b rom [] s = Inr s"
| "gfx_load_code b rom (i # is) s =
     (if length rom \<le> 4 * i + 3 then Inl Out_Of_Bounds
      else gfx_load_code b rom is (store b (VRAM_CODE + 4 * of_nat i) (rom_word rom i) s))"

definition gfx_init :: "'s mmio \<Rightarrow> u32 \<Rightarrow> u8 list \<Rightarrow> u32 \<Rightarrow> ('s, 'x) demo_scheme \<Rightarrow> ('s, 'x) demo_scheme res" where
  "gfx_init b me rom start s =
     (let s = gfx_write_scan b True (s\<lparr>data_size := 0, clear_color := 0, swap_buffers := False\<rparr>);
          s = store b GFX_CMD_FB_BASE_A FB_BASE_A s;
          s = store b GFX_CMD_FB_BASE_B FB_BASE_B s;
          s = store b GFX_CMD_HEADER_BASE HEADER_BASE s;
          size_bytes = of_nat (length rom) :: u32
      in
      bind_res (print b me ''gfx: loading %u bytes program at %p'' [Va_Int size_bytes, Va_Int start] s) (\<lambda>s.
      bind_res (gfx_load_code b rom [0..<unat (size_bytes div 4)] s) (\<lambda>s.
      let s = store b VRAM_HEADER_CODE_BASE CODE_BASE s;
          s = store b VRAM_HEADER_CODE_SIZE (size_bytes div 4 - 1) s;
          s = store b VRAM_HEADER_DATA_BASE DATA_BASE s
      in Inr (store b VRAM_HEADER_DATA_SIZE 0 s))))"

definition gfx_clear :: "'s mmio \<Rightarrow> ('s, 'x) demo_scheme \<Rightarrow> ('s, 'x) demo_scheme" where
  "gfx_clear b s = gfx_write_scan b True (store b VRAM_HEADER_DATA_SIZE 0 (s\<lparr>data_size := 0\<rparr>))"

definition gfx_swap :: "'s mmio \<Rightarrow> ('s, 'x) demo_scheme \<Rightarrow> ('s, 'x) demo_scheme" where
  "gfx_swap b s = gfx_write_scan b False (s\<lparr>swap_buffers := \<not> swap_buffers s\<rparr>)"

definition gfx_draw :: "'s mmio \<Rightarrow> ('s, 'x) demo_scheme \<Rightarrow> ('s, 'x) demo_scheme" where
  "gfx_draw b s = store b GFX_CMD_HEADER_SIZE HEADER_SIZE s"

definition gfx_bg :: "'s mmio \<Rightarrow> u32 \<Rightarrow> ('s, 'x) demo_scheme \<Rightarrow> ('s, 'x) demo_scheme" where
  "gfx_bg b color s = gfx_write_scan b False (s\<lparr>clear_color := color\<rparr>)"

text \<open>The stores of \<open>gfx_data\<close>: half-words of \<open>data\<close> from index \<open>i\<close> on.\<close>

fun gfx_lanes :: "'s mmio \<Rightarrow> u32 \<Rightarrow> u32 \<Rightarrow> u16 list \<Rightarrow> ('s, 'x) demo_scheme \<Rightarrow> ('s, 'x) demo_scheme" where
  "gfx_lanes b vec_num i [] s = s"
| "gfx_lanes b vec_num i (x # xs) s =
     gfx_lanes b vec_num (i + 1) xs
       (s\<lparr>hw := bus_write16 b (hw s) (VRAM_DATA + 2 * (push_bit 2 vec_num OR i)) x\<rparr>)"

definition gfx_data :: "'s mmio \<Rightarrow> u32 \<Rightarrow> u32 \<Rightarrow> u16 list \<Rightarrow> ('s, 'x) demo_scheme \<Rightarrow> ('s, 'x) demo_scheme res" where
  "gfx_data b block ln data s =
     (if length data < 4 then Inl Out_Of_Bounds
      else
        let vec_num = push_bit 2 block OR ln;
            s = gfx_lanes b vec_num 0 (take 4 data) s
        in if data_size s < vec_num + 1
           then let s = s\<lparr>data_size := vec_num + 1\<rparr> in Inr (store b VRAM_HEADER_DATA_SIZE (data_size s) s)
           else Inr s)"

end
