(* ===== verification/Demo_Main.thy ===== *)
theory Demo_Main
  imports Demo_Devices
begin

text \<open>
  The demo program (\<open>demo/main.c\<close>): the commands of the shell, the start of the cores one after
  the other, the main loops of the first core and of the others, and \<open>reset\<close>. A loop without end
  runs through a list of rounds, each with what the rest of the system does during it: the
  schedule of \<open>read_line\<close>, or the contention for a mailbox (\<open>att\<close>). \<open>_boot_num\<close>, which the
  start code counts up, is the field \<open>boot_num\<close>.
\<close>

section \<open>Commands\<close>

text \<open>The rest of a command, unless the parser returned -1.\<close>

definition and_then :: "('a option \<times> string \<times> 's) res \<Rightarrow> ('a \<Rightarrow> string \<Rightarrow> 's \<Rightarrow> 's res) \<Rightarrow> 's res" where
  "and_then m f = bind_res m (\<lambda>(r, tokens, s). case r of None \<Rightarrow> Inr s | Some v \<Rightarrow> f v tokens s)"

definition quoted :: "string \<Rightarrow> string" where
  "quoted t = t @ [CHR 0x27] @ ''%s'' @ [CHR 0x27]"

definition unknown_command :: "'s mmio \<Rightarrow> u32 \<Rightarrow> string \<Rightarrow> ('s, 'x) demo_scheme \<Rightarrow> ('s, 'x) demo_scheme res" where
  "unknown_command b me cmd s = print b me (quoted ''unknown command '') [Va_Str cmd] s"

definition cmd_run :: "'s mmio \<Rightarrow> u32 \<Rightarrow> string \<Rightarrow> ('s, 'x) demo_scheme \<Rightarrow> ('s, 'x) demo_scheme res" where
  "cmd_run b me tokens s = and_then (parse_cpu_mask b me tokens s) (\<lambda>msk _ s. run_cpus b me msk s)"

definition cmd_halt :: "'s mmio \<Rightarrow> u32 \<Rightarrow> string \<Rightarrow> ('s, 'x) demo_scheme \<Rightarrow> ('s, 'x) demo_scheme res" where
  "cmd_halt b me tokens s = and_then (parse_cpu_mask b me tokens s) (\<lambda>msk _ s. halt_cpus b me msk s)"

definition cmd_read :: "'s mmio \<Rightarrow> u32 \<Rightarrow> string \<Rightarrow> ('s, 'x) demo_scheme \<Rightarrow> ('s, 'x) demo_scheme res" where
  "cmd_read b me tokens s =
     and_then (parse_aligned b me tokens s) (\<lambda>ptr tokens s.
     and_then (expect_end b me tokens s) (\<lambda>_ _ s. do_read b me ptr s))"

definition cmd_write :: "'s mmio \<Rightarrow> u32 \<Rightarrow> string \<Rightarrow> ('s, 'x) demo_scheme \<Rightarrow> ('s, 'x) demo_scheme res" where
  "cmd_write b me tokens s =
     and_then (parse_aligned b me tokens s) (\<lambda>ptr tokens s.
     and_then (parse_hex b me tokens s) (\<lambda>val tokens s.
     and_then (expect_end b me tokens s) (\<lambda>_ _ s. do_write b me ptr val s)))"

definition cmd_cache :: "'s mmio \<Rightarrow> u32 \<Rightarrow> string \<Rightarrow> ('s, 'x) demo_scheme \<Rightarrow> ('s, 'x) demo_scheme res" where
  "cmd_cache b me tokens s =
     and_then (parse_cpu b me tokens s) (\<lambda>cpu tokens s.
     and_then (parse_ptr b me tokens s) (\<lambda>ptr _ s. cache_debug b me cpu ptr s))"

definition cmd_perf :: "'s mmio \<Rightarrow> u32 \<Rightarrow> string \<Rightarrow> ('s, 'x) demo_scheme \<Rightarrow> ('s, 'x) demo_scheme res" where
  "cmd_perf b me tokens s =
     and_then (parse_cpu b me tokens s) (\<lambda>cpu tokens s.
     case strtok_input tokens of
       (None, _) \<Rightarrow> unexpected_eof b me s
     | (Some cmd, tokens) \<Rightarrow> and_then (expect_end b me tokens s) (\<lambda>_ _ s.
         if strcmp cmd ''clear'' = 0 then perf_clear b me cpu s
         else if strcmp cmd ''show'' = 0 then perf_show b me cpu s
         else unknown_command b me cmd s))"

definition cmd_remote_read :: "'s mmio \<Rightarrow> contention \<Rightarrow> u32 \<Rightarrow> string \<Rightarrow> u32 \<Rightarrow> ('s, 'x) demo_scheme \<Rightarrow> ('s, 'x) demo_scheme res" where
  "cmd_remote_read b att me tokens cpu s =
     and_then (parse_aligned b me tokens s) (\<lambda>ptr tokens s.
     and_then (expect_end b me tokens s) (\<lambda>_ _ s. remote_send att cpu ptr 0 0 s))"

definition cmd_remote_write :: "'s mmio \<Rightarrow> contention \<Rightarrow> u32 \<Rightarrow> string \<Rightarrow> u32 \<Rightarrow> ('s, 'x) demo_scheme \<Rightarrow> ('s, 'x) demo_scheme res" where
  "cmd_remote_write b att me tokens cpu s =
     and_then (parse_aligned b me tokens s) (\<lambda>ptr tokens s.
     and_then (parse_hex b me tokens s) (\<lambda>val tokens s.
     and_then (expect_end b me tokens s) (\<lambda>_ _ s. remote_send att cpu ptr 1 val s)))"

definition cmd_remote :: "'s mmio \<Rightarrow> contention \<Rightarrow> u32 \<Rightarrow> string \<Rightarrow> ('s, 'x) demo_scheme \<Rightarrow> ('s, 'x) demo_scheme res" where
  "cmd_remote b att me tokens s =
     and_then (parse_cpu b me tokens s) (\<lambda>cpu tokens s.
     if cpu = 0 then print b me ''cannot send remote cmd to bsp'' [] s
     else case strtok_input tokens of
       (None, _) \<Rightarrow> unexpected_eof b me s
     | (Some cmd, tokens) \<Rightarrow>
         if strcmp cmd ''read'' = 0 then cmd_remote_read b att me tokens cpu s
         else if strcmp cmd ''write'' = 0 then cmd_remote_write b att me tokens cpu s
         else unknown_command b me cmd s)"

definition cmd_gfx_swap :: "'s mmio \<Rightarrow> u32 \<Rightarrow> string \<Rightarrow> ('s, 'x) demo_scheme \<Rightarrow> ('s, 'x) demo_scheme res" where
  "cmd_gfx_swap b me tokens s = and_then (expect_end b me tokens s) (\<lambda>_ _ s. Inr (gfx_swap b s))"

definition cmd_gfx_draw :: "'s mmio \<Rightarrow> u32 \<Rightarrow> string \<Rightarrow> ('s, 'x) demo_scheme \<Rightarrow> ('s, 'x) demo_scheme res" where
  "cmd_gfx_draw b me tokens s = and_then (expect_end b me tokens s) (\<lambda>_ _ s. Inr (gfx_draw b s))"

definition cmd_gfx_clear :: "'s mmio \<Rightarrow> u32 \<Rightarrow> string \<Rightarrow> ('s, 'x) demo_scheme \<Rightarrow> ('s, 'x) demo_scheme res" where
  "cmd_gfx_clear b me tokens s = and_then (expect_end b me tokens s) (\<lambda>_ _ s. Inr (gfx_clear b s))"

definition cmd_gfx_data :: "'s mmio \<Rightarrow> u32 \<Rightarrow> string \<Rightarrow> ('s, 'x) demo_scheme \<Rightarrow> ('s, 'x) demo_scheme res" where
  "cmd_gfx_data b me tokens s =
     and_then (parse_hex b me tokens s) (\<lambda>block tokens s.
     and_then (parse_lane b me tokens s) (\<lambda>ln tokens s.
     and_then (parse_fp16 b me tokens s) (\<lambda>d3 tokens s.
     and_then (parse_fp16 b me tokens s) (\<lambda>d2 tokens s.
     and_then (parse_fp16 b me tokens s) (\<lambda>d1 tokens s.
     and_then (parse_fp16 b me tokens s) (\<lambda>d0 tokens s.
     and_then (expect_end b me tokens s) (\<lambda>_ _ s. gfx_data b block ln [d0, d1, d2, d3] s)))))))"

definition cmd_gfx_bg :: "'s mmio \<Rightarrow> u32 \<Rightarrow> string \<Rightarrow> ('s, 'x) demo_scheme \<Rightarrow> ('s, 'x) demo_scheme res" where
  "cmd_gfx_bg b me tokens s =
     and_then (parse_hex b me tokens s) (\<lambda>color tokens s.
     and_then (expect_end b me tokens s) (\<lambda>_ _ s.
     if color AND 0xff000000 \<noteq> 0 then print b me ''bad color: %x'' [Va_Int color] s
     else Inr (gfx_bg b color s)))"

definition cmd_gfx :: "'s mmio \<Rightarrow> u32 \<Rightarrow> string \<Rightarrow> ('s, 'x) demo_scheme \<Rightarrow> ('s, 'x) demo_scheme res" where
  "cmd_gfx b me tokens s =
     (case strtok_input tokens of
        (None, _) \<Rightarrow> unexpected_eof b me s
      | (Some cmd, tokens) \<Rightarrow>
          if strcmp cmd ''swap'' = 0 then cmd_gfx_swap b me tokens s
          else if strcmp cmd ''draw'' = 0 then cmd_gfx_draw b me tokens s
          else if strcmp cmd ''clear'' = 0 then cmd_gfx_clear b me tokens s
          else if strcmp cmd ''data'' = 0 then cmd_gfx_data b me tokens s
          else if strcmp cmd ''bg'' = 0 then cmd_gfx_bg b me tokens s
          else unknown_command b me cmd s)"

text \<open>The body of the loop of \<open>bsp_main\<close>, on a line.\<close>

definition shell_command :: "'s mmio \<Rightarrow> contention \<Rightarrow> u32 \<Rightarrow> string \<Rightarrow> ('s, 'x) demo_scheme \<Rightarrow> ('s, 'x) demo_scheme res" where
  "shell_command b att me input s =
     (case strtok_input input of
        (None, _) \<Rightarrow> Inr s
      | (Some cmd, tokens) \<Rightarrow>
          if strcmp cmd ''run'' = 0 then cmd_run b me tokens s
          else if strcmp cmd ''halt'' = 0 then cmd_halt b me tokens s
          else if strcmp cmd ''read'' = 0 then cmd_read b me tokens s
          else if strcmp cmd ''write'' = 0 then cmd_write b me tokens s
          else if strcmp cmd ''cache'' = 0 then cmd_cache b me tokens s
          else if strcmp cmd ''perf'' = 0 then cmd_perf b me tokens s
          else if strcmp cmd ''remote'' = 0 then cmd_remote b att me tokens s
          else if strcmp cmd ''gfx'' = 0 then cmd_gfx b me tokens s
          else unknown_command b me cmd s)"

section \<open>Start and main loops\<close>

fun kick_loop :: "'s mmio \<Rightarrow> u32 \<Rightarrow> nat list \<Rightarrow> ('s, 'x) demo_scheme \<Rightarrow> ('s, 'x) demo_scheme res" where
  "kick_loop b me [] s = Inr (s\<lparr>boot_done := True\<rparr>)"
| "kick_loop b me (i # is) s =
     (let (alive, s) = cpu_is_alive b i s in
      if alive then run_cpu b me i s
      else bind_res (print b me ''cpu%u is dead'' [Va_Int (of_nat i)] s) (kick_loop b me is))"

definition kick_cpus :: "'s mmio \<Rightarrow> u32 \<Rightarrow> ('s, 'x) demo_scheme \<Rightarrow> ('s, 'x) demo_scheme res" where
  "kick_cpus b me s = kick_loop b me [unat me + 1..<NUM_CPUS] s"

text \<open>\<open>while(!boot_done)\<close>, while the other cores run.\<close>

fun boot_wait :: "(('s, 'x) demo_scheme \<Rightarrow> ('s, 'x) demo_scheme res) list \<Rightarrow> ('s, 'x) demo_scheme \<Rightarrow> ('s, 'x) demo_scheme res" where
  "boot_wait others s =
     (if boot_done s then Inr s
      else case others of [] \<Rightarrow> Inl Spins | f # others \<Rightarrow> bind_res (f s) (boot_wait others))"

text \<open>
  A round of the shell: the 64 bytes of \<open>input\<close> as they are on the stack, the schedule of
  \<open>read_line\<close>, and the contention for a mailbox.
\<close>

type_synonym 's shell_round = "string \<times> 's event list \<times> contention"

definition shell_step :: "'s mmio \<Rightarrow> u32 \<Rightarrow> 's shell_round \<Rightarrow> ('s, 'x) demo_scheme \<Rightarrow> ('s, 'x) demo_scheme res" where
  "shell_step b me r s =
     (let (input, env, att) = r in
      bind_res (read_line b input 64 env s) (\<lambda>(input, _, s).
        if NUL \<in> set input then shell_command b att me (c_string input) s else Inl Out_Of_Bounds))"

fun shell :: "'s mmio \<Rightarrow> u32 \<Rightarrow> 's shell_round list \<Rightarrow> ('s, 'x) demo_scheme \<Rightarrow> ('s, 'x) demo_scheme res" where
  "shell b me [] s = Inr s"
| "shell b me (r # rs) s = bind_res (shell_step b me r s) (shell b me rs)"

definition bsp_main :: "'s mmio \<Rightarrow> u32 \<Rightarrow> (('s, 'x) demo_scheme \<Rightarrow> ('s, 'x) demo_scheme res) list \<Rightarrow> 's shell_round list
    \<Rightarrow> ('s, 'x) demo_scheme \<Rightarrow> ('s, 'x) demo_scheme res" where
  "bsp_main b me others rounds s =
     bind_res (kick_cpus b me (s\<lparr>all_cpus := map (put_mailbox 0) (all_cpus s), boot_done := False\<rparr>)) (\<lambda>s.
     bind_res (boot_wait others s) (\<lambda>s.
     bind_res (print b me ''booted %u cpus'' [Va_Int (boot_num s)] s) (\<lambda>s.
     shell b me rounds (s\<lparr>boot_num := 0\<rparr>))))"

definition ap_step :: "'s mmio \<Rightarrow> u32 \<Rightarrow> contention \<Rightarrow> ('s, 'x) demo_scheme \<Rightarrow> ('s, 'x) demo_scheme res" where
  "ap_step b me att s =
     bind_res (remote_recv att me s) (\<lambda>((ptr, wr, val), s).
       if wr \<noteq> 0 then do_write b me ptr val s else do_read b me ptr s)"

fun ap_loop :: "'s mmio \<Rightarrow> u32 \<Rightarrow> contention list \<Rightarrow> ('s, 'x) demo_scheme \<Rightarrow> ('s, 'x) demo_scheme res" where
  "ap_loop b me [] s = Inr s"
| "ap_loop b me (att # atts) s = bind_res (ap_step b me att s) (ap_loop b me atts)"

definition ap_main :: "'s mmio \<Rightarrow> u32 \<Rightarrow> contention list \<Rightarrow> ('s, 'x) demo_scheme \<Rightarrow> ('s, 'x) demo_scheme res" where
  "ap_main b me rounds s =
     bind_res (kick_cpus b me s) (\<lambda>s.
     bind_res (halt_cpu b me (unat me) s) (ap_loop b me rounds))"

definition reset_entry :: "'s mmio \<Rightarrow> u32 \<Rightarrow> u8 list \<Rightarrow> u32 \<Rightarrow> ('s, 'x) demo_scheme \<Rightarrow> ('s, 'x) demo_scheme res" where
  "reset_entry b me rom start s =
     bind_res (if me = 0 then gfx_init b me rom start (console_init b s) else Inr s)
       (print b me ''exited reset'' [])"

definition bsp_reset :: "'s mmio \<Rightarrow> u8 list \<Rightarrow> u32 \<Rightarrow> (('s, 'x) demo_scheme \<Rightarrow> ('s, 'x) demo_scheme res) list
    \<Rightarrow> 's shell_round list \<Rightarrow> ('s, 'x) demo_scheme \<Rightarrow> ('s, 'x) demo_scheme res" where
  "bsp_reset b rom start others rounds s =
     bind_res (reset_entry b 0 rom start s) (bsp_main b 0 others rounds)"

definition ap_reset :: "'s mmio \<Rightarrow> u32 \<Rightarrow> contention list \<Rightarrow> ('s, 'x) demo_scheme \<Rightarrow> ('s, 'x) demo_scheme res" where
  "ap_reset b me rounds s = bind_res (reset_entry b me [] 0 s) (ap_main b me rounds)"

definition raise :: "'s mmio \<Rightarrow> u32 \<Rightarrow> u32 \<Rightarrow> ('s, 'x) demo_scheme \<Rightarrow> ('s, 'x) demo_scheme res" where
  "raise b me sig s =
     bind_res (print b me ''raise(%d) called, aborting'' [Va_Int sig] s) (\<lambda>s.
     bind_res (halt_cpu b me (unat me) s) (\<lambda>_. Inl Spins))"

end
