(* ===== verification/Demo_Safety.thy ===== *)
theory Demo_Safety
  imports Demo_Main
begin

text \<open>
  No command line can crash the shell of the demo firmware: on every board the outcome of a
  command is a state that keeps the invariant, an endless wait, or the one undefined operation
  that its text can reach, the overflow of a decimal operand, which needs a word of more than
  nine characters. The flag \<open>B\<close> of the lemmas says whether the line has such a word.
\<close>

definition demo_inv :: "('s, 'x) demo_scheme \<Rightarrow> bool" where
  "demo_inv s \<longleftrightarrow> console_inv s \<and> length (all_cpus s) = NUM_CPUS"

definition safe_or :: "bool \<Rightarrow> ('a \<Rightarrow> bool) \<Rightarrow> 'a res \<Rightarrow> bool" where
  "safe_or B P r = (case r of Inl e \<Rightarrow> e = Spins \<or> e = Overflow \<and> B | Inr x \<Rightarrow> P x)"

lemma safe_or_simps [simp]: "safe_or B P (Inr x) = P x" "safe_or B P (Inl e) \<longleftrightarrow> e = Spins \<or> e = Overflow \<and> B"
  by (auto simp: safe_or_def)

lemma safe_or_bind: "safe_or B Q m \<Longrightarrow> (\<And>x. Q x \<Longrightarrow> safe_or B P (f x)) \<Longrightarrow> safe_or B P (bind_res m f)"
  by (cases m) auto

lemma spins_safe: "spins_or P r \<Longrightarrow> safe_or B P r"
  by (cases r) auto

text \<open>A text with a word of more than nine characters.\<close>

definition wide :: "string \<Rightarrow> bool" where
  "wide t = list_ex (\<lambda>w. 9 < length w) (words_of t)"

definition narrow :: "bool \<Rightarrow> string \<Rightarrow> bool" where
  "narrow B t \<longleftrightarrow> (wide t \<longrightarrow> B)"

lemma strtok_words: "words_of t = (case strtok_input t of (None, _) \<Rightarrow> [] | (Some w, r) \<Rightarrow> w # words_of r)"
  using tokens_are_words [of t] unfolding all_tokens.simps [of t] by (simp add: tokens_are_words cong: option.case_cong)

lemma strtok_narrow:
  assumes "strtok_input t = (v, t')" "narrow B t"
  shows "narrow B t'" and "v = Some w \<Longrightarrow> 9 < length w \<Longrightarrow> B"
proof -
  show "v = Some w \<Longrightarrow> 9 < length w \<Longrightarrow> B"
    using assms strtok_words [of t] by (auto simp: narrow_def wide_def)
  show "narrow B t'"
  proof (cases v)
    case None
    then have "t' = []" using assms(1) by (simp add: strtok_input_eq Let_def split: if_splits)
    then show ?thesis by (simp add: narrow_def wide_def words_of_def)
  next
    case (Some w)
    then show ?thesis using assms strtok_words [of t] by (auto simp: narrow_def wide_def)
  qed
qed

named_theorems safe_cmd \<open>operations that keep the invariant\<close>

text \<open>An operation and a parser that keep the invariant.\<close>

definition keeps :: "bool \<Rightarrow> ('s, 'x) demo_scheme res \<Rightarrow> bool" where
  "keeps B r = safe_or B demo_inv r"

definition parses :: "bool \<Rightarrow> ('a \<Rightarrow> bool) \<Rightarrow> ('a option \<times> string \<times> ('s, 'x) demo_scheme) res \<Rightarrow> bool" where
  "parses B Q r = safe_or B (\<lambda>(v, tokens, s). demo_inv s \<and> narrow B tokens \<and> (\<forall>x. v = Some x \<longrightarrow> Q x)) r"

lemma keeps_simps [simp]: "keeps B (Inr s) = demo_inv s" "keeps B (Inl e) \<longleftrightarrow> e = Spins \<or> e = Overflow \<and> B"
  by (simp_all add: keeps_def)

lemma keeps_bind: "keeps B m \<Longrightarrow> (\<And>s. demo_inv s \<Longrightarrow> keeps B (f s)) \<Longrightarrow> keeps B (bind_res m f)"
  unfolding keeps_def by (rule safe_or_bind)

lemma demo_inv_updates [simp]:
  "demo_inv (s\<lparr>hw := h\<rparr>) = demo_inv s" "demo_inv (s\<lparr>data_size := n\<rparr>) = demo_inv s"
  "demo_inv (s\<lparr>clear_color := c\<rparr>) = demo_inv s" "demo_inv (s\<lparr>swap_buffers := w\<rparr>) = demo_inv s"
  "demo_inv (s\<lparr>boot_done := d\<rparr>) = demo_inv s" "demo_inv (s\<lparr>boot_num := n\<rparr>) = demo_inv s"
  "length bs = NUM_CPUS \<Longrightarrow> demo_inv (s\<lparr>all_cpus := bs\<rparr>) \<longleftrightarrow> console_inv s"
  by (simp_all add: demo_inv_def console_inv_def split: option.split)

lemma demo_inv_access [simp]: "demo_inv (store b a v s) = demo_inv s" "load b a s = (w, s') \<Longrightarrow> demo_inv s' = demo_inv s"
  by (auto simp: store_def load_def split: prod.splits)

lemma demo_inv_load: "demo_inv (snd (load b a s)) = demo_inv s"
  by (simp add: load_def split: prod.split)

text \<open>Every format of the firmware has the arguments it needs.\<close>

lemma print_keeps: "render fmt args \<noteq> None \<Longrightarrow> demo_inv s \<Longrightarrow> keeps B (print b me fmt args s)"
proof -
  assume "render fmt args \<noteq> None" and i: "demo_inv s"
  then have "spins_or (\<lambda>s'. \<exists>h. s' = s\<lparr>hw := h\<rparr>) (print b me fmt args s)"
    by (intro print_hw) (simp_all add: demo_inv_def)
  then have "spins_or demo_inv (print b me fmt args s)" by (rule spins_or_mono) (use i in auto)
  then show ?thesis unfolding keeps_def by (rule spins_safe)
qed

lemma parses_simps [simp]: "parses B Q (Inr (Some x, t, s)) \<longleftrightarrow> demo_inv s \<and> narrow B t \<and> Q x"
  "parses B Q (Inr (None, t, s)) \<longleftrightarrow> demo_inv s \<and> narrow B t"
  "parses B Q (Inl e) \<longleftrightarrow> e = Spins \<or> e = Overflow \<and> B"
  by (simp_all add: parses_def)

lemma failing_parses: "keeps B m \<Longrightarrow> narrow B t \<Longrightarrow> parses B Q (failing m t)"
  unfolding failing_def parses_def keeps_def by (rule safe_or_bind) auto

lemma and_then_keeps:
  "parses B Q m \<Longrightarrow> (\<And>x t s. Q x \<Longrightarrow> demo_inv s \<Longrightarrow> narrow B t \<Longrightarrow> keeps B (f x t s)) \<Longrightarrow> keeps B (and_then m f)"
  by (cases m) (auto simp: and_then_def parses_def split: prod.split option.split)

lemma parses_bind:
  assumes "parses B Q m" "\<And>t s. demo_inv s \<Longrightarrow> narrow B t \<Longrightarrow> parses B R (f (None, t, s))"
    "\<And>x t s. Q x \<Longrightarrow> demo_inv s \<Longrightarrow> narrow B t \<Longrightarrow> parses B R (f (Some x, t, s))"
  shows "parses B R (bind_res m f)"
proof (cases m)
  case (Inr r)
  obtain v t s where "r = (v, t, s)" by (cases r)
  then show ?thesis using assms Inr by (cases v) auto
qed (use assms(1) in simp)

lemma bad_input_keeps [safe_cmd]: "demo_inv s \<Longrightarrow> keeps B (bad_input b me s)"
  unfolding bad_input_def by (rule print_keeps) simp_all

lemma unexpected_eof_keeps [safe_cmd]: "demo_inv s \<Longrightarrow> keeps B (unexpected_eof b me s)"
  unfolding unexpected_eof_def by (rule print_keeps) simp_all

section \<open>Parsers\<close>

definition is_cpu :: "u32 \<Rightarrow> bool" where
  "is_cpu cpu \<longleftrightarrow> unat cpu < NUM_CPUS"

lemma parse_cpu_token_parses: "demo_inv s \<Longrightarrow> narrow B tokens \<Longrightarrow> parses B is_cpu (parse_cpu_token b me token tokens s)"
proof -
  assume i: "demo_inv s" and n: "narrow B tokens"
  show ?thesis
  proof (cases "48 \<le> (of_char (char_at token 3) :: nat) \<and> of_char (char_at token 3) < 48 + NUM_CPUS")
    case True
    let ?n = "of_char (char_at token 3) - 48 :: nat"
    have four: "?n < 4" using True unfolding NUM_CPUS_def by linarith
    then have "?n < 2 ^ LENGTH(32)" by simp
    then have "unat (of_nat ?n :: u32) = ?n" by (simp only: unat_of_nat mod_less)
    then have "is_cpu (of_nat ?n)" using four by (simp only: is_cpu_def NUM_CPUS_def)
    then show ?thesis
      unfolding parse_cpu_token_def using i n by (auto intro!: failing_parses bad_input_keeps)
  next
    case False
    then show ?thesis
      unfolding parse_cpu_token_def using i n
      by (simp only: False simp_thms if_True) (intro failing_parses bad_input_keeps; assumption)
  qed
qed

lemma parse_cpu_parses: "demo_inv s \<Longrightarrow> narrow B tokens \<Longrightarrow> parses B is_cpu (parse_cpu b me tokens s)"
  unfolding parse_cpu_def
  by (auto split: prod.split option.split intro: failing_parses unexpected_eof_keeps parse_cpu_token_parses strtok_narrow(1))

lemma parse_lane_parses: "demo_inv s \<Longrightarrow> narrow B tokens \<Longrightarrow> parses B (\<lambda>_. True) (parse_lane b me tokens s)"
  unfolding parse_lane_def
  by (auto split: prod.split option.split intro!: failing_parses unexpected_eof_keeps bad_input_keeps dest: strtok_narrow(1))

lemma cpu_mask_loop_parses: "demo_inv s \<Longrightarrow> narrow B tokens \<Longrightarrow> parses B (\<lambda>_. True) (cpu_mask_loop b me tokens msk s)"
proof (induction tokens arbitrary: msk s rule: measure_induct_rule [of length])
  case (less tokens)
  obtain token rest where t: "strtok_input tokens = (token, rest)" by fastforce
  show ?case
  proof (cases token)
    case None
    then show ?thesis using t less.prems strtok_narrow(1) [OF t] by (simp add: cpu_mask_loop.simps)
  next
    case (Some w)
    have "length rest < length tokens" using t Some strtok_shorter by blast
    note ih = less.IH [OF this]
    have n: "narrow B rest" using strtok_narrow(1) [OF t less.prems(2)] .
    have "parses B (\<lambda>_. True) (bind_res (parse_cpu_token b me w rest s) (\<lambda>(cpu, _, s).
        case cpu of None \<Rightarrow> Inr (None, rest, s) | Some cpu \<Rightarrow> cpu_mask_loop b me rest (msk OR push_bit (unat cpu) 1) s))"
      using parse_cpu_token_parses [OF less.prems(1) n] by (rule parses_bind) (simp_all add: ih n)
    then show ?thesis using t Some by (simp add: cpu_mask_loop.simps)
  qed
qed

lemma parse_cpu_mask_parses: "demo_inv s \<Longrightarrow> narrow B tokens \<Longrightarrow> parses B (\<lambda>_. True) (parse_cpu_mask b me tokens s)"
proof -
  assume i: "demo_inv s" and n: "narrow B tokens"
  have f: "parses B (\<lambda>_. True) (failing (print b me ''must specify at least one cpu'' [] s) t)" if "demo_inv s" "narrow B t" for s :: "('a, 'b) demo_scheme" and t
    using that by (intro failing_parses print_keeps) simp_all
  show ?thesis
    unfolding parse_cpu_mask_def
    using cpu_mask_loop_parses [OF i n] by (rule parses_bind) (simp_all add: f)
qed

lemma parse_hex_parses: "demo_inv s \<Longrightarrow> narrow B tokens \<Longrightarrow> parses B (\<lambda>_. True) (parse_hex b me tokens s)"
  unfolding parse_hex_def Let_def
  by (auto split: prod.split option.split intro!: failing_parses unexpected_eof_keeps bad_input_keeps dest: strtok_narrow(1))

lemma parse_ptr_parses: "demo_inv s \<Longrightarrow> narrow B tokens \<Longrightarrow> parses B (\<lambda>_. True) (parse_ptr b me tokens s)"
  unfolding parse_ptr_def by (rule parse_hex_parses)

lemma parse_aligned_parses: "demo_inv s \<Longrightarrow> narrow B tokens \<Longrightarrow> parses B (\<lambda>ptr. ptr AND 3 = 0) (parse_aligned b me tokens s)"
proof -
  assume i: "demo_inv s" and n: "narrow B tokens"
  have f: "parses B Q (failing (print b me ''unaligned address: %p'' [Va_Int p] s) t)" if "demo_inv s" "narrow B t" for s :: "('a, 'b) demo_scheme" and t p Q
    using that by (intro failing_parses print_keeps) (simp_all add: arg_text_def)
  show ?thesis
    unfolding parse_aligned_def
    using parse_ptr_parses [OF i n] by (rule parses_bind) (simp_all add: f)
qed

lemma expect_end_parses: "demo_inv s \<Longrightarrow> narrow B tokens \<Longrightarrow> parses B (\<lambda>_. True) (expect_end b me tokens s)"
  unfolding expect_end_def
  by (auto split: prod.split option.split intro!: failing_parses print_keeps simp: arg_text_def dest: strtok_narrow(1))

text \<open>
  The only undefined operation, and why it takes ten characters: with \<open>j\<close> characters read, the
  numerator is below \<open>10 ^ j\<close> and the denominator at most \<open>10 ^ j\<close>.
\<close>

definition small_pair :: "(int \<times> int) option \<Rightarrow> bool" where
  "small_pair r = (case r of None \<Rightarrow> True | Some (num, denom) \<Rightarrow>
     0 \<le> num \<and> num < 2 ^ 31 \<and> 0 \<le> denom \<and> denom < 2 ^ 31)"

lemma int32_safe: "B \<or> - (2 ^ 31) \<le> n \<and> n < 2 ^ 31 \<Longrightarrow> safe_or B (\<lambda>m. m = n \<and> n < 2 ^ 31) (int32_result n)"
  by (auto simp: int32_result_def)

lemma fp_loop_safe:
  "0 \<le> num \<Longrightarrow> num < 2 ^ 31 \<Longrightarrow> 0 \<le> denom \<Longrightarrow> denom < 2 ^ 31 \<Longrightarrow>
     B \<or> num < 10 ^ j \<and> denom \<le> 10 ^ j \<and> j + length token \<le> 9 \<Longrightarrow>
     safe_or B small_pair (fp_loop token in_denom num denom)"
proof (induction token arbitrary: in_denom num denom j)
  case (Cons c cs)
  show ?case
  proof (cases "48 \<le> (of_char c :: nat) \<and> of_char c \<le> (57 :: nat)")
    case True
    define d where "d = (of_char c - 48 :: int)"
    have d: "0 \<le> d" "d \<le> 9"
    proof -
      have "(of_char c :: int) = int (of_char c)" by (rule of_nat_of_char [symmetric])
      with True show "0 \<le> d" "d \<le> 9" unfolding d_def by linarith+
    qed
    have ten: "(10 :: int) ^ Suc j \<le> 10 ^ 9" if "j + length (c # cs) \<le> 9"
      by (rule power_increasing) (use that in simp_all)
    have b: "B \<or> num * 10 + d < 10 ^ Suc j \<and> denom * 10 \<le> 10 ^ Suc j \<and> denom \<le> 10 ^ Suc j \<and> Suc j + length cs \<le> 9 \<and> (10 :: int) ^ Suc j \<le> 10 ^ 9"
      using Cons.prems(3,5) d ten by auto
    have s: "B \<or> - (2 ^ 31) \<le> num * 10 \<and> num * 10 < 2 ^ 31" "B \<or> - (2 ^ 31) \<le> num * 10 + d \<and> num * 10 + d < 2 ^ 31"
      "B \<or> - (2 ^ 31) \<le> denom * 10 \<and> denom * 10 < 2 ^ 31"
      using b d Cons.prems(1,3) by auto
    have rest: "safe_or B small_pair (if cs \<noteq> [] then fp_loop cs in_denom (num * 10 + d) e else Inr (Some (num * 10 + d, e)))"
      if "0 \<le> e" "e < 2 ^ 31" "num * 10 + d < 2 ^ 31" "e = denom * 10 \<or> e = denom" for e
    proof (cases "cs = []")
      case False
      have "safe_or B small_pair (fp_loop cs in_denom (num * 10 + d) e)"
        by (rule Cons.IH [where j = "Suc j"]) (use that b Cons.prems(1) d(1) in auto)
      then show ?thesis using False by simp
    qed (use that Cons.prems(1) d(1) in \<open>simp add: small_pair_def\<close>)
    have dot: "c \<noteq> CHR ''.''" using True by auto
    have "safe_or B small_pair (bind_res (int32_result (num * 10)) (\<lambda>num. bind_res (int32_result (num + d)) (\<lambda>num.
        bind_res (if in_denom then int32_result (denom * 10) else Inr denom) (\<lambda>denom.
        if cs \<noteq> [] then fp_loop cs in_denom num denom else Inr (Some (num, denom))))))"
    proof (rule safe_or_bind [OF int32_safe [OF s(1)]], elim conjE, hypsubst, rule safe_or_bind [OF int32_safe [OF s(2)]], elim conjE, hypsubst)
      assume n: "num * 10 + d < 2 ^ 31"
      have "safe_or B (\<lambda>e. 0 \<le> e \<and> e < 2 ^ 31 \<and> (e = denom * 10 \<or> e = denom))
          (if in_denom then int32_result (denom * 10) else Inr denom)"
        using s(3) Cons.prems(3,4) by (auto simp: int32_result_def)
      then show "safe_or B small_pair (bind_res (if in_denom then int32_result (denom * 10) else Inr denom) (\<lambda>denom.
        if cs \<noteq> [] then fp_loop cs in_denom (num * 10 + d) denom else Inr (Some (num * 10 + d, denom))))"
        by (rule safe_or_bind) (use rest n in blast)
    qed
    then show ?thesis using True dot unfolding fp_loop.simps d_def by simp
  next
    case False
    have "safe_or B small_pair (fp_loop cs True num denom)"
      by (rule Cons.IH [where j = j]) (use Cons.prems in auto)
    moreover have "small_pair (Some (num, denom))" using Cons.prems by (simp add: small_pair_def)
    moreover have "small_pair None" by (simp add: small_pair_def)
    ultimately show ?thesis using False by simp
  qed
qed (simp add: small_pair_def)

lemma f16_from_int_safe:
  assumes "0 \<le> n" "n < 2 ^ 31"
  shows "safe_or B (\<lambda>_. True) (f16_from_int (of_int n))"
proof -
  have "sint (of_int n :: 32 word) = n"
    using assms by (simp add: signed_take_bit_int_eq_self sint_sbintrunc')
  then have "\<not> sint (of_int n :: 32 word) < 0" using assms(1) by simp
  then show ?thesis by (simp add: f16_from_int_def Let_def split: prod.split)
qed

lemma parse_fp16_parses: "demo_inv s \<Longrightarrow> narrow B tokens \<Longrightarrow> parses B (\<lambda>_. True) (parse_fp16 b me tokens s)"
proof -
  assume i: "demo_inv s" and n: "narrow B tokens"
  have f: "parses B (\<lambda>_. True) (bind_res (fp_loop w False 0 1) (\<lambda>r. case r of
        None \<Rightarrow> failing (bad_input b me s) t
      | Some (num, denom) \<Rightarrow> bind_res (f16_from_int (of_int num)) (\<lambda>n. bind_res (f16_from_int (of_int denom)) (\<lambda>d.
          let fp = f16_div n d in Inr (Some (if neg then f16_neg fp else fp), t, s)))))"
    if t: "narrow B t" "9 < length w \<Longrightarrow> B" for w t neg
  proof -
    have "safe_or B small_pair (fp_loop w False 0 1)"
      by (rule fp_loop_safe [where j = 0]) (use t(2) in auto)
    then show ?thesis
      unfolding parses_def Let_def
      by (rule safe_or_bind)
        (use i t(1) failing_parses [OF bad_input_keeps [OF i] t(1), of "\<lambda>_. True"]
          in \<open>auto split: option.split simp: parses_def small_pair_def intro!: safe_or_bind [OF f16_from_int_safe]\<close>)
  qed
  obtain v t where v: "strtok_input tokens = (v, t)" by fastforce
  note st = strtok_narrow [OF v n]
  show ?thesis
  proof (cases v)
    case None
    then show ?thesis
      unfolding parse_fp16_def using v st(1) i by (simp add: failing_parses unexpected_eof_keeps)
  next
    case (Some w)
    have "9 < length (if char_at w 0 = CHR ''-'' then drop 1 w else w) \<Longrightarrow> B"
      using st(2) [OF Some] by (auto split: if_splits)
    from f [OF st(1) this, where neg = "char_at w 0 = CHR ''-''"] show ?thesis
      unfolding parse_fp16_def v Some Let_def by simp
  qed
qed

section \<open>Devices\<close>

lemma run_cpus_loop_keeps:
  "demo_inv s \<Longrightarrow> safe_or B (\<lambda>(_, s). demo_inv s) (run_cpus_loop b me msk ctrl cpus w s)"
proof (induction cpus arbitrary: w s)
  case (Cons c cpus)
  have p: "safe_or B demo_inv (print b me ''run cpu%u'' [Va_Int v] s)" "safe_or B demo_inv (print b me ''cpu%u already running'' [Va_Int v] s)"
    for v unfolding keeps_def [symmetric] by (rule print_keeps; simp add: arg_text_def Cons.prems)+
  show ?case using Cons by (auto intro!: safe_or_bind [OF p(1)] safe_or_bind [OF p(2)])
qed simp

lemma halt_cpus_loop_keeps:
  "demo_inv s \<Longrightarrow> safe_or B (\<lambda>(_, s). demo_inv s) (halt_cpus_loop b me msk ctrl cpus w s)"
proof (induction cpus arbitrary: w s)
  case (Cons c cpus)
  have p: "safe_or B demo_inv (print b me ''halt cpu%u%s'' [Va_Int v, Va_Str t] s)" "safe_or B demo_inv (print b me ''cpu%u already halted'' [Va_Int v] s)"
    for v t me unfolding keeps_def [symmetric] by (rule print_keeps; simp add: arg_text_def Cons.prems)+
  show ?case using Cons by (auto intro!: safe_or_bind [OF p(1)] safe_or_bind [OF p(2)])
qed simp

lemma run_cpus_keeps: "demo_inv s \<Longrightarrow> keeps B (run_cpus b me msk s)"
proof -
  assume i: "demo_inv s"
  obtain c s1 where l: "load b SMP_CTRL s = (c, s1)" by fastforce
  then have "demo_inv s1" using i by simp
  from run_cpus_loop_keeps [OF this] show ?thesis
    unfolding run_cpus_def l keeps_def Let_def prod.case by (rule safe_or_bind) auto
qed

lemma halt_cpus_keeps: "demo_inv s \<Longrightarrow> keeps B (halt_cpus b me msk s)"
proof -
  assume i: "demo_inv s"
  obtain c s1 where l: "load b SMP_CTRL s = (c, s1)" by fastforce
  then have "demo_inv s1" using i by simp
  from halt_cpus_loop_keeps [OF this] show ?thesis
    unfolding halt_cpus_def l keeps_def Let_def prod.case by (rule safe_or_bind) auto
qed

lemma perf_show_keeps: "demo_inv s \<Longrightarrow> keeps B (perf_show b me cpu s)"
  unfolding perf_show_def Let_def
  by (intro keeps_bind print_keeps) (auto simp: arg_text_def demo_inv_load split: prod.split intro!: keeps_bind print_keeps)

lemma perf_clear_keeps: "demo_inv s \<Longrightarrow> keeps B (perf_clear b me cpu s)"
  unfolding perf_clear_def by (intro print_keeps) (simp_all add: arg_text_def)

lemma do_read_keeps: "demo_inv s \<Longrightarrow> keeps B (do_read b me ptr s)"
  unfolding do_read_def by (auto split: prod.split intro!: print_keeps simp: arg_text_def)

lemma do_write_keeps: "demo_inv s \<Longrightarrow> keeps B (do_write b me ptr val s)"
  unfolding do_write_def by (intro print_keeps) (simp_all add: arg_text_def)

lemma send_loop_safe: "safe_or B (\<lambda>_. True) (send_loop att w current box)"
  by (induction att w current box rule: send_loop.induct) (auto split: prod.split)

lemma remote_send_keeps: "is_cpu cpu \<Longrightarrow> demo_inv s \<Longrightarrow> keeps B (remote_send att cpu ptr wr val s)"
  unfolding remote_send_def keeps_def is_cpu_def Let_def
  by (auto simp: demo_inv_def console_inv_def split: option.split intro!: safe_or_bind [OF send_loop_safe])

lemma cache_words_keeps: "demo_inv s \<Longrightarrow> keeps B (cache_words b me cpu line is s)"
  by (induction "is" arbitrary: s)
    (auto split: prod.split intro!: keeps_bind print_keeps simp: arg_text_def)

lemma cache_debug_keeps: "demo_inv s \<Longrightarrow> keeps B (cache_debug b me cpu ptr s)"
  unfolding cache_debug_def Let_def
  by (auto split: prod.split intro!: keeps_bind print_keeps cache_words_keeps simp: arg_text_def)

lemma gfx_scan_keeps [simp]: "demo_inv (gfx_write_scan b c s) = demo_inv s"
  by (simp add: gfx_write_scan_def)

lemma gfx_keeps: "demo_inv s \<Longrightarrow> demo_inv (gfx_swap b s)" "demo_inv s \<Longrightarrow> demo_inv (gfx_draw b s)"
  "demo_inv s \<Longrightarrow> demo_inv (gfx_clear b s)" "demo_inv s \<Longrightarrow> demo_inv (gfx_bg b c s)"
  by (simp_all add: gfx_swap_def gfx_draw_def gfx_clear_def gfx_bg_def)

lemma gfx_lanes_keeps: "demo_inv (gfx_lanes b v i xs s) = demo_inv s"
  by (induction xs arbitrary: i s) simp_all

lemma gfx_data_keeps: "demo_inv s \<Longrightarrow> keeps B (gfx_data b block ln [d0, d1, d2, d3] s)"
  by (auto simp: gfx_data_def gfx_lanes_keeps Let_def simp del: gfx_lanes.simps)

section \<open>Commands\<close>

lemma unknown_command_keeps: "demo_inv s \<Longrightarrow> keeps B (unknown_command b me cmd s)"
  unfolding unknown_command_def quoted_def by (rule print_keeps) (simp_all add: arg_text_def)

lemmas parsers_keep =
  and_then_keeps [OF parse_cpu_mask_parses] and_then_keeps [OF parse_aligned_parses] and_then_keeps [OF parse_hex_parses]
  and_then_keeps [OF parse_cpu_parses] and_then_keeps [OF parse_ptr_parses] and_then_keeps [OF parse_lane_parses]
  and_then_keeps [OF parse_fp16_parses] and_then_keeps [OF expect_end_parses]

lemma cmd_keeps:
  assumes "demo_inv s" "narrow B tokens"
  shows "keeps B (cmd_run b me tokens s)" "keeps B (cmd_halt b me tokens s)" "keeps B (cmd_read b me tokens s)"
    "keeps B (cmd_write b me tokens s)" "keeps B (cmd_cache b me tokens s)" "keeps B (cmd_gfx_swap b me tokens s)"
    "keeps B (cmd_gfx_draw b me tokens s)" "keeps B (cmd_gfx_clear b me tokens s)" "keeps B (cmd_gfx_data b me tokens s)"
  unfolding cmd_run_def cmd_halt_def cmd_read_def cmd_write_def cmd_cache_def cmd_gfx_swap_def cmd_gfx_draw_def
    cmd_gfx_clear_def cmd_gfx_data_def
  by (intro parsers_keep assms run_cpus_keeps halt_cpus_keeps do_read_keeps do_write_keeps cache_debug_keeps gfx_data_keeps;
      simp add: gfx_keeps)+

lemma cmd_gfx_bg_keeps: "demo_inv s \<Longrightarrow> narrow B tokens \<Longrightarrow> keeps B (cmd_gfx_bg b me tokens s)"
  unfolding cmd_gfx_bg_def
  by (intro parsers_keep) (auto intro!: print_keeps simp: arg_text_def gfx_keeps)

lemma cmd_perf_keeps: "demo_inv s \<Longrightarrow> narrow B tokens \<Longrightarrow> keeps B (cmd_perf b me tokens s)"
  unfolding cmd_perf_def
  by (intro parsers_keep)
    (auto split: prod.split option.split intro!: parsers_keep perf_clear_keeps perf_show_keeps unknown_command_keeps unexpected_eof_keeps dest: strtok_narrow(1))

lemma cmd_remote_rw_keeps:
  "is_cpu cpu \<Longrightarrow> demo_inv s \<Longrightarrow> narrow B tokens \<Longrightarrow> keeps B (cmd_remote_read b att me tokens cpu s)"
  "is_cpu cpu \<Longrightarrow> demo_inv s \<Longrightarrow> narrow B tokens \<Longrightarrow> keeps B (cmd_remote_write b att me tokens cpu s)"
  unfolding cmd_remote_read_def cmd_remote_write_def by (intro parsers_keep remote_send_keeps; assumption)+

lemma cmd_remote_keeps: "demo_inv s \<Longrightarrow> narrow B tokens \<Longrightarrow> keeps B (cmd_remote b att me tokens s)"
  unfolding cmd_remote_def
  by (intro parsers_keep)
    (auto split: prod.split option.split intro!: cmd_remote_rw_keeps unknown_command_keeps unexpected_eof_keeps print_keeps dest: strtok_narrow(1))

lemma cmd_gfx_keeps: "demo_inv s \<Longrightarrow> narrow B tokens \<Longrightarrow> keeps B (cmd_gfx b me tokens s)"
  unfolding cmd_gfx_def
  by (auto split: prod.split option.split intro!: cmd_keeps cmd_gfx_bg_keeps unknown_command_keeps unexpected_eof_keeps dest: strtok_narrow(1))

lemma shell_command_keeps: "demo_inv s \<Longrightarrow> narrow B input \<Longrightarrow> keeps B (shell_command b att me input s)"
  unfolding shell_command_def
  by (auto split: prod.split option.split
      intro!: cmd_keeps cmd_perf_keeps cmd_remote_keeps cmd_gfx_keeps unknown_command_keeps dest: strtok_narrow(1))


definition example_demo :: "string \<Rightarrow> sim_board demo" where
  "example_demo ks =
     \<lparr>hw = example_board ks, input_run = False, input_len = 0, input_max = 0, input_buf = None,
      all_cpus = [Line 0 0 0 0, Line 1 0 0 0, Line 2 0 0 0, Line 3 0 0 0], boot_done = True, boot_num = 0,
      swap_buffers = False, clear_color = 0, data_size = 0\<rparr>"

text \<open>The other cores stay away, and the monitor is at another line.\<close>

definition no_contention :: contention where
  "no_contention = \<lparr>c_between = (\<lambda>l. l), c_mon = \<lparr>m_here = False, m_mask = {}, m_dirty = False,
     m_rd = line_zero, m_wr = line_zero\<rparr>, c_block = True, c_tries = [calm]\<rparr>"


end
