(* ===== verification/Demo_Props.thy ===== *)
theory Demo_Props
  imports Demo_Safety
begin

text \<open>
  What the commands of the demo firmware do to the board: the words the multiprocessor control
  and the graphics unit receive, the memory words that \<open>write\<close> changes, and the mailboxes.
\<close>

section \<open>Effects on the simulated board\<close>

definition ready :: "(sim_board, 'x) console_scheme \<Rightarrow> bool" where
  "ready s \<longleftrightarrow> sb_good (hw s) \<and> console_inv s"

text \<open>Only the board changes, its words to \<open>g\<close>.\<close>

definition after :: "(sim_board, 'x) console_scheme \<Rightarrow> (u32 \<Rightarrow> u32) \<Rightarrow> (sim_board, 'x) console_scheme \<Rightarrow> bool" where
  "after s g s' \<longleftrightarrow> (\<exists>h. s' = s\<lparr>hw := h\<rparr> \<and> sb_good h \<and> sb_words h = g)"

abbreviation words_at :: "(sim_board, 'x) console_scheme \<Rightarrow> u32 \<Rightarrow> u32" where
  "words_at s \<equiv> sb_words (hw s)"

lemma after_ready: "after s g s' \<Longrightarrow> ready s \<Longrightarrow> ready s'"
  by (auto simp: after_def ready_def)

lemma after_words: "after s g s' \<Longrightarrow> words_at s' = g"
  by (auto simp: after_def)

lemma after_trans: "after s g s' \<Longrightarrow> after s' g' s'' \<Longrightarrow> after s g' s''"
  by (auto simp: after_def)

lemma after_refl: "ready s \<Longrightarrow> after s (words_at s) s"
  unfolding after_def ready_def by (intro exI [of _ "hw s"]) simp

lemma print_after:
  assumes "ready s" "render fmt args \<noteq> None"
  shows "\<exists>s'. print sim_mmio me fmt args s = Inr s' \<and> after s (words_at s) s'"
proof -
  obtain t where t: "render fmt args = Some t" using assms(2) by blast
  have "sb_good (hw s)" "console_inv s" using assms(1) by (simp_all add: ready_def)
  from print_reaches_board [OF this(1) t this(2), of me] show ?thesis
    by (auto simp: after_def)
qed

definition is_uart :: "u32 \<Rightarrow> bool" where
  "is_uart a \<longleftrightarrow> a = JTAG_UART_DATA \<or> a = JTAG_UART_CONTROL"

lemma load_after:
  assumes "ready s" "\<not> is_uart a"
  shows "\<exists>s'. load sim_mmio a s = (words_at s a, s') \<and> after s (words_at s) s'"
proof -
  have g: "sb_good (hw s)" using assms(1) by (simp add: ready_def)
  have "load sim_mmio a s = (words_at s a, s\<lparr>hw := sb_tick (hw s)\<rparr>)"
    using assms(2) sb_tick_frame(3) [OF g] by (simp add: load_def sim_mmio_def sb_read_def is_uart_def Let_def)
  then show ?thesis using sb_tick_frame [OF g] by (auto simp: after_def)
qed

lemma store_after:
  assumes "ready s" "\<not> is_uart a"
  shows "after s ((words_at s)(a := v)) (store sim_mmio a v s)"
proof -
  have g: "sb_good (hw s)" using assms(1) by (simp add: ready_def)
  let ?h = "(sb_tick (hw s))\<lparr>sb_words := (words_at s)(a := v)\<rparr>"
  have "store sim_mmio a v s = s\<lparr>hw := ?h\<rparr>"
    using assms(2) sb_tick_frame(3) [OF g] by (simp add: store_def sim_mmio_def sb_write_def is_uart_def Let_def)
  moreover have "sb_good ?h" using sb_tick_frame(1) [OF g] by (simp add: sb_good_def)
  ultimately show ?thesis by (auto simp: after_def)
qed

section \<open>Running and halting cores\<close>

lemma bit_test_push: "msk AND push_bit c 1 \<noteq> 0 \<longleftrightarrow> bit msk c" for msk :: u32
  using and_exp_eq_0_iff_not_bit [of msk c] by (simp add: push_bit_eq_mult)

lemma SMP_not_uart: "\<not> is_uart SMP_CTRL"
  by (simp add: is_uart_def SMP_CTRL_def uart_registers)

text \<open>Bit \<open>n\<close> of the control word: \<open>k\<close> is 0 for a run and 1 for a halt request.\<close>

definition requests :: "(nat \<Rightarrow> bool) \<Rightarrow> nat \<Rightarrow> nat list \<Rightarrow> u32 \<Rightarrow> bool" where
  "requests chosen k cpus w \<longleftrightarrow> (\<forall>n. bit w n \<longleftrightarrow> (\<exists>c \<in> set cpus. chosen c \<and> n = c * 8 + k))"

lemma requests_Nil: "requests chosen k [] 0"
  by (simp add: requests_def)

lemma push_request: "c * 8 + k < 32 \<Longrightarrow> bit (push_bit (c * 8 + k) 1 :: u32) n \<longleftrightarrow> n = c * 8 + k"
  by (auto simp: bit_push_bit_iff bit_one_iff' simp del: push_bit_of_1)

lemma requests_snoc:
  assumes "requests chosen k cpus w" "c * 8 + k < 32"
  shows "chosen c \<Longrightarrow> requests chosen k (cpus @ [c]) (w OR push_bit (c * 8) (push_bit k 1))"
    "\<not> chosen c \<Longrightarrow> requests chosen k (cpus @ [c]) w"
  using assms by (auto simp: requests_def bit_or_iff push_request simp del: push_bit_of_1)

lemma run_cpus_loop_after:
  "ready s \<Longrightarrow> \<forall>c \<in> set cpus. c < 4 \<Longrightarrow> requests (\<lambda>c. bit msk c \<and> bit ctrl (c * 8)) 0 done w
    \<Longrightarrow> \<exists>w' s'. run_cpus_loop sim_mmio me msk ctrl cpus w s = Inr (w', s') \<and> after s (words_at s) s'
      \<and> requests (\<lambda>c. bit msk c \<and> bit ctrl (c * 8)) 0 (done @ cpus) w'"
proof (induction cpus arbitrary: "done" w s)
  case Nil
  then show ?case using after_refl by auto
next
  case (Cons c cpus)
  let ?P = "\<lambda>c. bit msk c \<and> bit ctrl (c * 8)"
  have c: "c * 8 + 0 < 32" using Cons.prems(2) by simp
  have one: "push_bit (c * 8) (push_bit 0 1) = (push_bit (c * 8) 1 :: u32)" by simp
  have step: "\<exists>w' s'. run_cpus_loop sim_mmio me msk ctrl cpus w1 s1 = Inr (w', s') \<and> after s (words_at s) s'
      \<and> requests ?P 0 (done @ c # cpus) w'"
    if "after s (words_at s) s1" "requests ?P 0 (done @ [c]) w1" for w1 s1
    using Cons.IH [OF after_ready [OF that(1) Cons.prems(1)] _ that(2)] Cons.prems(2) that(1)
      after_words [OF that(1)] after_trans [OF that(1)] by fastforce
  have pr: "\<exists>s1. print sim_mmio me ''run cpu%u'' [Va_Int (of_nat c)] s = Inr s1 \<and> after s (words_at s) s1"
    "\<exists>s1. print sim_mmio me ''cpu%u already running'' [Va_Int (of_nat c)] s = Inr s1 \<and> after s (words_at s) s1"
    by (rule print_after [OF Cons.prems(1)]; simp add: arg_text_def)+
  note sn = requests_snoc [OF Cons.prems(3) c, unfolded one]
  consider "\<not> bit msk c" | "bit msk c" "bit ctrl (c * 8)" | "bit msk c" "\<not> bit ctrl (c * 8)" by blast
  then show ?case
  proof cases
    case 1
    then have "msk AND push_bit c 1 = 0" using bit_test_push by blast
    moreover have "requests ?P 0 (done @ [c]) w" by (rule sn(2)) (simp add: 1)
    ultimately show ?thesis using step [OF after_refl [OF Cons.prems(1)]] by (simp only: run_cpus_loop.simps if_True simp_thms)
  next
    case 2
    then have "msk AND push_bit c 1 \<noteq> 0" "ctrl AND push_bit (c * 8) 1 \<noteq> 0" using bit_test_push by blast+
    moreover have "requests ?P 0 (done @ [c]) (w OR push_bit (c * 8) 1)" by (rule sn(1)) (simp add: 2)
    moreover obtain s1 where "print sim_mmio me ''run cpu%u'' [Va_Int (of_nat c)] s = Inr s1" "after s (words_at s) s1"
      using pr(1) by blast
    ultimately show ?thesis
      using step by (simp only: run_cpus_loop.simps if_False bind_res_simps simp_thms if_True)
  next
    case 3
    then have "msk AND push_bit c 1 \<noteq> 0" "ctrl AND push_bit (c * 8) 1 = 0" using bit_test_push by blast+
    moreover have "requests ?P 0 (done @ [c]) w" by (rule sn(2)) (simp add: 3)
    moreover obtain s1 where "print sim_mmio me ''cpu%u already running'' [Va_Int (of_nat c)] s = Inr s1" "after s (words_at s) s1"
      using pr(2) by blast
    ultimately show ?thesis
      using step by (simp only: run_cpus_loop.simps if_False bind_res_simps simp_thms)
  qed
qed

lemma run_cpus_after:
  assumes "ready s"
  shows "\<exists>w s'. run_cpus sim_mmio me msk s = Inr s' \<and> after s ((words_at s)(SMP_CTRL := w)) s'
    \<and> requests (\<lambda>c. bit msk c \<and> bit (words_at s SMP_CTRL) (c * 8)) 0 [0..<NUM_CPUS] w"
proof -
  obtain s1 where s1: "load sim_mmio SMP_CTRL s = (words_at s SMP_CTRL, s1)" "after s (words_at s) s1"
    using load_after [OF assms SMP_not_uart] by blast
  have r1: "ready s1" using after_ready [OF s1(2) assms] .
  have "\<forall>c \<in> set [0..<NUM_CPUS]. c < 4" by (simp add: NUM_CPUS_def)
  from run_cpus_loop_after [OF r1 this requests_Nil] obtain w s2 where
    s2: "run_cpus_loop sim_mmio me msk (words_at s SMP_CTRL) [0..<NUM_CPUS] 0 s1 = Inr (w, s2)" "after s1 (words_at s1) s2"
      "requests (\<lambda>c. bit msk c \<and> bit (words_at s SMP_CTRL) (c * 8)) 0 ([] @ [0..<NUM_CPUS]) w" by blast
  have a2: "after s (words_at s) s2" using after_trans [OF s1(2)] s2(2) after_words [OF s1(2)] by simp
  have "after s2 ((words_at s2)(SMP_CTRL := w)) (store sim_mmio SMP_CTRL w s2)"
    by (rule store_after [OF after_ready [OF a2 assms] SMP_not_uart])
  then have "after s ((words_at s)(SMP_CTRL := w)) (store sim_mmio SMP_CTRL w s2)"
    using after_trans [OF a2] after_words [OF a2] by simp
  moreover have "run_cpus sim_mmio me msk s = Inr (store sim_mmio SMP_CTRL w s2)"
    by (simp only: run_cpus_def s1(1) s2(1) Let_def prod.case bind_res_simps)
  ultimately show ?thesis using s2(3) by auto
qed

lemma halt_cpus_loop_after:
  "ready s \<Longrightarrow> \<forall>c \<in> set cpus. c < 4 \<Longrightarrow> requests (\<lambda>c. bit msk c \<and> \<not> bit ctrl (c * 8)) 1 done w
    \<Longrightarrow> \<exists>w' s'. halt_cpus_loop sim_mmio me msk ctrl cpus w s = Inr (w', s') \<and> after s (words_at s) s'
      \<and> requests (\<lambda>c. bit msk c \<and> \<not> bit ctrl (c * 8)) 1 (done @ cpus) w'"
proof (induction cpus arbitrary: "done" w s)
  case Nil
  then show ?case using after_refl by auto
next
  case (Cons c cpus)
  let ?P = "\<lambda>c. bit msk c \<and> \<not> bit ctrl (c * 8)"
  let ?args = "[Va_Int (of_nat c), Va_Str (if of_nat c = me then '' (myself)'' else [])]"
  have c: "c * 8 + 1 < 32" using Cons.prems(2) by simp
  have one: "push_bit (c * 8) (push_bit 1 1) = (push_bit (c * 8) 2 :: u32)" by simp
  have step: "\<exists>w' s'. halt_cpus_loop sim_mmio me msk ctrl cpus w1 s1 = Inr (w', s') \<and> after s (words_at s) s'
      \<and> requests ?P 1 (done @ c # cpus) w'"
    if "after s (words_at s) s1" "requests ?P 1 (done @ [c]) w1" for w1 s1
    using Cons.IH [OF after_ready [OF that(1) Cons.prems(1)] _ that(2)] Cons.prems(2) that(1)
      after_words [OF that(1)] after_trans [OF that(1)] by fastforce
  have pr: "\<exists>s1. print sim_mmio me ''halt cpu%u%s'' ?args s = Inr s1 \<and> after s (words_at s) s1"
    "\<exists>s1. print sim_mmio me ''cpu%u already halted'' [Va_Int (of_nat c)] s = Inr s1 \<and> after s (words_at s) s1"
    by (rule print_after [OF Cons.prems(1)]; simp add: arg_text_def)+
  note sn = requests_snoc [OF Cons.prems(3) c, unfolded one]
  consider "\<not> bit msk c" | "bit msk c" "\<not> bit ctrl (c * 8)" | "bit msk c" "bit ctrl (c * 8)" by blast
  then show ?case
  proof cases
    case 1
    then have "msk AND push_bit c 1 = 0" using bit_test_push by blast
    moreover have "requests ?P 1 (done @ [c]) w" by (rule sn(2)) (simp add: 1)
    ultimately show ?thesis using step [OF after_refl [OF Cons.prems(1)]] by (simp only: halt_cpus_loop.simps if_True simp_thms)
  next
    case 2
    then have "msk AND push_bit c 1 \<noteq> 0" "ctrl AND push_bit (c * 8) 1 = 0" using bit_test_push by blast+
    moreover have "requests ?P 1 (done @ [c]) (w OR push_bit (c * 8) 2)" by (rule sn(1)) (simp add: 2)
    moreover obtain s1 where "print sim_mmio me ''halt cpu%u%s'' ?args s = Inr s1" "after s (words_at s) s1"
      using pr(1) by blast
    ultimately show ?thesis
      using step by (simp only: halt_cpus_loop.simps if_False bind_res_simps simp_thms if_True)
  next
    case 3
    then have "msk AND push_bit c 1 \<noteq> 0" "ctrl AND push_bit (c * 8) 1 \<noteq> 0" using bit_test_push by blast+
    moreover have "requests ?P 1 (done @ [c]) w" by (rule sn(2)) (simp add: 3)
    moreover obtain s1 where "print sim_mmio me ''cpu%u already halted'' [Va_Int (of_nat c)] s = Inr s1" "after s (words_at s) s1"
      using pr(2) by blast
    ultimately show ?thesis
      using step by (simp only: halt_cpus_loop.simps if_False bind_res_simps simp_thms)
  qed
qed

lemma halt_cpus_after:
  assumes "ready s"
  shows "\<exists>w s'. halt_cpus sim_mmio me msk s = Inr s' \<and> after s ((words_at s)(SMP_CTRL := w)) s'
    \<and> requests (\<lambda>c. bit msk c \<and> \<not> bit (words_at s SMP_CTRL) (c * 8)) 1 [0..<NUM_CPUS] w"
proof -
  obtain s1 where s1: "load sim_mmio SMP_CTRL s = (words_at s SMP_CTRL, s1)" "after s (words_at s) s1"
    using load_after [OF assms SMP_not_uart] by blast
  have r1: "ready s1" using after_ready [OF s1(2) assms] .
  have "\<forall>c \<in> set [0..<NUM_CPUS]. c < 4" by (simp add: NUM_CPUS_def)
  from halt_cpus_loop_after [OF r1 this requests_Nil] obtain w s2 where
    s2: "halt_cpus_loop sim_mmio me msk (words_at s SMP_CTRL) [0..<NUM_CPUS] 0 s1 = Inr (w, s2)" "after s1 (words_at s1) s2"
      "requests (\<lambda>c. bit msk c \<and> \<not> bit (words_at s SMP_CTRL) (c * 8)) 1 ([] @ [0..<NUM_CPUS]) w" by blast
  have a2: "after s (words_at s) s2" using after_trans [OF s1(2)] s2(2) after_words [OF s1(2)] by simp
  have "after s2 ((words_at s2)(SMP_CTRL := w)) (store sim_mmio SMP_CTRL w s2)"
    by (rule store_after [OF after_ready [OF a2 assms] SMP_not_uart])
  then have "after s ((words_at s)(SMP_CTRL := w)) (store sim_mmio SMP_CTRL w s2)"
    using after_trans [OF a2] after_words [OF a2] by simp
  moreover have "halt_cpus sim_mmio me msk s = Inr (store sim_mmio SMP_CTRL w s2)"
    by (simp only: halt_cpus_def s1(1) s2(1) Let_def prod.case bind_res_simps)
  ultimately show ?thesis using s2(3) by auto
qed

section \<open>Command lines\<close>

definition cpu_name :: "nat \<Rightarrow> string" where
  "cpu_name n = ''cpu'' @ [char_of (48 + n)]"

fun cpu_list :: "nat list \<Rightarrow> string" where
  "cpu_list [] = []"
| "cpu_list [n] = cpu_name n"
| "cpu_list (n # ns) = cpu_name n @ CHR '' '' # cpu_list ns"

lemma cpu_name_token: "n < 4 \<Longrightarrow> CHR '' '' \<notin> set (cpu_name n) \<and> cpu_name n \<noteq> []"
proof -
  have "list_all (\<lambda>n. CHR '' '' \<notin> set (cpu_name n)) [0..<4]" by code_simp
  then show "n < 4 \<Longrightarrow> ?thesis" by (simp add: list_all_iff cpu_name_def)
qed

lemma parse_cpu_name: "n < 4 \<Longrightarrow> parse_cpu_token b me (cpu_name n) rest s = Inr (Some (of_nat n), rest, s)"
proof -
  have "list_all (\<lambda>n. (of_char (char_of (48 + n :: nat)) :: nat) = 48 + n) [0..<4]" by code_simp
  then have "n < 4 \<Longrightarrow> (of_char (char_of (48 + n :: nat)) :: nat) = 48 + n" by (simp add: list_all_iff)
  then show "n < 4 \<Longrightarrow> ?thesis"
    by (simp add: parse_cpu_token_def cpu_name_def char_at_def NUM_CPUS_def nth_Cons')
qed

definition adds_bits :: "nat list \<Rightarrow> u32 \<Rightarrow> u32 \<Rightarrow> bool" where
  "adds_bits ns m m' \<longleftrightarrow> (\<forall>i. bit m' i \<longleftrightarrow> bit m i \<or> i \<in> set ns)"

lemma cpu_mask_step:
  assumes "n < 4" "strtok_input tokens = (Some (cpu_name n), rest)"
  shows "cpu_mask_loop b me tokens m s = cpu_mask_loop b me rest (m OR push_bit n 1) s"
proof -
  have "n < 2 ^ LENGTH(32)" by (rule less_trans [OF assms(1)]) simp
  then have u: "unat (of_nat n :: u32) = n" by (simp only: unat_of_nat mod_less)
  show ?thesis
    by (simp only: cpu_mask_loop.simps [of b me tokens] assms(2) parse_cpu_name [OF assms(1)] prod.case option.case
        bind_res_simps u)
qed

lemma cpu_mask_end: "cpu_mask_loop b me [] m s = Inr (Some m, [], s)"
  by (simp add: cpu_mask_loop.simps strtok_input_eq)

lemma adds_bits_step: "n < 4 \<Longrightarrow> adds_bits ns (m OR push_bit n 1) m' \<Longrightarrow> adds_bits (n # ns) m m'"
proof -
  assume n: "n < 4" and a: "adds_bits ns (m OR push_bit n 1) m'"
  have "bit (push_bit n 1 :: u32) i \<longleftrightarrow> i = n" for i
    using n by (auto simp: bit_push_bit_iff bit_one_iff' simp del: push_bit_of_1)
  with a show ?thesis unfolding adds_bits_def bit_or_iff by auto
qed

lemma cpu_mask_of_list:
  "list_all (\<lambda>n. n < 4) ns \<Longrightarrow> \<exists>m'. cpu_mask_loop b me (cpu_list ns) m s = Inr (Some m', [], s) \<and> adds_bits ns m m'"
proof (induction ns arbitrary: m rule: cpu_list.induct)
  case 1
  then show ?case by (simp add: cpu_mask_end adds_bits_def)
next
  case (2 n)
  then have n: "n < 4" by simp
  have t: "strtok_input (cpu_name n) = (Some (cpu_name n), [])" using cpu_name_token [OF n] by (intro token_before_space) auto
  have "adds_bits [n] m (m OR push_bit n 1)" by (rule adds_bits_step [OF n]) (simp add: adds_bits_def)
  then show ?case unfolding cpu_list.simps cpu_mask_step [OF n t] cpu_mask_end by blast
next
  case (3 n v ns)
  then have n: "n < 4" by simp
  have t: "strtok_input (cpu_name n @ CHR '' '' # cpu_list (v # ns)) = (Some (cpu_name n), cpu_list (v # ns))"
    using cpu_name_token [OF n] by (intro token_before_space) auto
  have "list_all (\<lambda>n. n < 4) (v # ns)" using 3(2) by simp
  from 3(1) [OF this, of "m OR push_bit n 1"] adds_bits_step [OF n] show ?case
    unfolding cpu_list.simps(3) cpu_mask_step [OF n t] by blast
qed

lemma parse_cpu_list:
  assumes "list_all (\<lambda>n. n < 4) ns" "ns \<noteq> []"
  shows "\<exists>m. parse_cpu_mask b me (cpu_list ns) s = Inr (Some m, [], s) \<and> adds_bits ns 0 m"
proof -
  obtain m where m: "cpu_mask_loop b me (cpu_list ns) 0 s = Inr (Some m, [], s)" "adds_bits ns 0 m"
    using cpu_mask_of_list [OF assms(1)] by blast
  have "m \<noteq> 0" using m(2) assms(2) by (cases ns) (auto simp: adds_bits_def)
  then show ?thesis using m by (simp add: parse_cpu_mask_def)
qed

lemma strcmp_same [simp]: "strcmp t t = 0"
  by (induction t) simp_all

lemma run_line_dispatch:
  "shell_command b att me (''run '' @ tokens) s = cmd_run b me tokens s"
  "shell_command b att me (''halt '' @ tokens) s = cmd_halt b me tokens s"
  "shell_command b att me (''read '' @ tokens) s = cmd_read b me tokens s"
  "shell_command b att me (''write '' @ tokens) s = cmd_write b me tokens s"
proof -
  have t: "strtok_input (''run '' @ tokens) = (Some ''run'', tokens)" "strtok_input (''halt '' @ tokens) = (Some ''halt'', tokens)"
    "strtok_input (''read '' @ tokens) = (Some ''read'', tokens)" "strtok_input (''write '' @ tokens) = (Some ''write'', tokens)"
    by (simp_all add: strtok_input_eq)
  show "shell_command b att me (''run '' @ tokens) s = cmd_run b me tokens s"
    "shell_command b att me (''halt '' @ tokens) s = cmd_halt b me tokens s"
    "shell_command b att me (''read '' @ tokens) s = cmd_read b me tokens s"
    "shell_command b att me (''write '' @ tokens) s = cmd_write b me tokens s"
    unfolding shell_command_def t by simp_all
qed

text \<open>
  C23. The line \<open>run cpuA cpuB ...\<close> typed to the shell writes one control word, with the run bit
  of exactly the named cores that are halted; nothing else in memory changes.
\<close>

theorem run_line_requests_cores:
  assumes "ready s" "ns \<noteq> []" "list_all (\<lambda>n. n < 4) ns"
  shows "\<exists>w s'. shell_command sim_mmio att me (''run '' @ cpu_list ns) s = Inr s'
    \<and> after s ((words_at s)(SMP_CTRL := w)) s'
    \<and> (\<forall>i. bit w i \<longleftrightarrow> (\<exists>c \<in> set ns. i = c * 8 \<and> bit (words_at s SMP_CTRL) (c * 8)))"
proof -
  obtain m where m: "parse_cpu_mask sim_mmio me (cpu_list ns) s = Inr (Some m, [], s)" "adds_bits ns 0 m"
    using parse_cpu_list [OF assms(3,2)] by blast
  from run_cpus_after [OF assms(1)] obtain w s' where
    w: "run_cpus sim_mmio me m s = Inr s'" "after s ((words_at s)(SMP_CTRL := w)) s'"
      "requests (\<lambda>c. bit m c \<and> bit (words_at s SMP_CTRL) (c * 8)) 0 [0..<NUM_CPUS] w" by blast
  have "bit w i \<longleftrightarrow> (\<exists>c \<in> set ns. i = c * 8 \<and> bit (words_at s SMP_CTRL) (c * 8))" for i
    using w(3) m(2) assms(3) by (auto simp: requests_def adds_bits_def NUM_CPUS_def list_all_iff)
  moreover have "shell_command sim_mmio att me (''run '' @ cpu_list ns) s = Inr s'"
    unfolding run_line_dispatch cmd_run_def m(1) by (simp add: and_then_def w(1))
  ultimately show ?thesis using w(2) by blast
qed

text \<open>
  The line \<open>halt cpuA cpuB ...\<close> writes one control word, with the halt bit of exactly the
  named cores that are not halted.
\<close>

theorem halt_line_requests_cores:
  assumes "ready s" "ns \<noteq> []" "list_all (\<lambda>n. n < 4) ns"
  shows "\<exists>w s'. shell_command sim_mmio att me (''halt '' @ cpu_list ns) s = Inr s'
    \<and> after s ((words_at s)(SMP_CTRL := w)) s'
    \<and> (\<forall>i. bit w i \<longleftrightarrow> (\<exists>c \<in> set ns. i = c * 8 + 1 \<and> \<not> bit (words_at s SMP_CTRL) (c * 8)))"
proof -
  obtain m where m: "parse_cpu_mask sim_mmio me (cpu_list ns) s = Inr (Some m, [], s)" "adds_bits ns 0 m"
    using parse_cpu_list [OF assms(3,2)] by blast
  from halt_cpus_after [OF assms(1)] obtain w s' where
    w: "halt_cpus sim_mmio me m s = Inr s'" "after s ((words_at s)(SMP_CTRL := w)) s'"
      "requests (\<lambda>c. bit m c \<and> \<not> bit (words_at s SMP_CTRL) (c * 8)) 1 [0..<NUM_CPUS] w" by blast
  have "bit w i \<longleftrightarrow> (\<exists>c \<in> set ns. i = c * 8 + 1 \<and> \<not> bit (words_at s SMP_CTRL) (c * 8))" for i
    using w(3) m(2) assms(3) by (auto simp: requests_def adds_bits_def NUM_CPUS_def list_all_iff)
  moreover have "shell_command sim_mmio att me (''halt '' @ cpu_list ns) s = Inr s'"
    unfolding run_line_dispatch cmd_halt_def m(1) by (simp add: and_then_def w(1))
  ultimately show ?thesis using w(2) by blast
qed

lemma example_ready: "ready (example_demo [])"
  using example_good(1) [of "[]"] by (simp add: ready_def example_demo_def console_inv_def)

lemma run_line_requests_cores_witness:
  "\<exists>w s'. shell_command sim_mmio no_contention 0 (''run '' @ cpu_list [3, 1]) (example_demo []) = Inr s'
    \<and> after (example_demo []) ((words_at (example_demo []))(SMP_CTRL := w)) s'
    \<and> (\<forall>i. bit w i \<longleftrightarrow> (\<exists>c \<in> set [3, 1]. i = c * 8 \<and> bit (words_at (example_demo []) SMP_CTRL) (c * 8)))"
  by (rule run_line_requests_cores [OF example_ready]) simp_all

lemma halt_line_requests_cores_witness:
  "\<exists>w s'. shell_command sim_mmio no_contention 0 (''halt '' @ cpu_list [2]) (example_demo []) = Inr s'
    \<and> after (example_demo []) ((words_at (example_demo []))(SMP_CTRL := w)) s'
    \<and> (\<forall>i. bit w i \<longleftrightarrow> (\<exists>c \<in> set [2]. i = c * 8 + 1 \<and> \<not> bit (words_at (example_demo []) SMP_CTRL) (c * 8)))"
  by (rule halt_line_requests_cores [OF example_ready]) simp_all

section \<open>Reading and writing memory\<close>

definition digits_of :: "u32 \<Rightarrow> string" where
  "digits_of v = ''0x'' @ hex_digits 8 (unat v)"

lemma digits_of_token: "CHR '' '' \<notin> set (digits_of v)" "digits_of v \<noteq> []"
  using hex_digit_not_space [of "CHR '' ''" 8 "unat v"] by (auto simp: digits_of_def)

lemma parse_hex_text:
  assumes "strtok_input tokens = (Some (digits_of v), rest)"
  shows "parse_hex b me tokens s = Inr (Some v, rest, s)"
  by (rule parsed_word [OF assms [unfolded digits_of_def]])

lemma parse_aligned_text:
  assumes "strtok_input tokens = (Some (digits_of p), rest)" "p AND 3 = 0"
  shows "parse_aligned b me tokens s = Inr (Some p, rest, s)"
  using assms(2) by (simp add: parse_aligned_def parse_ptr_def parse_hex_text [OF assms(1)])

lemma expect_end_Nil: "expect_end b me [] s = Inr (Some (), [], s)"
  by (simp add: expect_end_def strtok_input_eq)

lemma do_read_shows:
  assumes "ready s" "\<not> is_uart p"
  shows "\<exists>s'. do_read sim_mmio me p s = Inr s' \<and> after s (words_at s) s'
    \<and> sb_tty (hw s') = sb_tty (hw s) @ print_text me (digits_of p @ '' -> '' @ digits_of (words_at s p)) s"
proof -
  have g: "sb_good (hw s)" using assms(1) by (simp add: ready_def)
  let ?s = "s\<lparr>hw := sb_tick (hw s)\<rparr>"
  note f = sb_tick_frame [OF g]
  have l: "load sim_mmio p s = (words_at s p, ?s)"
    using assms(2) f(3) by (simp add: load_def sim_mmio_def sb_read_def is_uart_def Let_def)
  have r: "render ''%p -> %x'' [Va_Int p, Va_Int (words_at s p)] = Some (digits_of p @ '' -> '' @ digits_of (words_at s p))"
    by (simp add: arg_text_def digits_of_def del: hex_digits.simps)
  have c: "console_inv ?s" "sb_good (hw ?s)" using assms(1) f(1) by (simp_all add: ready_def)
  have t: "print_text me u ?s = print_text me u s" for u by (simp add: print_text_def)
  have "sb_tty (sb_tick (hw s)) = sb_tty (hw s)" using f(2) by (simp add: shown_def)
  with print_reaches_board [OF c(2) r c(1), of me] show ?thesis
    using f(3) unfolding do_read_def l t by (auto simp: after_def)
qed

text \<open>
  C24. A word written with \<open>write\<close> is stored at its address and nowhere else, and \<open>read\<close> shows it:
  the two commands take addresses and values in the form in which \<open>print\<close> shows them.
\<close>

theorem written_word_is_read:
  assumes "ready s" "p AND 3 = 0" "\<not> is_uart p"
  shows "\<exists>s1 s2. shell_command sim_mmio att me (''write '' @ digits_of p @ '' '' @ digits_of v) s = Inr s1
    \<and> after s ((words_at s)(p := v)) s1
    \<and> shell_command sim_mmio att me (''read '' @ digits_of p) s1 = Inr s2
    \<and> after s1 (words_at s1) s2
    \<and> sb_tty (hw s2) = sb_tty (hw s1) @ print_text me (digits_of p @ '' -> '' @ digits_of v) s1"
proof -
  have tw: "strtok_input (digits_of p @ '' '' @ digits_of v) = (Some (digits_of p), digits_of v)"
    using token_before_space(1) [OF digits_of_token, of p "digits_of v"] by simp
  have te: "strtok_input (digits_of x) = (Some (digits_of x), [])" for x
    using token_before_space(2) [OF digits_of_token, of x] .
  let ?s = "store sim_mmio p v s"
  have st: "after s ((words_at s)(p := v)) ?s" by (rule store_after [OF assms(1,3)])
  have rd: "ready ?s" using after_ready [OF st assms(1)] .
  obtain s1 where s1: "print sim_mmio me ''%p <- %x'' [Va_Int p, Va_Int v] ?s = Inr s1" "after ?s (words_at ?s) s1"
    using print_after [OF rd, of "''%p <- %x''" "[Va_Int p, Va_Int v]" me] by (auto simp: arg_text_def)
  have a1: "after s ((words_at s)(p := v)) s1" using after_trans [OF st s1(2)] unfolding after_words [OF st] .
  have "shell_command sim_mmio att me (''write '' @ digits_of p @ '' '' @ digits_of v) s = Inr s1"
    unfolding run_line_dispatch cmd_write_def parse_aligned_text [OF tw assms(2)] and_then_def
    by (simp add: parse_hex_text [OF te] expect_end_Nil do_write_def s1(1))
  moreover have "words_at s1 p = v" using after_words [OF a1] by simp
  then obtain s2 where s2: "do_read sim_mmio me p s1 = Inr s2" "after s1 (words_at s1) s2"
      "sb_tty (hw s2) = sb_tty (hw s1) @ print_text me (digits_of p @ '' -> '' @ digits_of v) s1"
    using do_read_shows [OF after_ready [OF a1 assms(1)] assms(3), of me] by auto
  moreover have "shell_command sim_mmio att me (''read '' @ digits_of p) s1 = Inr s2"
    unfolding run_line_dispatch cmd_read_def parse_aligned_text [OF te assms(2)] and_then_def
    by (simp add: expect_end_Nil s2(1))
  ultimately show ?thesis using a1 by blast
qed

lemma written_word_is_read_witness:
  "\<exists>s1 s2. shell_command sim_mmio no_contention 0 (''write '' @ digits_of 0x10000000 @ '' '' @ digits_of 0xdeadbeef) (example_demo []) = Inr s1
    \<and> after (example_demo []) ((words_at (example_demo []))(0x10000000 := 0xdeadbeef)) s1
    \<and> shell_command sim_mmio no_contention 0 (''read '' @ digits_of 0x10000000) s1 = Inr s2
    \<and> after s1 (words_at s1) s2
    \<and> sb_tty (hw s2) = sb_tty (hw s1) @ print_text 0 (digits_of 0x10000000 @ '' -> '' @ digits_of 0xdeadbeef) s1"
  by (rule written_word_is_read [OF example_ready]) (simp_all add: is_uart_def uart_registers)

section \<open>Mailboxes\<close>

lemma low_two: "bit (NOT 3 :: u32) n \<longleftrightarrow> 2 \<le> n \<and> n < 32" "bit (NOT 3 :: u64) n \<longleftrightarrow> 2 \<le> n \<and> n < 64"
proof -
  have m: "(3 :: u32) = mask 2" "(3 :: u64) = mask 2" by (simp_all add: mask_eq_exp_minus_1)
  show "bit (NOT 3 :: u32) n \<longleftrightarrow> 2 \<le> n \<and> n < 32" "bit (NOT 3 :: u64) n \<longleftrightarrow> 2 \<le> n \<and> n < 64"
    unfolding m by (auto simp: bit_not_iff bit_mask_iff)
qed

lemma low_two_neg: "bit (- 4 :: u32) n \<longleftrightarrow> 2 \<le> n \<and> n < 32" "bit (- 4 :: u64) n \<longleftrightarrow> 2 \<le> n \<and> n < 64"
  using low_two [of n] by simp_all

lemma bit_send_word:
  "bit (send_word ptr wr val) n \<longleftrightarrow>
    n < 32 \<and> bit val n \<or> n = 32 \<or> n = 33 \<and> bit wr 0 \<or> 34 \<le> n \<and> n < 64 \<and> bit ptr (n - 32)"
proof -
  have o: "bit (1 :: 'a::len word) i \<longleftrightarrow> i = 0" for i by (rule bit_one_iff')
  have "bit (send_word ptr wr val) n \<longleftrightarrow>
      n < 64 \<and> (32 \<le> n \<and> (bit (ptr AND NOT 3) (n - 32) \<or> 1 \<le> n - 32 \<and> bit (wr AND 1) (n - 32 - 1) \<or> n - 32 = 0) \<or> bit val n)"
    unfolding send_word_def Let_def
    by (simp only: bit_or_iff bit_push_bit_iff bit_ucast_iff o possible_bit_word) auto
  also have "\<dots> \<longleftrightarrow> n < 32 \<and> bit val n \<or> n = 32 \<or> n = 33 \<and> bit wr 0 \<or> 34 \<le> n \<and> n < 64 \<and> bit ptr (n - 32)"
    unfolding bit_and_iff low_two o by (auto dest: bit_imp_le_length)
  finally show ?thesis .
qed

lemma send_word_fields:
  "ucast (drop_bit 32 (send_word ptr wr val) AND NOT 0b11) = ptr AND NOT 0b11"
  "ucast (drop_bit 33 (send_word ptr wr val) AND 1) = wr AND 1"
  "ucast (send_word ptr wr val) = val" "send_word ptr wr val \<noteq> 0"
proof -
  have o: "bit (1 :: 'a::len word) i \<longleftrightarrow> i = 0" for i by (rule bit_one_iff')
  show "ucast (drop_bit 32 (send_word ptr wr val) AND NOT 0b11) = ptr AND NOT 0b11"
  proof (rule bit_word_eqI)
    fix n
    assume "n < LENGTH(32)"
    then have n: "n < 32" by simp
    have "bit (ucast (drop_bit 32 (send_word ptr wr val) AND NOT 3) :: u32) n \<longleftrightarrow> bit (send_word ptr wr val) (32 + n) \<and> 2 \<le> n"
      unfolding bit_ucast_iff bit_and_iff bit_drop_bit_eq low_two comp_def using n by simp
    moreover have "bit (ptr AND NOT 3) n \<longleftrightarrow> bit ptr n \<and> 2 \<le> n"
      unfolding bit_and_iff low_two using n by simp
    moreover have "bit (send_word ptr wr val) (32 + n) \<longleftrightarrow> bit ptr n" if "2 \<le> n"
      unfolding bit_send_word using that n by simp
    ultimately show "bit (ucast (drop_bit 32 (send_word ptr wr val) AND NOT 3) :: u32) n = bit (ptr AND NOT 3) n"
      by blast
  qed
  show "ucast (drop_bit 33 (send_word ptr wr val) AND 1) = wr AND 1"
    by (rule bit_word_eqI) (auto simp: bit_ucast_iff bit_and_iff bit_drop_bit_eq bit_send_word o)
  show "ucast (send_word ptr wr val) = val"
    by (rule bit_word_eqI) (auto simp: bit_ucast_iff bit_send_word)
  have "bit (send_word ptr wr val) 32" by (simp add: bit_send_word)
  then show "send_word ptr wr val \<noteq> 0" by force
qed

lemma send_loop_result: "send_loop att w current x = Inr x' \<Longrightarrow> mailbox (x_line x') = w"
proof (induction att arbitrary: current x)
  case (Cons a att)
  obtain success current1 x1 where c: "compare_exchange_64 a current w x = (success, current1, x1)" by (cases "compare_exchange_64 a current w x")
  obtain g1 g2 g3 g4 where "a = (g1, g2, g3, g4)" by (cases a)
  with c exchange_result [OF _ refl refl refl, of g1 g2 g3 g4 current w x success current1 x1] Cons show ?case
    by (cases success) simp_all
qed simp

text \<open>Two attempts that nothing disturbs suffice: a first one may find the monitor still busy.\<close>

lemma recv_loop_quiet:
  "list_all line_quiet as \<Longrightarrow> as = pre @ [calm, calm] @ post \<Longrightarrow> mailbox (x_line x) \<noteq> 0 \<Longrightarrow>
     \<exists>x'. recv_loop as (mailbox (x_line x)) x = Inr (mailbox (x_line x), x') \<and> x_line x' = put_mailbox 0 (x_line x)"
proof (induction pre arbitrary: as x)
  case Nil
  let ?w = "mailbox (x_line x)"
  have q: "line_quiet calm" by (simp add: calm_def)
  obtain s1 w1 x1 where c: "compare_exchange_64 calm ?w 0 x = (s1, w1, x1)" by (cases "compare_exchange_64 calm ?w 0 x")
  note r = quiet_exchange [OF q c]
  show ?case
  proof (cases s1)
    case True
    then show ?thesis using r c Nil by simp
  next
    case False
    then have x1: "w1 = ?w" "x_line x1 = x_line x" using r by simp_all
    from calm_cleans [of x 0 w1 x1] c False have "clean (x_mon x1)" by simp
    from calm_exchange [OF this, of 0] obtain x2 where
      c2: "compare_exchange_64 calm ?w 0 x1 = (True, ?w, x2)" unfolding x1(2) by blast
    from quiet_exchange [OF q c2] x1(2) have "x_line x2 = put_mailbox 0 (x_line x)" by simp
    then show ?thesis using False c c2 x1 Nil by simp
  qed
next
  case (Cons a pre)
  let ?w = "mailbox (x_line x)"
  obtain s1 w1 x1 where c: "compare_exchange_64 a ?w 0 x = (s1, w1, x1)" by (cases "compare_exchange_64 a ?w 0 x")
  have q: "line_quiet a" "list_all line_quiet (pre @ [calm, calm] @ post)" using Cons.prems(1,2) by simp_all
  note r = quiet_exchange [OF q(1) c]
  show ?case
  proof (cases s1)
    case True
    then show ?thesis using r c Cons.prems by simp
  next
    case False
    then have x1: "w1 = ?w" "x_line x1 = x_line x" using r by simp_all
    from Cons.IH [OF q(2) refl, of x1] x1 Cons.prems(3) c False show ?thesis
      by (simp add: Cons.prems(2))
  qed
qed

text \<open>
  C25. A command sent to a core arrives: when \<open>remote_send\<close> returns, whatever the other cores stored into
  the mailbox and whatever exceptions came meanwhile, \<open>remote_recv\<close> on that core returns the
  word-aligned address, the direction and the value, and leaves the mailbox empty and the other cores'
  lines alone. For the receiver it is assumed that no other core stores into the line until it has
  taken the command (a second command overwrites the first) and that two consecutive attempts pass
  without an exception; before them any number may fail because of one.
\<close>

theorem remote_command_arrives:
  assumes "remote_send c cpu ptr wr val s = Inr s'"
    "c_between c' = (\<lambda>l. l)" "list_all line_quiet (c_tries c')" "c_tries c' = pre @ [calm, calm] @ post"
  shows "\<exists>s''. remote_recv c' cpu s' = Inr ((ptr AND NOT 0b11, wr AND 1, val), s'')
    \<and> mailbox (all_cpus s'' ! unat cpu) = 0
    \<and> (\<exists>l. all_cpus s'' = (all_cpus s)[unat cpu := l])"
proof -
  let ?w = "send_word ptr wr val"
  from assms(1) obtain l where c: "unat cpu < length (all_cpus s)" "mailbox l = ?w"
    and s': "s' = s\<lparr>all_cpus := (all_cpus s)[unat cpu := l]\<rparr>"
    by (auto simp: remote_send_def Let_def bind_res_Inr_iff dest: send_loop_result split: if_splits)
  let ?x = "enter c' l"
  have x: "x_line ?x = l" "first_read c' l = mailbox l"
    by (simp_all add: enter_def first_read_def assms(2) mailbox_def)
  have "mailbox (x_line ?x) \<noteq> 0" using c(2) send_word_fields(4) by (simp add: x(1))
  from recv_loop_quiet [OF assms(3,4) this] obtain x' where
    "recv_loop (c_tries c') ?w ?x = Inr (?w, x')" "x_line x' = put_mailbox 0 l"
    unfolding x(1) c(2) by blast
  then have "remote_recv c' cpu s' = Inr ((ptr AND NOT 0b11, wr AND 1, val),
      s'\<lparr>all_cpus := (all_cpus s)[unat cpu := put_mailbox 0 l]\<rparr>)"
    using c x(2) by (simp add: remote_recv_def Let_def s' send_word_fields [simplified])
  then show ?thesis using c(1) by auto
qed

text \<open>
  The sender's first attempt is disturbed by another core that stores 5 between the exclusive loads
  and stores, its second by an interrupt; the receiver starts with an interrupted attempt.
\<close>

definition busy :: contention where
  "busy = no_contention\<lparr>c_tries := [((id, No_Trap), (id, No_Trap), (put_mailbox 5, No_Trap), (id, No_Trap)),
     ((id, No_Trap), (id, No_Trap), (id, Trap), (id, No_Trap)), calm, calm, calm]\<rparr>"

definition interrupted :: contention where
  "interrupted = no_contention\<lparr>c_tries := [(((\<lambda>l. l), No_Trap), ((\<lambda>l. l), No_Trap), ((\<lambda>l. l), No_Trap),
     ((\<lambda>l. l), Locking_Trap (c_mon no_contention) False)), calm, calm]\<rparr>"

lemma busy_sends: "\<exists>s'. remote_send busy 2 0x1003 1 77 (example_demo []) = Inr s'"
  by (simp add: remote_send_def Let_def busy_def no_contention_def example_demo_def first_read_def enter_def
      compare_exchange_64.simps calm_def ldrex_def strex_def acquire_def release_def words_def pair_def lower_def upper_def
      put_mailbox_def set_word_def send_word_def) blast

lemma remote_command_arrives_witness:
  "\<exists>s' s''. remote_send busy 2 0x1003 1 77 (example_demo []) = Inr s'
    \<and> remote_recv interrupted 2 s' = Inr ((0x1003 AND NOT 0b11, 1 AND 1, 77), s'')
    \<and> mailbox (all_cpus s'' ! unat (2 :: u32)) = 0
    \<and> (\<exists>l. all_cpus s'' = (all_cpus (example_demo []))[unat (2 :: u32) := l])"
proof -
  obtain s' where s: "remote_send busy 2 0x1003 1 77 (example_demo []) = Inr s'" using busy_sends ..
  have q: "c_between interrupted = (\<lambda>l. l)" "list_all line_quiet (c_tries interrupted)"
    "c_tries interrupted = [(((\<lambda>l. l), No_Trap), ((\<lambda>l. l), No_Trap), ((\<lambda>l. l), No_Trap),
       ((\<lambda>l. l), Locking_Trap (c_mon no_contention) False))] @ [calm, calm] @ []"
    by (simp_all add: interrupted_def no_contention_def calm_def)
  show ?thesis using remote_command_arrives [OF s q] s by blast
qed

text \<open>
  Nothing checks that the mailbox is empty: a command sent before the core has taken the
  previous one replaces it, and the previous command is lost.
\<close>

theorem pending_command_is_overwritten:
  assumes "unat cpu < length (all_cpus s)"
  shows "\<exists>s1 s2. remote_send no_contention cpu ptr1 wr1 val1 s = Inr s1
    \<and> remote_send no_contention cpu ptr2 wr2 val2 s1 = Inr s2
    \<and> Inr s2 = remote_send no_contention cpu ptr2 wr2 val2 s"
proof -
  have q: "line_quiet calm" by (simp add: calm_def)
  have *: "remote_send no_contention cpu p w v t
      = Inr (t\<lparr>all_cpus := (all_cpus t)[unat cpu := put_mailbox (send_word p w v) (all_cpus t ! unat cpu)]\<rparr>)"
    if "unat cpu < length (all_cpus t)" for p w v and t :: "('a, 'b) demo_scheme"
  proof -
    let ?x = "enter no_contention (all_cpus t ! unat cpu)"
    have x: "clean (x_mon ?x)" "first_read no_contention (all_cpus t ! unat cpu) = mailbox (x_line ?x)"
      "x_line ?x = all_cpus t ! unat cpu" "c_tries no_contention = [calm]"
      by (simp_all add: enter_def no_contention_def clean_def first_read_def mailbox_def)
    from calm_exchange [OF x(1), of "send_word p w v"] obtain x' where
      e: "compare_exchange_64 calm (mailbox (x_line ?x)) (send_word p w v) ?x = (True, mailbox (x_line ?x), x')" by blast
    from quiet_exchange [OF q e] have "x_line x' = put_mailbox (send_word p w v) (all_cpus t ! unat cpu)"
      by (simp add: x(3))
    then show ?thesis using that e by (simp add: remote_send_def Let_def x(2,4))
  qed
  show ?thesis using assms by (simp add: *)
qed

lemma pending_command_is_overwritten_witness:
  "\<exists>s1 s2. remote_send no_contention 1 0x1000 0 0 (example_demo []) = Inr s1
    \<and> remote_send no_contention 1 0x2000 1 9 s1 = Inr s2
    \<and> Inr s2 = remote_send no_contention 1 0x2000 1 9 (example_demo [])"
  by (rule pending_command_is_overwritten) (simp add: example_demo_def)

section \<open>Starting the cores\<close>

lemma alive_bit: "v AND push_bit (i * 8) 0b100 \<noteq> 0 \<longleftrightarrow> bit v (i * 8 + 2)" for v :: u32
proof -
  have "push_bit (i * 8) (0b100 :: u32) = push_bit (i * 8 + 2) 1"
    using push_bit_push_bit [of "i * 8" 2 "1 :: u32"] by simp
  then show ?thesis using bit_test_push [of v "i * 8 + 2"] by (simp only:)
qed

lemma cpu_is_alive_after:
  assumes "ready s"
  shows "\<exists>s'. cpu_is_alive sim_mmio i s = (bit (words_at s SMP_CTRL) (i * 8 + 2), s') \<and> after s (words_at s) s'"
proof -
  obtain s1 where "load sim_mmio SMP_CTRL s = (words_at s SMP_CTRL, s1)" "after s (words_at s) s1"
    using load_after [OF assms SMP_not_uart] by blast
  then show ?thesis by (simp only: cpu_is_alive_def Let_def prod.case alive_bit) blast
qed

definition starts :: "(sim_board, 'x) demo_scheme \<Rightarrow> nat \<Rightarrow> (sim_board, 'x) demo_scheme \<Rightarrow> bool" where
  "starts s i s' \<longleftrightarrow> (\<exists>w. after s ((words_at s)(SMP_CTRL := w)) s' \<and> (\<forall>n. bit w n \<longleftrightarrow> n = i * 8 \<and> bit (words_at s SMP_CTRL) (i * 8)))"

lemma run_cpu_starts:
  assumes "ready s" "i < 4"
  shows "\<exists>s'. run_cpu sim_mmio me i s = Inr s' \<and> starts s i s'"
proof -
  have b: "bit (push_bit i 1 :: u32) c \<longleftrightarrow> c = i" for c
    using assms(2) by (auto simp: bit_push_bit_iff bit_one_iff' simp del: push_bit_of_1)
  from run_cpus_after [OF assms(1)] obtain w s' where
    w: "run_cpus sim_mmio me (push_bit i 1) s = Inr s'" "after s ((words_at s)(SMP_CTRL := w)) s'"
      "requests (\<lambda>c. bit (push_bit i 1 :: u32) c \<and> bit (words_at s SMP_CTRL) (c * 8)) 0 [0..<NUM_CPUS] w" by blast
  have "bit w n \<longleftrightarrow> n = i * 8 \<and> bit (words_at s SMP_CTRL) (i * 8)" for n
    using w(3) assms(2) unfolding requests_def b NUM_CPUS_def by auto
  then show ?thesis using w(1,2) unfolding run_cpu_def starts_def by blast
qed

definition alive_core :: "(sim_board, 'x) demo_scheme \<Rightarrow> nat list \<Rightarrow> nat option" where
  "alive_core s cpus = find (\<lambda>i. bit (words_at s SMP_CTRL) (i * 8 + 2)) cpus"

lemma kick_loop_after:
  "ready s \<Longrightarrow> \<forall>i \<in> set cpus. i < 4 \<Longrightarrow>
    case alive_core s cpus of
      Some i \<Rightarrow> \<exists>s'. kick_loop sim_mmio me cpus s = Inr s' \<and> starts s i s'
    | None \<Rightarrow> \<exists>s'. kick_loop sim_mmio me cpus s = Inr (s'\<lparr>boot_done := True\<rparr>) \<and> after s (words_at s) s'"
proof (induction cpus arbitrary: s)
  case Nil
  then show ?case using after_refl [OF Nil.prems(1)] by (auto simp: alive_core_def)
next
  case (Cons i cpus)
  obtain s1 where s1: "cpu_is_alive sim_mmio i s = (bit (words_at s SMP_CTRL) (i * 8 + 2), s1)" "after s (words_at s) s1"
    using cpu_is_alive_after [OF Cons.prems(1)] by blast
  have r1: "ready s1" using after_ready [OF s1(2) Cons.prems(1)] .
  show ?case
  proof (cases "bit (words_at s SMP_CTRL) (i * 8 + 2)")
    case True
    have "i < 4" using Cons.prems(2) by simp
    from run_cpu_starts [OF r1 this, of me] obtain s' where
      s': "run_cpu sim_mmio me i s1 = Inr s'" "starts s1 i s'" by blast
    have "starts s i s'" using s'(2) after_trans [OF s1(2)] unfolding starts_def after_words [OF s1(2)] by blast
    moreover have "kick_loop sim_mmio me (i # cpus) s = Inr s'" using s1(1) True s'(1) by simp
    ultimately show ?thesis using True by (simp add: alive_core_def)
  next
    case False
    obtain s2 where s2: "print sim_mmio me ''cpu%u is dead'' [Va_Int (of_nat i)] s1 = Inr s2" "after s1 (words_at s1) s2"
      using print_after [OF r1, of "''cpu%u is dead''" "[Va_Int (of_nat i)]" me] by (auto simp: arg_text_def)
    have a2: "after s (words_at s) s2" using after_trans [OF s1(2) s2(2)] unfolding after_words [OF s1(2)] .
    have k: "kick_loop sim_mmio me (i # cpus) s = kick_loop sim_mmio me cpus s2" using s1(1) False s2(1) by simp
    have f: "alive_core s (i # cpus) = alive_core s2 cpus" using False after_words [OF a2] by (simp add: alive_core_def)
    have "\<forall>i \<in> set cpus. i < 4" using Cons.prems(2) by simp
    from Cons.IH [OF after_ready [OF a2 Cons.prems(1)] this] show ?thesis
      unfolding k f using after_trans [OF a2] after_words [OF a2] by (cases "alive_core s2 cpus") (fastforce simp: starts_def)+
  qed
qed

text \<open>
  Starting goes from core to core: \<open>kick_cpus\<close> writes the run bit of the next core above the
  caller that is alive (if it is halted) and of no other; when no core is left it reports the
  end of the boot and writes nothing.
\<close>

theorem kick_starts_next_alive_core:
  assumes "ready s"
  shows "case alive_core s [unat me + 1..<NUM_CPUS] of
      Some i \<Rightarrow> \<exists>s'. kick_cpus sim_mmio me s = Inr s' \<and> starts s i s'
    | None \<Rightarrow> \<exists>s'. kick_cpus sim_mmio me s = Inr (s'\<lparr>boot_done := True\<rparr>) \<and> after s (words_at s) s'"
  unfolding kick_cpus_def by (rule kick_loop_after [OF assms]) (simp add: NUM_CPUS_def)

lemma kick_starts_next_alive_core_witness:
  "case alive_core (example_demo []) [unat (0 :: u32) + 1..<NUM_CPUS] of
      Some i \<Rightarrow> \<exists>s'. kick_cpus sim_mmio 0 (example_demo []) = Inr s' \<and> starts (example_demo []) i s'
    | None \<Rightarrow> \<exists>s'. kick_cpus sim_mmio 0 (example_demo []) = Inr (s'\<lparr>boot_done := True\<rparr>)
        \<and> after (example_demo []) (words_at (example_demo [])) s'"
  by (rule kick_starts_next_alive_core [OF example_ready])

section \<open>Graphics data\<close>

lemma store16_after:
  assumes "ready s" "\<not> is_uart (a AND NOT 3)"
  shows "after s ((words_at s)(a AND NOT 3 :=
      if a AND 2 = 0 then (words_at s (a AND NOT 3) AND 0xffff0000) OR ucast x
      else (words_at s (a AND NOT 3) AND 0xffff) OR push_bit 16 (ucast x)))
    (s\<lparr>hw := bus_write16 sim_mmio (hw s) a x\<rparr>)"
proof -
  let ?v = "if a AND 2 = 0 then (words_at s (a AND NOT 3) AND 0xffff0000) OR ucast x
      else (words_at s (a AND NOT 3) AND 0xffff) OR push_bit 16 (ucast x)"
  have "s\<lparr>hw := bus_write16 sim_mmio (hw s) a x\<rparr> = store sim_mmio (a AND NOT 3) ?v s"
    by (simp add: store_def sim_mmio_def sb_write16_def Let_def)
  then show ?thesis using store_after [OF assms] by simp
qed

text \<open>The address of element \<open>i\<close> of a vector.\<close>

lemma lane_index: "i < 4 \<Longrightarrow> push_bit 2 vec OR i = 4 * vec + i" for vec i :: u32
proof -
  assume i: "i < 4"
  have "push_bit 2 vec AND i = 0"
  proof (rule bit_word_eqI)
    fix n
    have "unat i < 2 ^ 2" using i by (simp add: word_less_nat_alt)
    then have "bit i n \<Longrightarrow> n < 2" using bit_below [of i 2 n] by auto
    then show "bit (push_bit 2 vec AND i) n \<longleftrightarrow> bit 0 n" by (auto simp: bit_and_iff bit_push_bit_iff)
  qed
  then have "push_bit 2 vec OR i = push_bit 2 vec + i" by (simp add: disjunctive_add_eq_or)
  then show ?thesis by (simp add: push_bit_eq_mult mult.commute)
qed

lemma block_address:
  fixes y c :: u32
  assumes "c < 8"
  shows "push_bit 3 y + c = push_bit 3 y OR c" "(push_bit 3 y + c) AND NOT 3 = push_bit 3 y + (c AND NOT 3)"
    "(push_bit 3 y + c) AND 2 = c AND 2"
proof -
  have low: "bit d n \<Longrightarrow> n < 3" if "d < 8" for d :: u32 and n
    using that bit_below [of d 3 n] by (auto simp: word_less_nat_alt)
  have sum: "push_bit 3 y + d = push_bit 3 y OR d" if "d < 8" for d
  proof -
    have "push_bit 3 y AND d = 0"
      by (rule bit_word_eqI) (auto simp: bit_and_iff bit_push_bit_iff dest: low [OF that])
    then show ?thesis by (simp add: disjunctive_add_eq_or)
  qed
  show "push_bit 3 y + c = push_bit 3 y OR c" by (rule sum [OF assms])
  have m: "(3 :: u32) = mask 2" by (simp add: mask_eq_exp_minus_1)
  have "unat (c AND NOT 3) \<le> unat c" unfolding m unat_and_not_mask by simp
  then have "c AND NOT 3 < 8" using assms by (simp add: word_less_nat_alt)
  note sum2 = sum [OF this]
  show "(push_bit 3 y + c) AND NOT 3 = push_bit 3 y + (c AND NOT 3)"
    unfolding sum [OF assms] sum2
  proof (rule bit_word_eqI)
    fix n
    assume "n < LENGTH(32)"
    then have "n < 32" by simp
    then show "bit ((push_bit 3 y OR c) AND NOT 3) n \<longleftrightarrow> bit (push_bit 3 y OR (c AND NOT 3)) n"
      unfolding bit_and_iff bit_or_iff bit_push_bit_iff low_two by auto
  qed
  have l2: "bit (2 :: u32) n \<Longrightarrow> n < 3" for n by (rule low [of 2 n]) simp_all
  have "push_bit 3 y AND 2 = 0"
  proof (rule bit_word_eqI)
    fix n
    show "bit (push_bit 3 y AND 2) n \<longleftrightarrow> bit (0 :: u32) n"
      unfolding bit_and_iff bit_push_bit_iff bit_0_eq using l2 [of n] by fastforce
  qed
  then show "(push_bit 3 y + c) AND 2 = c AND 2"
    unfolding sum [OF assms] by (simp add: word_ao_dist)
qed

definition vector_block :: "u32 \<Rightarrow> u32" where
  "vector_block vec = 0x070C0000 + vec"

lemma lane_address: "i < 4 \<Longrightarrow> VRAM_DATA + 2 * (push_bit 2 vec OR i) = push_bit 3 (vector_block vec) + 2 * i"
  by (simp only: lane_index) (simp add: VRAM_DATA_def GFX_VRAM_BASE_def DATA_BASE_def vector_block_def push_bit_eq_mult algebra_simps)

definition halves :: "u16 \<Rightarrow> u16 \<Rightarrow> u32" where
  "halves lo hi = ucast lo OR push_bit 16 (ucast hi)"

lemma halves_stores: "((((w AND 0xffff0000) OR ucast lo) AND 0xffff) OR push_bit 16 (ucast hi)) = halves lo hi" for w :: u32
proof -
  have m: "(0xffff :: u32) = mask 16" "(0xffff0000 :: u32) = NOT (mask 16)" by (simp_all add: mask_eq_exp_minus_1)
  have "(((w AND 0xffff0000) OR ucast lo) AND 0xffff) = (ucast lo :: u32)"
    unfolding m by (rule bit_word_eqI) (auto simp: bit_simps bit_ucast_iff dest: bit_imp_le_length)
  then show ?thesis by (simp add: halves_def)
qed

text \<open>A vector whose words are not among the registers of the UART.\<close>

definition vector_clear :: "u32 \<Rightarrow> bool" where
  "vector_clear vec \<longleftrightarrow> (\<forall>a \<in> {push_bit 3 (vector_block vec), push_bit 3 (vector_block vec) + 4}.
     \<not> is_uart a \<and> a \<noteq> VRAM_HEADER_DATA_SIZE)"

lemma gfx_lanes_after:
  assumes "ready s" "vector_clear vec"
  shows "after s ((words_at s)(push_bit 3 (vector_block vec) := halves d0 d1, push_bit 3 (vector_block vec) + 4 := halves d2 d3))
    (gfx_lanes sim_mmio vec 0 [d0, d1, d2, d3] s)"
proof -
  let ?X = "push_bit 3 (vector_block vec)"
  let ?W = "\<lambda>i x s. s\<lparr>hw := bus_write16 sim_mmio (hw s) (VRAM_DATA + 2 * (push_bit 2 vec OR i)) x\<rparr>"
  have u: "\<not> is_uart ?X" "\<not> is_uart (?X + 4)" using assms(2) by (simp_all add: vector_clear_def)
  have a: "VRAM_DATA + 2 * (push_bit 2 vec OR 0) = ?X + 0" "VRAM_DATA + 2 * (push_bit 2 vec OR 1) = ?X + 2"
    "VRAM_DATA + 2 * (push_bit 2 vec OR 2) = ?X + 4" "VRAM_DATA + 2 * (push_bit 2 vec OR 3) = ?X + 6"
    using lane_address [of 0 vec] lane_address [of 1 vec] lane_address [of 2 vec] lane_address [of 3 vec]
    by (simp_all add: word_less_nat_alt del: push_bit_of_1)
  have n: "(?X + 0) AND NOT 3 = ?X" "(?X + 2) AND NOT 3 = ?X" "(?X + 4) AND NOT 3 = ?X + 4" "(?X + 6) AND NOT 3 = ?X + 4"
    "(?X + 0) AND 2 = 0" "(?X + 2) AND 2 = 2" "(?X + 4) AND 2 = 0" "(?X + 6) AND 2 = 2"
    using block_address [of 0] block_address [of 2] block_address [of 4] block_address [of 6] by simp_all
  let ?s1 = "?W 0 d0 s" let ?s2 = "?W 1 d1 ?s1" let ?s3 = "?W 2 d2 ?s2" let ?s4 = "?W 3 d3 ?s3"
  have 1: "after s ((words_at s)(?X := (words_at s ?X AND 0xffff0000) OR ucast d0)) ?s1"
    using store16_after [OF assms(1), of "?X + 0" d0] unfolding n a using u by simp
  have 2: "after ?s1 ((words_at ?s1)(?X := (words_at ?s1 ?X AND 0xffff) OR push_bit 16 (ucast d1))) ?s2"
    using store16_after [OF after_ready [OF 1 assms(1)], of "?X + 2" d1] unfolding n a using u by simp
  have m2: "after s ((words_at s)(?X := halves d0 d1)) ?s2"
    using after_trans [OF 1 2] unfolding after_words [OF 1] by (simp add: halves_stores)
  have 3: "after ?s2 ((words_at ?s2)(?X + 4 := (words_at ?s2 (?X + 4) AND 0xffff0000) OR ucast d2)) ?s3"
    using store16_after [OF after_ready [OF m2 assms(1)], of "?X + 4" d2] unfolding n a using u by simp
  have m3: "after s ((words_at s)(?X := halves d0 d1, ?X + 4 := (words_at ?s2 (?X + 4) AND 0xffff0000) OR ucast d2)) ?s3"
    using after_trans [OF m2 3] unfolding after_words [OF m2] by simp
  have 4: "after ?s3 ((words_at ?s3)(?X + 4 := (words_at ?s3 (?X + 4) AND 0xffff) OR push_bit 16 (ucast d3))) ?s4"
    using store16_after [OF after_ready [OF m3 assms(1)], of "?X + 6" d3] unfolding n a using u by simp
  have "after s ((words_at s)(?X := halves d0 d1, ?X + 4 := halves d2 d3)) ?s4"
    using after_trans [OF m3 4] unfolding after_words [OF m3] by (simp add: halves_stores)
  moreover have "gfx_lanes sim_mmio vec 0 [d0, d1, d2, d3] s = ?s4" by simp
  ultimately show ?thesis by (simp only:)
qed

text \<open>The number of vectors in the header that the graphics unit reads.\<close>

definition header_current :: "(sim_board, 'x) demo_scheme \<Rightarrow> bool" where
  "header_current s \<longleftrightarrow> words_at s VRAM_HEADER_DATA_SIZE = data_size s"

lemma demo_fields_after: "after s g s' \<Longrightarrow> data_size s' = data_size s \<and> clear_color s' = clear_color s \<and> swap_buffers s' = swap_buffers s"
  for s s' :: "(sim_board, 'x) demo_scheme"
  by (auto simp: after_def)

text \<open>
  C27. \<open>gfx_data\<close> stores the four half-words of a vector in its eight bytes of video memory, lane 0
  lowest, and changes no other word but the size in the header, which stays the number of
  vectors, the largest index stored so far plus one.
\<close>

theorem gfx_data_stores_vector:
  assumes "ready s" "header_current s" "vec = push_bit 2 block OR ln" "vector_clear vec"
  shows "\<exists>s'. gfx_data sim_mmio block ln [d0, d1, d2, d3] s = Inr s'
    \<and> words_at s' = (words_at s)(push_bit 3 (vector_block vec) := halves d0 d1, push_bit 3 (vector_block vec) + 4 := halves d2 d3,
        VRAM_HEADER_DATA_SIZE := data_size s')
    \<and> data_size s' = max (data_size s) (vec + 1) \<and> ready s' \<and> header_current s'"
proof -
  let ?X = "push_bit 3 (vector_block vec)"
  let ?g = "(words_at s)(?X := halves d0 d1, ?X + 4 := halves d2 d3)"
  define t where "t = gfx_lanes sim_mmio vec 0 [d0, d1, d2, d3] s"
  have t: "after s ?g t" unfolding t_def by (rule gfx_lanes_after [OF assms(1,4)])
  have rt: "ready t" and mt: "words_at t = ?g" and dt: "data_size t = data_size s"
    using after_ready [OF t assms(1)] after_words [OF t] demo_fields_after [OF t] by simp_all
  have hd: "?g VRAM_HEADER_DATA_SIZE = data_size s"
    using assms(2,4) by (auto simp: header_current_def vector_clear_def)
  have data: "gfx_data sim_mmio block ln [d0, d1, d2, d3] s =
    (if data_size t < vec + 1 then Inr (store sim_mmio VRAM_HEADER_DATA_SIZE (vec + 1) (t\<lparr>data_size := vec + 1\<rparr>)) else Inr t)"
    by (simp add: gfx_data_def Let_def t_def assms(3) del: gfx_lanes.simps)
  show ?thesis
  proof (cases "data_size t < vec + 1")
    case True
    let ?t = "t\<lparr>data_size := vec + 1\<rparr>"
    have rt': "ready ?t" using rt by (auto simp: ready_def console_inv_def split: option.splits)
    have "\<not> is_uart VRAM_HEADER_DATA_SIZE" by (simp add: is_uart_def uart_registers gfx_registers)
    from store_after [OF rt' this, of "vec + 1"] have st:
      "after ?t (?g(VRAM_HEADER_DATA_SIZE := vec + 1)) (store sim_mmio VRAM_HEADER_DATA_SIZE (vec + 1) ?t)"
      by (simp add: mt)
    have "data_size (store sim_mmio VRAM_HEADER_DATA_SIZE (vec + 1) ?t) = vec + 1" using demo_fields_after [OF st] by simp
    then show ?thesis
      using True after_ready [OF st rt'] after_words [OF st] dt
      unfolding data by (auto simp: header_current_def max_def)
  next
    case False
    have "data_size t = ?g VRAM_HEADER_DATA_SIZE" using dt hd by (simp only:)
    then have "?g = ?g(VRAM_HEADER_DATA_SIZE := data_size t)" by (simp only: fun_upd_triv)
    then have "words_at t = ?g(VRAM_HEADER_DATA_SIZE := data_size t)" using mt by (simp only:)
    moreover have "header_current t" using mt dt hd by (simp only: header_current_def)
    moreover have "data_size t = max (data_size s) (vec + 1)" using False dt by (simp add: max_def not_less)
    moreover have "gfx_data sim_mmio block ln [d0, d1, d2, d3] s = Inr t" unfolding data using False by (rule if_not_P)
    ultimately show ?thesis using rt by (intro exI [of _ t] conjI) assumption+
  qed
qed

lemma gfx_data_stores_vector_witness:
  "\<exists>s'. gfx_data sim_mmio 3 1 [10, 11, 12, 13] (example_demo []) = Inr s'
    \<and> words_at s' = (words_at (example_demo []))(push_bit 3 (vector_block 13) := halves 10 11,
        push_bit 3 (vector_block 13) + 4 := halves 12 13, VRAM_HEADER_DATA_SIZE := data_size s')
    \<and> data_size s' = max (data_size (example_demo [])) (13 + 1) \<and> ready s' \<and> header_current s'"
proof (rule gfx_data_stores_vector [OF example_ready])
  show "header_current (example_demo [])" by (simp add: header_current_def example_demo_def example_board_def)
  show "(13 :: u32) = push_bit 2 3 OR 1" by simp
  show "vector_clear 13" by (simp add: vector_clear_def vector_block_def is_uart_def uart_registers gfx_registers)
qed

end
