(* ===== verification/Bit_Fields.thy ===== *)
theory Bit_Fields
  imports Prelude
begin

text \<open>
  Bit fields of a 32-bit word, as the compilers of the repository's C programs lay them out: in
  the order of the declarations, from the lowest bit. A volatile structure that fits in a word is
  the word; reading a member is \<open>field\<close>, assigning it is \<open>put_field\<close>, which keeps the other bits
  and drops what does not fit.
\<close>

definition field :: "nat \<Rightarrow> nat \<Rightarrow> u32 \<Rightarrow> u32" where
  "field lo n w = drop_bit lo w AND mask n"

definition put_field :: "nat \<Rightarrow> nat \<Rightarrow> u32 \<Rightarrow> u32 \<Rightarrow> u32" where
  "put_field lo n v w = (w AND NOT (push_bit lo (mask n))) OR push_bit lo (v AND mask n)"

lemma bit_field: "bit (field lo n w) i \<longleftrightarrow> i < n \<and> bit w (lo + i)"
  by (auto simp: field_def bit_and_iff bit_drop_bit_eq bit_mask_iff dest: bit_imp_le_length)

lemma bit_put_field:
  assumes "lo + n \<le> 32"
  shows "bit (put_field lo n v w) i \<longleftrightarrow> (if lo \<le> i \<and> i < lo + n then bit v (i - lo) else bit w i)"
proof (cases "i < 32")
  case True
  then show ?thesis using assms
    by (auto simp: put_field_def bit_or_iff bit_and_iff bit_not_iff bit_push_bit_iff bit_mask_iff)
next
  case False
  then have "\<not> bit x i" for x :: u32 by (auto dest: bit_imp_le_length)
  moreover have "\<not> (lo \<le> i \<and> i < lo + n)" using False assms by simp
  ultimately show ?thesis by auto
qed

text \<open>The member that was assigned has the value, reduced to its width; the others are kept.\<close>

lemma field_put_same: "lo + n \<le> 32 \<Longrightarrow> field lo n (put_field lo n v w) = v AND mask n"
  by (rule bit_word_eqI) (auto simp: bit_field bit_put_field bit_and_iff bit_mask_iff)

lemma field_put_other:
  "lo + n \<le> 32 \<Longrightarrow> lo' + n' \<le> lo \<or> lo + n \<le> lo' \<Longrightarrow> field lo' n' (put_field lo n v w) = field lo' n' w"
  by (rule bit_word_eqI) (auto simp: bit_field bit_put_field)

lemma field_zero [simp]: "field lo n 0 = 0"
  by (simp add: field_def)

lemma unat_field: "unat (field lo n w) = unat w div 2 ^ lo mod 2 ^ n"
  by (simp add: field_def unat_and_mask unat_drop_bit)

lemma field_small: "unat v < 2 ^ n \<Longrightarrow> v AND mask n = v" for v :: u32
  by (simp add: word_unat_eq_iff unat_and_mask)

text \<open>A member of one bit is a test of that bit.\<close>

lemma field_1: "field lo 1 w = 0 \<longleftrightarrow> \<not> bit w lo"
proof -
  have "field lo 1 w = 0 \<longleftrightarrow> (\<forall>i. \<not> bit (field lo 1 w) i)" by (metis bit_0_eq bit_eq_iff bot_apply bot_bool_def)
  then show ?thesis by (auto simp: bit_field)
qed

end
