(* ===== verification/Gfx_Firmware.thy ===== *)
theory Gfx_Firmware
  imports Bit_Fields Demo_Board
begin

text \<open>
  The firmware of the graphics accelerator (\<open>rtl/gfx/firmware/main.c\<close>, \<open>hostif.h\<close>, \<open>ctrl_map.h\<close>),
  which answers the accesses of the host to its control registers. The registers of the host
  interface are accessed through a parameter \<open>b\<close>; a structure of bit fields that fills a word is
  the word (\<open>Bit_Fields\<close>). \<open>__DATE__\<close> is an argument, the eleven characters \<open>Mmm dd yyyy\<close> that the
  compiler puts there. The union \<open>ctrl_rdata\<close> is the word all its members share.
\<close>

section \<open>Registers of the host interface\<close>

definition HOSTIF_BASE :: u32 where "HOSTIF_BASE = 0x00300000"
definition HOSTIF_CTRL :: u32 where "HOSTIF_CTRL = HOSTIF_BASE + 0x00"
definition HOSTIF_AR :: u32 where "HOSTIF_AR = HOSTIF_BASE + 0x04"
definition HOSTIF_AW :: u32 where "HOSTIF_AW = HOSTIF_BASE + 0x08"
definition HOSTIF_R :: u32 where "HOSTIF_R = HOSTIF_BASE + 0x0c"
definition HOSTIF_W :: u32 where "HOSTIF_W = HOSTIF_BASE + 0x10"
definition HOSTIF_B :: u32 where "HOSTIF_B = HOSTIF_BASE + 0x14"

definition ctrl_arvalid :: "u32 \<Rightarrow> bool" where "ctrl_arvalid w \<longleftrightarrow> field 8 1 w \<noteq> 0"
definition ctrl_awvalid :: "u32 \<Rightarrow> bool" where "ctrl_awvalid w \<longleftrightarrow> field 9 1 w \<noteq> 0"
definition ctrl_rdone :: "u32 \<Rightarrow> bool" where "ctrl_rdone w \<longleftrightarrow> field 10 1 w \<noteq> 0"
definition ctrl_wvalid :: "u32 \<Rightarrow> bool" where "ctrl_wvalid w \<longleftrightarrow> field 11 1 w \<noteq> 0"
definition ctrl_bdone :: "u32 \<Rightarrow> bool" where "ctrl_bdone w \<longleftrightarrow> field 12 1 w \<noteq> 0"

definition ar_valid :: "u32 \<Rightarrow> bool" where "ar_valid w \<longleftrightarrow> field 0 1 w \<noteq> 0"
definition ar_addr :: "u32 \<Rightarrow> u32" where "ar_addr w = field 2 30 w"
definition aw_valid :: "u32 \<Rightarrow> bool" where "aw_valid w \<longleftrightarrow> field 0 1 w \<noteq> 0"

text \<open>\<open>(struct hostif_b){ .valid = 1, .rsvd1 = 0 }\<close>\<close>

definition hostif_b_valid :: u32 where
  "hostif_b_valid = put_field 1 31 0 (put_field 0 1 1 0)"

lemmas hostif_registers =
  HOSTIF_BASE_def HOSTIF_CTRL_def HOSTIF_AR_def HOSTIF_AW_def HOSTIF_R_def HOSTIF_W_def HOSTIF_B_def

section \<open>Control registers that the host reads\<close>

definition CTRL_OFFSET_MAGIC :: u32 where "CTRL_OFFSET_MAGIC = 0x00"
definition CTRL_OFFSET_HW_ID :: u32 where "CTRL_OFFSET_HW_ID = 0x01"
definition CTRL_OFFSET_FW_ID :: u32 where "CTRL_OFFSET_FW_ID = 0x02"
definition CTRL_OFFSET_HOSTIF_ID :: u32 where "CTRL_OFFSET_HOSTIF_ID = 0x03"

lemmas ctrl_offsets =
  CTRL_OFFSET_MAGIC_def CTRL_OFFSET_HW_ID_def CTRL_OFFSET_FW_ID_def CTRL_OFFSET_HOSTIF_ID_def

definition HOSTIF_REV_V1 :: u32 where "HOSTIF_REV_V1 = 1"

definition put_build :: "u32 \<Rightarrow> u32 \<Rightarrow> u32" where "put_build = put_field 0 10"
definition put_day :: "u32 \<Rightarrow> u32 \<Rightarrow> u32" where "put_day = put_field 10 5"
definition put_month :: "u32 \<Rightarrow> u32 \<Rightarrow> u32" where "put_month = put_field 15 4"
definition put_year :: "u32 \<Rightarrow> u32 \<Rightarrow> u32" where "put_year = put_field 19 12"
definition put_rsvd31 :: "u32 \<Rightarrow> u32 \<Rightarrow> u32" where "put_rsvd31 = put_field 31 1"
definition fw_day :: "u32 \<Rightarrow> u32" where "fw_day = field 10 5"
definition fw_year :: "u32 \<Rightarrow> u32" where "fw_year = field 19 12"

definition months :: "string list" where
  "months = [''Jan'', ''Feb'', ''Mar'', ''Apr'', ''May'', ''Jun'', ''Jul'', ''Aug'', ''Sep'', ''Oct'', ''Nov'', ''Dec'']"

text \<open>\<open>(unsigned)(c - '0')\<close>\<close>

definition digit :: "char \<Rightarrow> u32" where
  "digit c = of_nat (of_char c) - of_nat (of_char CHR ''0'')"

text \<open>The body of the loop over the digits of the year; each assignment keeps 12 bits.\<close>

definition year_step :: "char \<Rightarrow> u32 \<Rightarrow> u32" where
  "year_step c w = (let w = put_year (fw_year w * 10) w in put_year (fw_year w + digit c) w)"

text \<open>The loop over the names of the months, from month \<open>i\<close> on.\<close>

fun month_loop :: "string \<Rightarrow> nat \<Rightarrow> string list \<Rightarrow> u32 \<Rightarrow> u32" where
  "month_loop date i [] w = w"
| "month_loop date i (m # ms) w =
     (if date ! 0 = m ! 0 \<and> date ! 1 = m ! 1 \<and> date ! 2 = m ! 2 then put_month (of_nat (i + 1)) w
      else month_loop date (i + 1) ms w)"

definition fw_id_word :: "string \<Rightarrow> u32 \<Rightarrow> u32" where
  "fw_id_word date w =
     (let w = put_year 0 w;
          w = fold (\<lambda>i. year_step (date ! i)) [7..<11] w;
          w = put_day (if date ! 4 \<noteq> CHR '' '' then digit (date ! 4) else 0) w;
          w = put_day (fw_day w + digit (date ! 5)) w;
          w = put_month 0 w;
          w = month_loop date 0 months w;
          w = put_build 1 w
      in put_rsvd31 0 w)"

record 's firmware =
  boot_magic :: u32
  boot_hw_rev :: u32
  regs :: 's

text \<open>The \<open>switch\<close> of \<open>host_read\<close>: the word that answers a read of the control register \<open>addr\<close>.\<close>

definition rdata_word :: "string \<Rightarrow> u32 \<Rightarrow> u32 \<Rightarrow> u32 \<Rightarrow> u32" where
  "rdata_word date magic hw_rev addr =
     (let w = 0xffffffff; offset = addr AND 0xff in
      if offset = CTRL_OFFSET_MAGIC then magic
      else if offset = CTRL_OFFSET_HW_ID then hw_rev
      else if offset = CTRL_OFFSET_FW_ID then fw_id_word date w
      else if offset = CTRL_OFFSET_HOSTIF_ID then HOSTIF_REV_V1
      else w)"

section \<open>Handlers and main loop\<close>

text \<open>\<open>while (!(*ctrl = HOSTIF_CTRL).done)\<close>: the last value read and the state of the registers.\<close>

definition wait_ctrl :: "'s mmio \<Rightarrow> (u32 \<Rightarrow> bool) \<Rightarrow> 's firmware \<Rightarrow> (u32 \<times> 's firmware) res" where
  "wait_ctrl b ready fw =
     (case while_option (\<lambda>(ctrl, h). \<not> ready ctrl) (\<lambda>(ctrl, h). bus_read b h HOSTIF_CTRL)
         (bus_read b (regs fw) HOSTIF_CTRL) of
        None \<Rightarrow> Inl Spins
      | Some (ctrl, h) \<Rightarrow> Inr (ctrl, fw\<lparr>regs := h\<rparr>))"

definition host_read :: "'s mmio \<Rightarrow> string \<Rightarrow> u32 \<Rightarrow> 's firmware \<Rightarrow> (u32 \<times> 's firmware) res" where
  "host_read b date ctrl fw =
     (let (ar, h) = bus_read b (regs fw) HOSTIF_AR in
      if \<not> ar_valid ar then Inr (ctrl, fw\<lparr>regs := h\<rparr>)
      else
        let rdata = rdata_word date (boot_magic fw) (boot_hw_rev fw) (ar_addr ar);
            h = bus_write b h HOSTIF_R rdata
        in wait_ctrl b ctrl_rdone (fw\<lparr>regs := h\<rparr>))"

text \<open>No control register can be written yet: the \<open>switch\<close> over the address is empty.\<close>

definition host_write :: "'s mmio \<Rightarrow> u32 \<Rightarrow> 's firmware \<Rightarrow> (u32 \<times> 's firmware) res" where
  "host_write b ctrl fw =
     (let (aw, h) = bus_read b (regs fw) HOSTIF_AW in
      if \<not> aw_valid aw then Inr (ctrl, fw\<lparr>regs := h\<rparr>)
      else
        let (wdata, h) = bus_read b h HOSTIF_W;
            h = bus_write b h HOSTIF_B hostif_b_valid
        in wait_ctrl b ctrl_bdone (fw\<lparr>regs := h\<rparr>))"

text \<open>One pass of the endless loop of \<open>main\<close>, and the state after \<open>n\<close> passes.\<close>

definition fw_pass :: "'s mmio \<Rightarrow> string \<Rightarrow> 's firmware \<Rightarrow> 's firmware res" where
  "fw_pass b date fw =
     (let (ctrl, h) = bus_read b (regs fw) HOSTIF_CTRL; fw = fw\<lparr>regs := h\<rparr> in
      bind_res (if ctrl_arvalid ctrl then host_read b date ctrl fw else Inr (ctrl, fw)) (\<lambda>(ctrl, fw).
      bind_res (if ctrl_awvalid ctrl \<and> ctrl_wvalid ctrl then host_write b ctrl fw else Inr (ctrl, fw)) (\<lambda>(ctrl, fw).
      Inr fw)))"

fun fw_passes :: "'s mmio \<Rightarrow> string \<Rightarrow> nat \<Rightarrow> 's firmware \<Rightarrow> 's firmware res" where
  "fw_passes b date 0 fw = Inr fw"
| "fw_passes b date (Suc n) fw = bind_res (fw_pass b date fw) (fw_passes b date n)"

definition fw_main :: "'s mmio \<Rightarrow> string \<Rightarrow> u32 \<Rightarrow> u32 \<Rightarrow> nat \<Rightarrow> 's \<Rightarrow> 's firmware res" where
  "fw_main b date magic hw_rev n h =
     fw_passes b date n \<lparr>boot_magic = magic, boot_hw_rev = hw_rev, regs = h\<rparr>"

section \<open>The build date\<close>

text \<open>What the compiler puts for \<open>__DATE__\<close>; a day below ten is padded with a blank.\<close>

definition two_places :: "nat \<Rightarrow> string" where
  "two_places d = [if d < 10 then CHR '' '' else hex_digit (d div 10), hex_digit (d mod 10)]"

definition four_digits :: "nat \<Rightarrow> string" where
  "four_digits y = map hex_digit [y div 1000 mod 10, y div 100 mod 10, y div 10 mod 10, y mod 10]"

definition date_text :: "nat \<Rightarrow> nat \<Rightarrow> nat \<Rightarrow> string" where
  "date_text y m d = months ! (m - 1) @ '' '' @ two_places d @ '' '' @ four_digits y"

lemma ten_cases: "n < 10 \<Longrightarrow> n \<in> {0, 1, 2, 3, 4, 5, 6, 7, 8, 9}" for n :: nat
  by auto

lemma digit_hex: "n < 10 \<Longrightarrow> digit (hex_digit n) = of_nat n \<and> hex_digit n \<noteq> CHR '' ''"
  by (drule ten_cases) (auto simp: digit_def hex_digit_def)

lemma month_cases: "m \<in> {1..12} \<Longrightarrow> m \<in> {1, 2, 3, 4, 5, 6, 7, 8, 9, 10, 11, 12}" for m :: nat
  unfolding atLeastAtMost_iff insert_iff empty_iff by presburger

lemma month_names: "m \<in> {1..12} \<Longrightarrow> length (months ! (m - 1)) = 3"
  by (drule month_cases) (auto simp: months_def)

lemma date_chars:
  assumes "m \<in> {1..12}"
  shows "date_text y m d ! 0 = months ! (m - 1) ! 0" "date_text y m d ! 1 = months ! (m - 1) ! 1"
    "date_text y m d ! 2 = months ! (m - 1) ! 2"
    "date_text y m d ! 4 = two_places d ! 0" "date_text y m d ! 5 = two_places d ! 1"
    "map ((!) (date_text y m d)) [7..<11] = four_digits y"
proof -
  obtain a b c where abc: "months ! (m - 1) = [a, b, c]"
    using month_names [OF assms] by (auto simp: numeral_3_eq_3 length_Suc_conv)
  have u: "[7..<11] = [7, 8, 9, 10]" by (simp add: upt_rec)
  show "date_text y m d ! 0 = months ! (m - 1) ! 0" "date_text y m d ! 1 = months ! (m - 1) ! 1"
    "date_text y m d ! 2 = months ! (m - 1) ! 2"
    "date_text y m d ! 4 = two_places d ! 0" "date_text y m d ! 5 = two_places d ! 1"
    "map ((!) (date_text y m d)) [7..<11] = four_digits y"
    unfolding date_text_def abc u two_places_def four_digits_def by simp_all
qed

lemma month_found:
  assumes "m \<in> {1..12}" "date ! 0 = months ! (m - 1) ! 0" "date ! 1 = months ! (m - 1) ! 1" "date ! 2 = months ! (m - 1) ! 2"
  shows "month_loop date 0 months w = put_month (of_nat m) w"
  using month_cases [OF assms(1)] assms(2-4) by (elim insertE emptyE; hypsubst; simp add: months_def)

lemmas fw_fields = put_build_def put_day_def put_month_def put_year_def put_rsvd31_def fw_day_def fw_year_def

lemma year_step_year: "unat (fw_year (year_step c w)) = (unat (fw_year w) * 10 + unat (digit c)) mod 4096"
proof -
  have "unat (fw_year w * 10 AND mask 12) = unat (fw_year w) * 10 mod 4096"
  proof -
    have "unat (fw_year w) < 4096" by (simp add: fw_year_def unat_field)
    then have "unat (fw_year w * 10) = unat (fw_year w) * 10" by (subst unat_mult_lem [THEN iffD1]) simp_all
    then show ?thesis by (simp add: unat_and_mask)
  qed
  then show ?thesis
    by (simp add: year_step_def Let_def fw_fields field_put_same unat_and_mask unat_word_ariths mod_mod_cancel mod_add_left_eq)
qed

lemma digit_value_hex: "n < 10 \<Longrightarrow> unat (digit (hex_digit n)) = n"
  using digit_hex [of n] by (simp add: unat_of_nat)

lemma four_digits_sum:
  fixes y :: nat
  assumes "y < 10000"
  shows "((y div 1000 mod 10 * 10 + y div 100 mod 10) * 10 + y div 10 mod 10) * 10 + y mod 10 = y"
proof -
  have h: "y div 100 = y div 10 div 10" "y div 1000 = y div 10 div 10 div 10" by (simp_all flip: div_mult2_eq)
  have "y div 1000 < 10" using assms by simp
  then show ?thesis unfolding h by (simp only: mod_less div_mult_mod_eq)
qed

lemma mod_step: "(x mod 4096 * 10 + q) mod 4096 = (x * 10 + q) mod 4096" for x q :: nat
  by (metis mod_add_left_eq mod_mult_left_eq)

lemma year_digits:
  assumes "y < 4096" "unat (fw_year w) = 0"
  shows "unat (fw_year (fold year_step (four_digits y) w)) = y"
proof -
  have read: "unat (fw_year (fold year_step [p, q, r, s] w)) =
      (((unat (digit p) * 10 + unat (digit q)) * 10 + unat (digit r)) * 10 + unat (digit s)) mod 4096" for p q r s
    by (simp only: fold_simps year_step_year mod_step assms(2)) simp
  have small: "y div 1000 mod 10 < 10" "y div 100 mod 10 < 10" "y div 10 mod 10 < 10" "y mod 10 < 10" by simp_all
  show ?thesis unfolding four_digits_def list.map read digit_value_hex [OF small(1)] digit_value_hex [OF small(2)]
      digit_value_hex [OF small(3)] digit_value_hex [OF small(4)]
    using four_digits_sum [of y] assms(1) by simp
qed

definition tens :: "nat \<Rightarrow> u32" where
  "tens d = (if two_places d ! 0 \<noteq> CHR '' '' then digit (two_places d ! 0) else 0)"

lemma tens_value: "d < 100 \<Longrightarrow> unat (tens d) = d div 10"
  using digit_hex [of "d div 10"] by (simp add: tens_def two_places_def unat_of_nat)

lemma ones_value: "unat (digit (two_places d ! 1)) = d mod 10"
  by (simp add: two_places_def digit_value_hex)

lemma day_digits:
  assumes "d < 32"
  shows "fw_day (put_day (fw_day (put_day (tens d) w) + digit (two_places d ! 1)) (put_day (tens d) w)) = of_nat (d div 10 + d mod 10)"
proof -
  have t: "unat (tens d) = d div 10" using tens_value assms by simp
  then have "tens d AND mask 5 = tens d" using assms by (intro field_small) simp
  then have r: "fw_day (put_day (tens d) w) = tens d" by (simp add: fw_fields field_put_same)
  have "d div 10 \<le> 3" "d mod 10 < 10" using assms by simp_all
  then have u: "unat (tens d + digit (two_places d ! 1)) = d div 10 + d mod 10"
    using ones_value [of d] t by (subst unat_add_lem [THEN iffD1]) simp_all
  then have "(tens d + digit (two_places d ! 1)) AND mask 5 = tens d + digit (two_places d ! 1)"
    using \<open>d div 10 \<le> 3\<close> \<open>d mod 10 < 10\<close> by (intro field_small) simp
  then have "fw_day (put_day (tens d + digit (two_places d ! 1)) x) = tens d + digit (two_places d ! 1)" for x
    by (simp add: fw_fields field_put_same)
  then show ?thesis unfolding r by (simp flip: u)
qed

lemma fw_id_word_date:
  assumes "m \<in> {1..12}"
  shows "fw_id_word (date_text y m d) w =
    (let w1 = fold year_step (four_digits y) (put_year 0 w); w2 = put_day (tens d) w1
     in put_rsvd31 0 (put_build 1 (put_month (of_nat m) (put_month 0 (put_day (fw_day w2 + digit (two_places d ! 1)) w2)))))"
proof -
  have "fold (\<lambda>i. year_step (date_text y m d ! i)) [7..<11] = fold year_step (map ((!) (date_text y m d)) [7..<11])"
    by (simp only: fold_map comp_def)
  then have years: "fold (\<lambda>i. year_step (date_text y m d ! i)) [7..<11] = fold year_step (four_digits y)"
    by (simp only: date_chars(6) [OF assms])
  show ?thesis
    unfolding fw_id_word_def Let_def years date_chars(4,5) [OF assms]
      month_found [OF assms date_chars(1-3) [OF assms]] tens_def [symmetric] ..
qed

lemma fw_id_holds_date_fields:
  assumes "y < 4096" "m \<in> {1..12}" "d < 32"
  shows "fw_year (fw_id_word (date_text y m d) w) = of_nat y
    \<and> field 15 4 (fw_id_word (date_text y m d) w) = of_nat m
    \<and> fw_day (fw_id_word (date_text y m d) w) = of_nat (d div 10 + d mod 10)
    \<and> field 0 10 (fw_id_word (date_text y m d) w) = 1
    \<and> field 31 1 (fw_id_word (date_text y m d) w) = 0"
proof -
  let ?w1 = "fold year_step (four_digits y) (put_year 0 w)"
  let ?w3 = "put_day (fw_day (put_day (tens d) ?w1) + digit (two_places d ! 1)) (put_day (tens d) ?w1)"
  have all: "fw_id_word (date_text y m d) w = put_rsvd31 0 (put_build 1 (put_month (of_nat m) (put_month 0 ?w3)))"
    using fw_id_word_date [OF assms(2)] by (simp only: Let_def)
  have y: "unat (fw_year ?w1) = y"
    by (rule year_digits [OF assms(1)]) (simp add: fw_fields field_put_same)
  then have year: "fw_year ?w1 = of_nat y" by (metis of_nat_unat ucast_id)
  have month: "of_nat m AND mask 4 = (of_nat m :: u32)" using assms(2) by (intro field_small) (simp add: unat_of_nat)
  have one: "(1 :: u32) AND mask 10 = 1" by (intro field_small) simp
  show ?thesis
    using year day_digits [OF assms(3), of ?w1] month one unfolding all
    by (simp add: fw_fields field_put_same field_put_other del: fold_simps)
qed

text \<open>
  The firmware identifier holds the year and the month of the build and build number 1. Its
  day is the sum of the two digits of the day, since the first digit is not multiplied by ten: it
  is right for the first nine days of a month only.
\<close>

theorem fw_id_holds_date:
  assumes "y < 4096" "m \<in> {1..12}" "d < 32"
  shows "fw_year (fw_id_word (date_text y m d) w) = of_nat y
    \<and> field 15 4 (fw_id_word (date_text y m d) w) = of_nat m
    \<and> fw_day (fw_id_word (date_text y m d) w) = of_nat (d div 10 + d mod 10)
    \<and> field 0 10 (fw_id_word (date_text y m d) w) = 1
    \<and> field 31 1 (fw_id_word (date_text y m d) w) = 0"
  by (rule fw_id_holds_date_fields [OF assms])

lemma fw_id_holds_date_witness:
  "fw_year (fw_id_word (date_text 2024 11 5) 0xffffffff) = of_nat 2024
    \<and> field 15 4 (fw_id_word (date_text 2024 11 5) 0xffffffff) = of_nat 11
    \<and> fw_day (fw_id_word (date_text 2024 11 5) 0xffffffff) = of_nat (5 div 10 + 5 mod 10)
    \<and> field 0 10 (fw_id_word (date_text 2024 11 5) 0xffffffff) = 1
    \<and> field 31 1 (fw_id_word (date_text 2024 11 5) 0xffffffff) = 0"
  by (rule fw_id_holds_date) simp_all

end
