(* ===== verification/Host_Drivers.thy ===== *)
theory Host_Drivers
  imports Gfx_Firmware
begin

text \<open>
  The drivers of the host program of wavelet3d (\<open>platform/wavelet3d/host_sw\<close>): the probe of the
  graphics accelerator and the upload of its firmware (\<open>gfx_boot.c\<close>), the scatter-gather DMA
  (\<open>sgdma.c\<close>), the display controller (\<open>vdc.c\<close> and the striped variant \<open>vdc_rayas.c\<close>) and the
  initialisation (\<open>init.c\<close>). Loads and stores go through a parameter \<open>b\<close>; what \<open>printf\<close> prints is
  appended to the log. The DMA descriptor is a local variable, stored at the address \<open>entry\<close> that
  the compiler gives it. \<open>abort\<close> is the fault \<open>Aborted\<close>.
\<close>

section \<open>State and log\<close>

record 's host_cpu =
  printed :: string
  bus :: 's

text \<open>\<open>log(fmt, ...)\<close> in the module \<open>name\<close>, given the text that the format makes.\<close>

definition log_text :: "string \<Rightarrow> string \<Rightarrow> ('s, 'x) host_cpu_scheme \<Rightarrow> ('s, 'x) host_cpu_scheme" where
  "log_text name t s = s\<lparr>printed := printed s @ name @ '': '' @ t @ [CHR 0x0A]\<rparr>"

definition zero_padded :: "nat \<Rightarrow> nat \<Rightarrow> string" where
  "zero_padded n v = (let d = decimal v in replicate (n - length d) CHR ''0'' @ d)"

definition dec_u :: "u32 \<Rightarrow> string" where "dec_u v = decimal (unat v)"

definition peek :: "'s mmio \<Rightarrow> u32 \<Rightarrow> ('s, 'x) host_cpu_scheme \<Rightarrow> u32 \<times> ('s, 'x) host_cpu_scheme" where
  "peek b a s = (let (v, h) = bus_read b (bus s) a in (v, s\<lparr>bus := h\<rparr>))"

definition poke :: "'s mmio \<Rightarrow> u32 \<Rightarrow> u32 \<Rightarrow> ('s, 'x) host_cpu_scheme \<Rightarrow> ('s, 'x) host_cpu_scheme" where
  "poke b a v s = s\<lparr>bus := bus_write b (bus s) a v\<rparr>"

section \<open>Scatter-gather DMA\<close>

definition SGDMA_BASE :: u32 where "SGDMA_BASE = 0x28000000"
definition SGDMA_CTRL :: u32 where "SGDMA_CTRL = SGDMA_BASE + 0x00"
definition SGDMA_TBLLO :: u32 where "SGDMA_TBLLO = SGDMA_BASE + 0x08"
definition SGDMA_TBLHI :: u32 where "SGDMA_TBLHI = SGDMA_BASE + 0x0c"

definition SGDMA_ENTRY_LAST :: u32 where "SGDMA_ENTRY_LAST = 0b01"

definition start_busy :: "u32 \<Rightarrow> u32" where "start_busy = field 0 1"

text \<open>The words of a descriptor: \<open>src_lo\<close>, \<open>src_hi\<close> and \<open>flags\<close>, \<open>dst_lo\<close>, \<open>dst_hi\<close>, \<open>mbz\<close> and \<open>int_en\<close>, \<open>length\<close>.\<close>

definition sgdma_entry :: "u32 \<Rightarrow> u32 \<Rightarrow> u32 \<Rightarrow> u32 list" where
  "sgdma_entry dest src len =
     [src, put_field 30 2 SGDMA_ENTRY_LAST (put_field 0 30 0 0), dest,
      put_field 31 1 0 (put_field 30 1 0 (put_field 0 30 0 0)), len]"

definition sgdma_ctrl_start :: u32 where
  "sgdma_ctrl_start = put_field 5 27 0 (put_field 4 1 0 (put_field 3 1 0 (put_field 2 1 0 (put_field 1 1 0 (put_field 0 1 1 0)))))"

fun store_words :: "'s mmio \<Rightarrow> u32 \<Rightarrow> u32 list \<Rightarrow> ('s, 'x) host_cpu_scheme \<Rightarrow> ('s, 'x) host_cpu_scheme" where
  "store_words b a [] s = s"
| "store_words b a (w # ws) s = store_words b (a + 4) ws (poke b a w s)"

definition sgdma_done :: "'s mmio \<Rightarrow> ('s, 'x) host_cpu_scheme \<Rightarrow> bool \<times> ('s, 'x) host_cpu_scheme" where
  "sgdma_done b s = (let (ctrl, s) = peek b SGDMA_CTRL s in (start_busy ctrl = 0, s))"

definition sgdma_barrier :: "'s mmio \<Rightarrow> ('s, 'x) host_cpu_scheme \<Rightarrow> ('s, 'x) host_cpu_scheme res" where
  "sgdma_barrier b s =
     (case while_option (\<lambda>(done, s). \<not> done) (\<lambda>(done, s). sgdma_done b s) (sgdma_done b s) of
        None \<Rightarrow> Inl Spins
      | Some (done, s) \<Rightarrow> Inr s)"

definition sgdma_memcpy :: "'s mmio \<Rightarrow> u32 \<Rightarrow> u32 \<Rightarrow> u32 \<Rightarrow> u32 \<Rightarrow> ('s, 'x) host_cpu_scheme \<Rightarrow> ('s, 'x) host_cpu_scheme res" where
  "sgdma_memcpy b entry dest src len s =
     (let s = store_words b entry (sgdma_entry dest src len) s;
          s = poke b SGDMA_TBLLO entry s;
          s = poke b SGDMA_TBLHI 0 s;
          s = poke b SGDMA_CTRL sgdma_ctrl_start s
      in sgdma_barrier b s)"

section \<open>Graphics accelerator\<close>

definition GFX_CTRL_BASE :: u32 where "GFX_CTRL_BASE = 0x20000000"
definition GFX_CTRL_MAGIC :: u32 where "GFX_CTRL_MAGIC = GFX_CTRL_BASE + 0x00"
definition GFX_CTRL_HW_ID :: u32 where "GFX_CTRL_HW_ID = GFX_CTRL_BASE + 0x04"
definition GFX_CTRL_FW_ID :: u32 where "GFX_CTRL_FW_ID = GFX_CTRL_BASE + 0x08"
definition GFX_CTRL_HOSTIF_REV :: u32 where "GFX_CTRL_HOSTIF_REV = GFX_CTRL_BASE + 0x0c"
definition GFX_MAGIC_ID :: u32 where "GFX_MAGIC_ID = 0x4a7a7b0c"
definition GFX_VRAM :: u32 where "GFX_VRAM = 0x1c000000"

lemmas gfx_ctrl_registers =
  GFX_CTRL_BASE_def GFX_CTRL_MAGIC_def GFX_CTRL_HW_ID_def GFX_CTRL_FW_ID_def GFX_CTRL_HOSTIF_REV_def

definition hw_patch :: "u32 \<Rightarrow> u32" where "hw_patch = field 0 8"
definition hw_minor :: "u32 \<Rightarrow> u32" where "hw_minor = field 8 8"
definition hw_major :: "u32 \<Rightarrow> u32" where "hw_major = field 16 8"

definition id_build :: "u32 \<Rightarrow> u32" where "id_build = field 0 10"
definition id_day :: "u32 \<Rightarrow> u32" where "id_day = field 10 5"
definition id_month :: "u32 \<Rightarrow> u32" where "id_month = field 15 4"
definition id_year :: "u32 \<Rightarrow> u32" where "id_year = field 19 12"

datatype probe_result = GFX_PROBE_BOOTROM | GFX_PROBE_FIRMWARE | GFX_PROBE_FAILED

text \<open>\<open>v%u.%u.%u\<close> and \<open>%s rev %04u.%02u.%02u #%u\<close>\<close>

definition version_text :: "u32 \<Rightarrow> string" where
  "version_text hw_id =
     ''3D graphics accelerator IP core v'' @ dec_u (hw_major hw_id) @ ''.'' @ dec_u (hw_minor hw_id) @ ''.'' @ dec_u (hw_patch hw_id)"

definition revision_text :: "u32 \<Rightarrow> u32 \<Rightarrow> string" where
  "revision_text hostif_rev fw_id =
     (if hostif_rev \<noteq> 0 then ''firmware'' else ''bootloader'') @ '' rev '' @ zero_padded 4 (unat (id_year fw_id)) @ ''.''
       @ zero_padded 2 (unat (id_month fw_id)) @ ''.'' @ zero_padded 2 (unat (id_day fw_id)) @ '' #'' @ dec_u (id_build fw_id)"

definition gfx_probe :: "'s mmio \<Rightarrow> ('s, 'x) host_cpu_scheme \<Rightarrow> probe_result \<times> ('s, 'x) host_cpu_scheme" where
  "gfx_probe b s =
     (let s = log_text ''gfx'' (''probing 0x'' @ hex8 GFX_CTRL_BASE) s;
          (magic, s) = peek b GFX_CTRL_MAGIC s;
          s = log_text ''gfx'' (''magic=0x'' @ hex8 magic) s in
      if magic \<noteq> GFX_MAGIC_ID then (GFX_PROBE_FAILED, log_text ''gfx'' ''bad magic'' s)
      else
        let s = log_text ''gfx'' ''magic ok'' s;
            (hw_id, s) = peek b GFX_CTRL_HW_ID s;
            (fw_id, s) = peek b GFX_CTRL_FW_ID s;
            (hostif_rev, s) = peek b GFX_CTRL_HOSTIF_REV s;
            s = log_text ''gfx'' (version_text hw_id) s;
            s = log_text ''gfx'' (revision_text hostif_rev fw_id) s
        in if hostif_rev = 0 then (GFX_PROBE_BOOTROM, s)
           else if hostif_rev = 1 then
             (GFX_PROBE_FIRMWARE, log_text ''gfx'' (''found regmap revision '' @ dec_u hostif_rev) s)
           else (GFX_PROBE_FAILED, log_text ''gfx'' (''unknown regmap revision '' @ dec_u hostif_rev) s))"

text \<open>The result is always 0.\<close>

definition gfx_fw_load :: "'s mmio \<Rightarrow> u32 \<Rightarrow> u32 \<Rightarrow> u32 \<Rightarrow> ('s, 'x) host_cpu_scheme \<Rightarrow> (int \<times> ('s, 'x) host_cpu_scheme) res" where
  "gfx_fw_load b entry img image_len s =
     (let s = log_text ''gfx'' (''uploading fw image (len='' @ dec_u image_len @ '')'') s in
      bind_res (sgdma_memcpy b entry GFX_VRAM img image_len s) (\<lambda>s.
      bind_res (sgdma_barrier b s) (\<lambda>s.
      Inr (0, poke b GFX_CTRL_FW_ID GFX_VRAM s))))"

section \<open>Initialisation\<close>

text \<open>\<open>init_gfx_failed\<close> prints a line and aborts.\<close>

definition init_gfx_failed :: "('s, 'x) host_cpu_scheme \<Rightarrow> ('s, 'x) host_cpu_scheme res" where
  "init_gfx_failed s = Inl Aborted"

text \<open>\<open>init_gfx\<close> calls itself once at most: with \<open>bootrom\<close> set it does not load the firmware again.\<close>

function init_gfx :: "'s mmio \<Rightarrow> u32 \<Rightarrow> u32 \<Rightarrow> u32 \<Rightarrow> bool \<Rightarrow> ('s, 'x) host_cpu_scheme \<Rightarrow> ('s, 'x) host_cpu_scheme res" where
  "init_gfx b entry fw fw_size bootrom s =
     (case gfx_probe b s of
        (GFX_PROBE_FAILED, s) \<Rightarrow> init_gfx_failed s
      | (GFX_PROBE_BOOTROM, s) \<Rightarrow>
          if bootrom then init_gfx_failed (log_text ''init'' ''gfx bootloader didn't handover to firmware'' s)
          else bind_res (gfx_fw_load b entry fw fw_size s) (\<lambda>(result, s).
            if result < 0 then init_gfx_failed s else init_gfx b entry fw fw_size True s)
      | (GFX_PROBE_FIRMWARE, s) \<Rightarrow> Inr s)"
  by pat_completeness auto
termination
  by (relation "measure (\<lambda>(_, _, _, _, bootrom, _). if bootrom then 0 else 1)") auto

declare init_gfx.simps [simp del]

definition init :: "'s mmio \<Rightarrow> u32 \<Rightarrow> u32 \<Rightarrow> u32 \<Rightarrow> ('s, 'x) host_cpu_scheme \<Rightarrow> ('s, 'x) host_cpu_scheme res" where
  "init b entry fw fw_size s = init_gfx b entry fw fw_size False (log_text ''init'' ''host cpu is up'' s)"

section \<open>Display controller\<close>

definition VDC_BASE :: u32 where "VDC_BASE = 0x24000000"
definition VDC_CTRL :: u32 where "VDC_CTRL = VDC_BASE + 0x00"
definition VDC_GEOMETRY :: u32 where "VDC_GEOMETRY = VDC_BASE + 0x04"
definition VDC_STREAM :: u32 where "VDC_STREAM = VDC_BASE + 0x08"
definition VDC_FRONT :: u32 where "VDC_FRONT = VDC_BASE + 0x0c"
definition FB_BASE :: u32 where "FB_BASE = 0x1d000000"

definition dacon :: "u32 \<Rightarrow> u32" where "dacon = field 1 1"
definition vdc_fb_at :: "u32 \<Rightarrow> u32" where "vdc_fb_at addr = put_field 0 2 0 (put_field 2 30 addr 0)"
definition vdc_stream :: "u32 \<Rightarrow> u32" where "vdc_stream hstride = put_field 16 16 0 (put_field 0 16 hstride 0)"
definition vdc_geometry :: "u32 \<Rightarrow> u32 \<Rightarrow> u32" where "vdc_geometry len lines = put_field 0 16 lines (put_field 16 16 len 0)"
definition vdc_ctrl_on :: u32 where "vdc_ctrl_on = put_field 2 1 0 (put_field 1 1 0 (put_field 0 1 1 0))"

definition log_dac :: "'s mmio \<Rightarrow> string \<Rightarrow> ('s, 'x) host_cpu_scheme \<Rightarrow> ('s, 'x) host_cpu_scheme" where
  "log_dac b what s = (let (ctrl, s) = peek b VDC_CTRL s in log_text ''vdc'' (what @ '', vdc_on='' @ dec_u (dacon ctrl)) s)"

text \<open>The end of both variants of \<open>vdc_init\<close>.\<close>

definition vdc_start :: "'s mmio \<Rightarrow> ('s, 'x) host_cpu_scheme \<Rightarrow> ('s, 'x) host_cpu_scheme" where
  "vdc_start b s =
     (let s = log_text ''vdc'' ''fb done'' s;
          s = poke b VDC_FRONT (vdc_fb_at (drop_bit 2 FB_BASE)) s;
          s = poke b VDC_STREAM (vdc_stream 512) s;
          s = poke b VDC_GEOMETRY (vdc_geometry 479 479) s;
          s = poke b VDC_CTRL vdc_ctrl_on s
      in log_dac b ''init done'' s)"

definition vdc_init :: "'s mmio \<Rightarrow> ('s, 'x) host_cpu_scheme \<Rightarrow> ('s, 'x) host_cpu_scheme" where
  "vdc_init b s = vdc_start b (log_dac b ''fb init'' s)"

type_synonym stripe = "u32 \<times> u32 \<times> u32"

definition red_words :: stripe where "red_words = (0x00ff0000, 0x0000ff00, 0xff0000ff)"
definition green_words :: stripe where "green_words = (0x0000ff00, 0xff0000ff, 0x00ff0000)"
definition blue_words :: stripe where "blue_words = (0xff0000ff, 0x00ff0000, 0x0000ff00)"

text \<open>\<open>for (i = 0; i < 480; i += 3, p += 3)\<close>, with \<open>n\<close> passes left.\<close>

fun draw_line :: "'s mmio \<Rightarrow> stripe \<Rightarrow> nat \<Rightarrow> u32 \<Rightarrow> ('s, 'x) host_cpu_scheme \<Rightarrow> ('s, 'x) host_cpu_scheme" where
  "draw_line b c 0 p s = s"
| "draw_line b c (Suc n) p s =
     (let (c0, c1, c2) = c;
          s = poke b p c0 s; s = poke b (p + 4) c1 s; s = poke b (p + 8) c2 s
      in draw_line b c n (p + 12) s)"

text \<open>\<open>n\<close> lines of 512 words; the result has the pointer behind the last one.\<close>

fun draw_band :: "'s mmio \<Rightarrow> stripe \<Rightarrow> nat \<Rightarrow> u32 \<Rightarrow> ('s, 'x) host_cpu_scheme \<Rightarrow> u32 \<times> ('s, 'x) host_cpu_scheme" where
  "draw_band b c 0 p s = (p, s)"
| "draw_band b c (Suc n) p s = draw_band b c n (p + 4 * 512) (draw_line b c (480 div 3) p s)"

definition vdc_init_stripes :: "'s mmio \<Rightarrow> ('s, 'x) host_cpu_scheme \<Rightarrow> ('s, 'x) host_cpu_scheme" where
  "vdc_init_stripes b s =
     (let s = log_dac b ''fb init'' s;
          (p, s) = draw_band b red_words 120 FB_BASE s;
          (p, s) = draw_band b green_words 120 p s;
          (p, s) = draw_band b blue_words 120 p s;
          (p, s) = draw_band b red_words 120 p s
      in vdc_start b s)"

end
