(* ===== verification/Host_Props.thy ===== *)
theory Host_Props
  imports Host_Drivers
begin

text \<open>
  Properties of the host drivers: what the probe prints when the accelerator runs the firmware of
  \<open>Gfx_Firmware\<close>, how initialisation can end, and the stripes in the frame buffer.
\<close>

section \<open>Probe\<close>

lemma peek_printed [simp]: "printed (snd (peek b a s)) = printed s"
  by (simp add: peek_def split: prod.splits)

lemma log_text_printed [simp]: "printed (log_text name t s) = printed s @ name @ '': '' @ t @ [CHR 0x0A]"
  by (simp add: log_text_def)

lemma log_text_bus [simp]: "bus (log_text name t s) = bus s"
  by (simp add: log_text_def)

text \<open>
  The control registers of the accelerator are answered by its firmware: a read of the word \<open>k\<close>
  of the register block returns what \<open>host_read\<close> puts in \<open>HOSTIF_R\<close> for the address \<open>k\<close>.
\<close>

definition answered_by_firmware :: "'s mmio \<Rightarrow> string \<Rightarrow> u32 \<Rightarrow> u32 \<Rightarrow> bool" where
  "answered_by_firmware b date magic hw_rev \<longleftrightarrow>
     (\<forall>h. \<forall>k \<in> {0, 1, 2, 3}. fst (bus_read b h (GFX_CTRL_BASE + 4 * k)) = rdata_word date magic hw_rev k)"

lemma firmware_answers:
  assumes "answered_by_firmware b date magic hw_rev"
  shows "fst (peek b GFX_CTRL_MAGIC s) = magic" "fst (peek b GFX_CTRL_HW_ID s) = hw_rev"
    "fst (peek b GFX_CTRL_FW_ID s) = fw_id_word date 0xffffffff" "fst (peek b GFX_CTRL_HOSTIF_REV s) = 1"
proof -
  have r: "fst (bus_read b h (GFX_CTRL_BASE + 4 * k)) = rdata_word date magic hw_rev k" if "k \<in> {0, 1, 2, 3}" for h k
    using assms that unfolding answered_by_firmware_def by blast
  have "fst (peek b (GFX_CTRL_BASE + 4 * k) s) = rdata_word date magic hw_rev k" if "k \<in> {0, 1, 2, 3}" for k
    using r [OF that, of "bus s"] by (simp add: peek_def case_prod_unfold Let_def)
  from this [of 0] this [of 1] this [of 2] this [of 3]
  show "fst (peek b GFX_CTRL_MAGIC s) = magic" "fst (peek b GFX_CTRL_HW_ID s) = hw_rev"
    "fst (peek b GFX_CTRL_FW_ID s) = fw_id_word date 0xffffffff" "fst (peek b GFX_CTRL_HOSTIF_REV s) = 1"
    by (simp_all add: rdata_word_def Let_def ctrl_offsets gfx_ctrl_registers HOSTIF_REV_V1_def)
qed

definition probe_text :: "u32 \<Rightarrow> string \<Rightarrow> string" where
  "probe_text hw_rev revision =
     concat (map (\<lambda>t. ''gfx: '' @ t @ [CHR 0x0A])
       [''probing 0x20000000'', ''magic=0x4a7a7b0c'', ''magic ok'', version_text hw_rev, revision, ''found regmap revision 1''])"

lemma hex_digits_numeral:
  "hex_digits (numeral k) v = hex_digits (pred_numeral k) (v div 16) @ [hex_digit (v mod 16)]"
  unfolding numeral_eq_Suc [of k] by (rule hex_digits.simps(2))

lemma probe_constants: "hex8 GFX_CTRL_BASE = ''20000000''" "hex8 GFX_MAGIC_ID = ''4a7a7b0c''" "dec_u 1 = ''1''"
proof -
  show "hex8 GFX_CTRL_BASE = ''20000000''" "hex8 GFX_MAGIC_ID = ''4a7a7b0c''"
    by (simp_all add: hex8_def GFX_CTRL_BASE_def GFX_MAGIC_ID_def hex_digits_numeral hex_digit_def)
  show "dec_u 1 = ''1''" unfolding dec_u_def by (subst decimal.simps) (simp add: hex_digit_def)
qed

lemma probe_firmware:
  assumes "answered_by_firmware b date GFX_MAGIC_ID hw_rev"
  shows "fst (gfx_probe b s) = GFX_PROBE_FIRMWARE"
    "printed (snd (gfx_probe b s)) = printed s @ probe_text hw_rev (revision_text 1 (fw_id_word date 0xffffffff))"
proof -
  note a = firmware_answers [OF assms]
  obtain s1 where 1: "peek b GFX_CTRL_MAGIC (log_text ''gfx'' (''probing 0x'' @ hex8 GFX_CTRL_BASE) s) = (GFX_MAGIC_ID, s1)"
    using a(1) by (metis prod.collapse)
  define t1 where "t1 = log_text ''gfx'' ''magic ok'' (log_text ''gfx'' (''magic=0x'' @ hex8 GFX_MAGIC_ID) s1)"
  obtain s2 where 2: "peek b GFX_CTRL_HW_ID t1 = (hw_rev, s2)" using a(2) by (metis prod.collapse)
  obtain s3 where 3: "peek b GFX_CTRL_FW_ID s2 = (fw_id_word date 0xffffffff, s3)" using a(3) by (metis prod.collapse)
  obtain s4 where 4: "peek b GFX_CTRL_HOSTIF_REV s3 = (1, s4)" using a(4) by (metis prod.collapse)
  let ?t0 = "log_text ''gfx'' (''probing 0x'' @ hex8 GFX_CTRL_BASE) s"
  have p: "printed s4 = printed t1" "printed s1 = printed ?t0"
    using peek_printed [of b GFX_CTRL_HW_ID t1] peek_printed [of b GFX_CTRL_FW_ID s2]
      peek_printed [of b GFX_CTRL_HOSTIF_REV s3] peek_printed [of b GFX_CTRL_MAGIC ?t0]
    unfolding 1 2 3 4 by (simp_all only: snd_conv)
  have g: "gfx_probe b s = (GFX_PROBE_FIRMWARE, log_text ''gfx'' (''found regmap revision '' @ dec_u 1)
      (log_text ''gfx'' (revision_text 1 (fw_id_word date 0xffffffff)) (log_text ''gfx'' (version_text hw_rev) s4)))"
    by (simp only: gfx_probe_def Let_def 1 2 3 4 prod.case t1_def [symmetric] not_True_eq_False if_True if_False
        simp_thms one_neq_zero)
  show "fst (gfx_probe b s) = GFX_PROBE_FIRMWARE" by (simp only: g fst_conv)
  show "printed (snd (gfx_probe b s)) = printed s @ probe_text hw_rev (revision_text 1 (fw_id_word date 0xffffffff))"
    by (simp only: g snd_conv log_text_printed p t1_def probe_constants) (simp add: probe_text_def)
qed

lemma zero_padded_one: "v < 10 \<Longrightarrow> zero_padded (Suc 0) v = [hex_digit v]"
  unfolding zero_padded_def Let_def by (subst (1 2) decimal.simps) simp

lemma zero_padded_Suc: "0 < n \<Longrightarrow> zero_padded (Suc n) v = zero_padded n (v div 10) @ [hex_digit (v mod 10)]"
proof (cases "v < 10")
  case True
  have zero: "CHR ''0'' = hex_digit 0" by (simp add: hex_digit_def)
  have d: "decimal v = [hex_digit v]" "decimal 0 = [hex_digit 0]" using True by (subst decimal.simps, simp)+
  assume "0 < n"
  then show ?thesis using True
    by (cases n) (simp_all add: zero_padded_def d zero replicate_append_same)
next
  case False
  have "decimal v = decimal (v div 10) @ [hex_digit (v mod 10)]" using False by (subst decimal.simps) simp
  then show ?thesis by (simp add: zero_padded_def Let_def)
qed

lemma four_places: "y < 10000 \<Longrightarrow> zero_padded 4 y = four_digits y"
proof -
  assume "y < 10000"
  then have "y div 1000 < 10" "y div 10 div 10 = y div 100" "y div 100 div 10 = y div 1000"
    by (simp_all flip: div_mult2_eq)
  note small = this
  have four: "4 = Suc (Suc (Suc (Suc 0)))" by simp
  show ?thesis unfolding four using small by (simp add: zero_padded_Suc zero_padded_one four_digits_def)
qed

text \<open>A number of two digits, as \<open>%02u\<close> prints it.\<close>

definition two_digits :: "nat \<Rightarrow> string" where
  "two_digits n = [hex_digit (n div 10), hex_digit (n mod 10)]"

lemma two_places_padded: "n < 100 \<Longrightarrow> zero_padded 2 n = two_digits n"
  using zero_padded_Suc [of "Suc 0" n] by (simp add: numeral_2_eq_2 zero_padded_one two_digits_def)

text \<open>
  C18. Probing an accelerator whose registers its own firmware answers recognises the firmware and
  prints the version of the hardware, the year and the month of the build and build number 1. What
  it prints for the day is the sum of the two digits of the day: the day of the build on the first
  nine days of a month only, since the firmware drops the factor ten of the first digit.
\<close>

theorem probe_prints_firmware_id:
  assumes "answered_by_firmware b (date_text y m d) GFX_MAGIC_ID hw_rev" "y < 4096" "m \<in> {1..12}" "d < 32"
  shows "\<exists>s'. gfx_probe b s = (GFX_PROBE_FIRMWARE, s')
    \<and> printed s' = printed s @ probe_text hw_rev
        (''firmware rev '' @ four_digits y @ ''.'' @ two_digits m @ ''.'' @ two_digits (d div 10 + d mod 10) @ '' #1'')"
proof -
  let ?w = "fw_id_word (date_text y m d) 0xffffffff"
  have f: "id_year ?w = of_nat y" "id_month ?w = of_nat m" "id_day ?w = of_nat (d div 10 + d mod 10)" "id_build ?w = 1"
    using fw_id_holds_date_fields [OF assms(2-4)] by (simp_all add: id_year_def id_month_def id_day_def id_build_def fw_year_def fw_day_def)
  have "d div 10 \<le> 3" "d mod 10 < 10" using assms(4) by simp_all
  moreover have "unat (of_nat k :: u32) = k" if "k < 10000" for k using that by (simp add: unat_of_nat)
  ultimately have n: "unat (of_nat y :: u32) = y" "unat (of_nat m :: u32) = m"
    "unat (of_nat (d div 10 + d mod 10) :: u32) = d div 10 + d mod 10" "d div 10 + d mod 10 < 100" "m < 100" "y < 10000"
    using assms(2,3) by (simp_all del: of_nat_add)
  have "revision_text 1 ?w =
      ''firmware rev '' @ four_digits y @ ''.'' @ two_digits m @ ''.'' @ two_digits (d div 10 + d mod 10) @ '' #1''"
    unfolding revision_text_def f n(1-3) two_places_padded [OF n(4)] two_places_padded [OF n(5)] four_places [OF n(6)]
      probe_constants(3) by simp
  then show ?thesis using probe_firmware [OF assms(1), of s] by (metis prod.collapse)
qed

definition example_accelerator :: "string \<Rightarrow> unit mmio" where
  "example_accelerator date =
     \<lparr>bus_read = (\<lambda>h a. (rdata_word date GFX_MAGIC_ID 0x00010203 (drop_bit 2 (a - GFX_CTRL_BASE)), h)),
      bus_write = (\<lambda>h a v. h), bus_write16 = (\<lambda>h a v. h)\<rparr>"

lemma probe_prints_firmware_id_witness:
  "\<exists>s'. gfx_probe (example_accelerator (date_text 2024 11 5)) \<lparr>printed = [], bus = ()\<rparr> = (GFX_PROBE_FIRMWARE, s')
    \<and> printed s' = printed \<lparr>printed = [], bus = ()\<rparr> @ probe_text 0x00010203
        (''firmware rev '' @ four_digits 2024 @ ''.'' @ two_digits 11 @ ''.'' @ two_digits (5 div 10 + 5 mod 10) @ '' #1'')"
  by (rule probe_prints_firmware_id)
    (auto simp: answered_by_firmware_def example_accelerator_def)

section \<open>Initialisation\<close>

text \<open>Any bus with a record of the stores made on it, the address and the word of each in order.\<close>

definition tracing :: "'s mmio \<Rightarrow> ('s \<times> (u32 \<times> u32) list) mmio" where
  "tracing b =
     \<lparr>bus_read = (\<lambda>(h, t) a. let (v, h) = bus_read b h a in (v, (h, t))),
      bus_write = (\<lambda>(h, t) a v. (bus_write b h a v, t @ [(a, v)])),
      bus_write16 = (\<lambda>(h, t) a v. (bus_write16 b h a v, t @ [(a, ucast v)]))\<rparr>"

definition stores :: "('s \<times> (u32 \<times> u32) list, 'x) host_cpu_scheme \<Rightarrow> (u32 \<times> u32) list" where
  "stores s = snd (bus s)"

text \<open>The DMA engine is done some time: on whatever bus, the control register reads as not busy after enough reads.\<close>

primrec read_again :: "'s mmio \<Rightarrow> nat \<Rightarrow> 's \<Rightarrow> u32 \<times> 's" where
  "read_again b 0 h = bus_read b h SGDMA_CTRL"
| "read_again b (Suc n) h = bus_read b (snd (read_again b n h)) SGDMA_CTRL"

definition dma_ends :: "'s mmio \<Rightarrow> bool" where
  "dma_ends b \<longleftrightarrow> (\<forall>h. \<exists>n. start_busy (fst (read_again b n h)) = 0)"

text \<open>
  The stores of one upload: the five words of the descriptor of a single copy from \<open>img\<close> to the video
  memory, the address of the descriptor, the start of the engine, and the entry point.
\<close>

definition upload_stores :: "u32 \<Rightarrow> u32 \<Rightarrow> u32 \<Rightarrow> (u32 \<times> u32) list" where
  "upload_stores entry img len =
     [(entry, img), (entry + 4, 0x40000000), (entry + 8, 0x1c000000), (entry + 12, 0), (entry + 16, len),
      (0x28000008, entry), (0x2800000c, 0), (0x28000000, 1), (0x20000008, 0x1c000000)]"

lemma stores_poke [simp]: "stores (poke (tracing b) a v s) = stores s @ [(a, v)]"
  by (cases "bus s") (simp add: stores_def poke_def tracing_def)

lemma stores_log [simp]: "stores (log_text name t s) = stores s"
  by (simp add: stores_def)

lemma stores_peek [simp]: "stores (snd (peek (tracing b) a s)) = stores s"
  by (cases "bus s") (simp add: stores_def peek_def tracing_def Let_def split: prod.split)

lemma done_again:
  assumes "bus s = (h, t)"
  shows "((\<lambda>(done, s). sgdma_done (tracing b) s) ^^ k) (sgdma_done (tracing b) s)
    = (start_busy (fst (read_again b k h)) = 0, s\<lparr>bus := (snd (read_again b k h), t)\<rparr>)"
proof (induction k)
  case 0
  show ?case by (simp add: assms sgdma_done_def peek_def tracing_def Let_def split: prod.split)
next
  case (Suc k)
  show ?case
    unfolding funpow.simps comp_def Suc.IH
    by (simp add: sgdma_done_def peek_def tracing_def Let_def split: prod.split)
qed

lemma barrier_ends:
  assumes "dma_ends b"
  shows "\<exists>s'. sgdma_barrier (tracing b) s = Inr s' \<and> stores s' = stores s \<and> printed s' = printed s"
proof -
  obtain h t where h: "bus s = (h, t)" by (cases "bus s")
  note again = done_again [OF h, where b = b]
  obtain n where "start_busy (fst (read_again b n h)) = 0" using assms by (auto simp: dma_ends_def)
  then have "\<exists>k. \<not> (\<lambda>(done, s). \<not> done) (((\<lambda>(done, s). sgdma_done (tracing b) s) ^^ k) (sgdma_done (tracing b) s))"
    unfolding again by auto
  then obtain k where "while_option (\<lambda>(done, s). \<not> done) (\<lambda>(done, s). sgdma_done (tracing b) s) (sgdma_done (tracing b) s)
      = Some (((\<lambda>(done, s). sgdma_done (tracing b) s) ^^ k) (sgdma_done (tracing b) s))"
    by (auto simp: while_option_def)
  then show ?thesis unfolding again by (simp add: sgdma_barrier_def stores_def h)
qed

lemma descriptor_words: "sgdma_entry d img len = [img, 0x40000000, d, 0, len]" "sgdma_ctrl_start = 1"
proof -
  have z: "put_field p n 0 (0 :: u32) = 0" for p n by (rule bit_word_eqI) (simp add: put_field_def bit_simps)
  have f: "put_field 30 2 SGDMA_ENTRY_LAST (0 :: u32) = 0x40000000" "put_field 0 1 1 (0 :: u32) = 1"
    "put_field 5 27 0 (put_field 4 1 0 (put_field 3 1 0 (put_field 2 1 0 (put_field 1 1 0 (1 :: u32))))) = 1"
    by code_simp+
  show "sgdma_entry d img len = [img, 0x40000000, d, 0, len]" by (simp add: sgdma_entry_def z f)
  show "sgdma_ctrl_start = 1" unfolding sgdma_ctrl_start_def f ..
qed

lemma fw_load_traced:
  assumes "dma_ends b"
  shows "\<exists>s'. gfx_fw_load (tracing b) entry img len s = Inr (0, s') \<and> stores s' = stores s @ upload_stores entry img len"
proof -
  let ?s0 = "log_text ''gfx'' (''uploading fw image (len='' @ dec_u len @ '')'') s"
  let ?s1 = "poke (tracing b) SGDMA_CTRL sgdma_ctrl_start (poke (tracing b) SGDMA_TBLHI 0
     (poke (tracing b) SGDMA_TBLLO entry (store_words (tracing b) entry (sgdma_entry GFX_VRAM img len) ?s0)))"
  obtain s2 where 2: "sgdma_barrier (tracing b) ?s1 = Inr s2" "stores s2 = stores ?s1" using barrier_ends [OF assms] by blast
  obtain s3 where 3: "sgdma_barrier (tracing b) s2 = Inr s3" "stores s3 = stores s2" using barrier_ends [OF assms] by blast
  have "stores ?s1 = stores s @ [(entry, img), (entry + 4, 0x40000000), (entry + 8, 0x1c000000), (entry + 12, 0), (entry + 16, len),
      (0x28000008, entry), (0x2800000c, 0), (0x28000000, 1)]"
    unfolding descriptor_words store_words.simps stores_poke stores_log
    by (simp add: SGDMA_CTRL_def SGDMA_TBLLO_def SGDMA_TBLHI_def SGDMA_BASE_def GFX_VRAM_def add.assoc)
  then show ?thesis
    using 2 3 by (simp add: gfx_fw_load_def sgdma_memcpy_def Let_def upload_stores_def gfx_ctrl_registers GFX_VRAM_def)
qed

definition handover_line :: string where
  "handover_line = ''gfx: found regmap revision 1'' @ [CHR 0x0A]"

text \<open>The probe stores nothing, and ends with this line when it recognises the firmware.\<close>

lemma probe_ends:
  assumes "gfx_probe b s = (GFX_PROBE_FIRMWARE, s')"
  shows "\<exists>t. printed s' = t @ handover_line"
  using assms
  by (auto simp: gfx_probe_def Let_def case_prod_unfold probe_constants handover_line_def split: if_splits)

lemma probe_stores: "gfx_probe (tracing b) s = (r, s') \<Longrightarrow> stores s' = stores s"
  by (auto simp: gfx_probe_def Let_def case_prod_unfold split: if_splits)

text \<open>How a call that has found the boot ROM \<open>n\<close> times can end.\<close>

definition init_done :: "(u32 \<times> u32) list set \<Rightarrow> ('s \<times> (u32 \<times> u32) list, 'x) host_cpu_scheme res \<Rightarrow> bool" where
  "init_done ts r \<longleftrightarrow> (case r of Inl e \<Rightarrow> e = Aborted
     | Inr s' \<Rightarrow> (\<exists>t. printed s' = t @ handover_line) \<and> stores s' \<in> ts)"

lemma init_second: "init_done {stores s} (init_gfx (tracing b) entry fw n True s)"
  by (subst init_gfx.simps)
    (auto simp: init_done_def init_gfx_failed_def dest: probe_ends probe_stores split: prod.splits probe_result.splits)

lemma init_first:
  assumes "dma_ends b"
  shows "init_done {stores s, stores s @ upload_stores entry fw n} (init_gfx (tracing b) entry fw n False s)"
proof -
  obtain r s1 where p: "gfx_probe (tracing b) s = (r, s1)" by force
  note same = probe_stores [OF p]
  show ?thesis
  proof (cases r)
    case GFX_PROBE_BOOTROM
    from fw_load_traced [OF assms] obtain s2 where
      "gfx_fw_load (tracing b) entry fw n s1 = Inr (0, s2)" "stores s2 = stores s1 @ upload_stores entry fw n" by blast
    then show ?thesis
      using GFX_PROBE_BOOTROM p same init_second [of s2 b entry fw n]
      by (subst init_gfx.simps) (auto simp: init_done_def split: sum.splits)
  next
    case GFX_PROBE_FIRMWARE
    then show ?thesis using p same probe_ends [of "tracing b" s s1] by (subst init_gfx.simps) (simp add: init_done_def)
  next
    case GFX_PROBE_FAILED
    then show ?thesis using p by (subst init_gfx.simps) (simp add: init_done_def init_gfx_failed_def)
  qed
qed

text \<open>
  C19. Initialisation ends, for every accelerator, with a DMA engine that is done some time: the
  program aborts, or the last thing the log says is that the firmware was found, and then it has
  stored nothing at all or exactly the words of one upload, in their order (the descriptor, its
  address, the start of the engine, the entry point). It never uploads twice.
\<close>

theorem init_ends_with_firmware_or_abort:
  assumes "dma_ends b"
  shows "case init (tracing b) entry fw n s of
      Inl e \<Rightarrow> e = Aborted
    | Inr s' \<Rightarrow> (\<exists>t. printed s' = t @ handover_line)
        \<and> (stores s' = stores s \<or> stores s' = stores s @ upload_stores entry fw n)"
  using init_first [OF assms, of "log_text ''init'' ''host cpu is up'' s" entry fw n]
  by (simp add: init_def init_done_def split: sum.splits)

text \<open>An accelerator in its boot ROM until the entry point is stored, and an engine that is done at the second read.\<close>

definition fresh_accelerator :: "(bool \<times> nat) mmio" where
  "fresh_accelerator =
     \<lparr>bus_read = (\<lambda>(up, k) a. (if a = SGDMA_CTRL then of_bool (even k)
          else if a = GFX_CTRL_HOSTIF_REV then of_bool up else if a = GFX_CTRL_MAGIC then GFX_MAGIC_ID else 0,
          (up, if a = SGDMA_CTRL then k + 1 else k))),
      bus_write = (\<lambda>(up, k) a v. (up \<or> a = GFX_CTRL_FW_ID, k)), bus_write16 = (\<lambda>h a v. h)\<rparr>"

lemma init_ends_with_firmware_or_abort_witness:
  "case init (tracing fresh_accelerator) 0x1000 0x2000 64 \<lparr>printed = [], bus = ((False, 0), [])\<rparr> of
      Inl e \<Rightarrow> e = Aborted
    | Inr s' \<Rightarrow> (\<exists>t. printed s' = t @ handover_line) \<and> (stores s' = [] \<or> stores s' = upload_stores 0x1000 0x2000 64)"
proof -
  have "dma_ends fresh_accelerator"
    unfolding dma_ends_def
  proof
    fix h :: "bool \<times> nat"
    obtain up k where h: "h = (up, k)" by (cases h)
    have "start_busy (fst (read_again fresh_accelerator (if even k then 1 else 0) h)) = 0"
      by (cases "even k") (simp_all add: h fresh_accelerator_def start_busy_def field_def)
    then show "\<exists>n. start_busy (fst (read_again fresh_accelerator n h)) = 0" ..
  qed
  from init_ends_with_firmware_or_abort [OF this, where entry = "0x1000" and fw = "0x2000" and n = "64" and s = "\<lparr>printed = [], bus = ((False, 0), [])\<rparr>"]
  show ?thesis unfolding stores_def host_cpu.select_convs snd_conv append_Nil .
qed

section \<open>The stripes\<close>

text \<open>The bus of the host as plain memory, one word per address.\<close>

definition plain_memory :: "(u32 \<Rightarrow> u32) mmio" where
  "plain_memory =
     \<lparr>bus_read = (\<lambda>m a. (m a, m)), bus_write = (\<lambda>m a v. m(a := v)), bus_write16 = (\<lambda>m a v. m(a := ucast v))\<rparr>"

definition word_of :: "stripe \<Rightarrow> nat \<Rightarrow> u32" where
  "word_of c j = (case c of (c0, c1, c2) \<Rightarrow> if j = 0 then c0 else if j = 1 then c1 else c2)"

lemma poke_memory [simp]: "bus (poke plain_memory a v s) = (bus s)(a := v)"
  by (simp add: poke_def plain_memory_def)

lemma peek_memory [simp]: "bus (snd (peek plain_memory a s)) = bus s"
  by (simp add: peek_def plain_memory_def)

text \<open>Distances between addresses, and addresses by their distance.\<close>

lemma distance_step:
  fixes a p d :: u32
  shows "unat (a - (p + d)) = (if unat d \<le> unat (a - p) then unat (a - p) - unat d else unat (a - p) + 2 ^ 32 - unat d)"
proof -
  have "a - (p + d) = (a - p) - d" by simp
  then show ?thesis by (simp only: unat_sub_if_size word_size) simp
qed

lemma at_distance: "a = p + d \<longleftrightarrow> unat (a - p) = unat d" for a p d :: u32
  by (auto simp: algebra_simps simp flip: word_unat_eq_iff)

lemma three_words:
  "bus (poke plain_memory (p + 8) c2 (poke plain_memory (p + 4) c1 (poke plain_memory p c0 s))) a =
    (let k = unat (a - p) in if k = 0 then c0 else if k = 4 then c1 else if k = 8 then c2 else bus s a)"
  using at_distance [of a p 4] at_distance [of a p 8] at_distance [of a p 0] by (simp add: Let_def)

text \<open>The words of a line of \<open>n\<close> groups of three, by their distance to the start.\<close>

lemma draw_line_memory:
  "12 * n < 2 ^ 32 \<Longrightarrow> bus (draw_line plain_memory c n p s) a =
    (let k = unat (a - p) in if k mod 4 = 0 \<and> k < 12 * n then word_of c (k div 4 mod 3) else bus s a)"
proof (induction n arbitrary: p s)
  case (Suc n)
  obtain c0 c1 c2 where c: "c = (c0, c1, c2)" by (cases c)
  let ?s = "poke plain_memory (p + 8) c2 (poke plain_memory (p + 4) c1 (poke plain_memory p c0 s))"
  define k where "k = unat (a - p)"
  define k' where "k' = unat (a - (p + 12))"
  have k': "k' = (if 12 \<le> k then k - 12 else k + 2 ^ 32 - 12)"
    using distance_step [of a p 12] by (simp add: k_def k'_def)
  have IH: "bus (draw_line plain_memory c (Suc n) p s) a =
      (if k' mod 4 = 0 \<and> k' < 12 * n then word_of c (k' div 4 mod 3) else bus ?s a)"
    using Suc.IH [of "p + 12" ?s] Suc.prems unfolding c k'_def by (simp add: Let_def)
  show ?case
  proof (cases "k < 12")
    case True
    then have "\<not> k' < 12 * n" using k' Suc.prems by simp
    then have "bus (draw_line plain_memory c (Suc n) p s) a = (if k = 0 then c0 else if k = 4 then c1 else if k = 8 then c2 else bus s a)"
      unfolding IH three_words k_def [symmetric] by (simp add: Let_def)
    moreover have "k \<in> {0, 1, 2, 3, 4, 5, 6, 7, 8, 9, 10, 11}"
      using True unfolding insert_iff empty_iff by presburger
    ultimately show ?thesis unfolding k_def [symmetric] by (auto simp: Let_def word_of_def c)
  next
    case False
    then obtain i where i: "k = i + 12" by (metis add.commute le_Suc_ex not_less)
    then have "k' = i" using k' by simp
    moreover have "(i + 12) mod 4 = i mod 4" "(i + 12) div 4 = i div 4 + 3" by presburger+
    ultimately show ?thesis unfolding IH three_words k_def [symmetric] i by (simp add: Let_def)
  qed
qed simp

lemma draw_band_end: "fst (draw_band b c n p s) = p + of_nat (2048 * n)"
  by (induction n arbitrary: p s) (simp_all add: algebra_simps)

lemma draw_band_memory:
  "2048 * n < 2 ^ 32 \<Longrightarrow> bus (snd (draw_band plain_memory c n p s)) a =
    (let k = unat (a - p) in
     if k < 2048 * n \<and> k mod 4 = 0 \<and> k mod 2048 < 1920 then word_of c (k mod 2048 div 4 mod 3) else bus s a)"
proof (induction n arbitrary: p s)
  case (Suc n)
  let ?s = "draw_line plain_memory c (480 div 3) p s"
  define k where "k = unat (a - p)"
  define k' where "k' = unat (a - (p + 2048))"
  have k': "k' = (if 2048 \<le> k then k - 2048 else k + 2 ^ 32 - 2048)"
    using distance_step [of a p 2048] by (simp add: k_def k'_def)
  have IH: "bus (snd (draw_band plain_memory c (Suc n) p s)) a =
      (if k' < 2048 * n \<and> k' mod 4 = 0 \<and> k' mod 2048 < 1920 then word_of c (k' mod 2048 div 4 mod 3) else bus ?s a)"
    using Suc.IH [of "p + 2048" ?s] Suc.prems unfolding k'_def by (simp add: Let_def)
  have line: "bus ?s a = (if k mod 4 = 0 \<and> k < 1920 then word_of c (k div 4 mod 3) else bus s a)"
    using draw_line_memory [of 160 c p s a] unfolding k_def by (simp add: Let_def)
  show ?case
  proof (cases "k < 2048")
    case True
    then have "\<not> k' < 2048 * n" using k' Suc.prems by simp
    then show ?thesis using True unfolding IH line k_def [symmetric] by (simp add: Let_def)
  next
    case False
    then obtain i where i: "k = i + 2048" by (metis add.commute le_Suc_ex not_less)
    then have "k' = i" using k' by simp
    moreover have "k mod 4 = i mod 4" unfolding i by presburger
    ultimately show ?thesis unfolding IH line k_def [symmetric] by (simp add: Let_def i)
  qed
qed simp

lemma vdc_start_memory:
  "a \<notin> {VDC_FRONT, VDC_STREAM, VDC_GEOMETRY, VDC_CTRL} \<Longrightarrow> bus (vdc_start plain_memory s) a = bus s a"
  by (auto simp: vdc_start_def log_dac_def Let_def case_prod_unfold)

text \<open>
  The bytes of the frame buffer: pixel \<open>k\<close> of line \<open>l\<close> has three, blue first.
\<close>

definition byte_in :: "(u32 \<Rightarrow> u32) \<Rightarrow> u32 \<Rightarrow> u8" where
  "byte_in m a = ucast (drop_bit (8 * unat (a AND 3)) (m (a AND NOT 3)))"

definition fb_pixel :: "(u32 \<Rightarrow> u32) \<Rightarrow> nat \<Rightarrow> nat \<Rightarrow> u8 list" where
  "fb_pixel m l k = map (\<lambda>j. byte_in m (FB_BASE + of_nat (2048 * l + 3 * k + j))) [0, 1, 2]"

definition stripe_of :: "nat \<Rightarrow> stripe" where
  "stripe_of band = (if band = 1 then green_words else if band = 2 then blue_words else red_words)"

definition stripe_colour :: "nat \<Rightarrow> u8 list" where
  "stripe_colour band = (if band = 1 then [0, 255, 0] else if band = 2 then [255, 0, 0] else [0, 0, 255])"

text \<open>The words of the frame buffer after the striped initialisation.\<close>

lemma band_size: "2048 * 120 = (245760 :: nat)" "of_nat 245760 = (245760 :: u32)"
  by simp_all

lemma band_words:
  assumes "q < 983040" "q mod 4 = 0" "q mod 2048 < 1920" "i < 4"
  shows "bus (snd (draw_band plain_memory c 120 (FB_BASE + of_nat (245760 * i)) s)) (FB_BASE + of_nat q) =
    (if q div 245760 = i then word_of c (q mod 2048 div 4 mod 3) else bus s (FB_BASE + of_nat q))"
proof -
  let ?a = "FB_BASE + of_nat q :: u32"
  have u: "unat (of_nat (245760 * i) :: u32) = 245760 * i" "unat (?a - FB_BASE) = q"
    using assms by (simp_all add: unat_of_nat del: of_nat_mult)
  define k where "k = unat (?a - (FB_BASE + of_nat (245760 * i)))"
  have k: "k = (if 245760 * i \<le> q then q - 245760 * i else q + 2 ^ 32 - 245760 * i)"
    unfolding k_def distance_step u ..
  have b: "bus (snd (draw_band plain_memory c 120 (FB_BASE + of_nat (245760 * i)) s)) ?a =
    (if k < 245760 \<and> k mod 4 = 0 \<and> k mod 2048 < 1920 then word_of c (k mod 2048 div 4 mod 3) else bus s ?a)"
    using draw_band_memory [of 120 c _ s ?a] unfolding k_def by (simp add: Let_def)
  show ?thesis
  proof (cases "q div 245760 = i")
    case True
    then have "245760 * i \<le> q" "q < 245760 * i + 245760" by auto
    then obtain r where r: "q = r + 245760 * i" "r < 245760" by (metis add.commute add_less_cancel_left le_Suc_ex)
    then have "k = r" using k by simp
    moreover have "245760 * i = 2048 * (120 * i)" "245760 * i = 4 * (61440 * i)" by simp_all
    then have "q mod 2048 = r mod 2048" "q mod 4 = r mod 4" unfolding r(1) by (metis mod_mult_self2)+
    ultimately show ?thesis unfolding b using True r assms by simp
  next
    case False
    then have "\<not> k < 245760" using assms(1,4) unfolding k by auto
    then show ?thesis unfolding b using False by simp
  qed
qed

lemma below_four: "n < 4 \<Longrightarrow> n \<in> {0, 1, 2, 3}" for n :: nat
  by auto

lemma stripes_words:
  assumes "q < 983040" "q mod 4 = 0" "q mod 2048 < 1920"
  shows "bus (vdc_init_stripes plain_memory s) (FB_BASE + of_nat q) = word_of (stripe_of (q div 245760)) (q mod 2048 div 4 mod 3)"
proof -
  let ?a = "FB_BASE + of_nat q :: u32"
  have "unat ?a = unat FB_BASE + q" using assms(1) by (simp add: FB_BASE_def unat_word_ariths unat_of_nat)
  then have reg: "?a \<notin> {VDC_FRONT, VDC_STREAM, VDC_GEOMETRY, VDC_CTRL}"
    using assms(1) by (auto simp: FB_BASE_def VDC_FRONT_def VDC_STREAM_def VDC_GEOMETRY_def VDC_CTRL_def VDC_BASE_def)
  have "q div 245760 < 4" using assms(1) by auto
  then have bands: "q div 245760 \<in> {0, 1, 2, 3}" by (rule below_four)
  note band = band_words [OF assms]
  define s0 where "s0 = log_dac plain_memory ''fb init'' s"
  obtain p1 s1 where 1: "draw_band plain_memory red_words 120 FB_BASE s0 = (p1, s1)" by force
  obtain p2 s2 where 2: "draw_band plain_memory green_words 120 p1 s1 = (p2, s2)" by force
  obtain p3 s3 where 3: "draw_band plain_memory blue_words 120 p2 s2 = (p3, s3)" by force
  obtain p4 s4 where 4: "draw_band plain_memory red_words 120 p3 s3 = (p4, s4)" by force
  have p: "p1 = FB_BASE + of_nat (245760 * 1)" "p2 = FB_BASE + of_nat (245760 * 2)" "p3 = FB_BASE + of_nat (245760 * 3)"
    using draw_band_end [of plain_memory red_words 120 FB_BASE s0] draw_band_end [of plain_memory green_words 120 p1 s1]
      draw_band_end [of plain_memory blue_words 120 p2 s2] unfolding 1 2 3 by simp_all
  define d where "d = q div 245760"
  have e: "bus s1 ?a = (if d = 0 then word_of red_words (q mod 2048 div 4 mod 3) else bus s0 ?a)"
    "bus s2 ?a = (if d = 1 then word_of green_words (q mod 2048 div 4 mod 3) else bus s1 ?a)"
    "bus s3 ?a = (if d = 2 then word_of blue_words (q mod 2048 div 4 mod 3) else bus s2 ?a)"
    "bus s4 ?a = (if d = 3 then word_of red_words (q mod 2048 div 4 mod 3) else bus s3 ?a)"
    using band [of 0 red_words s0] band [of 1 green_words s1] band [of 2 blue_words s2] band [of 3 red_words s3]
    unfolding p [symmetric] 2 3 4 d_def [symmetric] by (simp_all add: 1)
  have "bus (vdc_init_stripes plain_memory s) ?a = bus s4 ?a"
    using vdc_start_memory [OF reg] by (simp add: vdc_init_stripes_def Let_def s0_def [symmetric] 1 2 3 4)
  then show ?thesis
    using bands unfolding e stripe_of_def d_def [symmetric] by (elim insertE emptyE) simp_all
qed

lemma twelve_cases: "u < 12 \<Longrightarrow> u \<in> {0, 1, 2, 3, 4, 5, 6, 7, 8, 9, 10, 11}" for u :: nat
  unfolding insert_iff empty_iff by presburger

lemma stripe_bytes:
  assumes "u < 12"
  shows "(ucast (drop_bit (8 * (u mod 4)) (word_of red_words (u div 4))) :: u8) = [0, 0, 255] ! (u mod 3)"
    "(ucast (drop_bit (8 * (u mod 4)) (word_of green_words (u div 4))) :: u8) = [0, 255, 0] ! (u mod 3)"
    "(ucast (drop_bit (8 * (u mod 4)) (word_of blue_words (u div 4))) :: u8) = [255, 0, 0] ! (u mod 3)"
  using twelve_cases [OF assms]
  by (elim insertE emptyE; hypsubst; simp add: word_of_def red_words_def green_words_def blue_words_def)+

lemma stripe_byte:
  "(ucast (drop_bit (8 * (t mod 4)) (word_of (stripe_of band) (t div 4 mod 3))) :: u8) = stripe_colour band ! (t mod 3)"
proof -
  define u where "u = t mod 12"
  have u: "u < 12" by (simp add: u_def)
  have "t mod 4 = u mod 4" "t mod 3 = u mod 3" by (simp_all add: u_def mod_mod_cancel)
  moreover have "t div 4 mod 3 = u div 4" unfolding u_def using mod_mult2_eq [of t 4 3] by simp
  ultimately show ?thesis using stripe_bytes [OF u] by (simp add: stripe_of_def stripe_colour_def)
qed

lemma fb_address:
  assumes "r < 983040"
  shows "unat ((FB_BASE + of_nat r) AND 3) = r mod 4" "(FB_BASE + of_nat r) AND NOT 3 = FB_BASE + of_nat (4 * (r div 4))"
proof -
  have m: "(3 :: u32) = mask 2" by (simp add: mask_eq_exp_minus_1)
  have u: "unat (FB_BASE + of_nat k :: u32) = 0x1d000000 + k" if "k < 983040" for k
    using that by (simp add: FB_BASE_def unat_word_ariths unat_of_nat)
  have "(0x1d000000 + r) mod 4 = r mod 4" by presburger
  then show "unat ((FB_BASE + of_nat r) AND 3) = r mod 4" unfolding m unat_and_mask u [OF assms] by simp
  have "4 * (r div 4) < 983040" using assms by (meson le_less_trans times_div_less_eq_dividend)
  moreover have "(0x1d000000 + r) div 4 * 4 = 0x1d000000 + 4 * (r div 4)" by presburger
  ultimately show "(FB_BASE + of_nat r) AND NOT 3 = FB_BASE + of_nat (4 * (r div 4))"
    unfolding m word_unat_eq_iff unat_and_not_mask using u [of "4 * (r div 4)"] u [OF assms] by (simp del: of_nat_mult)
qed

lemma stripe_place:
  fixes l t :: nat
  assumes "l < 480" "t < 1920" and q: "q = 4 * ((2048 * l + t) div 4)"
  shows "q < 983040" "q mod 4 = 0" "q mod 2048 = 4 * (t div 4)" "q div 245760 = l div 120"
proof -
  have "(2048 * l + t) div 4 = 512 * l + t div 4" by presburger
  then have e: "q = 2048 * l + 4 * (t div 4)" unfolding q by simp
  have s: "4 * (t div 4) < 2048" using assms(2) times_div_less_eq_dividend [of 4 t] by linarith
  show "q mod 4 = 0" unfolding q by simp
  show m: "q mod 2048 = 4 * (t div 4)" unfolding e using s by simp
  have d: "q div 2048 = l" unfolding e using s by simp
  have "q div 245760 = q div 2048 div 120" by (simp flip: div_mult2_eq)
  then show "q div 245760 = l div 120" using d by simp
  show "q < 983040" using e s assms(1) by linarith
qed

lemma stripe_pixel_byte:
  assumes "l < 480" "k < 640" "j < 3"
  shows "byte_in (bus (vdc_init_stripes plain_memory s)) (FB_BASE + of_nat (2048 * l + 3 * k + j)) = stripe_colour (l div 120) ! j"
proof -
  define t where "t = 3 * k + j"
  have t: "t < 1920" "t mod 3 = j" using assms(2,3) by (simp_all add: t_def)
  define r where "r = 2048 * l + t"
  have r: "r < 983040" using assms(1) t(1) by (simp add: r_def)
  define q where "q = 4 * (r div 4)"
  note place = stripe_place [OF assms(1) t(1) q_def [unfolded r_def]]
  have "r = t + 4 * (512 * l)" by (simp add: r_def)
  then have low: "r mod 4 = t mod 4" by (simp only: mod_mult_self2)
  have "q mod 2048 < 1920" "q mod 2048 div 4 = t div 4" using place(3) t(1) by auto
  from stripes_words [OF place(1,2) this(1), of s] this(2)
  have w: "bus (vdc_init_stripes plain_memory s) (FB_BASE + of_nat q) = word_of (stripe_of (l div 120)) (t div 4 mod 3)"
    unfolding place(4) by simp
  have "2048 * l + 3 * k + j = r" by (simp add: r_def t_def)
  then show ?thesis
    unfolding byte_in_def \<open>2048 * l + 3 * k + j = r\<close> fb_address [OF r] q_def [symmetric] w low
    using stripe_byte [of t "l div 120"] t(2) by simp
qed

text \<open>
  C20. The striped initialisation paints the whole screen: each of the 640 pixels of each of the 480
  lines is red in the first quarter of the lines, green in the second, blue in the third and red
  in the last, although three words hold four pixels.
\<close>

theorem stripes_cover_screen:
  assumes "l < 480" "k < 640"
  shows "fb_pixel (bus (vdc_init_stripes plain_memory s)) l k = stripe_colour (l div 120)"
proof -
  note byte = stripe_pixel_byte [OF assms, of _ s]
  have "(0 :: nat) < 3" "(1 :: nat) < 3" "(2 :: nat) < 3" by simp_all
  from byte [OF this(1)] byte [OF this(2)] byte [OF this(3)] show ?thesis
    unfolding fb_pixel_def list.map by (simp only:) (simp add: stripe_colour_def)
qed

lemma stripes_cover_screen_witness:
  "fb_pixel (bus (vdc_init_stripes plain_memory \<lparr>printed = [], bus = (\<lambda>_. 0)\<rparr>)) 479 639 = stripe_colour (479 div 120)"
  by (rule stripes_cover_screen) simp_all

end
