(* ===== verification/Host_Raster.thy ===== *)
theory Host_Raster
  imports Host_Drivers "HOL-Library.Signed_Division"
begin

text \<open>
  The software renderer of wavelet3d (\<open>platform/wavelet3d/host_sw/demo.c\<close>): matrices, the
  rasteriser with its edge functions and depth buffer, and the cube that \<open>demo\<close> draws. Machine
  integers are mathematical integers with an explicit range check where the language leaves an
  overflow undefined; shifts behave as the compiler documents them. Single and double precision
  are a parameter \<open>F\<close>: the operations and conversions of the source are its fields, and nothing is
  assumed of them (the program is compiled with \<open>-ffast-math\<close>).
\<close>

section \<open>Numbers\<close>

record ('f, 'd) fpu =
  f_add :: "'f \<Rightarrow> 'f \<Rightarrow> 'f"
  f_sub :: "'f \<Rightarrow> 'f \<Rightarrow> 'f"
  f_mul :: "'f \<Rightarrow> 'f \<Rightarrow> 'f"
  f_div :: "'f \<Rightarrow> 'f \<Rightarrow> 'f"
  f_neg :: "'f \<Rightarrow> 'f"
  f_of_int :: "int \<Rightarrow> 'f"
  f_ldexp :: "'f \<Rightarrow> int \<Rightarrow> 'f"
  f_to_int :: "'f \<Rightarrow> int option"
  f_cos :: "'f \<Rightarrow> 'f"
  f_sin :: "'f \<Rightarrow> 'f"
  f_tan :: "'f \<Rightarrow> 'f"
  f_atan :: "'f \<Rightarrow> 'f"
  f_text :: "'f \<Rightarrow> string"
  widen :: "'f \<Rightarrow> 'd"
  narrow :: "'d \<Rightarrow> 'f"
  d_add :: "'d \<Rightarrow> 'd \<Rightarrow> 'd"
  d_mul :: "'d \<Rightarrow> 'd \<Rightarrow> 'd"
  d_div :: "'d \<Rightarrow> 'd \<Rightarrow> 'd"
  d_sqrt :: "'d \<Rightarrow> 'd"
  d_of_int :: "int \<Rightarrow> 'd"
  d_half :: 'd
  d_pi :: 'd
  d_pi_2 :: 'd
  d_less :: "'d \<Rightarrow> 'd \<Rightarrow> bool"
  d_leq :: "'d \<Rightarrow> 'd \<Rightarrow> bool"

text \<open>Integer results of one expression, all of which must be representable; \<open><< 4\<close> of an \<open>int\<close>.\<close>

definition ints :: "int list \<Rightarrow> 'a res \<Rightarrow> 'a res" where
  "ints vs r = (if list_all (\<lambda>v. - (2 ^ 31) \<le> v \<and> v < 2 ^ 31) vs then r else Inl Undefined)"

definition shl4 :: "int \<Rightarrow> int" where
  "shl4 v = signed_take_bit 31 (v * 16)"

text \<open>\<open>(int)\<close> of a number out of range is undefined.\<close>

definition to_int :: "('f, 'd) fpu \<Rightarrow> 'f \<Rightarrow> int res" where
  "to_int F v = (case f_to_int F v of None \<Rightarrow> Inl Undefined | Some n \<Rightarrow> ints [n] (Inr n))"

section \<open>Data\<close>

definition W :: int where "W = 640"
definition H :: int where "H = 480"

type_synonym 'f vec4 = "'f list"
type_synonym 'f mat4 = "'f list list"

record vec2i =
  px :: int
  py :: int

record 'f vertex =
  pos :: "'f vec4"
  grid :: vec2i
  color :: "'f vec4"

text \<open>The static variables and the frame buffer, whose bytes are numbered from \<open>FB_BASE\<close>.\<close>

record ('s, 'f) renderer = "'s host_cpu" +
  mvp :: "'f mat4"
  z_buff :: "int \<Rightarrow> u16"
  fb :: "int \<Rightarrow> u8"

section \<open>Loops and arrays\<close>

text \<open>A loop over the values of its counter, stopping at the first failure; accesses to an array within its bounds.\<close>

fun each :: "('p \<Rightarrow> 'c \<Rightarrow> 'c res) \<Rightarrow> 'p list \<Rightarrow> 'c \<Rightarrow> 'c res" where
  "each f [] s = Inr s"
| "each f (p # ps) s = bind_res (f p s) (each f ps)"

definition read_at :: "'a list \<Rightarrow> nat \<Rightarrow> 'a res" where
  "read_at xs i = (if i < length xs then Inr (xs ! i) else Inl Out_Of_Bounds)"

definition put_at :: "nat \<Rightarrow> 'a \<Rightarrow> 'a list \<Rightarrow> 'a list res" where
  "put_at i x xs = (if i < length xs then Inr (xs[i := x]) else Inl Out_Of_Bounds)"

text \<open>The same for an element of a matrix.\<close>

definition read_cell :: "'a list list \<Rightarrow> nat \<Rightarrow> nat \<Rightarrow> 'a res" where
  "read_cell m i j = bind_res (read_at m i) (\<lambda>row. read_at row j)"

definition put_cell :: "nat \<Rightarrow> nat \<Rightarrow> 'a \<Rightarrow> 'a list list \<Rightarrow> 'a list list res" where
  "put_cell i j x m = bind_res (read_at m i) (\<lambda>row. bind_res (put_at j x row) (\<lambda>row. put_at i row m))"

section \<open>Matrices\<close>

text \<open>
  The loops as they are: a component is set to zero and then accumulated in place. The local array,
  which the code leaves uninitialised and writes before it reads, starts as zeros here.
\<close>

definition mat_vec :: "('f, 'd) fpu \<Rightarrow> 'f mat4 \<Rightarrow> 'f vec4 \<Rightarrow> 'f vec4 res" where
  "mat_vec F a b =
     each (\<lambda>i v.
         bind_res (put_at i (f_of_int F 0) v)
           (each (\<lambda>k v.
              bind_res (read_at v i) (\<lambda>sum.
              bind_res (read_cell a i k) (\<lambda>x.
              bind_res (read_at b k) (\<lambda>y.
              put_at i (f_add F sum (f_mul F x y)) v)))) [0..<4]))
       [0..<4] (replicate 4 (f_of_int F 0))"

definition mat_mat :: "('f, 'd) fpu \<Rightarrow> 'f mat4 \<Rightarrow> 'f mat4 \<Rightarrow> 'f mat4 res" where
  "mat_mat F a b =
     each (\<lambda>i. each (\<lambda>j c.
         bind_res (put_cell i j (f_of_int F 0) c)
           (each (\<lambda>k c.
              bind_res (read_cell c i j) (\<lambda>sum.
              bind_res (read_cell a i k) (\<lambda>x.
              bind_res (read_cell b k j) (\<lambda>y.
              put_cell i j (f_add F sum (f_mul F x y)) c)))) [0..<4]))
         [0..<4])
       [0..<4] (replicate 4 (replicate 4 (f_of_int F 0)))"

definition mat_translate :: "('f, 'd) fpu \<Rightarrow> 'f \<Rightarrow> 'f \<Rightarrow> 'f \<Rightarrow> 'f mat4" where
  "mat_translate F x y z =
     (let c = f_of_int F in
      [[c 1, c 0, c 0, x],
       [c 0, c 1, c 0, y],
       [c 0, c 0, c 1, z],
       [c 0, c 0, c 0, c 1]])"

definition mat_scale :: "('f, 'd) fpu \<Rightarrow> 'f \<Rightarrow> 'f \<Rightarrow> 'f \<Rightarrow> 'f mat4" where
  "mat_scale F x y z =
     (let c = f_of_int F in
      [[x, c 0, c 0, c 0],
       [c 0, y, c 0, c 0],
       [c 0, c 0, z, c 0],
       [c 0, c 0, c 0, c 1]])"

definition mat_rotate :: "('f, 'd) fpu \<Rightarrow> 'f \<Rightarrow> 'f \<Rightarrow> 'f \<Rightarrow> 'f \<Rightarrow> 'f mat4" where
  "mat_rotate F x y z angle =
     (let plus = f_add F; minus = f_sub F; times = f_mul F; c0 = f_of_int F 0; c1 = f_of_int F 1;
          xx = times x x; yy = times y y; zz = times z z;
          mag = narrow F (d_sqrt F (widen F (plus (plus xx yy) zz)));
          x = f_div F x mag; y = f_div F y mag; z = f_div F z mag;
          angle = narrow F (d_div F (d_mul F (widen F angle) (d_pi F)) (d_of_int F 180));
          c = f_cos F angle; s = f_sin F angle
      in
      [[plus (times (times x x) (minus c1 c)) c, minus (times (times x y) (minus c1 c)) (times z s),
          plus (times (times x z) (minus c1 c)) (times y s), c0],
       [plus (times (times y x) (minus c1 c)) (times z s), plus (times (times y y) (minus c1 c)) c,
          minus (times (times y z) (minus c1 c)) (times x s), c0],
       [minus (times (times x z) (minus c1 c)) (times y s), plus (times (times y z) (minus c1 c)) (times x s),
          plus (times (times z z) (minus c1 c)) c, c0],
       [c0, c0, c0, c1]])"

definition mat_frustum :: "('f, 'd) fpu \<Rightarrow> 'f \<Rightarrow> 'f \<Rightarrow> 'f \<Rightarrow> 'f \<Rightarrow> 'f \<Rightarrow> 'f \<Rightarrow> 'f mat4" where
  "mat_frustum F left right bottom upper near far =
     (let plus = f_add F; minus = f_sub F; times = f_mul F; over = f_div F; c = f_of_int F;
          l = left; r = right; b = bottom; t = upper; n = near; f = far
      in
      [[over (times (c 2) n) (minus r l), c 0, over (plus r l) (minus r l), c 0],
       [c 0, over (times (c 2) n) (minus t b), over (plus t b) (minus t b), c 0],
       [c 0, c 0, over (f_neg F (plus f n)) (minus f n), over (times (times (c (- 2)) f) n) (minus f n)],
       [c 0, c 0, c (- 1), c 0]])"

section \<open>Vertices and edges\<close>

definition fixed_point :: "('f, 'd) fpu \<Rightarrow> 'f vec4 \<Rightarrow> vec2i res" where
  "fixed_point F p =
     bind_res (to_int F (f_ldexp F (f_div F (p ! 0) (p ! 3)) 13)) (\<lambda>x.
     bind_res (to_int F (f_ldexp F (f_div F (p ! 1) (p ! 3)) 13)) (\<lambda>y.
     Inr \<lparr>px = x, py = y\<rparr>))"

text \<open>The value at the start, and what a step right and a step up add.\<close>

definition edge_fn :: "vec2i \<Rightarrow> vec2i \<Rightarrow> int \<Rightarrow> int \<Rightarrow> (int \<times> int \<times> int) res" where
  "edge_fn p q sx sy =
     (let a = py p - py q; b = - (px p - px q);
          r = (sx - px q) * a + (sy - py q) * b
      in ints [a, px p - px q, b, sx - px q, (sx - px q) * a, sy - py q, (sy - py q) * b, r] (Inr (r, a, b)))"

definition bounding :: "vec2i \<Rightarrow> vec2i \<Rightarrow> vec2i \<Rightarrow> int \<times> int \<times> int \<times> int" where
  "bounding p0 p1 p2 =
     (max (min (px p0) (min (px p1) (px p2))) (shl4 ((- W) sdiv 2)),
      max (min (py p0) (min (py p1) (py p2))) (shl4 ((- H) sdiv 2)),
      min (max (px p0) (max (px p1) (px p2))) (shl4 (W sdiv 2)),
      min (max (py p0) (max (py p1) (py p2))) (shl4 (H sdiv 2)))"

definition clamp_color :: "('f, 'd) fpu \<Rightarrow> 'f \<Rightarrow> u8 res" where
  "clamp_color F col =
     (let col = f_ldexp F col 8 in
      if d_less F (widen F col) (d_of_int F 0) then Inr 0
      else if d_leq F (d_of_int F 256) (widen F col) then Inr 255
      else bind_res (to_int F col) (\<lambda>n. Inr (of_int n)))"

definition area :: "('f, 'd) fpu \<Rightarrow> vec2i \<Rightarrow> vec2i \<Rightarrow> vec2i \<Rightarrow> 'f" where
  "area F a b c =
     (let a_x = f_of_int F (px a); a_y = f_of_int F (py a);
          b_x = f_of_int F (px b); b_y = f_of_int F (py b);
          c_x = f_of_int F (px c); c_y = f_of_int F (py c)
      in f_div F (f_add F (f_add F (f_mul F a_x (f_sub F b_y c_y)) (f_mul F b_x (f_sub F c_y a_y))) (f_mul F c_x (f_sub F a_y b_y)))
           (f_of_int F 2))"

section \<open>Rasteriser\<close>

text \<open>\<open>v0 * b0 + v1 * b1 + v2 * b2\<close>\<close>

definition blend :: "('f, 'd) fpu \<Rightarrow> 'f \<times> 'f \<times> 'f \<Rightarrow> 'f \<Rightarrow> 'f \<Rightarrow> 'f \<Rightarrow> 'f" where
  "blend F b v0 v1 v2 =
     (case b of (b0, b1, b2) \<Rightarrow> f_add F (f_add F (f_mul F v0 b0) (f_mul F v1 b1)) (f_mul F v2 b2))"

definition weights :: "('f, 'd) fpu \<Rightarrow> 'f vertex \<Rightarrow> 'f vertex \<Rightarrow> 'f vertex \<Rightarrow> vec2i \<Rightarrow> 'f \<times> 'f \<times> 'f" where
  "weights F v0 v1 v2 p =
     (let b0 = f_div F (area F p (grid v1) (grid v2)) (pos v0 ! 3);
          b1 = f_div F (area F (grid v0) p (grid v2)) (pos v1 ! 3);
          b2 = f_div F (area F (grid v0) (grid v1) p) (pos v2 ! 3);
          b_sum = f_add F (f_add F b0 b1) b2
      in (f_div F b0 b_sum, f_div F b1 b_sum, f_div F b2 b_sum))"

text \<open>The three bytes of a pixel, and a cell of the depth buffer.\<close>

definition plot :: "int \<Rightarrow> int \<Rightarrow> u8 \<Rightarrow> u8 \<Rightarrow> u8 \<Rightarrow> ('s, 'f) renderer \<Rightarrow> ('s, 'f) renderer" where
  "plot yield_x yield_y r g b s =
     (let ptr = yield_y * 2048 + yield_x * 3
      in s\<lparr>fb := (fb s)(ptr := b, ptr + 1 := g, ptr + 2 := r)\<rparr>)"

definition z_cell :: "int \<Rightarrow> ('s, 'f) renderer \<Rightarrow> u16 res" where
  "z_cell i s = (if 0 \<le> i \<and> i < 1024 * H then Inr (z_buff s i) else Inl Out_Of_Bounds)"

text \<open>The body of the inner loop from \<open>yield_x = x >> 4\<close> on, for a point inside the three edges.\<close>

definition shade :: "('f, 'd) fpu \<Rightarrow> 'f vertex \<Rightarrow> 'f vertex \<Rightarrow> 'f vertex \<Rightarrow> int \<Rightarrow> int
    \<Rightarrow> ('s, 'f) renderer \<Rightarrow> ('s, 'f) renderer res" where
  "shade F v0 v1 v2 x y s =
     (let yield_x = x div 16; yield_y = y div 16 in
      if \<not> ((- W) sdiv 2 \<le> yield_x \<and> yield_x < W sdiv 2 \<and> (- H) sdiv 2 \<le> yield_y \<and> yield_y < H sdiv 2) then Inr s
      else
        let yield_x = yield_x + W sdiv 2; yield_y = H sdiv 2 - yield_y - 1;
            b = weights F v0 v1 v2 \<lparr>px = x, py = y\<rparr>;
            z = blend F b (pos v0 ! 2) (pos v1 ! 2) (pos v2 ! 2) in
        if d_less F (widen F z) (d_of_int F (- 1)) \<or> d_leq F (d_of_int F 1) (widen F z) then Inr s
        else
          bind_res (to_int F (f_ldexp F (narrow F (d_add F (d_of_int F 1) (widen F z))) (16 - 1))) (\<lambda>z_int.
          bind_res (z_cell (yield_y * 1024 + yield_x) s) (\<lambda>cell.
          if of_int z_int < cell then Inr s
          else
            let s = s\<lparr>z_buff := (z_buff s)(yield_y * 1024 + yield_x := of_int z_int)\<rparr> in
            bind_res (clamp_color F (blend F b (color v0 ! 0) (color v1 ! 0) (color v2 ! 0))) (\<lambda>red.
            bind_res (clamp_color F (blend F b (color v0 ! 1) (color v1 ! 1) (color v2 ! 1))) (\<lambda>green.
            bind_res (clamp_color F (blend F b (color v0 ! 2) (color v1 ! 2) (color v2 ! 2))) (\<lambda>blue.
            Inr (plot yield_x yield_y red green blue s)))))))"

text \<open>Three edge values at once.\<close>

type_synonym edges = "int \<times> int \<times> int"

fun step_edges :: "edges \<Rightarrow> edges \<Rightarrow> edges" where
  "step_edges (a, b, c) (ia, ib, ic) = (a + ia, b + ib, c + ic)"

fun edge_list :: "edges \<Rightarrow> int list" where
  "edge_list (a, b, c) = [a, b, c]"

fun inside :: "edges \<Rightarrow> bool" where
  "inside (a, b, c) \<longleftrightarrow> 0 \<le> a \<and> 0 \<le> b \<and> 0 \<le> c"

text \<open>The inner loop from \<open>y\<close> on; \<open>pixel x y\<close> is the rest of its body.\<close>

function raster_y :: "(int \<Rightarrow> int \<Rightarrow> 'c \<Rightarrow> 'c res) \<Rightarrow> int \<Rightarrow> edges \<Rightarrow> int \<Rightarrow> int \<Rightarrow> edges \<Rightarrow> 'c \<Rightarrow> 'c res" where
  "raster_y pixel maxy int_y x y base_y s =
     (if y < maxy + 16 then
        ints (edge_list (step_edges base_y int_y))
          (bind_res (if inside base_y then pixel x y s else Inr s)
             (raster_y pixel maxy int_y x (y + 16) (step_edges base_y int_y)))
      else Inr s)"
  by pat_completeness auto
termination by (relation "measure (\<lambda>(_, maxy, _, _, y, _, _). nat (maxy + 16 - y))") auto

declare raster_y.simps [simp del]

function raster_x :: "(int \<Rightarrow> int \<Rightarrow> 'c \<Rightarrow> 'c res) \<Rightarrow> int \<Rightarrow> int \<Rightarrow> int \<Rightarrow> edges \<Rightarrow> edges \<Rightarrow> int \<Rightarrow> edges \<Rightarrow> 'c \<Rightarrow> 'c res" where
  "raster_x pixel maxx maxy sy int_x int_y x base_x s =
     (if x < maxx + 16 then
        bind_res (raster_y pixel maxy int_y x sy base_x s) (\<lambda>s.
        ints (edge_list (step_edges base_x int_x))
          (raster_x pixel maxx maxy sy int_x int_y (x + 16) (step_edges base_x int_x) s))
      else Inr s)"
  by pat_completeness auto
termination by (relation "measure (\<lambda>(_, maxx, _, _, _, _, x, _, _). nat (maxx + 16 - x))") auto

declare raster_x.simps [simp del]

definition raster_ordered :: "('f, 'd) fpu \<Rightarrow> 'f vertex \<Rightarrow> 'f vertex \<Rightarrow> 'f vertex
    \<Rightarrow> ('s, 'f) renderer \<Rightarrow> ('s, 'f) renderer res" where
  "raster_ordered F v0 v1 v2 s =
     (let p0 = grid v0; p1 = grid v1; p2 = grid v2;
          (minx, miny, maxx, maxy) = bounding p0 p1 p2;
          sx = minx sdiv 16 * 16; sy = miny sdiv 16 * 16 in
      bind_res (edge_fn p0 p1 sx sy) (\<lambda>(base_a, add_x_a, add_y_a).
      bind_res (edge_fn p1 p2 sx sy) (\<lambda>(base_b, add_x_b, add_y_b).
      bind_res (edge_fn p2 p0 sx sy) (\<lambda>(base_c, add_x_c, add_y_c).
      raster_x (shade F v0 v1 v2) maxx maxy sy
        (shl4 add_x_a, shl4 add_x_b, shl4 add_x_c) (shl4 add_y_a, shl4 add_y_b, shl4 add_y_c)
        sx (base_a, base_b, base_c) s))))"

definition raster :: "('f, 'd) fpu \<Rightarrow> 'f vertex \<Rightarrow> 'f vertex \<Rightarrow> 'f vertex
    \<Rightarrow> ('s, 'f) renderer \<Rightarrow> ('s, 'f) renderer res" where
  "raster F v0 v1 v2 s =
     (let x0 = px (grid v0); y0 = py (grid v0); x1 = px (grid v1); y1 = py (grid v1);
          x2 = px (grid v2); y2 = py (grid v2);
          A = x1 * y0 + x2 * y1 + x0 * y2; B = x0 * y1 + x1 * y2 + x2 * y0 in
      ints [x1 * y0, x2 * y1, x1 * y0 + x2 * y1, x0 * y2, A, x0 * y1, x1 * y2, x0 * y1 + x1 * y2, x2 * y0, B]
        (if B < A then raster_ordered F v0 v2 v1 s else raster_ordered F v0 v1 v2 s))"

section \<open>Triangles and the cube\<close>

definition persp_div :: "('f, 'd) fpu \<Rightarrow> 'f vec4 \<Rightarrow> 'f vec4" where
  "persp_div F p =
     (let w_inv = f_div F (f_of_int F 1) (p ! 3)
      in p[0 := f_mul F (p ! 0) w_inv, 1 := f_mul F (p ! 1) w_inv, 2 := f_mul F (p ! 2) w_inv, 3 := w_inv])"

type_synonym 'f point = "'f \<times> 'f \<times> 'f"

text \<open>A vertex of \<open>tri\<close>, with its colour, after \<open>mat_vec\<close>, \<open>persp_div\<close> and \<open>fixed\<close>.\<close>

definition tri_vertex :: "('f, 'd) fpu \<Rightarrow> 'f mat4 \<Rightarrow> 'f point \<Rightarrow> int list \<Rightarrow> 'f vertex res" where
  "tri_vertex F m p col =
     (case p of (x, y, z) \<Rightarrow>
      bind_res (mat_vec F m [x, y, z, f_of_int F 1]) (\<lambda>v.
      let v = persp_div F v in
      bind_res (fixed_point F v) (\<lambda>g. Inr \<lparr>pos = v, grid = g, color = map (f_of_int F) col\<rparr>)))"

definition tri :: "('f, 'd) fpu \<Rightarrow> 'f point \<Rightarrow> 'f point \<Rightarrow> 'f point \<Rightarrow> ('s, 'f) renderer \<Rightarrow> ('s, 'f) renderer res" where
  "tri F p1 p2 p3 s =
     bind_res (tri_vertex F (mvp s) p1 [1, 0, 0, 0]) (\<lambda>v0.
     bind_res (tri_vertex F (mvp s) p2 [0, 1, 0, 0]) (\<lambda>v1.
     bind_res (tri_vertex F (mvp s) p3 [0, 0, 1, 0]) (\<lambda>v2.
     raster F v0 v1 v2 s)))"

definition quad :: "('f, 'd) fpu \<Rightarrow> 'f point \<Rightarrow> 'f point \<Rightarrow> 'f point \<Rightarrow> 'f point
    \<Rightarrow> ('s, 'f) renderer \<Rightarrow> ('s, 'f) renderer res" where
  "quad F p1 p2 p3 p4 s = bind_res (tri F p2 p1 p3 s) (tri F p2 p4 p3)"

text \<open>The corners of the faces, in the order of the calls of \<open>quad\<close>.\<close>

definition cube_faces :: "(int \<times> int \<times> int) list list" where
  "cube_faces =
     [[(0, 0, 0), (0, 1, 0), (1, 0, 0), (1, 1, 0)],
      [(0, 0, 1), (0, 1, 1), (1, 0, 1), (1, 1, 1)],
      [(0, 0, 1), (0, 1, 1), (0, 0, 0), (0, 1, 0)],
      [(1, 0, 1), (1, 1, 1), (1, 0, 0), (1, 1, 0)],
      [(0, 0, 0), (0, 0, 1), (1, 0, 0), (1, 0, 1)],
      [(0, 1, 0), (0, 1, 1), (1, 1, 0), (1, 1, 1)]]"

definition corner :: "('f, 'd) fpu \<Rightarrow> int \<times> int \<times> int \<Rightarrow> 'f point" where
  "corner F c = (case c of (x, y, z) \<Rightarrow> (f_of_int F x, f_of_int F y, f_of_int F z))"

fun draw_faces :: "('f, 'd) fpu \<Rightarrow> (int \<times> int \<times> int) list list \<Rightarrow> ('s, 'f) renderer \<Rightarrow> ('s, 'f) renderer res" where
  "draw_faces F [] s = Inr s"
| "draw_faces F (face # faces) s =
     bind_res (quad F (corner F (face ! 0)) (corner F (face ! 1)) (corner F (face ! 2)) (corner F (face ! 3)) s)
       (draw_faces F faces)"

text \<open>The projection, and the transformations that are multiplied to its right, in that order.\<close>

definition cube_steps :: "('f, 'd) fpu \<Rightarrow> 'f mat4 \<times> 'f mat4 list" where
  "cube_steps F =
     (let c = f_of_int F; minus_half = f_neg F (narrow F (d_half F));
          a = c (- 50); f = c 1;
          trans_z = mat_translate F (c 0) (c 0) (c (- 5));
          rot = mat_rotate F (c 1) (c 1) (c 1) a;
          trans_center = mat_translate F minus_half minus_half minus_half;
          scal = mat_scale F f f f;
          fov = c 120; back = c 1000; front = c 1; aspect = c 1;
          fov = f_ldexp F (f_atan F (f_div F (f_tan F (narrow F (d_div F (d_mul F (widen F fov) (d_pi_2 F)) (d_of_int F 180)))) aspect)) 1;
          tangent = f_tan F (f_div F fov (c 2));
          height = f_mul F front tangent;
          width = f_mul F height aspect
      in (mat_frustum F (f_neg F width) width (f_neg F height) height front back, [trans_z, rot, trans_center, scal]))"

definition cube_mvp :: "('f, 'd) fpu \<Rightarrow> 'f mat4 res" where
  "cube_mvp F = (case cube_steps F of (m, ts) \<Rightarrow> each (\<lambda>t m. mat_mat F m t) ts m)"

text \<open>The loop that prints the matrix.\<close>

definition log_mvp :: "('f, 'd) fpu \<Rightarrow> ('s, 'f) renderer \<Rightarrow> ('s, 'f) renderer res" where
  "log_mvp F =
     each (\<lambda>i. each (\<lambda>j s.
         bind_res (read_cell (mvp s) i j) (\<lambda>v.
         Inr (log_text ''demo'' (''mvp['' @ decimal i @ ''][''  @ decimal j @ ''] = '' @ f_text F v) s)))
       [0..<4]) [0..<4]"

definition demo_main :: "('f, 'd) fpu \<Rightarrow> ('s, 'f) renderer \<Rightarrow> ('s, 'f) renderer res" where
  "demo_main F s =
     bind_res (cube_mvp F) (\<lambda>m.
     bind_res (log_mvp F (s\<lparr>mvp := m\<rparr>)) (draw_faces F cube_faces))"

text \<open>\<open>main\<close> of the host program.\<close>

definition host_main :: "('f, 'd) fpu \<Rightarrow> 's mmio \<Rightarrow> u32 \<Rightarrow> u32 \<Rightarrow> u32 \<Rightarrow> ('s, 'f) renderer \<Rightarrow> ('s, 'f) renderer res" where
  "host_main F b entry fw fw_size s =
     bind_res (demo_main F s) (\<lambda>s. init b entry fw fw_size (vdc_init b s))"

end
