(* ===== verification/Host_Raster_Props.thy ===== *)
theory Host_Raster_Props
  imports Host_Raster
begin

text \<open>
  Properties of the renderer: the incremental rasteriser against direct tests of the three edge
  functions, the matrix loops and what they compute, and the memory safety of the whole for every
  floating-point arithmetic.
\<close>

section \<open>The rasteriser tests the edges\<close>

text \<open>The values \<open>a\<close>, \<open>a + 16\<close>, ... below \<open>b + 16\<close>.\<close>

definition steps :: "int \<Rightarrow> int \<Rightarrow> int list" where
  "steps a b = map (\<lambda>k. a + 16 * int k) [0..<nat ((b + 31 - a) div 16)]"

lemma steps_Nil: "\<not> a < b + 16 \<Longrightarrow> steps a b = []"
  by (simp add: steps_def)

lemma steps_Cons: "a < b + 16 \<Longrightarrow> steps a b = a # steps (a + 16) b"
proof -
  assume "a < b + 16"
  define n where "n = nat ((b + 31 - (a + 16)) div 16)"
  have "b + 31 - a = (b + 31 - (a + 16)) + 16" by simp
  then have "(b + 31 - a) div 16 = (b + 31 - (a + 16)) div 16 + 1" by (simp only: div_add_self2)
  moreover have "0 \<le> (b + 31 - (a + 16)) div 16" using \<open>a < b + 16\<close> by (intro pos_imp_zdiv_nonneg_iff [THEN iffD2]) simp_all
  ultimately have "nat ((b + 31 - a) div 16) = Suc n" by (simp only: n_def)
  then have "steps a b = map (\<lambda>k. a + 16 * int k) (0 # map Suc [0..<n])"
    by (simp only: steps_def upt_conv_Cons [of 0 "Suc n"] zero_less_Suc map_Suc_upt)
  also have "\<dots> = a # map (\<lambda>k. (a + 16) + 16 * int k) [0..<n]" by simp
  finally show ?thesis by (simp add: steps_def n_def)
qed

definition edge_at :: "vec2i \<Rightarrow> vec2i \<Rightarrow> int \<Rightarrow> int \<Rightarrow> int" where
  "edge_at p q x y = (x - px q) * (py p - py q) + (y - py q) * - (px p - px q)"

definition edges_at :: "vec2i \<Rightarrow> vec2i \<Rightarrow> vec2i \<Rightarrow> int \<Rightarrow> int \<Rightarrow> edges" where
  "edges_at p0 p1 p2 x y = (edge_at p0 p1 x y, edge_at p1 p2 x y, edge_at p2 p0 x y)"

text \<open>
  The reference: every point of the grid in the bounding box, column by column, is shaded exactly
  when it is on the inner side of the three edges.
\<close>

definition raster_reference :: "('f, 'd) fpu \<Rightarrow> 'f vertex \<Rightarrow> 'f vertex \<Rightarrow> 'f vertex
    \<Rightarrow> ('s, 'f) renderer \<Rightarrow> ('s, 'f) renderer res" where
  "raster_reference F v0 v1 v2 =
     (case bounding (grid v0) (grid v1) (grid v2) of (minx, miny, maxx, maxy) \<Rightarrow>
      each (\<lambda>x. each (\<lambda>y s. if inside (edges_at (grid v0) (grid v1) (grid v2) x y) then shade F v0 v1 v2 x y s else Inr s)
          (steps (miny sdiv 16 * 16) maxy))
        (steps (minx sdiv 16 * 16) maxx))"

definition fits :: "edges \<Rightarrow> bool" where
  "fits e \<longleftrightarrow> list_all (\<lambda>v. - (2 ^ 31) \<le> v \<and> v < 2 ^ 31) (edge_list e)"

lemma ints_fits: "fits e \<Longrightarrow> ints (edge_list e) r = r"
  by (simp add: ints_def fits_def)

lemma raster_y_each:
  assumes "\<And>y. step_edges (E y) int_y = E (y + 16)" "\<And>y'. y \<le> y' \<Longrightarrow> y' < maxy + 32 \<Longrightarrow> fits (E y')"
  shows "raster_y pixel maxy int_y x y (E y) s = each (\<lambda>y s. if inside (E y) then pixel x y s else Inr s) (steps y maxy) s"
  using assms(2)
proof (induction "nat (maxy + 16 - y)" arbitrary: y s rule: less_induct)
  case less
  show ?case
  proof (cases "y < maxy + 16")
    case True
    have f: "fits (E (y + 16))" using less.prems True by simp
    have IH: "raster_y pixel maxy int_y x (y + 16) (E (y + 16)) s' =
        each (\<lambda>y s. if inside (E y) then pixel x y s else Inr s) (steps (y + 16) maxy) s'" for s'
      using less.prems True by (intro less.hyps) auto
    show ?thesis
      by (subst raster_y.simps) (simp add: True assms(1) ints_fits [OF f] steps_Cons [OF True] IH cong: bind_res_cong)
  next
    case False
    then show ?thesis by (subst raster_y.simps) (simp add: steps_Nil)
  qed
qed

lemma raster_x_each:
  assumes "\<And>x. step_edges (E x sy) int_x = E (x + 16) sy" "\<And>x y. step_edges (E x y) int_y = E x (y + 16)"
    and "\<And>x' y'. x \<le> x' \<Longrightarrow> x' < maxx + 32 \<Longrightarrow> sy \<le> y' \<Longrightarrow> y' < max (maxy + 32) (sy + 1) \<Longrightarrow> fits (E x' y')"
  shows "raster_x pixel maxx maxy sy int_x int_y x (E x sy) s =
    each (\<lambda>x. each (\<lambda>y s. if inside (E x y) then pixel x y s else Inr s) (steps sy maxy)) (steps x maxx) s"
  using assms(3)
proof (induction "nat (maxx + 16 - x)" arbitrary: x s rule: less_induct)
  case less
  show ?case
  proof (cases "x < maxx + 16")
    case True
    have f: "fits (E (x + 16) sy)" using less.prems True by simp
    have column: "raster_y pixel maxy int_y x sy (E x sy) s = each (\<lambda>y s. if inside (E x y) then pixel x y s else Inr s) (steps sy maxy) s"
      using True by (intro raster_y_each [where E = "E x"] assms(2) less.prems) auto
    have IH: "raster_x pixel maxx maxy sy int_x int_y (x + 16) (E (x + 16) sy) s' =
        each (\<lambda>x. each (\<lambda>y s. if inside (E x y) then pixel x y s else Inr s) (steps sy maxy)) (steps (x + 16) maxx) s'" for s'
      using less.prems True by (intro less.hyps) auto
    show ?thesis
      by (subst raster_x.simps) (simp add: True assms(1) ints_fits [OF f] column steps_Cons [OF True] IH cong: bind_res_cong)
  next
    case False
    then show ?thesis by (subst raster_x.simps) (simp add: steps_Nil)
  qed
qed

text \<open>
  Grid coordinates up to 16000 in size, almost twice the 8192 units of the clip volume: no integer
  of the rasteriser overflows.
\<close>

definition grid_ok :: "vec2i \<Rightarrow> bool" where
  "grid_ok p \<longleftrightarrow> \<bar>px p\<bar> \<le> 16000 \<and> \<bar>py p\<bar> \<le> 16000"

lemma product_bound: "\<bar>u\<bar> \<le> m \<Longrightarrow> \<bar>v\<bar> \<le> n \<Longrightarrow> \<bar>u * v\<bar> \<le> m * n" for u v m n :: int
  unfolding abs_mult by (rule mult_mono) simp_all

lemma edge_bounds:
  assumes "grid_ok p" "grid_ok q" "\<bar>x\<bar> \<le> 16000" "\<bar>y\<bar> \<le> 16000"
  shows "\<bar>(x - px q) * (py p - py q)\<bar> \<le> 1024000000" "\<bar>(y - py q) * - (px p - px q)\<bar> \<le> 1024000000"
    "\<bar>edge_at p q x y\<bar> \<le> 2048000000"
proof -
  have d: "\<bar>x - px q\<bar> \<le> 32000" "\<bar>py p - py q\<bar> \<le> 32000" "\<bar>y - py q\<bar> \<le> 32000" "\<bar>- (px p - px q)\<bar> \<le> 32000"
    using assms unfolding grid_ok_def by linarith+
  show a: "\<bar>(x - px q) * (py p - py q)\<bar> \<le> 1024000000" using product_bound [OF d(1,2)] by simp
  show b: "\<bar>(y - py q) * - (px p - px q)\<bar> \<le> 1024000000" using product_bound [OF d(3,4)] by simp
  show "\<bar>edge_at p q x y\<bar> \<le> 2048000000" unfolding edge_at_def using a b by linarith
qed

lemma edge_fn_value:
  assumes "grid_ok p" "grid_ok q" "\<bar>x\<bar> \<le> 16000" "\<bar>y\<bar> \<le> 16000"
  shows "edge_fn p q x y = Inr (edge_at p q x y, py p - py q, - (px p - px q))"
  using edge_bounds [OF assms] assms
  by (simp add: edge_fn_def ints_def Let_def edge_at_def grid_ok_def abs_le_iff)

lemma shl4_value: "\<bar>v\<bar> \<le> 32000 \<Longrightarrow> shl4 v = v * 16"
  by (simp add: shl4_def signed_take_bit_int_eq_self_iff abs_le_iff)

lemma edges_fit:
  assumes "grid_ok p0" "grid_ok p1" "grid_ok p2" "\<bar>x\<bar> \<le> 16000" "\<bar>y\<bar> \<le> 16000"
  shows "fits (edges_at p0 p1 p2 x y)"
  using edge_bounds(3) [OF assms(1,2,4,5)] edge_bounds(3) [OF assms(2,3,4,5)] edge_bounds(3) [OF assms(3,1,4,5)]
  by (simp add: fits_def edges_at_def abs_le_iff)

lemma truncate_bound: "\<bar>v\<bar> \<le> m \<Longrightarrow> \<bar>v sdiv 16 * 16\<bar> \<le> m" for v :: int
proof -
  assume m: "\<bar>v\<bar> \<le> m"
  have "\<bar>v sdiv 16 * 16\<bar> = \<bar>v\<bar> div 16 * 16"
    by (cases "v = 0") (simp_all add: signed_divide_int_def abs_mult abs_sgn_eq)
  also have "\<dots> \<le> \<bar>v\<bar>" by (metis abs_ge_zero div_mult_mod_eq le_add_same_cancel1 pos_mod_sign zero_less_numeral)
  finally show ?thesis using m by linarith
qed

lemma screen_edges: "shl4 ((- W) sdiv 2) = - 5120" "shl4 (W sdiv 2) = 5120" "shl4 ((- H) sdiv 2) = - 3840" "shl4 (H sdiv 2) = 3840"
  by (simp_all add: W_def H_def shl4_value signed_divide_int_def)

lemma clamped_bound: "n \<le> 16000 \<Longrightarrow> c \<in> {3840, 5120} \<Longrightarrow> \<bar>max n (- c)\<bar> \<le> 16000" for n c :: int
  by (auto simp: max_def)

lemma box_bounds:
  assumes "grid_ok p0" "bounding p0 p1 p2 = (minx, miny, maxx, maxy)"
  shows "\<bar>minx\<bar> \<le> 16000" "\<bar>miny\<bar> \<le> 16000" "maxx \<le> 5120" "maxy \<le> 3840"
proof -
  have e: "minx = max (min (px p0) (min (px p1) (px p2))) (- 5120)" "miny = max (min (py p0) (min (py p1) (py p2))) (- 3840)"
    "maxx = min (max (px p0) (max (px p1) (px p2))) 5120" "maxy = min (max (py p0) (max (py p1) (py p2))) 3840"
    using assms(2) unfolding bounding_def screen_edges by simp_all
  have "px p0 \<le> 16000" "py p0 \<le> 16000" using assms(1) by (simp_all add: grid_ok_def abs_le_iff)
  then have "min (px p0) (min (px p1) (px p2)) \<le> 16000" "min (py p0) (min (py p1) (py p2)) \<le> 16000"
    using min.coboundedI1 by blast+
  then show "\<bar>minx\<bar> \<le> 16000" "\<bar>miny\<bar> \<le> 16000" unfolding e(1,2) by (simp_all only: clamped_bound insert_iff simp_thms)
  show "maxx \<le> 5120" "maxy \<le> 3840" unfolding e(3,4) by (rule min.cobounded2)+
qed

text \<open>The two vertices after the first are exchanged when the third is on the outer side of the first edge.\<close>

definition orient :: "('f vertex \<Rightarrow> 'f vertex \<Rightarrow> 'a) \<Rightarrow> 'f vertex \<Rightarrow> 'f vertex \<Rightarrow> 'f vertex \<Rightarrow> 'a" where
  "orient f v0 v1 v2 = (if edge_at (grid v0) (grid v1) (px (grid v2)) (py (grid v2)) < 0 then f v2 v1 else f v1 v2)"

lemma raster_ordered_reference:
  assumes "grid_ok (grid v0)" "grid_ok (grid v1)" "grid_ok (grid v2)"
  shows "raster_ordered F v0 v1 v2 s = raster_reference F v0 v1 v2 s"
proof -
  let ?p0 = "grid v0" and ?p1 = "grid v1" and ?p2 = "grid v2"
  obtain minx miny maxx maxy where box: "bounding ?p0 ?p1 ?p2 = (minx, miny, maxx, maxy)" by (metis prod_cases4)
  note bb = box_bounds [OF assms(1) box]
  let ?sx = "minx sdiv 16 * 16" and ?sy = "miny sdiv 16 * 16"
  have s: "\<bar>?sx\<bar> \<le> 16000" "\<bar>?sy\<bar> \<le> 16000" using truncate_bound bb by blast+
  let ?E = "edges_at ?p0 ?p1 ?p2"
  have a: "\<bar>py p - py q\<bar> \<le> 32000" "\<bar>- (px p - px q)\<bar> \<le> 32000" if "grid_ok p" "grid_ok q" for p q
    using that unfolding grid_ok_def by linarith+
  have inc: "shl4 (py p - py q) = (py p - py q) * 16" "shl4 (- (px p - px q)) = - (px p - px q) * 16" if "grid_ok p" "grid_ok q" for p q
    using a [OF that] by (simp_all only: shl4_value)
  define int_x where "int_x = ((py ?p0 - py ?p1) * 16, (py ?p1 - py ?p2) * 16, (py ?p2 - py ?p0) * 16)"
  define int_y where "int_y = (- (px ?p0 - px ?p1) * 16, - (px ?p1 - px ?p2) * 16, - (px ?p2 - px ?p0) * 16)"
  have x: "step_edges (?E x y) int_x = ?E (x + 16) y" and y: "step_edges (?E x y) int_y = ?E x (y + 16)" for x y
    by (simp_all add: int_x_def int_y_def edges_at_def edge_at_def algebra_simps)
  have "fits (?E x' y')" if "?sx \<le> x'" "x' < maxx + 32" "?sy \<le> y'" "y' < max (maxy + 32) (?sy + 1)" for x' y'
  proof (rule edges_fit [OF assms])
    show "\<bar>x'\<bar> \<le> 16000" using that(1,2) s(1) bb(3) by linarith
    show "\<bar>y'\<bar> \<le> 16000" using that(3,4) s(2) bb(4) by (simp add: max_def split: if_splits)
  qed
  then have "raster_x (shade F v0 v1 v2) maxx maxy ?sy int_x int_y ?sx (?E ?sx ?sy) s = raster_reference F v0 v1 v2 s"
    unfolding raster_reference_def box prod.case by (intro raster_x_each [where E = ?E] x y) auto
  then show ?thesis
    unfolding raster_ordered_def Let_def box prod.case edge_fn_value [OF assms(1,2) s] edge_fn_value [OF assms(2,3) s]
      edge_fn_value [OF assms(3,1) s] bind_res_simps inc [OF assms(1,2)] inc [OF assms(2,3)] inc [OF assms(3,1)]
      int_x_def int_y_def edges_at_def .
qed

text \<open>
  C16. The rasteriser, which updates three edge values by additions from point to point, shades
  exactly the points of the bounding box that a direct evaluation of the three edge functions
  puts on their inner side, in the same order and with the same effect, and no integer overflows,
  for all triangles whose grid coordinates are at most 16000 in size.
\<close>

theorem raster_tests_edges:
  assumes "grid_ok (grid v0)" "grid_ok (grid v1)" "grid_ok (grid v2)"
  shows "raster F v0 v1 v2 s = orient (\<lambda>v1 v2. raster_reference F v0 v1 v2 s) v0 v1 v2"
proof -
  let ?x0 = "px (grid v0)" and ?y0 = "py (grid v0)" and ?x1 = "px (grid v1)" and ?y1 = "py (grid v1)"
    and ?x2 = "px (grid v2)" and ?y2 = "py (grid v2)"
  have c: "\<bar>?x0\<bar> \<le> 16000" "\<bar>?y0\<bar> \<le> 16000" "\<bar>?x1\<bar> \<le> 16000" "\<bar>?y1\<bar> \<le> 16000" "\<bar>?x2\<bar> \<le> 16000" "\<bar>?y2\<bar> \<le> 16000"
    using assms by (simp_all only: grid_ok_def)
  note bound = product_bound [of _ 16000 _ 16000]
  note fit = bound [OF c(3,2)] bound [OF c(5,4)] bound [OF c(1,6)] bound [OF c(1,4)] bound [OF c(3,6)] bound [OF c(5,2)]
  have "list_all (\<lambda>v. - (2 ^ 31) \<le> v \<and> v < 2 ^ 31)
      [?x1 * ?y0, ?x2 * ?y1, ?x1 * ?y0 + ?x2 * ?y1, ?x0 * ?y2, ?x1 * ?y0 + ?x2 * ?y1 + ?x0 * ?y2,
       ?x0 * ?y1, ?x1 * ?y2, ?x0 * ?y1 + ?x1 * ?y2, ?x2 * ?y0, ?x0 * ?y1 + ?x1 * ?y2 + ?x2 * ?y0]"
    using fit by (simp add: abs_le_iff)
  then have "raster F v0 v1 v2 s =
      (if ?x0 * ?y1 + ?x1 * ?y2 + ?x2 * ?y0 < ?x1 * ?y0 + ?x2 * ?y1 + ?x0 * ?y2
       then raster_ordered F v0 v2 v1 s else raster_ordered F v0 v1 v2 s)"
    unfolding raster_def Let_def ints_def by (rule if_P)
  moreover have "edge_at (grid v0) (grid v1) ?x2 ?y2 = ?x0 * ?y1 + ?x1 * ?y2 + ?x2 * ?y0 - (?x1 * ?y0 + ?x2 * ?y1 + ?x0 * ?y2)"
    by (simp add: edge_at_def algebra_simps)
  ultimately show ?thesis
    using raster_ordered_reference [OF assms, of F s] raster_ordered_reference [OF assms(1,3,2), of F s]
    by (simp add: orient_def)
qed

text \<open>Integers in place of both floating-point types, for concrete runs.\<close>

definition whole_numbers :: "(int, int) fpu" where
  "whole_numbers =
     \<lparr>f_add = (+), f_sub = (-), f_mul = (*), f_div = (div), f_neg = uminus, f_of_int = (\<lambda>n. n),
      f_ldexp = (\<lambda>v n. v * 2 ^ nat n), f_to_int = Some, f_cos = (\<lambda>v. v), f_sin = (\<lambda>v. v), f_tan = (\<lambda>v. v),
      f_atan = (\<lambda>v. v), f_text = (\<lambda>v. []), widen = (\<lambda>v. v), narrow = (\<lambda>v. v), d_add = (+), d_mul = (*), d_div = (div),
      d_sqrt = (\<lambda>v. v), d_of_int = (\<lambda>n. n), d_half = 0, d_pi = 3, d_pi_2 = 1, d_less = (<), d_leq = (\<le>)\<rparr>"

definition example_vertex :: "int \<Rightarrow> int \<Rightarrow> int vertex" where
  "example_vertex x y = \<lparr>pos = [x, y, 0, 1], grid = \<lparr>px = x, py = y\<rparr>, color = [1, 0, 0, 0]\<rparr>"

definition example_renderer :: "(unit, int) renderer" where
  "example_renderer = \<lparr>printed = [], bus = (), mvp = [], z_buff = (\<lambda>_. 0), fb = (\<lambda>_. 0)\<rparr>"

lemma raster_tests_edges_witness:
  "raster whole_numbers (example_vertex 0 0) (example_vertex 800 16) (example_vertex 32 (- 640)) example_renderer =
    orient (\<lambda>v1 v2. raster_reference whole_numbers (example_vertex 0 0) v1 v2 example_renderer)
      (example_vertex 0 0) (example_vertex 800 16) (example_vertex 32 (- 640))"
  by (rule raster_tests_edges) (simp_all add: grid_ok_def example_vertex_def)

section \<open>Matrices\<close>

definition is_mat4 :: "'f mat4 \<Rightarrow> bool" where
  "is_mat4 m \<longleftrightarrow> length m = 4 \<and> (\<forall>row \<in> set m. length row = 4)"

lemma mat4_length [simp]: "is_mat4 m \<Longrightarrow> length m = 4" "is_mat4 m \<Longrightarrow> i < 4 \<Longrightarrow> length (m ! i) = 4"
  by (simp_all add: is_mat4_def)

lemma read_at_Inr [simp]: "i < length xs \<Longrightarrow> read_at xs i = Inr (xs ! i)"
  by (simp add: read_at_def)

lemma put_at_Inr [simp]: "i < length xs \<Longrightarrow> put_at i x xs = Inr (xs[i := x])"
  by (simp add: put_at_def)

lemma read_mat4 [simp]: "is_mat4 m \<Longrightarrow> i < 4 \<Longrightarrow> j < 4 \<Longrightarrow> read_cell m i j = Inr (m ! i ! j)"
  by (simp add: read_cell_def)

lemma cell_of_row:
  assumes "i < length c"
  shows "read_cell (c[i := row]) i j = read_at row j"
    "put_cell i j x (c[i := row]) = bind_res (put_at j x row) (\<lambda>row. Inr (c[i := row]))"
  using assms by (simp_all add: read_cell_def put_cell_def put_at_def)

text \<open>Loops that fill an array, that accumulate into one component, and that work on one row of a matrix.\<close>

lemma each_append: "each f (xs @ ys) s = bind_res (each f xs s) (each f ys)"
  by (induction xs arbitrary: s) (auto simp: bind_res_def split: sum.split)

lemma each_fill:
  assumes "\<And>k v. k < n \<Longrightarrow> length v = length v0 \<Longrightarrow> v ! k = v0 ! k \<Longrightarrow> g k v = Inr (v[k := h k])" "n \<le> length v0"
  shows "each g [0..<n] v0 = Inr (map h [0..<n] @ drop n v0)"
  using assms
proof (induction n)
  case (Suc n)
  have "each g [0..<n] v0 = Inr (map h [0..<n] @ drop n v0)" using Suc by simp
  moreover have "(map h [0..<n] @ drop n v0)[n := h n] = map h [0..<Suc n] @ drop (Suc n) v0"
    using Suc.prems(2) by (simp add: list_update_append Cons_nth_drop_Suc [symmetric])
  ultimately show ?case using Suc.prems by (simp add: each_append nth_append)
qed simp

lemma each_accumulate:
  assumes "i < length v" "\<And>k. k \<in> set ks \<Longrightarrow> x k = Inr (p k)" "\<And>k. k \<in> set ks \<Longrightarrow> y k = Inr (q k)"
  shows "each (\<lambda>k v. bind_res (read_at v i) (\<lambda>sum. bind_res (x k) (\<lambda>x. bind_res (y k) (\<lambda>y. put_at i (f sum x y) v)))) ks v =
    Inr (v[i := fold (\<lambda>k sum. f sum (p k) (q k)) ks (v ! i)])"
  using assms
  by (induction ks arbitrary: v) (simp_all add: list_update_same_conv)

lemma each_row:
  assumes "\<And>k row. g k (c[i := row]) = bind_res (h k row) (\<lambda>row. Inr (c[i := row]))"
  shows "each g ks (c[i := row]) = bind_res (each h ks row) (\<lambda>row. Inr (c[i := row]))"
  by (induction ks arbitrary: row) (simp, simp add: assms bind_res_def split: sum.split)

text \<open>The sum of four products, in the order of the loops, and the two products.\<close>

definition dot :: "('f, 'd) fpu \<Rightarrow> (nat \<Rightarrow> 'f) \<Rightarrow> (nat \<Rightarrow> 'f) \<Rightarrow> 'f" where
  "dot F x y = fold (\<lambda>k sum. f_add F sum (f_mul F (x k) (y k))) [0..<4] (f_of_int F 0)"

definition applied :: "('f, 'd) fpu \<Rightarrow> 'f mat4 \<Rightarrow> 'f vec4 \<Rightarrow> 'f vec4" where
  "applied F a v = map (\<lambda>i. dot F (\<lambda>k. a ! i ! k) (\<lambda>k. v ! k)) [0..<4]"

definition product :: "('f, 'd) fpu \<Rightarrow> 'f mat4 \<Rightarrow> 'f mat4 \<Rightarrow> 'f mat4" where
  "product F a b = map (\<lambda>i. map (\<lambda>j. dot F (\<lambda>k. a ! i ! k) (\<lambda>k. b ! k ! j)) [0..<4]) [0..<4]"

lemma mat_vec_applied:
  assumes "is_mat4 a" "length v = 4"
  shows "mat_vec F a v = Inr (applied F a v)"
proof -
  have "each (\<lambda>k w. bind_res (read_at w i) (\<lambda>sum. bind_res (read_cell a i k) (\<lambda>x. bind_res (read_at v k) (\<lambda>y.
         put_at i (f_add F sum (f_mul F x y)) w)))) [0..<4] (w[i := f_of_int F 0]) =
      Inr (w[i := dot F (\<lambda>k. a ! i ! k) (\<lambda>k. v ! k)])" if "i < 4" "length w = 4" for i w
    by (subst each_accumulate [where p = "\<lambda>k. a ! i ! k" and q = "\<lambda>k. v ! k"]) (use that assms in \<open>simp_all add: dot_def\<close>)
  then show ?thesis
    unfolding mat_vec_def applied_def by (subst each_fill [where h = "\<lambda>i. dot F (\<lambda>k. a ! i ! k) (\<lambda>k. v ! k)"]) simp_all
qed

lemma mat_mat_product:
  assumes "is_mat4 a" "is_mat4 b"
  shows "mat_mat F a b = Inr (product F a b)"
proof -
  let ?d = "\<lambda>i j. dot F (\<lambda>k. a ! i ! k) (\<lambda>k. b ! k ! j)"
  let ?g = "\<lambda>i j c. bind_res (put_cell i j (f_of_int F 0) c)
      (each (\<lambda>k c. bind_res (read_cell c i j) (\<lambda>sum. bind_res (read_cell a i k) (\<lambda>x. bind_res (read_cell b k j) (\<lambda>y.
         put_cell i j (f_add F sum (f_mul F x y)) c)))) [0..<4])"
  let ?h = "\<lambda>i j row. bind_res (put_at j (f_of_int F 0) row)
      (each (\<lambda>k row. bind_res (read_at row j) (\<lambda>sum. bind_res (read_cell a i k) (\<lambda>x. bind_res (read_cell b k j) (\<lambda>y.
         put_at j (f_add F sum (f_mul F x y)) row)))) [0..<4])"
  have cell: "?h i j row = Inr (row[j := ?d i j])" if "i < 4" "j < 4" "length row = 4" for i j row
    using that by simp
      (subst each_accumulate [where p = "\<lambda>k. a ! i ! k" and q = "\<lambda>k. b ! k ! j"], use that assms in \<open>simp_all add: dot_def\<close>)
  have row: "each (?h i) [0..<4] row = Inr (map (?d i) [0..<4])" if "i < 4" "length row = 4" for i row
    by (subst each_fill [where h = "?d i"]) (use that cell in simp_all)
  have inner: "each (\<lambda>k c. bind_res (read_cell c i j) (\<lambda>sum. bind_res (read_cell a i k) (\<lambda>x. bind_res (read_cell b k j) (\<lambda>y.
         put_cell i j (f_add F sum (f_mul F x y)) c)))) ks (c[i := row]) =
      bind_res (each (\<lambda>k row. bind_res (read_at row j) (\<lambda>sum. bind_res (read_cell a i k) (\<lambda>x. bind_res (read_cell b k j) (\<lambda>y.
         put_at j (f_add F sum (f_mul F x y)) row)))) ks row) (\<lambda>row. Inr (c[i := row]))"
    if "i < length c" for i j c row ks
    by (rule each_row) (simp add: cell_of_row [OF that] bind_res_def split: sum.split)
  have lift: "?g i j (c[i := row]) = bind_res (?h i j row) (\<lambda>row. Inr (c[i := row]))" if "i < length c" for i j c row
    by (cases "j < length row") (simp_all add: cell_of_row [OF that] inner [OF that], simp add: put_at_def)
  have "each (?g i) [0..<4] c = Inr (c[i := map (?d i) [0..<4]])"
    if "i < 4" "length c = 4" "c ! i = replicate 4 (f_of_int F 0)" for i c
    using each_row [of "?g i" c i "?h i" "[0..<4]" "c ! i", OF lift] row [of i "c ! i"] that
    unfolding list_update_id by simp
  then show ?thesis
    unfolding mat_mat_def product_def by (subst each_fill [where h = "\<lambda>i. map (?d i) [0..<4]"]) simp_all
qed

section \<open>Memory safety\<close>

text \<open>A byte of a visible pixel: 480 lines of 2048 bytes, of which the first 640 times 3 are shown.\<close>

definition on_screen :: "int \<Rightarrow> bool" where
  "on_screen i \<longleftrightarrow> 0 \<le> i \<and> i < 2048 * 480 \<and> i mod 2048 < 3 * 640"

definition screen_only :: "('s, 'f) renderer \<Rightarrow> ('s, 'f) renderer \<Rightarrow> bool" where
  "screen_only s s' \<longleftrightarrow> mvp s' = mvp s \<and> printed s' = printed s \<and> bus s' = bus s
     \<and> (\<forall>i. fb s' i \<noteq> fb s i \<longrightarrow> on_screen i) \<and> (\<forall>i. z_buff s' i \<noteq> z_buff s i \<longrightarrow> 0 \<le> i \<and> i < 1024 * 480)"

lemma screen_only_refl [simp]: "screen_only s s"
  by (simp add: screen_only_def)

lemma screen_only_trans: "screen_only s s' \<Longrightarrow> screen_only s' s'' \<Longrightarrow> screen_only s s''"
  unfolding screen_only_def by metis

definition draws :: "('s, 'f) renderer \<Rightarrow> ('s, 'f) renderer res \<Rightarrow> bool" where
  "draws s r \<longleftrightarrow> (case r of Inl e \<Rightarrow> e = Undefined | Inr s' \<Rightarrow> screen_only s s')"

lemma draws_simps [simp]: "draws s (Inl e) \<longleftrightarrow> e = Undefined" "draws s (Inr s') \<longleftrightarrow> screen_only s s'"
  by (simp_all add: draws_def)

text \<open>A step that only computes a value, and sequences of steps.\<close>

definition undefined_only :: "'a res \<Rightarrow> bool" where
  "undefined_only r \<longleftrightarrow> (\<forall>e. r = Inl e \<longrightarrow> e = Undefined)"

lemma draws_value: "undefined_only r \<Longrightarrow> (\<And>v. r = Inr v \<Longrightarrow> draws s (f v)) \<Longrightarrow> draws s (bind_res r f)"
  by (cases r) (auto simp: undefined_only_def)

lemma draws_bind: "draws s r \<Longrightarrow> (\<And>s'. mvp s' = mvp s \<Longrightarrow> draws s' (f s')) \<Longrightarrow> draws s (bind_res r f)"
proof (cases r)
  case (Inr s')
  assume r: "draws s r" and f: "\<And>s'. mvp s' = mvp s \<Longrightarrow> draws s' (f s')"
  have "mvp s' = mvp s" using r Inr by (simp add: screen_only_def)
  then show ?thesis using r f [of s'] Inr by (cases "f s'") (auto intro: screen_only_trans)
qed simp

lemma draws_ints: "draws s r \<Longrightarrow> draws s (ints vs r)"
  by (simp add: ints_def)

lemma to_int_undefined: "undefined_only (to_int F v)"
  by (auto simp: undefined_only_def to_int_def ints_def split: option.splits if_splits)

lemma clamp_undefined: "undefined_only (clamp_color F col)"
  using to_int_undefined [of F] by (auto simp: undefined_only_def clamp_color_def Let_def bind_res_Inl_iff)

lemma screen_halves: "(- W) sdiv 2 = - 320" "W sdiv 2 = 320" "(- H) sdiv 2 = - 240" "H sdiv 2 = 240"
  by (simp_all add: W_def H_def signed_divide_int_def)

lemma pixel_on_screen:
  assumes "0 \<le> vx" "vx < 640" "0 \<le> vy" "vy < 480" "j \<in> {0, 1, 2}"
  shows "on_screen (vy * 2048 + vx * 3 + j)"
proof -
  define t where "t = vx * 3 + j"
  have t: "0 \<le> t" "t < 1920" using assms(1,2,5) by (auto simp: t_def)
  have "(vy * 2048 + t) mod 2048 = t" using t by (simp add: mod_pos_pos_trivial)
  moreover have "0 \<le> vy * 2048 + t" "vy * 2048 + t < 2048 * 480" using t assms(3,4) by simp_all
  ultimately have "on_screen (vy * 2048 + t)" using t by (simp add: on_screen_def)
  then show ?thesis by (simp add: t_def add.assoc)
qed

lemma shade_draws: "draws s (shade F v0 v1 v2 x y s)"
proof (cases "- 320 \<le> x div 16 \<and> x div 16 < 320 \<and> - 240 \<le> y div 16 \<and> y div 16 < 240")
  case False
  then show ?thesis by (simp add: shade_def Let_def screen_halves)
next
  case True
  define vx vy where "vx = x div 16 + 320" and "vy = 240 - y div 16 - 1"
  have v: "0 \<le> vx" "vx < 640" "0 \<le> vy" "vy < 480" using True by (auto simp: vx_def vy_def)
  have i: "0 \<le> vy * 1024 + vx" "vy * 1024 + vx < 1024 * 480" using v by simp_all
  then have cell: "z_cell (vy * 1024 + vx) s = Inr (z_buff s (vy * 1024 + vx))" by (simp add: z_cell_def H_def)
  have plot: "screen_only s (plot vx vy r g b (s\<lparr>z_buff := (z_buff s)(vy * 1024 + vx := w)\<rparr>))" for r g b w
    using pixel_on_screen [OF v, of 0] pixel_on_screen [OF v, of 1] pixel_on_screen [OF v, of 2] i
    by (auto simp: screen_only_def plot_def Let_def)
  show ?thesis
    unfolding shade_def Let_def screen_halves vx_def [symmetric] vy_def [symmetric] cell bind_res_simps
    using True by (auto intro!: draws_value to_int_undefined clamp_undefined plot)
qed

text \<open>The traversal of a triangle draws if what it does with a point draws.\<close>

locale drawing =
  fixes pixel :: "int \<Rightarrow> int \<Rightarrow> ('s, 'f) renderer \<Rightarrow> ('s, 'f) renderer res"
  assumes pixel_draws: "draws s (pixel x y s)"
begin

lemma raster_y_draws: "draws s (raster_y pixel maxy int_y x y base s)"
proof (induction "nat (maxy + 16 - y)" arbitrary: y base s rule: less_induct)
  case less
  show ?case
  proof (cases "y < maxy + 16")
    case True
    then show ?thesis
      by (subst raster_y.simps) (auto intro!: draws_ints draws_bind less pixel_draws simp del: bind_res_simps)
  qed (subst raster_y.simps, simp)
qed

lemma raster_x_draws: "draws s (raster_x pixel maxx maxy sy int_x int_y x base s)"
proof (induction "nat (maxx + 16 - x)" arbitrary: x base s rule: less_induct)
  case less
  show ?case
  proof (cases "x < maxx + 16")
    case True
    then show ?thesis
      by (subst raster_x.simps) (auto intro!: draws_ints draws_bind less raster_y_draws)
  qed (subst raster_x.simps, simp)
qed

end

interpretation shading: drawing "shade F v0 v1 v2" for F v0 v1 v2
  by unfold_locales (rule shade_draws)

lemma edge_fn_undefined: "undefined_only (edge_fn p q x y)"
  by (auto simp: undefined_only_def edge_fn_def ints_def Let_def)

lemma raster_draws: "draws s (raster F v0 v1 v2 s)"
  unfolding raster_def raster_ordered_def Let_def
  by (auto intro!: draws_ints draws_value edge_fn_undefined shading.raster_x_draws split: prod.splits)

lemma tri_draws: "is_mat4 (mvp s) \<Longrightarrow> draws s (tri F p1 p2 p3 s)"
proof -
  assume m: "is_mat4 (mvp s)"
  have "undefined_only (tri_vertex F (mvp s) p col)" for p col
    using to_int_undefined [of F]
    by (auto simp: undefined_only_def tri_vertex_def fixed_point_def Let_def bind_res_Inl_iff mat_vec_applied [OF m]
        split: prod.splits)
  then show ?thesis unfolding tri_def by (intro draws_value raster_draws)
qed

lemma draw_faces_draws: "is_mat4 (mvp s) \<Longrightarrow> draws s (draw_faces F faces s)"
  by (induction faces arbitrary: s) (auto intro!: draws_bind tri_draws simp: quad_def)

lemma each_keeps:
  assumes "\<And>p s. p \<in> set ps \<Longrightarrow> P s \<Longrightarrow> \<exists>s'. f p s = Inr s' \<and> P s'" "P s"
  shows "\<exists>s'. each f ps s = Inr s' \<and> P s'"
  using assms
proof (induction ps arbitrary: s)
  case (Cons p ps)
  obtain s' where s': "f p s = Inr s'" "P s'" using Cons.prems(1) [of p s] Cons.prems(2) by auto
  have "\<exists>s''. each f ps s' = Inr s'' \<and> P s''" using Cons.IH [OF _ s'(2)] Cons.prems(1) by simp
  then show ?case by (simp add: s'(1))
qed simp

lemma log_mvp_keeps:
  assumes "is_mat4 (mvp s)"
  shows "\<exists>t. log_mvp F s = Inr t \<and> mvp t = mvp s \<and> fb t = fb s \<and> z_buff t = z_buff s"
  unfolding log_mvp_def
proof (intro each_keeps [where P = "\<lambda>t. mvp t = mvp s \<and> fb t = fb s \<and> z_buff t = z_buff s"])
  fix i j :: nat and t
  assume "i \<in> set [0..<4]" "j \<in> set [0..<4]" and t: "mvp t = mvp s \<and> fb t = fb s \<and> z_buff t = z_buff s"
  then have "read_cell (mvp t) i j = Inr (mvp t ! i ! j)" using assms by simp
  then show "\<exists>s'. bind_res (read_cell (mvp t) i j) (\<lambda>v. Inr (log_text ''demo'' (''mvp['' @ decimal i @ ''][''  @ decimal j @ ''] = '' @ f_text F v) t)) = Inr s'
      \<and> mvp s' = mvp s \<and> fb s' = fb s \<and> z_buff s' = z_buff s"
    using t by (simp add: log_text_def)
qed simp_all

lemma built_mat4 [simp]:
  "is_mat4 (mat_translate F x y z)" "is_mat4 (mat_scale F x y z)" "is_mat4 (mat_rotate F x y z angle)"
  "is_mat4 (mat_frustum F l r b t n f)" "is_mat4 (product F a c)"
  by (simp_all add: is_mat4_def mat_translate_def mat_scale_def mat_rotate_def mat_frustum_def product_def Let_def)

lemma cube_steps_mat4: "cube_steps F = (m, ts) \<Longrightarrow> is_mat4 m \<and> (\<forall>t \<in> set ts. is_mat4 t)"
  unfolding cube_steps_def Let_def prod.inject by (elim conjE, hypsubst) simp

lemma products: "is_mat4 m \<Longrightarrow> \<forall>t \<in> set ts. is_mat4 t \<Longrightarrow> each (\<lambda>t m. mat_mat F m t) ts m = Inr (fold (\<lambda>t m. product F m t) ts m)"
  by (induction ts arbitrary: m) (simp_all add: mat_mat_product)

lemma products_mat4: "is_mat4 m \<Longrightarrow> \<forall>t \<in> set ts. is_mat4 t \<Longrightarrow> is_mat4 (fold (\<lambda>t m. product F m t) ts m)"
  by (induction ts arbitrary: m) simp_all

lemma cube_mvp_is: "\<exists>m. cube_mvp F = Inr m \<and> is_mat4 m"
proof -
  obtain m ts where c: "cube_steps F = (m, ts)" by fastforce
  then show ?thesis using cube_steps_mat4 [OF c] by (simp add: cube_mvp_def products products_mat4)
qed

text \<open>
  C17. Whatever the floating-point unit computes, drawing the cube never indexes the depth buffer
  out of range and changes no byte of the frame buffer outside the visible pixels; it either ends
  so or runs into an arithmetic result that the language leaves undefined.
\<close>

theorem cube_stays_on_screen:
  "case demo_main F s of
     Inl e \<Rightarrow> e = Undefined
   | Inr s' \<Rightarrow> {i. fb s' i \<noteq> fb s i} \<subseteq> {i. on_screen i} \<and> {i. z_buff s' i \<noteq> z_buff s i} \<subseteq> {0..<1024 * 480}"
proof -
  obtain m where m: "cube_mvp F = Inr m" "is_mat4 m" using cube_mvp_is by blast
  obtain t where t: "log_mvp F (s\<lparr>mvp := m\<rparr>) = Inr t" "mvp t = m" "fb t = fb s" "z_buff t = z_buff s"
    using log_mvp_keeps [of "s\<lparr>mvp := m\<rparr>" F] m by auto
  have "demo_main F s = draw_faces F cube_faces t" by (simp add: demo_main_def m t)
  moreover have "draws t (draw_faces F cube_faces t)" using m t by (intro draw_faces_draws) simp
  ultimately show ?thesis using t by (auto simp: draws_def screen_only_def split: sum.splits)
qed

section \<open>The transformation of the cube\<close>

text \<open>Arithmetic without rounding: the operations are those of a commutative ring.\<close>

definition exact :: "('f :: comm_ring_1, 'd) fpu \<Rightarrow> bool" where
  "exact F \<longleftrightarrow> f_add F = (+) \<and> f_mul F = (*) \<and> f_of_int F = of_int"

lemma upt_4: "[0..<4] = [0, 1, 2, 3]"
  by (simp add: upt_rec)

lemma dot_exact: "exact F \<Longrightarrow> dot F x y = x 0 * y 0 + x 1 * y 1 + x 2 * y 2 + x 3 * y 3"
  by (simp add: exact_def dot_def upt_4)

lemma applied_length [simp]: "length (applied F a v) = 4"
  by (simp add: applied_def)

lemma applied_product:
  assumes "exact F"
  shows "applied F (product F a b) v = applied F a (applied F b v)"
  by (simp add: applied_def product_def dot_exact [OF assms] upt_4 algebra_simps)

lemma chain_applied:
  "\<forall>t \<in> set us. is_mat4 t \<Longrightarrow> length v = 4 \<Longrightarrow> each (mat_vec F) us v = Inr (fold (applied F) us v)"
  by (induction us arbitrary: v) (simp_all add: mat_vec_applied)

lemma products_applied:
  assumes "exact F"
  shows "applied F (fold (\<lambda>t m. product F m t) ts m) v = applied F m (fold (applied F) (rev ts) v)"
  by (induction ts arbitrary: m) (simp_all add: applied_product [OF assms])



text \<open>
  \<open>fixed\<close> divides by the fourth component after \<open>persp_div\<close> has replaced it by its inverse: with exact
  division the grid coordinates are the coordinates before the perspective division.
\<close>

lemma perspective_is_cancelled:
  fixes p :: "'f :: field list"
  assumes "f_mul F = (*)" "f_div F = (/)" "f_of_int F 1 = 1" "length p = 4" "p ! 3 \<noteq> 0"
  shows "f_div F (persp_div F p ! 0) (persp_div F p ! 3) = p ! 0" "f_div F (persp_div F p ! 1) (persp_div F p ! 3) = p ! 1"
  using assms by (simp_all add: persp_div_def)

end
