(* ===== verification/Spec2Isabelle.thy ===== *)
theory Spec2Isabelle
  imports Avalon_Mem Avalon_Timer Avalon_Uart Avalon_Simple Avalon_Sim_Slave Avalon_Intc Vga_Display
    Avalon_Interconnect Avalon_Bus Avalon_External Axi_Dram Jtag_Protocol
    Debug_Text Sim_Debug Options Float16_Props Sin_Cos Demo_Props Host_Props Host_Raster_Props
begin

text \<open>
  A model of the programs of the \<open>conspiracion\<close> repository, a four-core system on a chip with its
  simulators and its firmware. The hardware itself is written in SystemVerilog; the programs around it
  are C and C++, and they are what is modelled here. File names below are relative to \<open>src\<close>.

  \<^bold>\<open>The programs\<close>

  \<open>tb/top/conspiracion\<close> is the simulator of the whole chip. \<open>main\<close> builds the devices of the bus, attaches
  them to the interconnect, loads images into the RAM and clocks the verilated chip and the bus edge by
  edge until a core halts; then a debugger reads commands. \<open>platform/wavelet3d\<close> is the simulator of the
  graphics platform: an AXI memory, a pixel sink and a JTAG server in a second thread. Its \<open>host_sw\<close> is
  the program that runs on the host core of that platform and \<open>rtl/gfx/firmware\<close> the program of the
  accelerator; the two meet at the accelerator's control registers. \<open>demo\<close> is the firmware that runs on
  the chip of the first simulator: a shell over the UART with commands for every device.

  \<^bold>\<open>The simulator of the chip\<close>

    \<^item> \<open>Avalon_Line\<close> and \<open>Avalon_Slave\<close>: \<open>line\<close> and the base class \<open>slave\<close> (\<open>avalon.hpp\<close>). A device overrides
      either the word or the line operations; the locale \<open>bus_device\<close> is what the interconnect needs of any
      device, \<open>word_device\<close> the contract of those that override the word operations, and a \<open>sublocale\<close> gives the
      first from the second by the default operations of the base class.
    \<^item> \<open>Avalon_Mem\<close>, \<open>Avalon_Timer\<close>, \<open>Avalon_Uart\<close>, \<open>Avalon_Simple\<close>, \<open>Avalon_Sim_Slave\<close>, \<open>Avalon_Intc\<close>,
      \<open>Vga_Display\<close>: the device classes, each with its record (the members of the class), its operations
      and an interpretation of the contract. \<open>Float_Round\<close> is the rounding of \<open>vga.impl.hpp\<close>'s floating-point
      expressions.
    \<^item> \<open>Avalon_Interconnect\<close>: \<open>interconnect\<close> (\<open>avalon.impl.hpp\<close>) over the datatype \<open>device\<close>, with the
      objects in a store, so that a device on the bus and behind an interrupt line is one object.
      \<open>Avalon_Bus\<close>: its invariant, the transactions of a master with the RAM, and its errors.
      \<open>Avalon_External\<close>: the accesses of the debugger, outside the clock.
    \<^item> \<open>Sim_Platform\<close>, \<open>Sim_Loop\<close>, \<open>Debug_Mem\<close>, \<open>Debug_Text\<close>, \<open>Sim_Debug\<close>, \<open>Text_Format\<close>: \<open>conspiracion.cpp\<close>.
      The objects \<open>main\<close> builds and their addresses; the clock and the two loops; the page walk, dumps and
      patches; the command loop, the exit and \<open>main\<close> itself; the conversions of \<open>printf\<close> and \<open>sscanf\<close> that these use.
    \<^item> \<open>Cli\<close>, \<open>Args\<close>, \<open>Options\<close>: the command line. The extraction operators of \<open>conspiracion.cpp\<close>, the parser of the
      vendored library \<open>args.hxx\<close> as far as the simulator uses it, and the options of \<open>main\<close> against a grammar.

  \<^bold>\<open>The graphics platform\<close>

    \<^item> \<open>Axi_Dram\<close>: \<open>sys_bus_cycle\<close> of \<open>main.cpp\<close>, the queues of the AXI channels and the pixel sink.
    \<^item> \<open>Remote_Jtag\<close>, \<open>Jtag_Protocol\<close>: the server of \<open>remote_jtag.cpp\<close>; first its sequential operations,
      then the two threads as a step relation with their mutex, flags and condition variable.
    \<^item> \<open>Bit_Fields\<close>, \<open>Gfx_Firmware\<close>: \<open>rtl/gfx/firmware/main.c\<close>.
    \<^item> \<open>Host_Drivers\<close>, \<open>Host_Props\<close>: \<open>gfx_boot.c\<close>, \<open>sgdma.c\<close>, \<open>vdc.c\<close>, \<open>vdc_rayas.c\<close>, \<open>init.c\<close>, \<open>main.c\<close> of \<open>host_sw\<close>.
    \<^item> \<open>Host_Raster\<close>, \<open>Host_Raster_Props\<close>: the renderer \<open>demo.c\<close>.

  \<^bold>\<open>The demo firmware\<close>

    \<^item> \<open>Demo_Board\<close>, \<open>Demo_Console\<close>, \<open>Demo_Terminal\<close>: \<open>console.c\<close>, on any memory-mapped board. The locale \<open>board\<close>
      is what the firmware relies on; it is interpreted with the UART model of the simulator, so what \<open>print\<close>
      writes and \<open>read_line\<close> returns is stated of the two programs together.
    \<^item> \<open>Demo_Atomic\<close>: \<open>compare_exchange_64\<close> of \<open>atomic.S\<close>, instruction by instruction on the exclusive monitor of
      the cache (\<open>rtl/cache/cache_monitor.sv\<close>) and the load/store unit's \<open>block_strex\<close>, with stores of the other
      cores and exceptions between any two instructions. The mailboxes of \<open>mem.c\<close> use it.
    \<^item> \<open>Demo_Util\<close>, \<open>Demo_Devices\<close>, \<open>Demo_Main\<close>: \<open>util.c\<close>; \<open>smp.c\<close>, \<open>perf.c\<close>, \<open>mem.c\<close>, \<open>cache.c\<close>, \<open>gfx.c\<close>; \<open>main.c\<close>.
      \<open>Demo_Safety\<close> and \<open>Demo_Props\<close>: what can go wrong in a command, namely the overflow of an \<open>int\<close> in the
      decimal parser on a word of ten characters or more and nothing else, and what the commands do.
    \<^item> \<open>Float16\<close>, \<open>Float16_Spec\<close>, \<open>Float16_Arith\<close>, \<open>Float16_Props\<close>: the half-precision arithmetic \<open>float16.c\<close>
      and its reference, exact arithmetic on magnitudes rounded towards zero. \<open>Sin_Cos\<close>: the table \<open>sin_cos.c\<close>
      against the real cosine and sine.

  \<^bold>\<open>How the code is translated\<close>

  A class or a group of static variables is a record, a pointer to one of several objects its number, a
  machine integer a word of its width. Every call that can fail returns a \<open>'a res\<close>: a \<open>fault\<close> (\<open>Prelude\<close>) for
  an assertion, an index outside an array, a null pointer, an overflow, other undefined behaviour, \<open>abort\<close>, an
  endless wait or one of the two exceptions of the bus. Nothing is silently totalised: arrays are functions or lists
  beside their length, and each access tests it. A loop that may not end is a \<open>partial_function (option)\<close>
  or a \<open>while_option\<close>, and that it ends, where claimed, is proved (\<open>read_line\<close> is the exception: it waits
  for a schedule of interrupts, below).

  \<^bold>\<open>Parameters\<close>

  What is generated by the build or lies outside the repository is an argument: the verilated chip
  (\<open>hardware\<close>, functions from the driven signals to the read ones), the results of SDL, ncurses, sockets and
  files (\<open>sdl\<close>, \<open>host\<close>, \<open>curses\<close>, \<open>socket_calls\<close>, \<open>img_file\<close>), uninitialised memory (\<open>junk\<close> and arguments of the
  constructors), the board of a firmware (\<open>mmio\<close>), single and double precision (\<open>fpu\<close>, of which nothing is
  assumed) and \<open>__DATE__\<close>. What other cores, interrupts and the board do while a function waits is a schedule: a
  list of events or of attempts, over which every statement quantifies.

  The processors are free, but a master of an Avalon bus has to hold its request until it is answered.
  A sequence of edges is \<open>legal follows_protocol\<close> if each edge after an unanswered request drives that
  request again; the request is remembered from the signals the master drove and not read from the
  interconnect, so that what the interconnect copies, asserts and compares is part of what is proved. No edge
  is skipped: \<open>bus_step\<close> drives the signals and calls \<open>bus_tick\<close>. The runs of \<open>sys_bus_cycle\<close> in \<open>Axi_Dram\<close> are
  not restricted at all: what is stated of them says which runs store a pixel outside the frame buffer, and
  the rest of the others.

  \<^bold>\<open>Bounds and fuel\<close>

  \<open>dec_digits 11\<close> is the buffer of \<open>print_dec\<close>: ten digits are enough for any 32-bit word, so it never runs
  out. \<open>fw_passes n\<close>, \<open>shell\<close> and \<open>ap_loop\<close> run a prefix of a loop that never ends by design.
  \<open>raster_x\<close> and \<open>raster_y\<close> end by the measures \<open>maxx + 16 - x\<close> and \<open>maxy + 16 - y\<close>. The equivalence of the rasteriser with its
  reference assumes vertices within 16000 sixteenths of a pixel (\<open>grid_ok\<close>), which keeps the edge functions within
  \<open>int\<close>; its memory safety assumes nothing: every access to a matrix and to the depth buffer is checked
  (\<open>read_cell\<close>, \<open>put_cell\<close>, \<open>z_cell\<close>).

  \<^bold>\<open>What the lemmas show\<close>

    \<^item> Absence of faults: the invariants of the devices (\<open>mem_inv\<close>, \<open>uart_inv\<close>, \<open>display_inv\<close>), of the bus
      (\<open>bus_inv\<close>), of the whole system, of the AXI memory (\<open>axi_inv\<close>), of the console and of the shell, each
      preserved by every operation and carried to runs by the locale \<open>stepping\<close>.
    \<^item> Order: the UART ring, the AXI queues (locale \<open>fifo_channel\<close>), the devices visited once per edge (locale
      \<open>device_sweep\<close>), the batches of the JTAG threads.
    \<^item> Function: read and write transactions of the RAM, the memory map of \<open>main\<close>, the page walk against a
      two-level table lookup, the fast loop against single cycles, the resumption after a halt, the line
      editor against a fold over the typed keys for every interleaving of keys, interrupts and output, numbers printed and parsed, the command line against its grammar, the commands of the demo shell, the
      probe of the accelerator against the firmware that answers it, the stripes on the screen, the rasteriser
      against the three edge tests, the matrix of the cube against its transformations, frames of the DAC.
    \<^item> Atomicity: the 64-bit exchange stores both words or none, and the mailboxes built on it.
    \<^item> Arithmetic: sums, products and quotients of halves rounded towards zero, comparisons as the order of
      the values, conversions, exact differences, the table of cosines and sines.
    \<^item> Termination: the initialisation of the host if the DMA engine ends its transfers, the loop under a cycle
      limit, and the join of the JTAG thread on every schedule (\<open>join_returns\<close>, a least fixed point over all
      steps in which the thread never waits for the client).

  \<^bold>\<open>Not modelled\<close>

    \<^item> The SystemVerilog under \<open>rtl\<close> but for the exclusive monitor, the Python test benches, the build files and
      the assembly files (\<open>demo/start.S\<close>, \<open>sim/start.S\<close>, \<open>rtl/gfx/firmware/*.S\<close>, \<open>tb/sim/*.S\<close>, and all of
      \<open>demo/atomic.S\<close> but the exchange): there is no model of the processor's other instructions. The spin lock of
      \<open>atomic.S\<close> enters as the atomicity of the sections it protects.
    \<^item> The C programs of \<open>tb/sim\<close>: a few straight lines each that exercise the processor for a Python test bench.
    \<^item> \<open>tb/verilator.hpp\<close>: one-line wrappers of the host's floating-point operators for the hardware model.
    \<^item> In \<open>args.hxx\<close>: commands, groups, completion, the help text and the kinds of options that the simulator has none of.
    \<^item> The set-up of SDL, tracing and the memory mapping in \<open>platform/wavelet3d/main.cpp\<close>: calls of libraries
      without decisions of their own.
\<close>

end
